(* ===== verification/Py_Prelude.thy ===== *)
theory Py_Prelude
  imports Complex_Main "HOL-Library.AList" "HOL-Library.Sublist"
begin

text \<open>
  Shared vocabulary of the development: the part of Python and of its standard library that the
  modelled code uses. Exceptions are the left summand of a result, \<^verbatim>\<open>dict\<close> is an association list
  in insertion order (\<^const>\<open>AList.update\<close> overwrites in place or appends, as CPython does), and
  \<^verbatim>\<open>str\<close> is a list of characters restricted to ASCII text. \<^verbatim>\<open>int(s, base)\<close> is modelled with
  everything CPython accepts: surrounding whitespace, a sign, a base prefix and single underscores
  between digits, because the decoders rely on it for validation.
\<close>

section \<open>Errors as values\<close>

datatype pyerr = ValueError | TypeError | IndexError | KeyError | AttributeError
  | RuntimeError | NotImplementedError | PlainException | OverflowError | OSError | Unmodelled

text \<open>
  \<open>Unmodelled\<close> is no exception of Python: it marks the inputs on which the model makes no claim
  (text outside the character range, NaN and the infinities).
\<close>

type_synonym 'a pyres = "pyerr + 'a"

definition py_bind :: "'a pyres \<Rightarrow> ('a \<Rightarrow> 'b pyres) \<Rightarrow> 'b pyres" where
  "py_bind m f = (case m of Inl e \<Rightarrow> Inl e | Inr v \<Rightarrow> f v)"

lemma py_bind_simps [simp]:
  "py_bind (Inl e) f = Inl e" "py_bind (Inr v) f = f v"
  by (simp_all add: py_bind_def)

lemma py_bind_eq_Inr: "py_bind m f = Inr y \<longleftrightarrow> (\<exists>v. m = Inr v \<and> f v = Inr y)"
  by (cases m) auto

definition is_ok :: "'a pyres \<Rightarrow> bool" where
  "is_ok r = (case r of Inl _ \<Rightarrow> False | Inr _ \<Rightarrow> True)"

lemma is_ok_simps [simp]: "is_ok (Inr v)" "\<not> is_ok (Inl e)"
  by (simp_all add: is_ok_def)

lemma is_ok_iff: "is_ok r \<longleftrightarrow> (\<exists>v. r = Inr v)"
  by (cases r) auto

text \<open>\<^verbatim>\<open>try: ... except Exception: return d\<close>\<close>

definition py_except :: "'a pyres \<Rightarrow> 'a \<Rightarrow> 'a" where
  "py_except r d = (case r of Inl _ \<Rightarrow> d | Inr v \<Rightarrow> v)"

lemma py_except_simps [simp]: "py_except (Inl e) d = d" "py_except (Inr v) d = v"
  by (simp_all add: py_except_def)

section \<open>Dynamic values\<close>

text \<open>
  A value of unknown type, as it comes out of JSON or a message dictionary. Floats are finite and
  carried as the rational number they denote.
\<close>

datatype pyval = PNone | PBool bool | PInt int | PFloat rat | PStr string
  | PList "pyval list" | PDict "(string \<times> pyval) list"

type_synonym pydict = "(string \<times> pyval) list"

fun truthy :: "pyval \<Rightarrow> bool" where
  "truthy PNone = False"
| "truthy (PBool b) = b"
| "truthy (PInt i) = (i \<noteq> 0)"
| "truthy (PFloat q) = (q \<noteq> 0)"
| "truthy (PStr s) = (s \<noteq> [])"
| "truthy (PList xs) = (xs \<noteq> [])"
| "truthy (PDict d) = (d \<noteq> [])"

text \<open>\<^verbatim>\<open>isinstance(v, int)\<close> holds of booleans as well; \<open>as_int\<close> is the integer such a value is.\<close>

fun as_int :: "pyval \<Rightarrow> int option" where
  "as_int (PInt i) = Some i"
| "as_int (PBool b) = Some (if b then 1 else 0)"
| "as_int _ = None"

fun as_str :: "pyval \<Rightarrow> string option" where
  "as_str (PStr s) = Some s"
| "as_str _ = None"

fun as_dict :: "pyval \<Rightarrow> pydict option" where
  "as_dict (PDict d) = Some d"
| "as_dict _ = None"

definition dict_get :: "pydict \<Rightarrow> string \<Rightarrow> pyval \<Rightarrow> pyval" where
  "dict_get d k dflt = (case map_of d k of None \<Rightarrow> dflt | Some v \<Rightarrow> v)"

definition has_key :: "pydict \<Rightarrow> string \<Rightarrow> bool" where
  "has_key d k = (map_of d k \<noteq> None)"

definition dict_set :: "string \<Rightarrow> 'v \<Rightarrow> (string \<times> 'v) list \<Rightarrow> (string \<times> 'v) list" where
  "dict_set k v d = AList.update k v d"

lemma dict_get_set [simp]:
  "dict_get (dict_set k v d) k' dflt = (if k = k' then v else dict_get d k' dflt)"
  by (simp add: dict_get_def dict_set_def update_conv)

lemma has_key_set [simp]: "has_key (dict_set k v d) k' \<longleftrightarrow> k = k' \<or> has_key d k'"
  by (simp add: has_key_def dict_set_def update_conv)

lemma map_of_dict_set: "map_of (dict_set k v d) k' = (if k = k' then Some v else map_of d k')"
  by (simp add: dict_set_def update_conv')

lemma dict_set_new: "k \<notin> fst ` set m \<Longrightarrow> dict_set k v m = m @ [(k, v)]"
  unfolding dict_set_def by (induction m) auto

lemma list_all_dict_set: "q (k, v) \<Longrightarrow> list_all q d \<Longrightarrow> list_all q (dict_set k v d)"
  unfolding dict_set_def by (induction d) auto

lemma dict_set_nonempty [simp]: "dict_set k v d \<noteq> []"
  unfolding dict_set_def by (cases d) auto

lemma distinct_dict_set: "distinct (map fst d) \<Longrightarrow> distinct (map fst (dict_set k v d))"
  by (simp add: dict_set_def distinct_update)

section \<open>Strings\<close>

text \<open>\<^verbatim>\<open>s.lower()\<close> and \<^verbatim>\<open>s.upper()\<close> on ASCII text.\<close>

definition lower_char :: "char \<Rightarrow> char" where
  "lower_char c = (let n = (of_char c :: nat) in if 65 \<le> n \<and> n \<le> 90 then char_of (n + 32) else c)"

definition upper_char :: "char \<Rightarrow> char" where
  "upper_char c = (let n = (of_char c :: nat) in if 97 \<le> n \<and> n \<le> 122 then char_of (n - 32) else c)"

definition lower :: "string \<Rightarrow> string" where "lower s = List.map lower_char s"

definition upper :: "string \<Rightarrow> string" where "upper s = List.map upper_char s"

definition py_ws :: "char \<Rightarrow> bool" where
  "py_ws c = (let n = (of_char c :: nat) in n = 32 \<or> (9 \<le> n \<and> n \<le> 13) \<or> (28 \<le> n \<and> n \<le> 31))"

definition strip_with :: "(char \<Rightarrow> bool) \<Rightarrow> string \<Rightarrow> string" where
  "strip_with p s = rev (dropWhile p (rev (dropWhile p s)))"

lemma dropWhile_id: "(\<And>c. c \<in> set s \<Longrightarrow> \<not> p c) \<Longrightarrow> dropWhile p s = s"
  by (cases s) auto

lemma strip_with_id:
  assumes "\<And>c. c \<in> set s \<Longrightarrow> \<not> p c"
  shows "strip_with p s = s"
proof -
  have "dropWhile p s = s" using assms by (rule dropWhile_id)
  moreover have "dropWhile p (rev s) = rev s" using assms by (intro dropWhile_id) simp
  ultimately show ?thesis by (simp add: strip_with_def)
qed

lemma strip_with_outer:
  assumes "\<forall>c\<in>set u. p c" "\<forall>c\<in>set v. p c"
  shows "strip_with p (u @ w @ v) = strip_with p w"
proof (cases "\<forall>c\<in>set w. p c")
  case True
  then have "dropWhile p (u @ w @ v) = []" "dropWhile p w = []" using assms by auto
  then show ?thesis by (simp only: strip_with_def)
next
  case False
  then have "dropWhile p (u @ w @ v) = dropWhile p w @ v" using assms by (auto simp: dropWhile_append2 dropWhile_append1)
  moreover have "dropWhile p (rev v @ t) = dropWhile p t" for t
    using assms(2) by (intro dropWhile_append2) simp
  ultimately show ?thesis by (simp only: strip_with_def rev_append)
qed

section \<open>Binary formatting and integer parsing\<close>

definition digit_val :: "char \<Rightarrow> nat option" where
  "digit_val c = (let n = (of_char c :: nat) in
     if 48 \<le> n \<and> n \<le> 57 then Some (n - 48)
     else if 97 \<le> n \<and> n \<le> 122 then Some (n - 87)
     else if 65 \<le> n \<and> n \<le> 90 then Some (n - 55)
     else None)"

text \<open>The digits of a literal; the flag says that the previous character was a digit.\<close>

fun parse_digits :: "nat \<Rightarrow> bool \<Rightarrow> int \<Rightarrow> string \<Rightarrow> int option" where
  "parse_digits b prev acc [] = (if prev then Some acc else None)"
| "parse_digits b prev acc (c # cs) =
     (if c = CHR ''_'' then (if prev then parse_digits b False acc cs else None)
      else (case digit_val c of
              None \<Rightarrow> None
            | Some d \<Rightarrow> if d < b then parse_digits b True (acc * int b + int d) cs else None))"

definition drop_prefix :: "nat \<Rightarrow> string \<Rightarrow> string" where
  "drop_prefix b s = (case s of
     c0 # c1 # rest \<Rightarrow>
       if c0 = CHR ''0'' \<and> ((b = 2 \<and> (c1 = CHR ''b'' \<or> c1 = CHR ''B''))
                         \<or> (b = 16 \<and> (c1 = CHR ''x'' \<or> c1 = CHR ''X'')))
       then (case rest of u # rest' \<Rightarrow> if u = CHR ''_'' then rest' else rest | [] \<Rightarrow> [])
       else s
   | _ \<Rightarrow> s)"

definition py_int :: "nat \<Rightarrow> string \<Rightarrow> int pyres" where
  "py_int b s0 = (let s = strip_with py_ws s0;
       (neg, body) = (case s of c # cs \<Rightarrow> if c = CHR ''-'' then (True, cs)
                                         else if c = CHR ''+'' then (False, cs) else (False, s)
                              | [] \<Rightarrow> (False, []))
     in case parse_digits b False 0 (drop_prefix b body) of
          None \<Rightarrow> Inl ValueError
        | Some v \<Rightarrow> Inr (if neg then - v else v))"

text \<open>\<^verbatim>\<open>format(n, '0wb')\<close>: zero-padded to a minimum width, the sign counted in the width.\<close>

fun bin_str :: "nat \<Rightarrow> string" where
  "bin_str n = (if n < 2 then [if n = 1 then CHR ''1'' else CHR ''0'']
                else bin_str (n div 2) @ [if odd n then CHR ''1'' else CHR ''0''])"

declare bin_str.simps [simp del]

definition zfill :: "nat \<Rightarrow> string \<Rightarrow> string" where
  "zfill w s = replicate (w - length s) (CHR ''0'') @ s"

definition fmt_bin :: "nat \<Rightarrow> int \<Rightarrow> string" where
  "fmt_bin w n = (if n < 0 then CHR ''-'' # zfill (w - 1) (bin_str (nat (- n)))
                  else zfill w (bin_str (nat n)))"

text \<open>\<^verbatim>\<open>str(n)\<close> of an integer.\<close>

fun dec_str :: "nat \<Rightarrow> string" where
  "dec_str n = (if n < 10 then [char_of (48 + n)] else dec_str (n div 10) @ [char_of (48 + n mod 10)])"

declare dec_str.simps [simp del]

lemma dec_str_digit: "n < 10 \<Longrightarrow> dec_str n = [char_of (48 + n)]"
  by (subst dec_str.simps) simp

lemma char_of_01: "char_of (48::nat) = CHR ''0''" "char_of (49::nat) = CHR ''1''"
  using char_of_char [of "CHR ''0''"] char_of_char [of "CHR ''1''"] by simp_all

definition py_str_int :: "int \<Rightarrow> string" where
  "py_str_int n = (if n < 0 then CHR ''-'' # dec_str (nat (- n)) else dec_str (nat n))"

section \<open>Bit strings\<close>

definition is_bit :: "char \<Rightarrow> bool" where
  "is_bit c = (c = CHR ''0'' \<or> c = CHR ''1'')"

definition bits :: "string \<Rightarrow> bool" where
  "bits s = list_all is_bit s"

definition ones :: "string \<Rightarrow> nat" where
  "ones s = count_list s (CHR ''1'')"

definition slice :: "nat \<Rightarrow> nat \<Rightarrow> 'a list \<Rightarrow> 'a list" where
  "slice i j xs = take (j - i) (drop i xs)"

definition bit_nat :: "char \<Rightarrow> nat" where
  "bit_nat c = (if c = CHR ''1'' then 1 else 0)"

definition bval :: "string \<Rightarrow> nat" where
  "bval s = foldl (\<lambda>a c. 2 * a + bit_nat c) 0 s"

named_theorems bitstr "facts on bit strings: length, parity count, value"

lemma bits_simps [simp]:
  "bits []" "bits (c # s) \<longleftrightarrow> is_bit c \<and> bits s" "bits (s @ t) \<longleftrightarrow> bits s \<and> bits t"
  by (simp_all add: bits_def)

lemma is_bit_lits [simp]: "is_bit CHR ''0''" "is_bit CHR ''1''"
  by (simp_all add: is_bit_def)

lemma bits_slices [intro]: "bits s \<Longrightarrow> bits (take n s)" "bits s \<Longrightarrow> bits (drop n s)"
  "bits s \<Longrightarrow> bits (slice i j s)"
  by (auto simp: bits_def slice_def list_all_iff dest: in_set_takeD in_set_dropD)

lemma bits_in: "bits s \<Longrightarrow> c \<in> set s \<Longrightarrow> c = CHR ''0'' \<or> c = CHR ''1''"
  by (simp add: bits_def list_all_iff is_bit_def)

lemma bits_nth: "bits s \<Longrightarrow> i < length s \<Longrightarrow> is_bit (s ! i)"
  by (simp add: bits_def list_all_length)

lemma bits_replicate [simp]: "bits (replicate n (CHR ''0''))"
  by (induction n) simp_all

lemma ones_simps [simp]:
  "ones [] = 0" "ones (c # s) = bit_nat c + ones s" "ones (s @ t) = ones s + ones t"
  by (simp_all add: ones_def bit_nat_def)

lemma bit_nat_lits [simp]: "bit_nat CHR ''0'' = 0" "bit_nat CHR ''1'' = 1"
  by (simp_all add: bit_nat_def)

lemma bval_simps [simp]: "bval [] = 0" "bval (s @ [c]) = 2 * bval s + bit_nat c"
  by (simp_all add: bval_def)

lemma bval_append: "bval (s @ t) = bval s * 2 ^ length t + bval t"
proof (induction t rule: rev_induct)
  case (snoc c t)
  then show ?case
    by (simp add: append_assoc [symmetric] del: append_assoc)
qed simp

lemma bit_nat_le: "bit_nat c \<le> 1"
  by (simp add: bit_nat_def)

lemma bval_bound: "bval s < 2 ^ length s"
proof (induction s rule: rev_induct)
  case (snoc c s)
  then show ?case using bit_nat_le [of c] by simp
qed simp

lemma bits_bin_str [simp]: "bits (bin_str n)"
  by (induction n rule: bin_str.induct) (subst bin_str.simps, simp)

lemma bin_str_nonempty [simp]: "bin_str n \<noteq> []"
  by (subst bin_str.simps) simp

lemma bval_bin_str [simp]: "bval (bin_str n) = n"
proof (induction n rule: bin_str.induct)
  case (1 n)
  show ?case
  proof (cases "n < 2")
    case True
    then show ?thesis using bval_simps(2) [of "[]"] by (subst bin_str.simps) auto
  next
    case False
    with 1 show ?thesis by (subst bin_str.simps) auto
  qed
qed

lemma length_bin_str: "0 < w \<Longrightarrow> n < 2 ^ w \<Longrightarrow> length (bin_str n) \<le> w"
proof (induction w arbitrary: n)
  case (Suc w)
  show ?case
  proof (cases "n < 2")
    case True
    then show ?thesis by (subst bin_str.simps) simp
  next
    case False
    with Suc.prems have "0 < w" by (cases w) auto
    moreover have "n div 2 < 2 ^ w" using Suc.prems by auto
    ultimately show ?thesis using False Suc.IH [of "n div 2"] by (subst bin_str.simps) simp
  qed
qed simp

lemma zfill_id: "w \<le> length s \<Longrightarrow> zfill w s = s"
  by (simp add: zfill_def)

lemma zfill_snoc: "0 < w \<Longrightarrow> zfill (Suc w) (s @ [c]) = zfill w s @ [c]"
  by (simp add: zfill_def)

lemma bits_zfill [simp]: "bits (zfill w s) \<longleftrightarrow> bits s"
  by (simp add: zfill_def)

lemma bval_zeros [simp]: "bval (replicate n (CHR ''0'')) = 0"
  by (induction n) (simp_all add: replicate_append_same [symmetric] del: replicate_Suc, simp add: replicate_Suc replicate_append_same [symmetric])

lemma bval_zfill [simp]: "bval (zfill w s) = bval s"
  by (simp add: zfill_def bval_append)

lemma zfill_bin_bval: "bits s \<Longrightarrow> s \<noteq> [] \<Longrightarrow> zfill (length s) (bin_str (bval s)) = s"
proof (induction s rule: rev_induct)
  case (snoc c s)
  then have c: "c = CHR ''0'' \<or> c = CHR ''1''" and s: "bits s" by (auto simp: is_bit_def)
  show ?case
  proof (cases "bval s = 0")
    case True
    have "s = replicate (length s) (CHR ''0'')"
    proof (cases "s = []")
      case False
      with snoc.IH s have "zfill (length s) (bin_str (bval s)) = s" by blast
      then have "zfill (length s) [CHR ''0''] = s"
        using True by (simp add: bin_str.simps [of 0])
      then show ?thesis
        using False by (cases s rule: rev_cases) (auto simp: zfill_def replicate_append_same)
    qed simp
    then show ?thesis
      using c True by (subst bin_str.simps) (auto simp: zfill_def)
  next
    case False
    then have "s \<noteq> []" by auto
    with snoc.IH s have ih: "zfill (length s) (bin_str (bval s)) = s" by blast
    have "bin_str (bval (s @ [c])) = bin_str (bval s) @ [c]"
      using c False by (subst bin_str.simps) auto
    then show ?thesis using ih \<open>s \<noteq> []\<close> by (simp add: zfill_snoc)
  qed
qed simp

lemma length_fmt_bin:
  "0 < w \<Longrightarrow> 0 \<le> n \<Longrightarrow> n < 2 ^ w \<Longrightarrow> length (fmt_bin w n) = w"
proof -
  assume a: "0 < w" "0 \<le> n" "n < 2 ^ w"
  then have "nat n < 2 ^ w" by (simp add: nat_less_iff)
  with a show ?thesis
    using length_bin_str [of w "nat n"] by (simp add: fmt_bin_def zfill_def)
qed

lemma bits_fmt_bin: "0 \<le> n \<Longrightarrow> bits (fmt_bin w n)"
  by (simp add: fmt_bin_def)

lemma bval_fmt_bin: "0 \<le> n \<Longrightarrow> bval (fmt_bin w n) = nat n"
  by (simp add: fmt_bin_def)

lemma fmt_bin_bval: "bits s \<Longrightarrow> s \<noteq> [] \<Longrightarrow> fmt_bin (length s) (int (bval s)) = s"
  by (simp add: fmt_bin_def zfill_bin_bval)

lemma digit_val_bit: "is_bit c \<Longrightarrow> digit_val c = Some (bit_nat c)"
  by (auto simp: is_bit_def digit_val_def bit_nat_def)

lemma parse_digits_bits:
  "bits s \<Longrightarrow> prev \<or> s \<noteq> [] \<Longrightarrow> 2 \<le> b \<Longrightarrow>
   parse_digits b prev acc s = Some (foldl (\<lambda>a c. a * int b + int (bit_nat c)) acc s)"
proof (induction s arbitrary: prev acc)
  case (Cons c s)
  then have "c \<noteq> CHR ''_''" "digit_val c = Some (bit_nat c)" "bit_nat c < b"
    using bit_nat_le [of c] by (auto simp: is_bit_def digit_val_bit)
  with Cons show ?case by simp
qed simp

lemma foldl_bval: "foldl (\<lambda>a c. a * 2 + int (bit_nat c)) 0 s = int (bval s)"
  by (induction s rule: rev_induct) simp_all

lemma py_int_bits:
  assumes "bits s" "s \<noteq> []"
  shows "py_int 2 s = Inr (int (bval s))"
proof -
  have nws: "\<not> py_ws c" if "c \<in> set s" for c
  proof -
    have "is_bit c" using assms(1) that by (simp add: bits_def list_all_iff)
    then show ?thesis unfolding is_bit_def by (elim disjE) (simp_all add: py_ws_def)
  qed
  obtain c cs where s: "s = c # cs" using assms(2) by (cases s) auto
  have bc: "c = CHR ''0'' \<or> c = CHR ''1''" using assms(1) s by (auto simp: is_bit_def)
  have drop: "drop_prefix 2 (c # cs) = c # cs"
  proof (cases cs)
    case (Cons c1 rest)
    with assms(1) s have "c1 \<noteq> CHR ''b'' \<and> c1 \<noteq> CHR ''B''" by (auto simp: is_bit_def)
    with Cons show ?thesis by (simp add: drop_prefix_def)
  qed (simp add: drop_prefix_def)
  have "strip_with py_ws (c # cs) = c # cs" using nws s by (intro strip_with_id) simp
  moreover have "parse_digits 2 False 0 (c # cs) = Some (int (bval (c # cs)))"
    using parse_digits_bits [OF assms(1), of False 2 0] foldl_bval [of s] s by simp
  moreover have "c \<noteq> CHR ''-''" "c \<noteq> CHR ''+''" using bc by auto
  ultimately show ?thesis unfolding py_int_def s Let_def by (simp add: drop)
qed

lemma digit_val_ws: "py_ws c \<Longrightarrow> digit_val c = None"
  unfolding py_ws_def digit_val_def Let_def by simp linarith

lemma digit_val_punct [simp]:
  "digit_val CHR ''-'' = None" "digit_val CHR ''+'' = None" "digit_val CHR ''_'' = None"
  by (simp_all add: digit_val_def)

lemma py_int_digit:
  "py_int 10 [c] = (case digit_val c of Some d \<Rightarrow> if d < 10 then Inr (int d) else Inl ValueError
                                     | None \<Rightarrow> Inl ValueError)"
proof (cases "py_ws c")
  case True
  then show ?thesis by (simp add: py_int_def strip_with_def drop_prefix_def digit_val_ws)
next
  case False
  then have strip: "strip_with py_ws [c] = [c]" by (intro strip_with_id) simp
  consider "c = CHR ''-''" | "c = CHR ''+''" | "c = CHR ''_''"
    | "c \<noteq> CHR ''-''" "c \<noteq> CHR ''+''" "c \<noteq> CHR ''_''" by blast
  then show ?thesis
    by cases (use strip in \<open>simp_all add: py_int_def drop_prefix_def Let_def split: option.split\<close>)
qed

lemma py_int_bit: "is_bit c \<Longrightarrow> py_int 10 [c] = Inr (int (bit_nat c))"
  using bit_nat_le [of c] by (simp add: py_int_digit digit_val_bit)

end
