(* ===== verification/Py_Float.thy ===== *)
theory Py_Float
  imports Py_Prelude "HOL-Library.Log_Nat"
begin

text \<open>
  Python's \<^verbatim>\<open>float\<close> is IEEE binary64. A finite float is carried as the rational number it denotes,
  and every arithmetic operation is the exact operation followed by \<open>fl\<close>, rounding to the nearest
  number with a 53-bit significand, ties to even. The exponent range is not bounded: overflow to
  infinity, gradual underflow and NaN are outside the model.
\<close>

definition ilog2 :: "rat \<Rightarrow> int" where
  "ilog2 x = (let (n, d) = quotient_of x; e = bitlen n - bitlen d
              in if 2 powi e \<le> x then e else e - 1)"

definition rne :: "rat \<Rightarrow> int" where
  "rne y = (let f = \<lfloor>y\<rfloor>; r = y - of_int f
            in if r < 1 / 2 then f else if 1 / 2 < r then f + 1 else if even f then f else f + 1)"

definition ulp :: "rat \<Rightarrow> rat" where
  "ulp x = 2 powi (ilog2 \<bar>x\<bar> - 52)"

definition fl :: "rat \<Rightarrow> rat" where
  "fl x = (if x = 0 then 0 else sgn x * of_int (rne (\<bar>x\<bar> / ulp x)) * ulp x)"

definition fadd :: "rat \<Rightarrow> rat \<Rightarrow> rat" where "fadd a b = fl (a + b)"
definition fsub :: "rat \<Rightarrow> rat \<Rightarrow> rat" where "fsub a b = fl (a - b)"
definition fmul :: "rat \<Rightarrow> rat \<Rightarrow> rat" where "fmul a b = fl (a * b)"
definition fdiv :: "rat \<Rightarrow> rat \<Rightarrow> rat" where "fdiv a b = fl (a / b)"

text \<open>\<^verbatim>\<open>int(x)\<close> truncates towards zero; \<^verbatim>\<open>round(x)\<close> rounds half to even.\<close>

definition py_trunc :: "rat \<Rightarrow> int" where
  "py_trunc x = (if x < 0 then - \<lfloor>- x\<rfloor> else \<lfloor>x\<rfloor>)"

definition py_round :: "rat \<Rightarrow> int" where "py_round x = rne x"

text \<open>The numbers with a significand of at most 53 bits.\<close>

definition is_float :: "rat \<Rightarrow> bool" where
  "is_float x = (fl x = x)"

section \<open>Rounding to an integer\<close>

lemma rne_err: "\<bar>of_int (rne y) - y\<bar> \<le> 1 / 2"
proof -
  have "of_int \<lfloor>y\<rfloor> \<le> y" "y < of_int \<lfloor>y\<rfloor> + 1" by linarith+
  then show ?thesis unfolding rne_def Let_def by (auto simp: abs_le_iff)
qed

lemma rne_of_int [simp]: "rne (of_int n) = n"
  by (simp add: rne_def)

lemma rne_mono: "x \<le> y \<Longrightarrow> rne x \<le> rne y"
proof (cases "\<lfloor>x\<rfloor> = \<lfloor>y\<rfloor>")
  case True
  assume "x \<le> y"
  with True show ?thesis unfolding rne_def Let_def by auto
next
  case False
  assume xy: "x \<le> y"
  with False have "\<lfloor>x\<rfloor> + 1 \<le> \<lfloor>y\<rfloor>" using floor_mono [OF xy] by linarith
  moreover have "rne x \<le> \<lfloor>x\<rfloor> + 1" "\<lfloor>y\<rfloor> \<le> rne y" unfolding rne_def Let_def by auto
  ultimately show ?thesis by linarith
qed

lemma rne_near: "\<bar>y - of_int n\<bar> < 1 / 2 \<Longrightarrow> rne y = n"
proof -
  assume a: "\<bar>y - of_int n\<bar> < 1 / 2"
  have "\<bar>of_int (rne y) - y\<bar> \<le> (1 / 2 :: rat)" by (rule rne_err)
  with a have "\<bar>of_int (rne y) - (of_int n :: rat)\<bar> < 1" by linarith
  then have "\<bar>rne y - n\<bar> < 1" by linarith
  then show ?thesis by simp
qed

section \<open>The exponent\<close>

lemma bitlen_powi:
  assumes "0 < n"
  shows "(2::rat) powi (bitlen n - 1) \<le> of_int n" "of_int n < (2::rat) powi (bitlen n)"
proof -
  have b: "0 < bitlen n" using assms bitlen_nonneg [of n] bitlen_eq_zero_iff [of n] by linarith
  have "2 ^ nat (bitlen n - 1) \<le> n \<and> n < 2 ^ nat (bitlen n)" using assms by (rule bitlen_bounds)
  then have "(of_int (2 ^ nat (bitlen n - 1)) :: rat) \<le> of_int n"
    "(of_int n :: rat) < of_int (2 ^ nat (bitlen n))"
    by (simp_all only: of_int_le_iff of_int_less_iff)
  with b show "(2::rat) powi (bitlen n - 1) \<le> of_int n" "of_int n < (2::rat) powi (bitlen n)"
    by (simp_all add: power_int_def)
qed

lemma powi_2_less_iff: "(2::rat) powi a < 2 powi b \<longleftrightarrow> a < b"
  by (cases a b rule: linorder_cases)
     (auto dest: power_int_strict_increasing [where a = "2::rat"])

lemma powi_2_pos [simp]: "0 < (2::rat) powi a"
  by simp

lemma ilog2_bounds:
  assumes "0 < x"
  shows "2 powi (ilog2 x) \<le> x" "x < 2 powi (ilog2 x + 1)"
proof -
  obtain n d where q: "quotient_of x = (n, d)" by (cases "quotient_of x")
  then have d: "0 < d" and x: "x = of_int n / of_int d"
    by (simp_all add: quotient_of_denom_pos quotient_of_div)
  with assms have n: "0 < n" by (simp add: zero_less_divide_iff)
  let ?e = "bitlen n - bitlen d"
  have "x < 2 powi (bitlen n) / 2 powi (bitlen d - 1)"
    unfolding x using bitlen_powi [OF n] bitlen_powi [OF d] d n
    by (intro frac_less) auto
  also have "\<dots> = 2 powi (?e + 1)" by (simp add: power_int_diff [symmetric] algebra_simps)
  finally have up: "x < 2 powi (?e + 1)" .
  have "2 powi (?e - 1) = (2 powi (bitlen n - 1) / 2 powi (bitlen d) :: rat)"
    by (simp add: power_int_diff [symmetric] algebra_simps)
  also have "\<dots> < x"
    unfolding x using bitlen_powi [OF n] bitlen_powi [OF d] d n
    by (intro frac_less2) auto
  finally have low: "2 powi (?e - 1) < x" .
  show "2 powi (ilog2 x) \<le> x" "x < 2 powi (ilog2 x + 1)"
    using up low by (auto simp: ilog2_def q Let_def)
qed

lemma ilog2_eqI: "2 powi k \<le> x \<Longrightarrow> x < 2 powi (k + 1) \<Longrightarrow> ilog2 x = k"
proof -
  assume a: "2 powi k \<le> x" "x < 2 powi (k + 1)"
  then have "0 < x" using powi_2_pos [of k] by linarith
  then have b: "2 powi (ilog2 x) \<le> x" "x < 2 powi (ilog2 x + 1)" by (rule ilog2_bounds)+
  have "(2::rat) powi k < 2 powi (ilog2 x + 1)" "(2::rat) powi (ilog2 x) < 2 powi (k + 1)"
    using a b by linarith+
  then show ?thesis by (simp add: powi_2_less_iff)
qed

lemma ulp_pos [simp]: "0 < ulp x"
  by (simp add: ulp_def)

section \<open>Rounding error, exactness, monotonicity\<close>

lemma fl_0 [simp]: "fl 0 = 0"
  by (simp add: fl_def)

lemma ulp_minus [simp]: "ulp (- x) = ulp x"
  by (simp add: ulp_def)

lemma fl_minus: "fl (- x) = - fl x"
  by (simp add: fl_def sgn_minus)

lemma fl_pos_eq: "0 < x \<Longrightarrow> fl x = of_int (rne (x / ulp x)) * ulp x"
  by (simp add: fl_def)

lemma fl_err_pos: "0 < x \<Longrightarrow> \<bar>fl x - x\<bar> \<le> x / 2 ^ 53"
proof -
  assume x: "0 < x"
  have "fl x - x = (of_int (rne (x / ulp x)) - x / ulp x) * ulp x"
    using x less_imp_neq [OF ulp_pos [of x]] by (simp add: fl_pos_eq left_diff_distrib)
  then have "\<bar>fl x - x\<bar> = \<bar>of_int (rne (x / ulp x)) - x / ulp x\<bar> * ulp x"
    using less_imp_le [OF ulp_pos [of x]] by (simp only: abs_mult abs_of_nonneg)
  also have "\<dots> \<le> (1 / 2) * ulp x"
    using rne_err [of "x / ulp x"] less_imp_le [OF ulp_pos] by (rule mult_right_mono)
  also have "ulp x = 2 powi (ilog2 x) / 2 ^ 52"
    using x by (simp add: ulp_def power_int_diff)
  also have "(1 / 2) * (2 powi (ilog2 x) / 2 ^ 52) \<le> x / 2 ^ 53"
    using ilog2_bounds(1) [OF x] by simp
  finally show ?thesis .
qed

lemma fl_err: "\<bar>fl x - x\<bar> \<le> \<bar>x\<bar> / 2 ^ 53"
proof (cases x "0::rat" rule: linorder_cases)
  case less
  then show ?thesis using fl_err_pos [of "- x"] by (simp add: fl_minus abs_minus_commute)
qed (use fl_err_pos in auto)

lemma fl_exact:
  assumes "x = of_int m * 2 powi k" "\<bar>m\<bar> \<le> 2 ^ 53"
  shows "fl x = x"
proof (cases "m = 0")
  case False
  then have x: "0 < \<bar>x\<bar>" by (simp add: assms(1))
  have "\<bar>x\<bar> \<le> 2 powi (k + 53)"
  proof -
    have "(of_int \<bar>m\<bar> :: rat) \<le> of_int (2 ^ 53)" using assms(2) by (simp only: of_int_le_iff)
    then have "of_int \<bar>m\<bar> * 2 powi k \<le> (2 ^ 53 * 2 powi k :: rat)" by (intro mult_right_mono) simp_all
    then show ?thesis by (simp add: assms(1) abs_mult power_int_add)
  qed
  then have "(2::rat) powi (ilog2 \<bar>x\<bar>) \<le> 2 powi (k + 53)"
    using ilog2_bounds(1) [OF x] by linarith
  then have "ilog2 \<bar>x\<bar> \<le> k + 53" using powi_2_less_iff [of "k + 53" "ilog2 \<bar>x\<bar>"] by force
  have "\<exists>n::int. \<bar>x\<bar> / ulp x = of_int n"
  proof (cases "ilog2 \<bar>x\<bar> = k + 53")
    case True
    then have "2 powi (k + 53) \<le> \<bar>x\<bar>" using ilog2_bounds(1) [OF x] by simp
    with \<open>\<bar>x\<bar> \<le> 2 powi (k + 53)\<close> have "\<bar>x\<bar> = 2 powi (k + 53)" by simp
    then have "\<bar>x\<bar> / ulp x = 2 powi 52" unfolding ulp_def True by (simp add: power_int_diff [symmetric])
    then show ?thesis by (intro exI [of _ "2 ^ 52"]) simp
  next
    case less: False
    with \<open>ilog2 \<bar>x\<bar> \<le> k + 53\<close> have j: "0 \<le> k - (ilog2 \<bar>x\<bar> - 52)" by simp
    have "\<bar>x\<bar> / ulp x = of_int \<bar>m\<bar> * (2 powi k / 2 powi (ilog2 \<bar>x\<bar> - 52))"
      by (simp add: ulp_def assms(1) abs_mult)
    also have "2 powi k / 2 powi (ilog2 \<bar>x\<bar> - 52) = (2::rat) powi (k - (ilog2 \<bar>x\<bar> - 52))"
      by (simp add: power_int_diff)
    also have "\<dots> = of_int (2 ^ nat (k - (ilog2 \<bar>x\<bar> - 52)))" using j by (simp add: power_int_def)
    finally show ?thesis by (metis of_int_mult)
  qed
  then obtain n :: int where n: "\<bar>x\<bar> / ulp x = of_int n" by blast
  then have "\<bar>x\<bar> = of_int n * ulp x" using ulp_pos [of x] by (simp add: field_simps)
  moreover have "fl x = sgn x * (of_int n * ulp x)" using False x by (simp add: fl_def n)
  ultimately show ?thesis by (metis sgn_mult_abs)
qed (simp add: assms)

lemma fl_of_int: "\<bar>n\<bar> \<le> 2 ^ 53 \<Longrightarrow> fl (of_int n) = of_int n"
  by (rule fl_exact [where k = 0]) simp_all

lemma fl_bounds_pos:
  assumes "0 < x"
  shows "2 powi (ilog2 x) \<le> fl x" "fl x \<le> 2 powi (ilog2 x + 1)"
proof -
  have u: "ulp x * 2 ^ 52 = 2 powi (ilog2 x)" "ulp x * 2 ^ 53 = 2 powi (ilog2 x + 1)"
    using assms by (simp_all add: ulp_def power_int_diff power_int_add)
  have "of_int (2 ^ 52) \<le> x / ulp x" "x / ulp x \<le> of_int (2 ^ 53)"
    using ilog2_bounds [OF assms] u ulp_pos [of x] by (simp_all add: field_simps)
  then have "2 ^ 52 \<le> rne (x / ulp x)" "rne (x / ulp x) \<le> 2 ^ 53"
    using rne_mono rne_of_int by metis+
  then have "(of_int (2 ^ 52) :: rat) \<le> of_int (rne (x / ulp x))"
    "of_int (rne (x / ulp x)) \<le> (of_int (2 ^ 53) :: rat)" by (simp_all only: of_int_le_iff)
  then have "of_int (2 ^ 52) * ulp x \<le> of_int (rne (x / ulp x)) * ulp x"
    "of_int (rne (x / ulp x)) * ulp x \<le> of_int (2 ^ 53) * ulp x"
    using less_imp_le [OF ulp_pos [of x]] by (auto intro: mult_right_mono simp del: of_int_le_iff)
  moreover have "of_int (2 ^ 52) * ulp x = 2 powi (ilog2 x)" "of_int (2 ^ 53) * ulp x = 2 powi (ilog2 x + 1)"
    using u by (simp_all add: mult.commute)
  ultimately show "2 powi (ilog2 x) \<le> fl x" "fl x \<le> 2 powi (ilog2 x + 1)"
    by (simp_all only: fl_pos_eq [OF assms])
qed

lemma fl_pos: "0 < x \<Longrightarrow> 0 < fl x"
  using fl_bounds_pos(1) [of x] powi_2_pos [of "ilog2 x"] by linarith

lemma fl_mono_pos:
  assumes "0 < x" "x \<le> y"
  shows "fl x \<le> fl y"
proof (cases "ilog2 x = ilog2 y")
  case True
  then have u: "ulp x = ulp y" using assms by (simp add: ulp_def)
  have "x / ulp y \<le> y / ulp y" 
    using assms(2) less_imp_le [OF ulp_pos [of y]] by (rule divide_right_mono)
  then show ?thesis
    using assms u ulp_pos [of y] by (simp add: fl_pos_eq rne_mono mult_right_mono)
next
  case False
  have "(2::rat) powi (ilog2 x) < 2 powi (ilog2 y + 1)"
    using ilog2_bounds(1) [of x] ilog2_bounds(2) [of y] assms by linarith
  with False have "ilog2 x + 1 \<le> ilog2 y" by (simp add: powi_2_less_iff)
  then have "(2::rat) powi (ilog2 x + 1) \<le> 2 powi (ilog2 y)" by (simp add: power_int_increasing)
  then show ?thesis
    using fl_bounds_pos(2) [of x] fl_bounds_pos(1) [of y] assms by linarith
qed

lemma fl_mono: "x \<le> y \<Longrightarrow> fl x \<le> fl y"
proof -
  assume xy: "x \<le> y"
  consider "0 < x" | "x \<le> 0" "0 < y" | "y \<le> 0" by linarith
  then show ?thesis
  proof cases
    case 2
    have "fl x \<le> 0" using 2(1) fl_pos [of "- x"] by (cases "x = 0") (auto simp: fl_minus)
    then show ?thesis using fl_pos [OF 2(2)] by linarith
  next
    case 3
    then show ?thesis
      using fl_mono_pos [of "- y" "- x"] xy fl_pos [of "- x"]
      by (cases "y = 0"; cases "x = 0") (auto simp: fl_minus)
  qed (use fl_mono_pos xy in blast)
qed

lemma fl_idem [simp]: "is_float x \<Longrightarrow> fl x = x"
  by (simp add: is_float_def)

lemma fsub_self [simp]: "fsub x x = 0"
  by (simp add: fsub_def)

lemma fsub_mono: "a \<le> b \<Longrightarrow> fsub a c \<le> fsub b c"
  by (simp add: fsub_def fl_mono)

lemma fsub_antimono: "c \<le> d \<Longrightarrow> fsub a d \<le> fsub a c"
  by (simp add: fsub_def fl_mono)

lemma fl_nonneg: "0 \<le> x \<Longrightarrow> 0 \<le> fl x"
  using fl_mono [of 0 x] by simp

lemma fsub_nonneg: "c \<le> a \<Longrightarrow> 0 \<le> fsub a c"
  by (simp add: fsub_def fl_nonneg)

lemma fl_is_float [simp]: "is_float (fl x)"
proof -
  have pos: "fl (fl y) = fl y" if "0 < y" for y
  proof -
    have "0 \<le> y / ulp y" "y / ulp y \<le> of_int (2 ^ 53)"
      using that ilog2_bounds(2) [OF that] ulp_pos [of y] by (simp_all add: ulp_def field_simps power_int_add power_int_diff)
    then have "0 \<le> rne (y / ulp y)" "rne (y / ulp y) \<le> 2 ^ 53" using rne_mono rne_of_int by (metis of_int_0, metis)
    then show ?thesis
      using fl_exact [of "fl y" "rne (y / ulp y)" "ilog2 \<bar>y\<bar> - 52"] that by (simp add: fl_pos_eq ulp_def)
  qed
  show ?thesis
  proof (cases x "0 :: rat" rule: linorder_cases)
    case less
    then show ?thesis using pos [of "- x"] by (simp add: is_float_def fl_minus)
  qed (use pos in \<open>simp_all add: is_float_def\<close>)
qed

end
