(* ===== verification/Fcs_Wire.thy ===== *)
theory Fcs_Wire
  imports Py_Float
begin

text \<open>
  The wire format of the flight control system (\<^verbatim>\<open>local_messaging/fcs_wire_format.py\<close>) and its command words
  (\<^verbatim>\<open>command_word_map_fcs.py\<close>): control inputs as a surface code and a value quantised to a thousandth of the
  range, modes as numbers. The addresses in the command words come from the address book and are arguments.
\<close>

section \<open>Control surfaces and values\<close>

definition CONTROL_SURFACE_TO_CODE :: "(string \<times> int) list" where
  "CONTROL_SURFACE_TO_CODE = [(''aileron'', 1), (''elevator'', 2), (''rudder'', 3), (''throttle'', 4), (''flaps'', 5),
     (''speedbrake'', 6), (''gear'', 7)]"

definition CODE_TO_CONTROL_SURFACE :: "(int \<times> string) list" where
  "CODE_TO_CONTROL_SURFACE = map (\<lambda>(name, code). (code, name)) CONTROL_SURFACE_TO_CODE"

text \<open>
  \<^verbatim>\<open>float(v)\<close>: an integer beyond the range of floats overflows; the conversion of text is not modelled.
  Rounding a result beyond the range raises as well, since it is an infinity.
\<close>

definition py_float :: "pyval \<Rightarrow> rat pyres" where
  "py_float v = (case v of
     PFloat q \<Rightarrow> Inr q
   | PInt n \<Rightarrow> if \<bar>n\<bar> < 2 ^ 1024 - 2 ^ 970 then Inr (fl (of_int n)) else Inl OverflowError
   | PBool b \<Rightarrow> Inr (if b then 1 else 0)
   | PStr _ \<Rightarrow> Inl Unmodelled
   | _ \<Rightarrow> Inl TypeError)"

definition scaled_value :: "rat \<Rightarrow> rat" where "scaled_value q = fmul (fadd q 1) 500"

definition encode_control_value :: "pyval \<Rightarrow> int pyres" where
  "encode_control_value value =
     py_bind (py_float value) (\<lambda>q.
       if 2 ^ 1024 \<le> \<bar>scaled_value q\<bar> then Inl OverflowError
       else let scaled = py_round (scaled_value q) in Inr (max 0 (min 1000 scaled)))"

definition decode_control_value :: "int \<Rightarrow> rat" where
  "decode_control_value scaled = (let value = fsub (fdiv (fl (of_int scaled)) 500) 1 in max (- 1) (min 1 value))"

definition control_input_data_words :: "pyval \<Rightarrow> pyval \<Rightarrow> string list pyres" where
  "control_input_data_words surface_name value =
     (case surface_name of
        PStr s \<Rightarrow>
          (case map_of CONTROL_SURFACE_TO_CODE (lower s) of
             None \<Rightarrow> Inl ValueError
           | Some code \<Rightarrow> py_bind (encode_control_value value) (\<lambda>n. Inr [fmt_bin 16 code, fmt_bin 16 n]))
      | _ \<Rightarrow> Inl ValueError)"

section \<open>Modes\<close>

definition MODE_NAME_TO_VALUE :: "(string \<times> int) list" where
  "MODE_NAME_TO_VALUE = [(''NORMAL'', 0), (''COMBAT'', 1), (''PRECISION'', 2), (''AUTOPILOT'', 3), (''TERRAIN'', 4),
     (''EMERGENCY'', 5), (''STANDBY'', 0)]"

definition MODE_VALUE_TO_NAME :: "(int \<times> string) list" where
  "MODE_VALUE_TO_NAME = [(0, ''NORMAL''), (1, ''COMBAT''), (2, ''PRECISION''), (3, ''AUTOPILOT''), (4, ''TERRAIN''),
     (5, ''EMERGENCY'')]"

text \<open>A mode is a value, or an object with a name and a value as an enumeration has them.\<close>

datatype mode_arg = Plain pyval | Enum_Like string pyval

definition mode_by_name :: "string \<Rightarrow> int pyres" where
  "mode_by_name name = (case map_of MODE_NAME_TO_VALUE (upper name) of None \<Rightarrow> Inl ValueError | Some n \<Rightarrow> Inr n)"

definition resolve_mode :: "mode_arg \<Rightarrow> int pyres" where
  "resolve_mode m = (case m of
     Plain (PStr s) \<Rightarrow> mode_by_name s
   | Plain _ \<Rightarrow> Inl ValueError
   | Enum_Like name value \<Rightarrow>
       (case as_int value of
          Some n \<Rightarrow> if map_of MODE_VALUE_TO_NAME n = None then Inl ValueError else Inr n
        | None \<Rightarrow> mode_by_name name))"

definition mode_data_words :: "mode_arg \<Rightarrow> string list pyres" where
  "mode_data_words m = py_bind (resolve_mode m) (\<lambda>resolved. Inr [fmt_bin 16 resolved])"

section \<open>Command words\<close>

datatype fcs_kind = Fcs_Status | Fcs_Mode | Fcs_Data | Fcs_Orientation

definition fcs_word_count :: "fcs_kind \<Rightarrow> int" where
  "fcs_word_count k = (case k of Fcs_Status \<Rightarrow> 1 | Fcs_Mode \<Rightarrow> 2 | Fcs_Data \<Rightarrow> 3 | Fcs_Orientation \<Rightarrow> 4)"

definition fcs_command_word :: "int \<Rightarrow> int \<Rightarrow> fcs_kind \<Rightarrow> int \<Rightarrow> int pyres" where
  "fcs_command_word rt_address subaddress kind t_or_r =
     py_int 2 (fmt_bin 5 rt_address @ fmt_bin 1 t_or_r @ fmt_bin 5 subaddress @ fmt_bin 5 (fcs_word_count kind))"

definition FCS_COMMAND_WORDS :: "int \<Rightarrow> int \<Rightarrow> (string \<times> int pyres) list" where
  "FCS_COMMAND_WORDS rt sa =
     [(''FCS_CONTROL_INPUT_REQUEST'', fcs_command_word rt sa Fcs_Data 0),
      (''FCS_CONTROL_INPUT_RESPONSE'', fcs_command_word rt sa Fcs_Data 1),
      (''FCS_ORIENTATION_DATA_REQUEST'', fcs_command_word rt sa Fcs_Orientation 0),
      (''FCS_ORIENTATION_DATA_RESPONSE'', fcs_command_word rt sa Fcs_Orientation 1),
      (''FCS_STATUS_REQUEST'', fcs_command_word rt sa Fcs_Status 0),
      (''FCS_STATUS_RESPONSE'', fcs_command_word rt sa Fcs_Status 1),
      (''FCS_MODE_CHANGE_REQUEST'', fcs_command_word rt sa Fcs_Mode 0),
      (''FCS_MODE_CHANGE_RESPONSE'', fcs_command_word rt sa Fcs_Mode 1)]"

section \<open>Quantisation\<close>

text \<open>
  A quantisation of a range of values: numbers decode into the range, and every number is the code of what it decodes
  to. The error of a round trip of a value is bounded.
\<close>

locale quantisation =
  fixes enc :: "rat \<Rightarrow> int" and dec :: "int \<Rightarrow> rat" and valid :: "rat \<Rightarrow> bool" and codes :: "int set" and err :: rat
  assumes enc_code: "valid q \<Longrightarrow> enc q \<in> codes"
    and dec_valid: "n \<in> codes \<Longrightarrow> valid (dec n)"
    and enc_dec: "n \<in> codes \<Longrightarrow> enc (dec n) = n"
    and enc_mono: "valid p \<Longrightarrow> valid q \<Longrightarrow> p \<le> q \<Longrightarrow> enc p \<le> enc q"
    and dec_mono: "m \<in> codes \<Longrightarrow> n \<in> codes \<Longrightarrow> m \<le> n \<Longrightarrow> dec m \<le> dec n"
    and near: "valid q \<Longrightarrow> \<bar>dec (enc q) - q\<bar> \<le> err"
begin

lemma dec_strict: "m \<in> codes \<Longrightarrow> n \<in> codes \<Longrightarrow> m < n \<Longrightarrow> dec m < dec n"
  using dec_mono [of m n] enc_dec by (metis less_le order_le_less)

lemma stable: "valid q \<Longrightarrow> enc (dec (enc q)) = enc q"
  by (simp add: enc_code enc_dec)

lemma order_kept: "valid p \<Longrightarrow> valid q \<Longrightarrow> p \<le> q \<Longrightarrow> dec (enc p) \<le> dec (enc q)"
  by (simp add: dec_mono enc_code enc_mono)

lemma resolution: "valid p \<Longrightarrow> valid q \<Longrightarrow> enc p = enc q \<Longrightarrow> \<bar>p - q\<bar> \<le> 2 * err"
  using near [of p] near [of q] by (simp add: abs_le_iff)

end

definition enc_value :: "rat \<Rightarrow> int" where "enc_value q = max 0 (min 1000 (py_round (scaled_value q)))"

definition in_range :: "rat \<Rightarrow> bool" where "in_range q \<longleftrightarrow> - 1 \<le> q \<and> q \<le> 1"

definition wire_codes :: "int set" where "wire_codes = {0..1000}"

definition wire_error :: rat where "wire_error = 1 / 1000 + 1 / 2 ^ 50"

lemma fl_small: "fl 1 = 1" "fl 2 = 2" "fl 1000 = 1000" "fl (- 1) = - 1"
  using fl_of_int [of 1] fl_of_int [of 2] fl_of_int [of 1000] fl_of_int [of "- 1"] by simp_all

lemma fl_near: "\<bar>x\<bar> \<le> b \<Longrightarrow> \<bar>fl x - x\<bar> \<le> b / 2 ^ 53"
  using fl_err [of x] by (meson divide_right_mono order_trans zero_le_numeral zero_le_power)

lemma abs_diff_trans: "\<bar>a - b\<bar> \<le> e \<Longrightarrow> \<bar>b - c\<bar> \<le> f \<Longrightarrow> e + f \<le> g \<Longrightarrow> \<bar>a - c\<bar> \<le> g" for a :: rat
  using abs_triangle_ineq [of "a - b" "b - c"] by simp

text \<open>Scaling a value of the range: the result is between 0 and 1000 and close to the exact one.\<close>

lemma scaled_bounds: "in_range q \<Longrightarrow> 0 \<le> scaled_value q \<and> scaled_value q \<le> 1000"
proof -
  assume q: "in_range q"
  have "0 \<le> fadd q 1" "fadd q 1 \<le> 2"
    using q fl_mono [of 0 "q + 1"] fl_mono [of "q + 1" 2] by (simp_all add: in_range_def fadd_def fl_small)
  then show ?thesis
    using fl_mono [of 0 "fadd q 1 * 500"] fl_mono [of "fadd q 1 * 500" 1000]
    by (simp add: scaled_value_def fmul_def fl_small)
qed

lemma scaled_near: "in_range q \<Longrightarrow> \<bar>scaled_value q - (q + 1) * 500\<bar> \<le> 2000 / 2 ^ 53"
proof -
  assume q: "in_range q"
  have a: "\<bar>fadd q 1 - (q + 1)\<bar> \<le> 2 / 2 ^ 53"
    using q unfolding fadd_def by (intro fl_near) (simp add: in_range_def)
  have "0 \<le> fadd q 1" "fadd q 1 \<le> 2"
    using q fl_mono [of 0 "q + 1"] fl_mono [of "q + 1" 2] by (simp_all add: in_range_def fadd_def fl_small)
  then have b: "\<bar>scaled_value q - fadd q 1 * 500\<bar> \<le> 1000 / 2 ^ 53"
    unfolding scaled_value_def fmul_def by (intro fl_near) simp
  have "\<bar>fadd q 1 - (q + 1)\<bar> * 500 \<le> 2 / 2 ^ 53 * 500" using a by (intro mult_right_mono) simp_all
  moreover have "\<bar>fadd q 1 * 500 - (q + 1) * 500\<bar> = \<bar>fadd q 1 - (q + 1)\<bar> * 500"
    using abs_mult [of "fadd q 1 - (q + 1)" 500] by (simp only: left_diff_distrib abs_numeral)
  ultimately have "\<bar>fadd q 1 * 500 - (q + 1) * 500\<bar> \<le> 1000 / 2 ^ 53" by simp
  then show ?thesis by (rule abs_diff_trans [OF b]) simp
qed

lemma enc_value_eq: "in_range q \<Longrightarrow> enc_value q = rne (scaled_value q) \<and> enc_value q \<in> wire_codes"
proof -
  assume "in_range q"
  then have "0 \<le> rne (scaled_value q)" "rne (scaled_value q) \<le> 1000"
    using rne_mono [of 0 "scaled_value q"] rne_mono [of "scaled_value q" 1000] rne_of_int [of 0] rne_of_int [of 1000]
      scaled_bounds [of q] by simp_all
  then show ?thesis by (simp add: enc_value_def py_round_def wire_codes_def)
qed

lemma decode_bounds:
  assumes "n \<in> wire_codes"
  shows "in_range (decode_control_value n) \<and> \<bar>decode_control_value n - (of_int n / 500 - 1)\<bar> \<le> 3 / 2 ^ 53"
proof -
  have n: "0 \<le> (of_int n :: rat)" "of_int n \<le> (1000 :: rat)" using assms by (simp_all add: wire_codes_def)
  have f: "fl (of_int n) = of_int n" using assms by (intro fl_of_int) (simp add: wire_codes_def)
  let ?d = "fdiv (of_int n) 500"
  have "\<bar>of_int n / 500 :: rat\<bar> \<le> 2" using n by simp
  then have d: "\<bar>?d - of_int n / 500\<bar> \<le> 2 / 2 ^ 53" unfolding fdiv_def by (rule fl_near)
  have r: "0 \<le> ?d" "?d \<le> 2"
    using n fl_mono [of 0 "of_int n / 500"] fl_mono [of "of_int n / 500" 2] by (simp_all add: fdiv_def fl_small)
  then have "\<bar>?d - 1\<bar> \<le> 1" by simp
  then have s: "\<bar>fsub ?d 1 - (?d - 1)\<bar> \<le> 1 / 2 ^ 53" unfolding fsub_def by (rule fl_near)
  have "- 1 \<le> fsub ?d 1" "fsub ?d 1 \<le> 1"
    using r fl_mono [of "- 1" "?d - 1"] fl_mono [of "?d - 1" 1] by (simp_all add: fsub_def fl_small)
  moreover have "\<bar>?d - 1 - (of_int n / 500 - 1)\<bar> \<le> 2 / 2 ^ 53" using d by simp
  then have "\<bar>fsub ?d 1 - (of_int n / 500 - 1)\<bar> \<le> 3 / 2 ^ 53" by (rule abs_diff_trans [OF s]) simp
  ultimately show ?thesis by (simp add: decode_control_value_def in_range_def f)
qed

lemma enc_mono: "in_range p \<Longrightarrow> in_range q \<Longrightarrow> p \<le> q \<Longrightarrow> enc_value p \<le> enc_value q"
proof -
  assume "in_range p" "in_range q" "p \<le> q"
  moreover from this have "scaled_value p \<le> scaled_value q"
    by (simp add: scaled_value_def fmul_def fadd_def fl_mono)
  ultimately show ?thesis by (simp add: enc_value_eq rne_mono)
qed

interpretation wire: quantisation enc_value decode_control_value in_range wire_codes wire_error
proof
  fix q assume q: "in_range q"
  note e = enc_value_eq [OF q]
  show "enc_value q \<in> wire_codes" using e by blast
  have "\<bar>of_int (enc_value q) - scaled_value q\<bar> \<le> 1 / 2" using rne_err [of "scaled_value q"] e by simp
  then have "\<bar>of_int (enc_value q) - (q + 1) * 500\<bar> \<le> 1 / 2 + 2000 / 2 ^ 53"
    by (rule abs_diff_trans [OF _ scaled_near [OF q]]) simp
  then have "\<bar>of_int (enc_value q) - (q + 1) * 500\<bar> / 500 \<le> (1 / 2 + 2000 / 2 ^ 53) / 500"
    by (rule divide_right_mono) simp
  moreover have "\<bar>of_int (enc_value q) / 500 - 1 - q\<bar> = \<bar>of_int (enc_value q) - (q + 1) * 500\<bar> / 500"
  proof -
    have "of_int (enc_value q) / 500 - 1 - q = (of_int (enc_value q) - (q + 1) * 500) / 500" by (simp add: field_simps)
    then show ?thesis by (simp only: abs_divide abs_numeral)
  qed
  ultimately have "\<bar>of_int (enc_value q) / 500 - 1 - q\<bar> \<le> (1 / 2 + 2000 / 2 ^ 53) / 500" by simp
  moreover have "3 / 2 ^ 53 + (1 / 2 + 2000 / 2 ^ 53) / 500 \<le> wire_error" by (simp add: wire_error_def)
  ultimately show "\<bar>decode_control_value (enc_value q) - q\<bar> \<le> wire_error"
    using abs_diff_trans decode_bounds [OF conjunct2 [OF e]] by blast
next
  fix n assume n: "n \<in> wire_codes"
  note d = decode_bounds [OF n]
  show "in_range (decode_control_value n)" using d by simp
  then have "\<bar>scaled_value (decode_control_value n) - (decode_control_value n + 1) * 500\<bar> \<le> 2000 / 2 ^ 53"
    by (rule scaled_near)
  moreover have "\<bar>(decode_control_value n + 1) * 500 - of_int n\<bar> \<le> 3 / 2 ^ 53 * 500"
  proof -
    have "(decode_control_value n + 1) * 500 - of_int n = (decode_control_value n - (of_int n / 500 - 1)) * 500"
      by (simp add: algebra_simps)
    then have "\<bar>(decode_control_value n + 1) * 500 - of_int n\<bar> = \<bar>decode_control_value n - (of_int n / 500 - 1)\<bar> * 500"
      by (simp only: abs_mult abs_numeral)
    then show ?thesis using d by simp
  qed
  ultimately have "\<bar>scaled_value (decode_control_value n) - of_int n\<bar> \<le> 2000 / 2 ^ 53 + 3 / 2 ^ 53 * 500"
    using abs_diff_trans by blast
  then have "\<bar>scaled_value (decode_control_value n) - of_int n\<bar> < 1 / 2" by simp
  then show "enc_value (decode_control_value n) = n" using d by (simp add: enc_value_eq rne_near)
next
  fix m n assume "m \<in> wire_codes" "n \<in> wire_codes" "m \<le> n"
  then have "fdiv (fl (of_int m)) 500 \<le> fdiv (fl (of_int n)) 500" unfolding fdiv_def by (simp add: fl_mono divide_right_mono)
  then show "decode_control_value m \<le> decode_control_value n"
    using fsub_mono [of "fdiv (fl (of_int m)) 500" "fdiv (fl (of_int n)) 500" 1] by (simp add: decode_control_value_def Let_def min_le_iff_disj max_def min_def)
qed (rule enc_mono)

text \<open>What the words of a control input say.\<close>

lemma surface_code: "map_of CONTROL_SURFACE_TO_CODE k = Some c \<Longrightarrow> 1 \<le> c \<and> c \<le> 7 \<and> map_of CODE_TO_CONTROL_SURFACE c = Some k"
  by (auto simp: CONTROL_SURFACE_TO_CODE_def CODE_TO_CONTROL_SURFACE_def split: if_splits)

lemma py_int_fmt: "0 \<le> n \<Longrightarrow> py_int 2 (fmt_bin w n) = Inr n"
proof -
  assume "0 \<le> n"
  then have "fmt_bin w n \<noteq> []" by (simp add: fmt_bin_def zfill_def)
  then show ?thesis using \<open>0 \<le> n\<close> by (simp add: py_int_bits bits_fmt_bin bval_fmt_bin)
qed

lemma encode_in_range: "in_range q \<Longrightarrow> encode_control_value (PFloat q) = Inr (enc_value q)"
proof -
  assume "in_range q"
  then have "\<not> 2 ^ 1024 \<le> \<bar>scaled_value q\<bar>" using scaled_bounds [of q] by (simp add: not_le)
  then show ?thesis by (simp add: encode_control_value_def py_float_def enc_value_def)
qed

lemma encode_range: "encode_control_value v = Inr n \<Longrightarrow> n \<in> wire_codes"
  by (auto simp: encode_control_value_def py_bind_eq_Inr wire_codes_def Let_def split: if_splits)

lemma control_words:
  "control_input_data_words s v = Inr ws \<Longrightarrow> \<exists>name c n. s = PStr name \<and> map_of CONTROL_SURFACE_TO_CODE (lower name) = Some c \<and>
     encode_control_value v = Inr n \<and> n \<in> wire_codes \<and> ws = [fmt_bin 16 c, fmt_bin 16 n]"
  using encode_range by (auto simp: control_input_data_words_def py_bind_eq_Inr split: pyval.splits option.splits)

lemma mode_value: "resolve_mode m = Inr n \<Longrightarrow> 0 \<le> n \<and> n \<le> 5 \<and> map_of MODE_VALUE_TO_NAME n \<noteq> None"
  by (auto simp: resolve_mode_def mode_by_name_def MODE_NAME_TO_VALUE_def MODE_VALUE_TO_NAME_def
    split: mode_arg.splits pyval.splits option.splits if_splits)

text \<open>A command word as a number.\<close>

lemma fcs_word_value:
  assumes "0 \<le> rt" "rt \<le> 31" "0 \<le> sa" "sa \<le> 31" "t = 0 \<or> t = 1"
  shows "fcs_command_word rt sa k t = Inr (rt * 2 ^ 11 + t * 2 ^ 10 + sa * 2 ^ 5 + fcs_word_count k)"
proof -
  have c: "0 \<le> fcs_word_count k" "fcs_word_count k \<le> 4" by (cases k; simp add: fcs_word_count_def)+
  let ?s = "fmt_bin 5 rt @ fmt_bin 1 t @ fmt_bin 5 sa @ fmt_bin 5 (fcs_word_count k)"
  have "bits ?s" "?s \<noteq> []" using assms c by (auto simp: bits_fmt_bin fmt_bin_def zfill_def)
  moreover have "bval ?s = nat (rt * 2 ^ 11 + t * 2 ^ 10 + sa * 2 ^ 5 + fcs_word_count k)"
    using assms c length_fmt_bin [of 1 t] length_fmt_bin [of 5 sa] length_fmt_bin [of 5 "fcs_word_count k"]
    by (auto simp: bval_append bval_fmt_bin nat_add_distrib nat_mult_distrib)
  ultimately show ?thesis using assms c unfolding fcs_command_word_def by (auto simp: py_int_bits)
qed

section \<open>Properties\<close>

text \<open>
  C10. A control value of the range arrives within half a quantum of what was sent (up to the rounding of floats), order
  is kept, and re-encoding what arrived changes nothing.
\<close>

theorem control_value_roundtrip:
  assumes "in_range q" "in_range p" "q \<le> p"
  shows "\<exists>n m. encode_control_value (PFloat q) = Inr n \<and> encode_control_value (PFloat p) = Inr m \<and> 0 \<le> n \<and> n \<le> m \<and> m \<le> 1000 \<and>
    \<bar>decode_control_value n - q\<bar> \<le> 1 / 1000 + 1 / 2 ^ 50 \<and> decode_control_value n \<le> decode_control_value m \<and>
    encode_control_value (PFloat (decode_control_value n)) = Inr n"
  using assms wire.near [OF assms(1)] wire.enc_code wire.enc_mono [OF assms] wire.order_kept [OF assms]
    wire.stable [OF assms(1)] wire.dec_valid [OF wire.enc_code [OF assms(1)]]
  by (simp add: encode_in_range wire_error_def wire_codes_def)

text \<open>
  The command words of the flight control system are sixteen-bit numbers that carry its address and subaddress,
  and no two of the eight are equal, whatever the address book says.
\<close>

theorem fcs_command_words_distinct:
  assumes "0 \<le> rt" "rt \<le> 31" "0 \<le> sa" "sa \<le> 31"
  shows "distinct (map snd (FCS_COMMAND_WORDS rt sa)) \<and>
    list_all (\<lambda>(_, w). \<exists>n. w = Inr n \<and> 0 \<le> n \<and> n < 2 ^ 16 \<and> n div 2 ^ 11 = rt \<and> n div 2 ^ 5 mod 2 ^ 5 = sa) (FCS_COMMAND_WORDS rt sa)"
proof -
  note w = fcs_word_value [OF assms]
  have b: "rt * 2 ^ 11 + t * 2 ^ 10 + sa * 2 ^ 5 + c < 2 ^ 16" "(rt * 2 ^ 11 + t * 2 ^ 10 + sa * 2 ^ 5 + c) div 2 ^ 11 = rt"
    "(rt * 2 ^ 11 + t * 2 ^ 10 + sa * 2 ^ 5 + c) div 2 ^ 5 mod 2 ^ 5 = sa" if "t = 0 \<or> t = 1" "0 \<le> c" "c \<le> 4" for t c :: int
  proof -
    show "rt * 2 ^ 11 + t * 2 ^ 10 + sa * 2 ^ 5 + c < 2 ^ 16" using assms that by auto
    show "(rt * 2 ^ 11 + t * 2 ^ 10 + sa * 2 ^ 5 + c) div 2 ^ 11 = rt"
      by (rule int_div_pos_eq [where r = "t * 2 ^ 10 + sa * 2 ^ 5 + c"]) (use assms that in auto)
    have "(rt * 2 ^ 11 + t * 2 ^ 10 + sa * 2 ^ 5 + c) div 2 ^ 5 = rt * 2 ^ 6 + t * 2 ^ 5 + sa"
      by (rule int_div_pos_eq [where r = c]) (use assms that in auto)
    moreover have "(rt * 2 ^ 6 + t * 2 ^ 5 + sa) mod 2 ^ 5 = sa"
      by (rule int_mod_pos_eq [where q = "rt * 2 + t"]) (use assms that in auto)
    ultimately show "(rt * 2 ^ 11 + t * 2 ^ 10 + sa * 2 ^ 5 + c) div 2 ^ 5 mod 2 ^ 5 = sa" by simp
  qed
  have g: "\<exists>n. fcs_command_word rt sa k t = Inr n \<and> 0 \<le> n \<and> n < 2 ^ 16 \<and> n div 2 ^ 11 = rt \<and> n div 2 ^ 5 mod 2 ^ 5 = sa"
    if "t = 0 \<or> t = 1" for k t
  proof -
    have c: "0 \<le> fcs_word_count k" "fcs_word_count k \<le> 4" by (cases k; simp add: fcs_word_count_def)+
    have "0 \<le> rt * 2 ^ 11 + t * 2 ^ 10 + sa * 2 ^ 5 + fcs_word_count k" using assms c that by auto
    then show ?thesis using w [OF that, of k] b [OF that c] by blast
  qed
  have "distinct (map snd (FCS_COMMAND_WORDS rt sa))" by (simp add: FCS_COMMAND_WORDS_def w fcs_word_count_def)
  moreover have "list_all (\<lambda>(_, w). \<exists>n. w = Inr n \<and> 0 \<le> n \<and> n < 2 ^ 16 \<and> n div 2 ^ 11 = rt \<and> n div 2 ^ 5 mod 2 ^ 5 = sa) (FCS_COMMAND_WORDS rt sa)"
    unfolding FCS_COMMAND_WORDS_def by (simp only: list.pred_inject prod.case g simp_thms)
  ultimately show ?thesis by blast
qed

section \<open>Witnesses\<close>

theorem control_value_roundtrip_witness:
  "\<exists>n m. encode_control_value (PFloat (1 / 4)) = Inr n \<and> encode_control_value (PFloat 1) = Inr m \<and>
     \<bar>decode_control_value n - 1 / 4\<bar> \<le> 1 / 1000 + 1 / 2 ^ 50 \<and> n \<le> m"
  using control_value_roundtrip [of "1 / 4" 1] by (auto simp: in_range_def)

theorem fcs_command_words_distinct_witness: "distinct (map snd (FCS_COMMAND_WORDS 5 10))"
  using fcs_command_words_distinct [of 5 10] by simp

end
