(* ===== verification/Loop_Registry.thy ===== *)
theory Loop_Registry
  imports Py_Float "HOL-Library.Multiset"
begin

text \<open>
  The two memories of the loop prevention: the registry of processed messages (\<^verbatim>\<open>registry.py\<close>) and the
  library of request identifiers and message types (\<^verbatim>\<open>tracking_library.py\<close>), both under
  \<^verbatim>\<open>Utils/message_loop_prevention\<close>. Dictionaries keep their insertion order. The clock does not advance
  inside one call. Their common contract, a set of keys that is asked before it is marked, is the locale
  \<open>once_guard\<close>.
\<close>

section \<open>Asking before marking\<close>

text \<open>
  A memory that is asked whether a key was seen and told that it is. Its client lets a key pass when it was not seen
  and marks it then.
\<close>

locale once_guard =
  fixes seen :: "'k \<Rightarrow> 's \<Rightarrow> bool" and mark :: "'k \<Rightarrow> 's \<Rightarrow> 's" and ok :: "'k \<Rightarrow> bool"
  assumes seen_marked: "ok k \<Longrightarrow> seen k (mark k s)"
    and seen_kept: "seen k s \<Longrightarrow> seen k (mark k' s)"
    and mark_only: "seen k (mark k' s) \<Longrightarrow> k \<noteq> k' \<Longrightarrow> seen k s"
begin

definition admit :: "'k \<Rightarrow> 's \<Rightarrow> bool \<times> 's" where
  "admit k s = (if seen k s then (False, s) else (True, mark k s))"

fun admitted :: "'k list \<Rightarrow> 's \<Rightarrow> 'k list" where
  "admitted [] s = []"
| "admitted (k # ks) s = (case admit k s of (b, s) \<Rightarrow> (if b then [k] else []) @ admitted ks s)"

lemma seen_not_admitted: "seen k s \<Longrightarrow> k \<notin> set (admitted ks s)"
proof (induction ks arbitrary: s)
  case (Cons j ks)
  then show ?case using seen_kept [of k s j] by (cases "seen j s") (auto simp: admit_def)
qed simp

lemma admitted_distinct: "\<forall>k \<in> set ks. ok k \<Longrightarrow> distinct (admitted ks s)"
proof (induction ks arbitrary: s)
  case (Cons j ks)
  then show ?case
    using seen_not_admitted [OF seen_marked [of j s], of ks] by (auto simp: admit_def)
qed simp

lemma admitted_exactly: "\<forall>k \<in> set ks. ok k \<Longrightarrow> set (admitted ks s) = {k \<in> set ks. \<not> seen k s}"
proof (induction ks arbitrary: s)
  case (Cons j ks)
  show ?case
  proof (cases "seen j s")
    case True
    then show ?thesis using Cons by (auto simp: admit_def)
  next
    case False
    have "set (admitted ks (mark j s)) = {k \<in> set ks. \<not> seen k (mark j s)}" using Cons by simp
    moreover have "seen j (mark j s)" using Cons.prems by (intro seen_marked) simp
    moreover have "seen k (mark j s) \<longleftrightarrow> seen k s" if "k \<noteq> j" for k using that seen_kept mark_only by blast
    ultimately show ?thesis using False by (auto simp: admit_def dest: seen_kept [of _ s j])
  qed
qed simp

end

section \<open>The registry of processed messages\<close>

type_synonym stamps = "(string \<times> rat) list"

record msg_registry =
  mr_processed :: stamps
  mr_categories :: "(string \<times> stamps) list"
  mr_max_cache :: nat
  mr_expiration :: rat
  mr_last_cleanup :: rat
  mr_interval :: rat

definition new_msg_registry :: "nat \<Rightarrow> rat \<Rightarrow> rat \<Rightarrow> msg_registry" where
  "new_msg_registry max_cache_size expiration_time t =
     \<lparr>mr_processed = [], mr_categories = [], mr_max_cache = max_cache_size, mr_expiration = expiration_time,
      mr_last_cleanup = t, mr_interval = 300\<rparr>"

text \<open>A category that is given, not empty and known selects its own stamps.\<close>

definition category_stamps :: "string option \<Rightarrow> msg_registry \<Rightarrow> stamps option" where
  "category_stamps category r =
     (case category of None \<Rightarrow> None | Some c \<Rightarrow> if c = [] then None else map_of (mr_categories r) c)"

definition unexpired :: "rat \<Rightarrow> stamps \<Rightarrow> stamps" where
  "unexpired threshold m = filter (\<lambda>(_, timestamp). threshold < timestamp) m"

definition cleanup_expired :: "rat \<Rightarrow> msg_registry \<Rightarrow> msg_registry" where
  "cleanup_expired t r =
     (let threshold = fsub t (mr_expiration r)
      in r\<lparr>mr_processed := unexpired threshold (mr_processed r),
           mr_categories := filter (\<lambda>(_, m). m \<noteq> []) (map (\<lambda>(c, m). (c, unexpired threshold m)) (mr_categories r))\<rparr>)"

definition cleanup_if_needed :: "rat \<Rightarrow> msg_registry \<Rightarrow> msg_registry" where
  "cleanup_if_needed t r =
     (if mr_interval r < fsub t (mr_last_cleanup r) then (cleanup_expired t r)\<lparr>mr_last_cleanup := t\<rparr> else r)"

definition is_processed :: "rat \<Rightarrow> string \<Rightarrow> string option \<Rightarrow> msg_registry \<Rightarrow> bool \<times> msg_registry" where
  "is_processed t message_id category r0 =
     (let r = cleanup_if_needed t r0
      in (case category_stamps category r of
            Some m \<Rightarrow> map_of m message_id \<noteq> None
          | None \<Rightarrow> map_of (mr_processed r) message_id \<noteq> None, r))"

text \<open>
  Pruning: the stamps in order of age, of which the newest eight tenths of the limit are kept. A Python slice from
  minus zero is the whole list.
\<close>

definition keep_count :: "nat \<Rightarrow> nat" where
  "keep_count max_cache = nat (py_trunc (fmul (fl (of_nat max_cache)) (fl (4 / 5))))"

definition prune_registry :: "nat \<Rightarrow> stamps \<Rightarrow> stamps" where
  "prune_registry max_cache m =
     (let sorted_items = sort_key snd m; k = keep_count max_cache
      in if k = 0 then sorted_items else drop (length sorted_items - k) sorted_items)"

definition prune :: "nat \<Rightarrow> stamps \<Rightarrow> stamps" where
  "prune max_cache m = (if max_cache < length m then prune_registry max_cache m else m)"

definition prune_if_needed :: "msg_registry \<Rightarrow> msg_registry" where
  "prune_if_needed r = r\<lparr>mr_processed := prune (mr_max_cache r) (mr_processed r),
     mr_categories := map (\<lambda>(c, m). (c, prune (mr_max_cache r) m)) (mr_categories r)\<rparr>"

definition mark_processed :: "rat \<Rightarrow> string \<Rightarrow> string option \<Rightarrow> msg_registry \<Rightarrow> msg_registry" where
  "mark_processed t message_id category r0 =
     (let r = r0\<lparr>mr_processed := dict_set message_id t (mr_processed r0)\<rparr>;
          r = (case category of
                 None \<Rightarrow> r
               | Some c \<Rightarrow>
                   if c = [] then r
                   else r\<lparr>mr_categories := dict_set c (dict_set message_id t
                          (case map_of (mr_categories r) c of None \<Rightarrow> [] | Some m \<Rightarrow> m)) (mr_categories r)\<rparr>)
      in prune_if_needed r)"

definition get_processed_count :: "string option \<Rightarrow> msg_registry \<Rightarrow> nat" where
  "get_processed_count category r =
     (case category_stamps category r of Some m \<Rightarrow> length m | None \<Rightarrow> length (mr_processed r))"

definition registry_stats :: "msg_registry \<Rightarrow> nat \<times> (string \<times> nat) list" where
  "registry_stats r = (length (mr_processed r), map (\<lambda>(c, m). (c, length m)) (mr_categories r))"

definition registry_clear :: "string option \<Rightarrow> msg_registry \<Rightarrow> msg_registry" where
  "registry_clear category r =
     (case (category, category_stamps category r) of
        (Some c, Some _) \<Rightarrow> r\<lparr>mr_categories := dict_set c [] (mr_categories r)\<rparr>
      | _ \<Rightarrow> r\<lparr>mr_processed := [], mr_categories := []\<rparr>)"

section \<open>The tracking library\<close>

record tracking =
  tk_types :: "(string \<times> (string \<times> nat) list) list"
  tk_stamps :: stamps
  tk_expiration :: rat
  tk_last_cleanup :: rat
  tk_interval :: rat

definition new_tracking :: "rat \<Rightarrow> rat \<Rightarrow> tracking" where
  "new_tracking expiration_time t =
     \<lparr>tk_types = [], tk_stamps = [], tk_expiration = expiration_time, tk_last_cleanup = t, tk_interval = 300\<rparr>"

definition expired_requests :: "rat \<Rightarrow> stamps \<Rightarrow> string list" where
  "expired_requests threshold m = map fst (filter (\<lambda>(_, timestamp). timestamp < threshold) m)"

definition tk_cleanup_expired :: "rat \<Rightarrow> tracking \<Rightarrow> tracking" where
  "tk_cleanup_expired t k =
     (let gone = expired_requests (fsub t (tk_expiration k)) (tk_stamps k)
      in k\<lparr>tk_types := fold AList.delete gone (tk_types k), tk_stamps := fold AList.delete gone (tk_stamps k)\<rparr>)"

definition tk_cleanup_if_needed :: "rat \<Rightarrow> tracking \<Rightarrow> tracking" where
  "tk_cleanup_if_needed t k =
     (if tk_interval k < fsub t (tk_last_cleanup k) then (tk_cleanup_expired t k)\<lparr>tk_last_cleanup := t\<rparr> else k)"

definition get_message_types :: "string \<Rightarrow> tracking \<Rightarrow> (string \<times> nat) list" where
  "get_message_types request_id k = (case map_of (tk_types k) request_id of None \<Rightarrow> [] | Some m \<Rightarrow> m)"

definition get_count :: "string \<Rightarrow> string \<Rightarrow> tracking \<Rightarrow> nat" where
  "get_count request_id message_type k =
     (case map_of (tk_types k) request_id of
        None \<Rightarrow> 0
      | Some m \<Rightarrow> (case map_of m message_type of None \<Rightarrow> 0 | Some n \<Rightarrow> n))"

definition has_seen_message :: "rat \<Rightarrow> string \<Rightarrow> string \<Rightarrow> tracking \<Rightarrow> bool \<times> tracking" where
  "has_seen_message t request_id message_type k0 =
     (let k = tk_cleanup_if_needed t k0
      in (if request_id = [] then False
          else case map_of (tk_types k) request_id of
                 None \<Rightarrow> False
               | Some m \<Rightarrow> map_of m message_type \<noteq> None, k))"

definition record_message :: "rat \<Rightarrow> string \<Rightarrow> string \<Rightarrow> tracking \<Rightarrow> nat \<times> tracking" where
  "record_message t request_id message_type k =
     (if request_id = [] then (0, k)
      else
        let m = get_message_types request_id k;
            n = (case map_of m message_type of Some n \<Rightarrow> n + 1 | None \<Rightarrow> 1)
        in (n, k\<lparr>tk_stamps := dict_set request_id t (tk_stamps k),
                 tk_types := dict_set request_id (dict_set message_type n m) (tk_types k)\<rparr>))"

definition tracking_clear :: "tracking \<Rightarrow> tracking" where
  "tracking_clear k = k\<lparr>tk_types := [], tk_stamps := []\<rparr>"

section \<open>The tracking library never forgets what is not expired\<close>

definition tk_seen :: "string \<times> string \<Rightarrow> tracking \<Rightarrow> bool" where
  "tk_seen = (\<lambda>(rid, mt) k. rid \<noteq> [] \<and> (case map_of (tk_types k) rid of None \<Rightarrow> False | Some m \<Rightarrow> map_of m mt \<noteq> None))"

definition tk_mark :: "rat \<Rightarrow> string \<times> string \<Rightarrow> tracking \<Rightarrow> tracking" where
  "tk_mark t = (\<lambda>(rid, mt) k. snd (record_message t rid mt k))"

lemma has_seen_eq: "has_seen_message t rid mt k = (tk_seen (rid, mt) (tk_cleanup_if_needed t k), tk_cleanup_if_needed t k)"
  by (simp add: has_seen_message_def tk_seen_def Let_def)

lemma map_of_fold_delete: "map_of (fold AList.delete ks m) k = (if k \<in> set ks then None else map_of m k)"
  by (induction ks arbitrary: m) (auto simp: delete_conv)

interpretation request_memory: once_guard tk_seen "tk_mark t" "\<lambda>(rid, mt). rid \<noteq> []" for t
  by unfold_locales
    (auto simp: tk_seen_def tk_mark_def record_message_def get_message_types_def map_of_dict_set Let_def
      split: option.splits if_splits)

text \<open>A request of which a message was recorded at or after a time.\<close>

definition held :: "rat \<Rightarrow> string \<times> string \<Rightarrow> tracking \<Rightarrow> bool" where
  "held t0 key k \<longleftrightarrow> tk_seen key k \<and> distinct (map fst (tk_stamps k)) \<and>
     (\<exists>t1. map_of (tk_stamps k) (fst key) = Some t1 \<and> t0 \<le> t1)"

lemma not_expired:
  "distinct (map fst m) \<Longrightarrow> map_of m r = Some t1 \<Longrightarrow> threshold \<le> t1 \<Longrightarrow> r \<notin> set (expired_requests threshold m)"
  by (auto simp: expired_requests_def dest: eq_key_imp_eq_value)

lemma distinct_fold_delete: "distinct (map fst m) \<Longrightarrow> distinct (map fst (fold AList.delete ks m))"
  by (induction ks arbitrary: m) (auto intro: distinct_delete)

lemma held_cleanup:
  assumes "held t0 key k" "fsub t (tk_expiration k) \<le> t0"
  shows "held t0 key (tk_cleanup_if_needed t k)"
proof -
  obtain rid mt where key: "key = (rid, mt)" by (cases key)
  obtain t1 where t1: "map_of (tk_stamps k) rid = Some t1" "t0 \<le> t1" using assms(1) by (auto simp: held_def key)
  have "rid \<notin> set (expired_requests (fsub t (tk_expiration k)) (tk_stamps k))"
    using assms t1 by (intro not_expired [OF _ t1(1)]) (auto simp: held_def)
  then show ?thesis
    using assms(1) t1
    by (simp add: held_def key tk_cleanup_if_needed_def tk_cleanup_expired_def tk_seen_def map_of_fold_delete
        distinct_fold_delete Let_def del: map_of_eq_Some_iff)
qed

lemma tk_cleanup_keeps: "tk_expiration (tk_cleanup_if_needed t k) = tk_expiration k"
  by (simp add: tk_cleanup_if_needed_def tk_cleanup_expired_def Let_def)

lemma held_record: "held t0 key k \<Longrightarrow> t0 \<le> t \<Longrightarrow> held t0 key (snd (record_message t rid mt k))"
  by (cases key)
    (auto simp: held_def tk_seen_def record_message_def get_message_types_def map_of_dict_set distinct_dict_set Let_def
      simp del: map_of_eq_Some_iff split: option.splits)

lemma record_held:
  "rid \<noteq> [] \<Longrightarrow> distinct (map fst (tk_stamps k)) \<Longrightarrow> held t (rid, mt) (snd (record_message t rid mt k))"
  by (simp add: held_def tk_seen_def record_message_def map_of_dict_set distinct_dict_set Let_def del: map_of_eq_Some_iff)

lemma stamps_distinct:
  "distinct (map fst (tk_stamps k)) \<Longrightarrow> distinct (map fst (tk_stamps (tk_cleanup_if_needed t k)))"
  "distinct (map fst (tk_stamps k)) \<Longrightarrow> distinct (map fst (tk_stamps (snd (record_message t rid mt k))))"
  by (simp_all add: tk_cleanup_if_needed_def tk_cleanup_expired_def record_message_def distinct_fold_delete
      distinct_dict_set Let_def)

section \<open>The registry stays within its limit\<close>

definition mr_ok :: "msg_registry \<Rightarrow> bool" where
  "mr_ok r \<longleftrightarrow> length (mr_processed r) \<le> mr_max_cache r \<and>
     (\<forall>m \<in> snd ` set (mr_categories r). length m \<le> mr_max_cache r)"

lemma keep_count_le: "n \<le> 2 ^ 53 \<Longrightarrow> keep_count n \<le> n"
proof -
  assume n: "n \<le> 2 ^ 53"
  have "fl (4 / 5) \<le> fl 1" by (rule fl_mono) simp
  then have le: "fl (4 / 5) \<le> 1" using fl_of_int [of 1] by simp
  have "(of_nat n :: rat) = of_int (int n)" by simp
  moreover have "\<bar>int n\<bar> \<le> 2 ^ 53" using n by simp
  ultimately have n': "fl (of_nat n) = of_nat n" using fl_of_int [of "int n"] by simp
  moreover have "fl (of_nat n * fl (4 / 5)) \<le> fl (of_nat n)" using le by (intro fl_mono mult_left_le) simp_all
  ultimately have up: "fmul (of_nat n) (fl (4 / 5)) \<le> of_nat n" by (simp add: fmul_def)
  have "0 \<le> of_nat n * fl (4 / 5)" by (intro mult_nonneg_nonneg fl_nonneg) simp_all
  then have "0 \<le> fmul (of_nat n) (fl (4 / 5))" unfolding fmul_def by (rule fl_nonneg)
  then have "keep_count n = nat \<lfloor>fmul (of_nat n) (fl (4 / 5))\<rfloor>" by (simp add: keep_count_def py_trunc_def n')
  also have "\<dots> \<le> nat \<lfloor>(of_nat n :: rat)\<rfloor>" by (intro nat_mono floor_mono up)
  finally show ?thesis by simp
qed

lemma prune_length:
  assumes "keep_count n \<noteq> 0" "n \<le> 2 ^ 53"
  shows "length (prune n m) \<le> n"
  using keep_count_le [OF assms(2)] assms(1)
  by (auto simp: prune_def prune_registry_def Let_def)

lemma mr_ok_mark:
  "keep_count (mr_max_cache r) \<noteq> 0 \<Longrightarrow> mr_max_cache r \<le> 2 ^ 53 \<Longrightarrow> mr_ok (mark_processed t i c r)"
  by (auto simp: mr_ok_def mark_processed_def prune_if_needed_def Let_def prune_length split: option.split)

lemma mr_ok_ask: "mr_ok r \<Longrightarrow> mr_ok (snd (is_processed t i c r))"
proof -
  have "length (unexpired h m) \<le> length m" for h m by (simp add: unexpired_def)
  then show "mr_ok r \<Longrightarrow> mr_ok (snd (is_processed t i c r))"
    by (fastforce simp: mr_ok_def is_processed_def cleanup_if_needed_def cleanup_expired_def Let_def intro: le_trans)
qed

lemma mr_ok_clear: "mr_ok r \<Longrightarrow> mr_ok (registry_clear c r)"
proof -
  have "snd ` set (dict_set k [] m) \<subseteq> insert [] (snd ` set m)" for k and m :: "(string \<times> stamps) list"
    unfolding dict_set_def by (induction m) auto
  then show "mr_ok r \<Longrightarrow> mr_ok (registry_clear c r)"
    by (fastforce simp: mr_ok_def registry_clear_def split: option.split)
qed

text \<open>The operations on the registry, and a sequence of them.\<close>

datatype registry_op = Mark rat string "string option" | Ask rat string "string option" | Clear "string option"

fun registry_do :: "registry_op \<Rightarrow> msg_registry \<Rightarrow> msg_registry" where
  "registry_do (Mark t i c) r = mark_processed t i c r"
| "registry_do (Ask t i c) r = snd (is_processed t i c r)"
| "registry_do (Clear c) r = registry_clear c r"

lemma registry_limit: "mr_max_cache (registry_do op r) = mr_max_cache r"
  by (cases op) (auto simp: mark_processed_def prune_if_needed_def is_processed_def cleanup_if_needed_def
    cleanup_expired_def registry_clear_def Let_def split: option.split)

lemma registry_run:
  "keep_count (mr_max_cache r) \<noteq> 0 \<Longrightarrow> mr_max_cache r \<le> 2 ^ 53 \<Longrightarrow> mr_ok r \<Longrightarrow>
   mr_ok (fold registry_do ops r) \<and> mr_max_cache (fold registry_do ops r) = mr_max_cache r"
proof (induction ops arbitrary: r)
  case (Cons op ops)
  have "mr_ok (registry_do op r)" using Cons.prems by (cases op) (auto simp: mr_ok_mark mr_ok_ask mr_ok_clear)
  then show ?case using Cons.IH [of "registry_do op r"] Cons.prems by (simp add: registry_limit)
qed simp

section \<open>A message just marked is recognised\<close>

lemma sorted_newest_last:
  assumes "(i, t) \<in> set m" "\<forall>(j, u) \<in> set m. (j, u) \<noteq> (i, t) \<longrightarrow> u < t"
  shows "last (sort_key snd m) = (i, t)"
proof -
  let ?s = "sort_key snd m"
  have ne: "?s \<noteq> []" using assms(1) by (metis set_sort empty_iff list.set(1))
  have "(i, t) \<in> set ?s" using assms(1) by simp
  then obtain k where k: "k < length ?s" "?s ! k = (i, t)" by (metis in_set_conv_nth)
  have "snd (?s ! k) \<le> snd (?s ! (length ?s - 1))"
    using sorted_nth_mono [of "map snd ?s" k "length ?s - 1"] k sorted_sort_key [of snd m] by simp
  then have "t \<le> snd (last ?s)" using k ne by (simp add: last_conv_nth)
  moreover have "last ?s \<in> set m" using ne by (metis last_in_set set_sort)
  ultimately show ?thesis using assms(2) by (cases "last ?s") fastforce
qed

lemma prune_newest:
  assumes "(i, t) \<in> set m" "\<forall>(j, u) \<in> set m. (j, u) \<noteq> (i, t) \<longrightarrow> u < t"
  shows "(i, t) \<in> set (prune n m)"
proof -
  let ?s = "sort_key snd m"
  have "(i, t) \<in> set (drop (length ?s - k) ?s)" if "k \<noteq> 0" for k
  proof -
    have "?s \<noteq> []" using assms(1) by (metis set_sort empty_iff list.set(1))
    then have "length ?s - k < length ?s" using that by (simp add: length_greater_0_conv [symmetric] del: length_greater_0_conv length_sort)
    then have "last (drop (length ?s - k) ?s) = last ?s" "drop (length ?s - k) ?s \<noteq> []" by simp_all
    then show ?thesis using sorted_newest_last [OF assms] by (metis last_in_set)
  qed
  then show ?thesis using assms(1) by (auto simp: prune_def prune_registry_def Let_def)
qed

lemma set_dict_set: "distinct (map fst m) \<Longrightarrow> set (dict_set k v m) = insert (k, v) {(j, u) \<in> set m. j \<noteq> k}"
  unfolding dict_set_def by (induction m) (auto simp: image_iff)

lemma marked_stays:
  assumes "distinct (map fst m)" "\<forall>(j, u) \<in> set m. u < t"
  shows "map_of (prune n (dict_set i t m)) i \<noteq> None"
proof -
  have "(i, t) \<in> set (prune n (dict_set i t m))"
    using assms by (intro prune_newest) (auto simp: set_dict_set)
  then show ?thesis by (metis map_of_eq_None_iff fst_conv imageI)
qed

section \<open>A registry of one\<close>

lemma keep_count_1: "keep_count (Suc 0) = 0"
proof -
  have "fl (7 / 8) = 7 / 8" by (rule fl_exact [where m = 7 and k = "- 3"]) (simp_all add: power_int_def power3_eq_cube)
  moreover have "fl (4 / 5) \<le> fl (7 / 8)" by (rule fl_mono) simp
  moreover from calculation have "fl (fl (4 / 5)) \<le> fl (7 / 8)" by (intro fl_mono) simp
  moreover have "0 \<le> fl (fl (4 / 5))" by (intro fl_nonneg) simp
  moreover have "fl 1 = 1" using fl_of_int [of 1] by simp
  ultimately show ?thesis by (simp add: keep_count_def fmul_def py_trunc_def floor_eq_iff)
qed

lemma prune_1:
  "set (prune (Suc 0) m) = set m" "length (prune (Suc 0) m) = length m"
  "distinct (map fst m) \<Longrightarrow> distinct (map fst (prune (Suc 0) m))"
proof -
  show "set (prune (Suc 0) m) = set m" "length (prune (Suc 0) m) = length m"
    by (simp_all add: prune_def prune_registry_def keep_count_1 Let_def)
  have "mset (map fst (prune (Suc 0) m)) = mset (map fst m)" by (simp add: prune_def prune_registry_def keep_count_1 Let_def)
  then show "distinct (map fst m) \<Longrightarrow> distinct (map fst (prune (Suc 0) m))" by (metis mset_eq_imp_distinct_iff)
qed

lemma fold_marks:
  "mr_max_cache r = Suc 0 \<Longrightarrow> distinct (map fst (mr_processed r)) \<Longrightarrow> fst ` set (mr_processed r) \<inter> fst ` set is = {} \<Longrightarrow>
   distinct (map fst is) \<Longrightarrow>
   length (mr_processed (fold (\<lambda>(i, t). mark_processed t i c) is r)) = length (mr_processed r) + length is"
proof (induction "is" arbitrary: r)
  case (Cons x xs)
  obtain i t where x: "x = (i, t)" by (cases x)
  let ?r = "mark_processed t i c r"
  have i: "i \<notin> fst ` set (mr_processed r)" using Cons.prems(3) x by auto
  have r: "mr_processed ?r = prune (Suc 0) (mr_processed r @ [(i, t)])" "mr_max_cache ?r = Suc 0"
    using Cons.prems(1) dict_set_new [OF i] by (auto simp: mark_processed_def prune_if_needed_def Let_def split: option.split)
  have "distinct (map fst (mr_processed ?r))" using i Cons.prems(2) by (auto simp: r intro!: prune_1(3))
  moreover have "fst ` set (mr_processed ?r) \<inter> fst ` set xs = {}" using Cons.prems(3,4) by (auto simp: r prune_1 x)
  ultimately show ?case using Cons.IH [OF r(2)] Cons.prems(4) by (simp add: x r prune_1)
qed simp

section \<open>Properties\<close>

text \<open>
  The registry is bounded: after any sequence of marks, questions and clearances neither the general registry
  nor that of any category holds more messages than the cache limit, provided the limit leaves something to keep.
\<close>

theorem registry_bounded:
  assumes "keep_count n \<noteq> 0" "n \<le> 2 ^ 53"
  shows "length (mr_processed (fold registry_do ops (new_msg_registry n e t))) \<le> n \<and>
    (\<forall>m \<in> snd ` set (mr_categories (fold registry_do ops (new_msg_registry n e t))). length m \<le> n)"
proof -
  let ?r = "fold registry_do ops (new_msg_registry n e t)"
  have "mr_ok (new_msg_registry n e t)" "mr_max_cache (new_msg_registry n e t) = n"
    by (simp_all add: new_msg_registry_def mr_ok_def)
  then have "mr_ok ?r \<and> mr_max_cache ?r = n" using registry_run [of "new_msg_registry n e t" ops] assms by metis
  then show ?thesis unfolding mr_ok_def by metis
qed

text \<open>
  A cache limit of one keeps everything: eight tenths of it are zero, the slice from minus zero is the whole
  registry, and pruning removes nothing, so the registry grows with every message.
\<close>

theorem registry_of_one_grows:
  assumes "distinct (map fst is)"
  shows "length (mr_processed (fold (\<lambda>(i, t). mark_processed t i c) is (new_msg_registry 1 e t0))) = length is"
  using fold_marks [of "new_msg_registry 1 e t0" "is"] assms by (simp add: new_msg_registry_def)

text \<open>
  A message that has just been marked is recognised by the next question, under the same category or none,
  however full the registry is, as long as the clock has moved on since the earlier marks.
\<close>

theorem marked_is_recognised:
  assumes "distinct (map fst (mr_processed r))" "\<forall>(j, u) \<in> set (mr_processed r). u < t"
    "\<forall>c m. category = Some c \<longrightarrow> map_of (mr_categories r) c = Some m \<longrightarrow> distinct (map fst m) \<and> (\<forall>(j, u) \<in> set m. u < t)"
    "fsub t (mr_last_cleanup r) \<le> mr_interval r"
  shows "fst (is_processed t i category (mark_processed t i category r))"
proof -
  have m: "map_of (map (\<lambda>(c, m). (c, f m)) cs) c = map_option f (map_of cs c)" for f :: "stamps \<Rightarrow> stamps" and cs c
    by (induction cs) auto
  let ?r = "mark_processed t i category r"
  have "cleanup_if_needed t ?r = ?r"
    using assms(4) by (auto simp: cleanup_if_needed_def mark_processed_def prune_if_needed_def Let_def split: option.split)
  moreover have "map_of (mr_processed ?r) i \<noteq> None"
    using marked_stays [OF assms(1,2), of "mr_max_cache r" i]
    by (auto simp: mark_processed_def prune_if_needed_def Let_def split: option.split)
  moreover have "map_of cm i \<noteq> None" if st: "category_stamps category ?r = Some cm" for cm
  proof -
    obtain c where c: "category = Some c" "c \<noteq> []" using st by (auto simp: category_stamps_def split: option.splits if_splits)
    let ?m = "case map_of (mr_categories r) c of None \<Rightarrow> [] | Some m \<Rightarrow> m"
    have "cm = prune (mr_max_cache r) (dict_set i t ?m)"
      using st c by (auto simp: category_stamps_def mark_processed_def prune_if_needed_def m map_of_dict_set Let_def)
    moreover have "distinct (map fst ?m)" "\<forall>(j, u) \<in> set ?m. u < t" 
      using assms(3) c by (cases "map_of (mr_categories r) c"; force)+
    ultimately show ?thesis by (simp only: marked_stays not_False_eq_True)
  qed
  ultimately show ?thesis by (auto simp: is_processed_def Let_def split: option.split)
qed

theorem registry_bounded_witness: "length (mr_processed (fold registry_do [Mark 1 ''a'' None, Mark 2 ''b'' None, Mark 3 ''c'' None]
    (new_msg_registry 2 60 0))) \<le> 2"
proof -
  have "fl (3 / 4) = 3 / 4" by (rule fl_exact [where m = 3 and k = "- 2"]) (simp_all add: power_int_def power2_eq_square)
  moreover have "fl (3 / 4) \<le> fl (4 / 5)" by (rule fl_mono) simp
  ultimately have "fl (3 / 2) \<le> fl (2 * fl (4 / 5))" by (intro fl_mono) simp
  moreover have "fl (3 / 2) = 3 / 2" by (rule fl_exact [where m = 3 and k = "- 1"]) (simp_all add: power_int_def)
  moreover have "fl 2 = 2" using fl_of_int [of 2] by simp
  ultimately have "1 \<le> \<lfloor>fl (2 * fl (4 / 5))\<rfloor>" "\<not> fl (2 * fl (4 / 5)) < 0" by (simp_all add: le_floor_iff)
  then have "keep_count 2 \<noteq> 0" using \<open>fl 2 = 2\<close> by (simp add: keep_count_def fmul_def py_trunc_def)
  then show ?thesis using registry_bounded [of 2 "[Mark 1 ''a'' None, Mark 2 ''b'' None, Mark 3 ''c'' None]" 60 0] by simp
qed

theorem registry_of_one_grows_witness:
  "length (mr_processed (fold (\<lambda>(i, t). mark_processed t i None) [(''a'', 1), (''b'', 2), (''c'', 3)] (new_msg_registry 1 60 0))) = 3"
  using registry_of_one_grows [of "[(''a'', 1), (''b'', 2), (''c'', 3)]"] by simp

theorem marked_is_recognised_witness:
  "fst (is_processed 1 ''m1'' (Some ''vil'') (mark_processed 1 ''m1'' (Some ''vil'') (new_msg_registry 10 60 1)))"
  by (rule marked_is_recognised) (simp_all add: new_msg_registry_def)

end
