(* ===== verification/Loop_Prevention.thy ===== *)
theory Loop_Prevention
  imports Loop_Registry "HOL-Library.List_Lexorder" "HOL-Library.Char_ord" "HOL-Library.Sublist"
begin

text \<open>
  The loop prevention in front of the routers (\<^verbatim>\<open>Utils/message_loop_prevention\<close>: \<^verbatim>\<open>config.py\<close>, the extraction
  of \<^verbatim>\<open>identifier.py\<close>, \<^verbatim>\<open>prevention.py\<close> and \<^verbatim>\<open>middleware.py\<close>) for messages that are dictionaries.
  The fingerprint of a message (a digest with a random fallback), the random transaction identifier and the table of
  command names are arguments. The clock does not advance inside one call.
\<close>

section \<open>Configuration\<close>

text \<open>
  The top-level settings are the instance's own; the groups of services and categories are shared with the module's
  defaults, which the instance copies shallowly.
\<close>

record loop_config =
  cf_top :: pydict
  cf_services :: "(string \<times> pydict) list"
  cf_categories :: "(string \<times> pydict) list"

definition settings :: "int \<Rightarrow> rat \<Rightarrow> pydict" where
  "settings n e = [(''enabled'', PBool True), (''max_tracked_messages'', PInt n), (''expiration_time'', PFloat e)]"

definition DEFAULT_CONFIG :: loop_config where
  "DEFAULT_CONFIG =
     \<lparr>cf_top = [(''enabled'', PBool True), (''log_level'', PStr ''warning''), (''max_tracked_messages'', PInt 1000),
                (''expiration_time'', PFloat 60)],
      cf_services = [(''vil_handler'', settings 500 30), (''vil_response_service'', settings 500 30),
                     (''precipitation_handler'', settings 500 30), (''unified_router'', settings 1000 60)],
      cf_categories = [(''vil'', settings 500 30), (''precipitation'', settings 500 30), (''mode_change'', settings 200 20)]\<rparr>"

definition merge :: "pydict \<Rightarrow> pydict \<Rightarrow> pydict" where
  "merge new old = fold (\<lambda>(k, v). dict_set k v) new old"

text \<open>The groups are updated entry by entry; an entry that is no dictionary ends the update with an error.\<close>

fun update_group :: "pydict \<Rightarrow> (string \<times> pydict) list \<Rightarrow> pyerr option \<times> (string \<times> pydict) list" where
  "update_group [] g = (None, g)"
| "update_group ((name, v) # entries) g =
     (let old = (case map_of g name of None \<Rightarrow> [] | Some d \<Rightarrow> d) in
      case v of
        PDict d \<Rightarrow> update_group entries (dict_set name (merge d old) g)
      | _ \<Rightarrow> (Some AttributeError, dict_set name old g))"

definition update_group_key :: "string \<Rightarrow> pydict \<Rightarrow> (string \<times> pydict) list \<Rightarrow> pyerr option \<times> (string \<times> pydict) list" where
  "update_group_key k config g =
     (case map_of config k of
        None \<Rightarrow> (None, g)
      | Some (PDict entries) \<Rightarrow> update_group entries g
      | Some _ \<Rightarrow> (Some AttributeError, g))"

definition update_config :: "pydict \<Rightarrow> loop_config \<Rightarrow> pyerr option \<times> loop_config" where
  "update_config config c0 =
     (let c = c0\<lparr>cf_top := fold (\<lambda>k top. case map_of config k of None \<Rightarrow> top | Some v \<Rightarrow> dict_set k v top)
            [''enabled'', ''log_level'', ''max_tracked_messages'', ''expiration_time''] (cf_top c0)\<rparr>
      in case update_group_key ''services'' config (cf_services c) of
           (Some e, g) \<Rightarrow> (Some e, c\<lparr>cf_services := g\<rparr>)
         | (None, g) \<Rightarrow>
             (case update_group_key ''categories'' config (cf_categories c) of
                (e, h) \<Rightarrow> (e, c\<lparr>cf_services := g, cf_categories := h\<rparr>)))"

definition group_config :: "string \<Rightarrow> (string \<times> pydict) list \<Rightarrow> loop_config \<Rightarrow> pydict" where
  "group_config name g c =
     (let config = [(''enabled'', dict_get (cf_top c) ''enabled'' PNone),
                    (''max_tracked_messages'', dict_get (cf_top c) ''max_tracked_messages'' PNone),
                    (''expiration_time'', dict_get (cf_top c) ''expiration_time'' PNone)]
      in case map_of g name of None \<Rightarrow> config | Some d \<Rightarrow> merge d config)"

definition get_service_config :: "string \<Rightarrow> loop_config \<Rightarrow> pydict" where
  "get_service_config name c = group_config name (cf_services c) c"

definition get_category_config :: "string \<Rightarrow> loop_config \<Rightarrow> pydict" where
  "get_category_config name c = group_config name (cf_categories c) c"

definition group_enabled :: "string \<Rightarrow> (string \<times> pydict) list \<Rightarrow> loop_config \<Rightarrow> bool" where
  "group_enabled name g c =
     (if \<not> truthy (dict_get (cf_top c) ''enabled'' PNone) then False
      else case map_of g name of None \<Rightarrow> True | Some d \<Rightarrow> truthy (dict_get d ''enabled'' (PBool True)))"

definition is_service_enabled :: "string \<Rightarrow> loop_config \<Rightarrow> bool" where
  "is_service_enabled name c = group_enabled name (cf_services c) c"

definition is_category_enabled :: "string \<Rightarrow> loop_config \<Rightarrow> bool" where
  "is_category_enabled name c = group_enabled name (cf_categories c) c"

section \<open>Reading a message\<close>

text \<open>\<^verbatim>\<open>str(v)\<close>; the texts of floats and containers are not modelled.\<close>

definition py_str :: "pyval \<Rightarrow> string pyres" where
  "py_str v = (case v of
     PNone \<Rightarrow> Inr ''None'' | PBool b \<Rightarrow> Inr (if b then ''True'' else ''False'') | PInt i \<Rightarrow> Inr (py_str_int i)
   | PStr s \<Rightarrow> Inr s | _ \<Rightarrow> Inl Unmodelled)"

text \<open>A value one level down; when the outer value is no dictionary the extractor raises and is skipped.\<close>

definition nested :: "pydict \<Rightarrow> string \<Rightarrow> string \<Rightarrow> pyval" where
  "nested m outer inner = (case dict_get m outer (PDict []) of PDict d \<Rightarrow> dict_get d inner PNone | _ \<Rightarrow> PNone)"

definition first_true :: "pyval list \<Rightarrow> pyval option" where "first_true vs = List.find truthy vs"

definition type_locations :: "pydict \<Rightarrow> pyval list" where
  "type_locations m = [dict_get m ''message_type'' PNone, nested m ''metadata'' ''message_type'',
     nested m ''additional_info'' ''message_type'', dict_get m ''command_type'' PNone]"

text \<open>The identifier's message type, as it is.\<close>

definition id_message_type :: "pydict \<Rightarrow> string pyres" where
  "id_message_type m = (case first_true (type_locations m) of None \<Rightarrow> Inr ''unknown_type'' | Some v \<Rightarrow> py_str v)"

text \<open>The prevention's message type: the names of the weather radar's messages are normalised.\<close>

definition normalise_type :: "string \<Rightarrow> string" where
  "normalise_type s =
     (let l = lower s in
      if sublist ''weather_radar'' l then
        if sublist ''completion'' l \<or> sublist ''complete'' l then
          (if sublist ''mode'' l \<or> sublist ''mode_change'' l then ''weather_radarModeChangeCompletion'' else s)
        else if sublist ''command'' l then ''weather_radarCommand''
        else if sublist ''status'' l then ''weather_radarStatus''
        else s
      else s)"

definition extract_message_type :: "pydict \<Rightarrow> string pyres" where
  "extract_message_type m =
     (case first_true (type_locations m) of
        None \<Rightarrow> Inr ''unknown_type''
      | Some v \<Rightarrow> py_bind (py_str v) (\<lambda>s. Inr (normalise_type s)))"

definition extract_request_id :: "pydict \<Rightarrow> string option pyres" where
  "extract_request_id m =
     (case first_true [dict_get m ''request_id'' PNone, nested m ''metadata'' ''request_id'',
             nested m ''additional_info'' ''request_id'', dict_get m ''id'' PNone, dict_get m ''transaction_id'' PNone,
             nested m ''metadata'' ''transaction_id''] of
        None \<Rightarrow> Inr None
      | Some v \<Rightarrow> py_bind (py_str v) (\<lambda>s. Inr (Some s)))"

definition is_status_or_completion :: "pydict \<Rightarrow> string \<Rightarrow> bool pyres" where
  "is_status_or_completion m message_type =
     (let l = lower message_type;
          by_metadata = (case dict_get m ''metadata'' (PDict []) of
             PDict d \<Rightarrow> truthy (dict_get d ''is_transfer_complete'' PNone) \<or> truthy (dict_get d ''completion_message'' PNone)
           | _ \<Rightarrow> False)
      in if sublist ''statusword'' l \<or> sublist ''status_word'' l \<or> sublist ''completion'' l \<or> sublist ''complete'' l
         then Inr True
         else
           let v = dict_get m ''command_type'' PNone in
           if truthy v then
             py_bind (py_str v) (\<lambda>s. let c = lower s in
               Inr (sublist ''status'' c \<or> sublist ''completion'' c \<or> sublist ''complete'' c \<or> by_metadata))
           else Inr by_metadata)"

section \<open>Categories\<close>

text \<open>
  The longest category that occurs in the text, ties to the alphabetically first, by a scan of the categories in
  whatever order the set gives them.
\<close>

definition better :: "string \<Rightarrow> string option \<Rightarrow> bool" where
  "better category best =
     (case best of None \<Rightarrow> True | Some b \<Rightarrow> length b < length category \<or> (length b = length category \<and> category < b))"

definition best_category_match :: "string list \<Rightarrow> string \<Rightarrow> string option" where
  "best_category_match categories haystack =
     fold (\<lambda>category best. if sublist category haystack \<and> better category best then Some category else best) categories None"

text \<open>\<^verbatim>\<open>s.split('_')\<close>\<close>

fun split_underscore :: "string \<Rightarrow> string list" where
  "split_underscore [] = [[]]"
| "split_underscore (c # cs) =
     (if c = CHR ''_'' then [] # split_underscore cs
      else case split_underscore cs of w # ws \<Rightarrow> (c # w) # ws | [] \<Rightarrow> [[c]])"

text \<open>The category by the table of command names: the first part of a matching name that is a category.\<close>

fun command_category :: "(string \<times> pyval) list \<Rightarrow> string list \<Rightarrow> string \<Rightarrow> string option" where
  "command_category [] cats mt = None"
| "command_category ((cmd_name, info) # names) cats mt =
     (case info of
        PDict d \<Rightarrow>
          if dict_get d ''message_type'' PNone = PStr mt then
            (case List.find (\<lambda>part. part \<in> set cats) (split_underscore (lower cmd_name)) of
               Some part \<Rightarrow> Some part
             | None \<Rightarrow> command_category names cats mt)
          else command_category names cats mt
      | _ \<Rightarrow> command_category names cats mt)"

definition extract_category :: "(string \<times> pyval) list \<Rightarrow> string list \<Rightarrow> pydict \<Rightarrow> string pyres" where
  "extract_category command_names cats m =
     py_bind (id_message_type m) (\<lambda>mt.
       case command_category command_names cats mt of
         Some c \<Rightarrow> Inr c
       | None \<Rightarrow>
           (case best_category_match cats (lower mt) of
              Some c \<Rightarrow> if c \<noteq> [] then Inr c else Inr mt
            | None \<Rightarrow>
                let v = dict_get m ''command_type'' PNone in
                if truthy v then
                  py_bind (py_str v) (\<lambda>s.
                    case best_category_match cats (lower s) of Some c \<Rightarrow> Inr (if c \<noteq> [] then c else mt) | None \<Rightarrow> Inr mt)
                else Inr mt))"

section \<open>The service\<close>

record loop_stats =
  ls_loops_detected :: nat
  ls_messages_processed :: nat
  ls_by_category :: "(string \<times> nat) list"
  ls_duplicates :: "nat option"

record loop_prevention =
  lp_registry :: msg_registry
  lp_tracking :: tracking
  lp_config :: loop_config
  lp_command_names :: "(string \<times> pyval) list"
  lp_categories :: "string list"
  lp_category_metadata :: "(string \<times> pyval \<times> pyval \<times> pyval) list"
  lp_stats :: loop_stats

definition COMMON_CATEGORIES :: "string list" where
  "COMMON_CATEGORIES =
     [''vil'', ''precipitation'', ''turbulence'', ''windshear'', ''echo_top'', ''shear'',
      ''weather_radar'', ''tfr_radar'', ''sar_radar'', ''targeting_radar'', ''aewc_radar'',
      ''mode_change'', ''status'', ''command'', ''configuration'', ''data'', ''maintenance'',
      ''initialization'', ''shutdown'', ''error'', ''alert'', ''heartbeat'', ''update'',
      ''acknowledgment'', ''diagnostic'', ''log'', ''display'', ''mfd'', ''radar_display'',
      ''attitude'', ''velocity'', ''tactical'', ''maneuver'', ''fms'', ''flightManagementSystem'', ''flight_management'',
      ''navigation'', ''targeting'', ''communication'']"

definition new_stats :: loop_stats where
  "new_stats = \<lparr>ls_loops_detected = 0, ls_messages_processed = 0, ls_by_category = [], ls_duplicates = Some 0\<rparr>"

text \<open>The names of the radar display modes and the table of command names are those of the local messaging.\<close>

definition new_loop_prevention :: "(string \<times> pyval) list \<Rightarrow> string list \<Rightarrow> rat \<Rightarrow> loop_prevention" where
  "new_loop_prevention command_names mode_names t =
     \<lparr>lp_registry = new_msg_registry 10000 3600 t, lp_tracking = new_tracking 3600 t, lp_config = DEFAULT_CONFIG,
      lp_command_names = command_names, lp_categories = COMMON_CATEGORIES @ map lower mode_names,
      lp_category_metadata = [], lp_stats = new_stats\<rparr>"

text \<open>
  The processing metadata. The copy of the message is shallow: when the message has metadata, the copy shares it and
  the original is changed as well. The result is the copy and the original after the call.
\<close>

definition add_processing_metadata :: "rat \<Rightarrow> string \<Rightarrow> pydict \<Rightarrow> string \<Rightarrow> (pydict \<times> pydict) pyres" where
  "add_processing_metadata t uuid m service_name =
     (case dict_get m ''metadata'' (PDict []) of
        PDict d \<Rightarrow>
          let d = dict_set ''_processing_timestamp'' (PFloat t) (dict_set (''_processed_by_'' @ service_name) (PBool True) d);
              d = (if has_key d ''transaction_id'' then d else dict_set ''transaction_id'' (PStr uuid) d);
              enhanced = dict_set ''metadata'' (PDict d) m
          in Inr (enhanced, if has_key m ''metadata'' then enhanced else m)
      | _ \<Rightarrow> Inl TypeError)"

definition count_loop :: "loop_prevention \<Rightarrow> loop_prevention" where
  "count_loop s = s\<lparr>lp_stats := (lp_stats s)\<lparr>ls_loops_detected := ls_loops_detected (lp_stats s) + 1\<rparr>\<rparr>"

text \<open>A duplicate: the loop is counted first, then the duplicate, whose counter may be missing.\<close>

definition refuse_duplicate :: "pydict \<Rightarrow> loop_prevention \<Rightarrow> (bool \<times> pydict \<times> pydict) pyres \<times> loop_prevention" where
  "refuse_duplicate m s0 =
     (let s = count_loop s0 in
      case ls_duplicates (lp_stats s) of
        None \<Rightarrow> (Inl KeyError, s)
      | Some n \<Rightarrow> (Inr (False, m, m), s\<lparr>lp_stats := (lp_stats s)\<lparr>ls_duplicates := Some (n + 1)\<rparr>\<rparr>))"

text \<open>The registry's check of the fingerprint, and the bookkeeping of a message that passes.\<close>

definition check_registry ::
  "rat \<Rightarrow> string \<Rightarrow> string \<Rightarrow> string \<Rightarrow> string \<Rightarrow> pydict \<Rightarrow> loop_prevention \<Rightarrow> (bool \<times> pydict \<times> pydict) pyres \<times> loop_prevention" where
  "check_registry t uuid message_id category service_name m s0 =
     (let (seen, r) = is_processed t message_id (Some category) (lp_registry s0);
          s = s0\<lparr>lp_registry := r\<rparr>
      in if seen then (Inr (False, m, m), count_loop s)
         else
           let st = lp_stats s;
               n = (case map_of (ls_by_category st) category of None \<Rightarrow> 0 | Some n \<Rightarrow> n);
               s = s\<lparr>lp_registry := mark_processed t message_id (Some category) r,
                     lp_stats := st\<lparr>ls_messages_processed := ls_messages_processed st + 1,
                                    ls_by_category := dict_set category (n + 1) (ls_by_category st)\<rparr>\<rparr>
           in (py_bind (add_processing_metadata t uuid m service_name) (\<lambda>(e, orig). Inr (True, e, orig)), s))"

definition process_message ::
  "rat \<Rightarrow> string \<Rightarrow> string \<Rightarrow> pydict \<Rightarrow> string \<Rightarrow> loop_prevention \<Rightarrow> (bool \<times> pydict \<times> pydict) pyres \<times> loop_prevention" where
  "process_message t uuid message_id m service_name s =
     (if \<not> is_service_enabled service_name (lp_config s) then (Inr (True, m, m), s)
      else
        case (extract_request_id m, extract_message_type m, extract_category (lp_command_names s) (lp_categories s) m) of
          (Inl e, _, _) \<Rightarrow> (Inl e, s)
        | (_, Inl e, _) \<Rightarrow> (Inl e, s)
        | (_, _, Inl e) \<Rightarrow> (Inl e, s)
        | (Inr request_id, Inr message_type, Inr category) \<Rightarrow>
            if \<not> is_category_enabled category (lp_config s) then (Inr (True, m, m), s)
            else
              case request_id of
                None \<Rightarrow> check_registry t uuid message_id category service_name m s
              | Some rid \<Rightarrow>
                  if rid = [] \<or> message_type = [] then check_registry t uuid message_id category service_name m s
                  else
                    case is_status_or_completion m message_type of
                      Inl e \<Rightarrow> (Inl e, s)
                    | Inr exempt \<Rightarrow>
                        let (seen, k) = has_seen_message t rid message_type (lp_tracking s);
                            s = s\<lparr>lp_tracking := k\<rparr>
                        in if seen \<and> \<not> exempt then refuse_duplicate m s
                           else check_registry t uuid message_id category service_name m
                                  (s\<lparr>lp_tracking := snd (record_message t rid message_type k)\<rparr>))"

definition register_category :: "string \<Rightarrow> pyval \<Rightarrow> pyval \<Rightarrow> pyval \<Rightarrow> loop_prevention \<Rightarrow> string \<times> loop_prevention" where
  "register_category category category_type priority max_simultaneous s =
     (let name = lower category in
      (name, s\<lparr>lp_categories := (if name \<in> set (lp_categories s) then lp_categories s else lp_categories s @ [name]),
               lp_category_metadata := dict_set name (category_type, priority, max_simultaneous) (lp_category_metadata s)\<rparr>))"

definition clear_registry :: "string option \<Rightarrow> loop_prevention \<Rightarrow> loop_prevention" where
  "clear_registry category s = s\<lparr>lp_registry := registry_clear category (lp_registry s)\<rparr>"

definition reset_stats :: "loop_prevention \<Rightarrow> loop_prevention" where
  "reset_stats s = s\<lparr>lp_stats := \<lparr>ls_loops_detected = 0, ls_messages_processed = 0, ls_by_category = [],
     ls_duplicates = None\<rparr>\<rparr>"

section \<open>The middleware\<close>

record middleware =
  mw_prevention :: loop_prevention
  mw_config :: pydict

definition new_middleware :: "loop_prevention \<Rightarrow> middleware" where
  "new_middleware s = \<lparr>mw_prevention = s, mw_config = [(''enabled'', PBool True), (''log_level'', PStr ''warning''),
     (''max_tracked_messages'', PInt 1000), (''expiration_time'', PFloat 60)]\<rparr>"

definition mw_process_message ::
  "rat \<Rightarrow> string \<Rightarrow> string \<Rightarrow> pydict \<Rightarrow> string \<Rightarrow> middleware \<Rightarrow> (bool \<times> pydict \<times> pydict) pyres \<times> middleware" where
  "mw_process_message t uuid message_id m service_name w =
     (if \<not> truthy (dict_get (mw_config w) ''enabled'' PNone) then (Inr (True, m, m), w)
      else (case process_message t uuid message_id m service_name (mw_prevention w) of
              (r, s) \<Rightarrow> (r, w\<lparr>mw_prevention := s\<rparr>)))"

definition mw_configure :: "pydict \<Rightarrow> middleware \<Rightarrow> middleware" where
  "mw_configure config w = w\<lparr>mw_config := merge config (mw_config w)\<rparr>"

definition mw_set_enabled :: "bool \<Rightarrow> middleware \<Rightarrow> middleware" where
  "mw_set_enabled b w = w\<lparr>mw_config := dict_set ''enabled'' (PBool b) (mw_config w)\<rparr>"

section \<open>The category does not depend on the order of the set\<close>

definition beats :: "string \<Rightarrow> string \<Rightarrow> bool" where
  "beats a b \<longleftrightarrow> length b < length a \<or> (length b = length a \<and> a < b)"

lemma beats_order: "beats a b \<Longrightarrow> beats b c \<Longrightarrow> beats a c" "\<not> (beats a b \<and> beats b a)" "a = b \<or> beats a b \<or> beats b a"
  by (auto simp: beats_def)

definition best_of :: "string set \<Rightarrow> string option \<Rightarrow> bool" where
  "best_of C b = (case b of None \<Rightarrow> C = {} | Some a \<Rightarrow> a \<in> C \<and> (\<forall>c \<in> C. c = a \<or> beats a c))"

lemma best_of_unique: "best_of C a \<Longrightarrow> best_of C b \<Longrightarrow> a = b"
  unfolding best_of_def by (cases a; cases b) (simp_all, metis beats_order(2))

lemma better_eq: "better c b = (case b of None \<Rightarrow> True | Some a \<Rightarrow> beats c a)"
  by (simp add: better_def beats_def split: option.split)

lemma best_of_insert: "best_of C b \<Longrightarrow> best_of (insert c C) (if better c b then Some c else b)"
proof (cases b)
  case (Some a)
  assume "best_of C b"
  then show ?thesis using beats_order(1) [of c a] beats_order(3) [of c a] by (auto simp: Some best_of_def better_eq)
qed (simp add: best_of_def better_eq)

lemma best_category_best: "best_of {c \<in> set cs. sublist c h} (best_category_match cs h)"
proof -
  let ?f = "\<lambda>category best. if sublist category h \<and> better category best then Some category else best"
  have "best_of C b \<Longrightarrow> best_of (C \<union> {c \<in> set cs. sublist c h}) (fold ?f cs b)" for C b
  proof (induction cs arbitrary: C b)
    case (Cons c cs)
    show ?case
    proof (cases "sublist c h")
      case True
      then have "{x \<in> set (c # cs). sublist x h} = insert c {x \<in> set cs. sublist x h}" by auto
      then show ?thesis using Cons.IH [OF best_of_insert [OF Cons.prems], of c] True by simp
    next
      case False
      then have "{x \<in> set (c # cs). sublist x h} = {x \<in> set cs. sublist x h}" by auto
      then show ?thesis using Cons.IH [OF Cons.prems] False by simp
    qed
  qed simp
  from this [of "{}" None] show ?thesis by (simp add: best_of_def best_category_match_def)
qed

section \<open>What a call keeps\<close>

lemma check_registry_keeps:
  "lp_tracking (snd (check_registry t u i c v m s)) = lp_tracking s"
  "lp_config (snd (check_registry t u i c v m s)) = lp_config s"
  "lp_command_names (snd (check_registry t u i c v m s)) = lp_command_names s"
  "lp_categories (snd (check_registry t u i c v m s)) = lp_categories s"
  "ls_duplicates (lp_stats (snd (check_registry t u i c v m s))) = ls_duplicates (lp_stats s)"
  by (simp_all add: check_registry_def count_loop_def split_beta Let_def)

lemma refuse_duplicate_keeps:
  "lp_tracking (snd (refuse_duplicate m s)) = lp_tracking s"
  "lp_config (snd (refuse_duplicate m s)) = lp_config s"
  "lp_command_names (snd (refuse_duplicate m s)) = lp_command_names s"
  "lp_categories (snd (refuse_duplicate m s)) = lp_categories s"
  "ls_duplicates (lp_stats (snd (refuse_duplicate m s))) = None \<longleftrightarrow> ls_duplicates (lp_stats s) = None"
  by (simp_all add: refuse_duplicate_def count_loop_def Let_def split: option.split)

lemmas call_keeps = check_registry_keeps refuse_duplicate_keeps

text \<open>The state of the tracking library after a call: untouched, cleaned up, or cleaned up and a message recorded.\<close>

lemma process_tracking:
  "lp_tracking (snd (process_message t u i m v s)) \<in>
     {lp_tracking s, tk_cleanup_if_needed t (lp_tracking s)} \<union>
     {snd (record_message t rid mt (tk_cleanup_if_needed t (lp_tracking s))) | rid mt. True}"
  by (auto simp: process_message_def has_seen_eq call_keeps Let_def split: sum.split option.split)

lemma process_keeps:
  "lp_config (snd (process_message t u i m v s)) = lp_config s"
  "lp_command_names (snd (process_message t u i m v s)) = lp_command_names s"
  "lp_categories (snd (process_message t u i m v s)) = lp_categories s"
  "ls_duplicates (lp_stats (snd (process_message t u i m v s))) = None \<longleftrightarrow> ls_duplicates (lp_stats s) = None"
  by (auto simp: process_message_def has_seen_eq call_keeps Let_def split: sum.split option.split)

lemma record_keeps_expiration: "tk_expiration (snd (record_message t rid mt k)) = tk_expiration k"
  by (simp add: record_message_def Let_def)

lemma process_expiration: "tk_expiration (lp_tracking (snd (process_message t u i m v s))) = tk_expiration (lp_tracking s)"
  using process_tracking [of t u i m v s] by (auto simp: tk_cleanup_keeps record_keeps_expiration)

lemma process_held:
  assumes "held t0 key (lp_tracking s)" "t0 \<le> t" "fsub t (tk_expiration (lp_tracking s)) \<le> t0"
  shows "held t0 key (lp_tracking (snd (process_message t u i m v s)))"
  using process_tracking [of t u i m v s] held_cleanup [OF assms(1,3)] assms(1,2) by (auto intro: held_record)

lemma dec_str_nonempty: "dec_str n \<noteq> []"
  by (subst dec_str.simps) simp

lemma py_str_nonempty: "truthy v \<Longrightarrow> py_str v = Inr s \<Longrightarrow> s \<noteq> []"
  by (cases v) (auto simp: py_str_def py_str_int_def dec_str_nonempty split: if_splits)

lemma first_true_truthy: "first_true vs = Some v \<Longrightarrow> truthy v"
  by (auto simp: first_true_def find_Some_iff)

lemma normalise_nonempty: "s \<noteq> [] \<Longrightarrow> normalise_type s \<noteq> []"
  by (simp add: normalise_type_def Let_def)

lemma request_id_nonempty: "extract_request_id m = Inr (Some rid) \<Longrightarrow> rid \<noteq> []"
  using first_true_truthy py_str_nonempty
  by (fastforce simp: extract_request_id_def py_bind_eq_Inr split: option.splits)

lemma message_type_nonempty: "extract_message_type m = Inr mt \<Longrightarrow> mt \<noteq> []"
  using first_true_truthy py_str_nonempty normalise_nonempty
  by (fastforce simp: extract_message_type_def py_bind_eq_Inr split: option.splits)

definition guarded :: "pydict \<Rightarrow> string \<Rightarrow> loop_prevention \<Rightarrow> bool" where
  "guarded m service_name s \<longleftrightarrow> is_service_enabled service_name (lp_config s) \<and>
     (\<exists>c. extract_category (lp_command_names s) (lp_categories s) m = Inr c \<and> is_category_enabled c (lp_config s))"

lemma process_guarded:
  assumes "guarded m v s" "extract_request_id m = Inr (Some rid)" "extract_message_type m = Inr mt"
    "is_status_or_completion m mt = Inr exempt"
  shows "\<exists>c. process_message t u i m v s =
    (let k = tk_cleanup_if_needed t (lp_tracking s)
     in if tk_seen (rid, mt) k \<and> \<not> exempt then refuse_duplicate m (s\<lparr>lp_tracking := k\<rparr>)
        else check_registry t u i c v m (s\<lparr>lp_tracking := snd (record_message t rid mt k)\<rparr>))"
  using assms request_id_nonempty [OF assms(2)] message_type_nonempty [OF assms(3)]
  by (auto simp: process_message_def guarded_def has_seen_eq Let_def)

lemma duplicate_refused:
  assumes "guarded m v s" "extract_request_id m = Inr (Some rid)" "extract_message_type m = Inr mt"
    "is_status_or_completion m mt = Inr False" "held t0 (rid, mt) (lp_tracking s)"
    "fsub t (tk_expiration (lp_tracking s)) \<le> t0"
  shows "process_message t u i m v s = refuse_duplicate m (s\<lparr>lp_tracking := tk_cleanup_if_needed t (lp_tracking s)\<rparr>)"
  using process_guarded [OF assms(1-4), of t u i] held_cleanup [OF assms(5,6)] by (auto simp: held_def Let_def)

lemma refuse_result:
  "fst (refuse_duplicate m s) = (if ls_duplicates (lp_stats s) = None then Inl KeyError else Inr (False, m, m))"
  by (auto simp: refuse_duplicate_def count_loop_def Let_def split: option.split)

lemma passed_held:
  assumes "guarded m v s" "extract_request_id m = Inr (Some rid)" "extract_message_type m = Inr mt"
    "is_status_or_completion m mt = Inr exempt" "fst (process_message t u i m v s) = Inr (True, e, o')"
    "distinct (map fst (tk_stamps (lp_tracking s)))"
  shows "held t (rid, mt) (lp_tracking (snd (process_message t u i m v s)))"
proof -
  let ?k = "tk_cleanup_if_needed t (lp_tracking s)"
  have h: "held t (rid, mt) (snd (record_message t rid mt ?k))"
    by (rule record_held [OF request_id_nonempty [OF assms(2)] stamps_distinct(1) [OF assms(6)]])
  from process_guarded [OF assms(1-4), of t u i] obtain c where
    "process_message t u i m v s = (if tk_seen (rid, mt) ?k \<and> \<not> exempt then refuse_duplicate m (s\<lparr>lp_tracking := ?k\<rparr>)
       else check_registry t u i c v m (s\<lparr>lp_tracking := snd (record_message t rid mt ?k)\<rparr>))"
    by (auto simp: Let_def)
  then show ?thesis using assms(5) h by (auto simp: call_keeps refuse_result split: if_splits)
qed

text \<open>
  What the service may be asked between the two arrivals of a message: to process any message of any service, with its
  time and fingerprint, to register a category, to clear the registry, to reset the statistics.
\<close>

datatype service_event =
    Message rat string string pydict string
  | Category string pyval pyval pyval
  | Clear "string option"
  | Reset

fun service_step :: "service_event \<Rightarrow> loop_prevention \<Rightarrow> loop_prevention" where
  "service_step (Message t u i m v) s = snd (process_message t u i m v s)"
| "service_step (Category c ty pr n) s = snd (register_category c ty pr n s)"
| "service_step (Clear c) s = clear_registry c s"
| "service_step Reset s = reset_stats s"

text \<open>An event while an identifier stamped at \<open>t0\<close> has not expired.\<close>

fun in_time :: "rat \<Rightarrow> rat \<Rightarrow> service_event \<Rightarrow> bool" where
  "in_time t0 expiration (Message t _ _ _ _) \<longleftrightarrow> t0 \<le> t \<and> fsub t expiration \<le> t0"
| "in_time t0 expiration _ \<longleftrightarrow> True"

lemma step_keeps:
  "tk_expiration (lp_tracking (service_step e s)) = tk_expiration (lp_tracking s)"
  "ls_duplicates (lp_stats (service_step e s)) = None \<longleftrightarrow> e = Reset \<or> ls_duplicates (lp_stats s) = None"
  by (cases e; simp add: process_expiration process_keeps register_category_def clear_registry_def reset_stats_def Let_def)+

lemma step_held:
  "held t0 key (lp_tracking s) \<Longrightarrow> in_time t0 (tk_expiration (lp_tracking s)) e \<Longrightarrow> held t0 key (lp_tracking (service_step e s))"
  by (cases e) (simp_all add: process_held register_category_def clear_registry_def reset_stats_def Let_def)

lemma steps_keep:
  "tk_expiration (lp_tracking (fold service_step es s)) = tk_expiration (lp_tracking s)"
  "ls_duplicates (lp_stats (fold service_step es s)) = None \<longleftrightarrow> Reset \<in> set es \<or> ls_duplicates (lp_stats s) = None"
  by (induction es arbitrary: s) (auto simp: step_keeps)

lemma steps_held:
  "held t0 key (lp_tracking s) \<Longrightarrow> \<forall>e \<in> set es. in_time t0 (tk_expiration (lp_tracking s)) e \<Longrightarrow>
   held t0 key (lp_tracking (fold service_step es s))"
  by (induction es arbitrary: s) (auto simp: step_keeps step_held)

section \<open>Properties\<close>

text \<open>
  C19. Loops are broken: after a message passed, a message with the same request identifier and message type that is
  no status or completion message does not pass again until the identifier expires, whatever service it comes from and
  whatever the service was asked in between: messages processed, categories registered, the registry cleared, the
  statistics reset. It is refused, or, when the statistics were reset, raises a key error. Both messages are
  dictionaries and the loop prevention of their service and category is enabled when they arrive.
\<close>

theorem loop_broken:
  assumes "extract_request_id m = Inr (Some rid)" "extract_message_type m = Inr mt"
    "extract_request_id m2 = Inr (Some rid)" "extract_message_type m2 = Inr mt"
    "is_status_or_completion m mt = Inr False" "is_status_or_completion m2 mt = Inr False"
    "distinct (map fst (tk_stamps (lp_tracking s)))" "ls_duplicates (lp_stats s) \<noteq> None"
    "guarded m v s" "process_message t0 u i m v s = (Inr (True, e, o'), s1)"
    "\<forall>ev \<in> set events. in_time t0 (tk_expiration (lp_tracking s)) ev"
    "guarded m2 v2 (fold service_step events s1)" "fsub t (tk_expiration (lp_tracking s)) \<le> t0"
  shows "fst (process_message t u2 i2 m2 v2 (fold service_step events s1)) =
    (if Reset \<in> set events then Inl KeyError else Inr (False, m2, m2))"
proof -
  have s1: "s1 = service_step (Message t0 u i m v) s" using assms(10) by simp
  have k: "tk_expiration (lp_tracking s1) = tk_expiration (lp_tracking s)" "ls_duplicates (lp_stats s1) \<noteq> None"
    using assms(8) unfolding s1 by (simp_all only: step_keeps) simp
  have "held t0 (rid, mt) (lp_tracking s1)"
    using passed_held [OF assms(9,1,2,5), of t0 u i e o'] assms(7,10) by simp
  then have h: "held t0 (rid, mt) (lp_tracking (fold service_step events s1))"
    using assms(11) by (intro steps_held) (simp_all add: k)
  have "fsub t (tk_expiration (lp_tracking (fold service_step events s1))) \<le> t0"
    using assms(13) by (simp add: steps_keep k)
  from duplicate_refused [OF assms(12,3,4,6) h this] show ?thesis
    using k(2) by (auto simp: refuse_result steps_keep)
qed

text \<open>
  Resetting the statistics drops the counter of duplicates: the next duplicate message is not refused but raises
  an exception out of the loop prevention.
\<close>

theorem duplicate_after_reset_raises:
  assumes "extract_request_id m = Inr (Some rid)" "extract_message_type m = Inr mt" "is_status_or_completion m mt = Inr False"
    "guarded m v s" "held t0 (rid, mt) (lp_tracking s)" "fsub t (tk_expiration (lp_tracking s)) \<le> t0"
  shows "fst (process_message t u i m v (reset_stats s)) = Inl KeyError"
proof -
  have "guarded m v (reset_stats s)" "lp_tracking (reset_stats s) = lp_tracking s"
    using assms(4) by (simp_all add: guarded_def reset_stats_def)
  then show ?thesis
    using duplicate_refused [of m v "reset_stats s" rid mt t0 t u i] assms by (simp add: refuse_result reset_stats_def)
qed

text \<open>
  The category found in a text does not depend on the order in which the set of categories is visited: it is the
  longest category that occurs in the text, and the alphabetically first of those.
\<close>

theorem category_independent_of_order:
  assumes "set cs = set ds"
  shows "best_category_match cs h = best_category_match ds h \<and>
    (case best_category_match cs h of
       None \<Rightarrow> \<forall>c \<in> set cs. \<not> sublist c h
     | Some b \<Rightarrow> b \<in> set cs \<and> sublist b h \<and>
         (\<forall>c \<in> set cs. sublist c h \<longrightarrow> length c < length b \<or> (length c = length b \<and> b \<le> c)))"
proof -
  have b: "best_of {c \<in> set cs. sublist c h} (best_category_match cs h)" by (rule best_category_best)
  have "best_of {c \<in> set cs. sublist c h} (best_category_match ds h)" using best_category_best [of ds h] by (simp add: assms)
  with b have "best_category_match cs h = best_category_match ds h" by (rule best_of_unique)
  with b show ?thesis by (auto simp: best_of_def beats_def split: option.splits)
qed

text \<open>
  The metadata of the message that is passed in is modified although the processing flags are meant for a copy:
  the copy is shallow, so a message that has metadata comes back with the flags, and so does the original.
\<close>

theorem original_metadata_modified:
  assumes "process_message t u i m v s = (Inr (True, e, o'), s')" "guarded m v s" "has_key m ''metadata''"
    "extract_request_id m = Inr rid" "extract_message_type m = Inr mt" "is_status_or_completion m mt = Inr exempt"
  shows "o' = e \<and> nested o' ''metadata'' (''_processed_by_'' @ v) = PBool True"
proof -
  have reg: "o' = e \<and> nested o' ''metadata'' (''_processed_by_'' @ v) = PBool True"
    if "fst (check_registry t u i c v m s1) = Inr (True, e, o')" for c s1
    using that assms(3)
    by (auto simp: check_registry_def count_loop_def add_processing_metadata_def py_bind_eq_Inr nested_def split_beta Let_def
      split: if_splits pyval.splits)
  have f: "fst (process_message t u i m v s) = Inr (True, e, o')" using assms(1) by simp
  show ?thesis
  proof (cases rid)
    case None
    then show ?thesis using f assms(2,4,5) reg by (auto simp: process_message_def guarded_def)
  next
    case (Some r)
    then have rid: "extract_request_id m = Inr (Some r)" using assms(4) by simp
    show ?thesis using process_guarded [OF assms(2) rid assms(5,6), of t u i] f reg
      by (auto simp: Let_def refuse_result split: if_splits)
  qed
qed

section \<open>Witnesses\<close>

definition vil_message :: pydict where
  "vil_message = [(''request_id'', PStr ''r1''), (''message_type'', PStr ''vilData''), (''metadata'', PDict [])]"

abbreviation fresh :: loop_prevention where "fresh \<equiv> new_loop_prevention [] [] 0"

lemma default_enabled: "is_category_enabled c DEFAULT_CONFIG" "is_service_enabled c DEFAULT_CONFIG"
  by (simp_all add: is_category_enabled_def is_service_enabled_def group_enabled_def DEFAULT_CONFIG_def settings_def
    dict_get_def)

lemma vil_reads:
  "extract_request_id vil_message = Inr (Some ''r1'')" "id_message_type vil_message = Inr ''vilData''"
  by (simp_all add: extract_request_id_def id_message_type_def type_locations_def first_true_def vil_message_def
    dict_get_def nested_def py_str_def)

lemma vil_type: "extract_message_type vil_message = Inr ''vilData''"
proof -
  have "normalise_type ''vilData'' = ''vilData''" by code_simp
  then show ?thesis
    by (simp add: extract_message_type_def type_locations_def first_true_def vil_message_def dict_get_def py_str_def)
qed

lemma vil_ordinary: "is_status_or_completion vil_message ''vilData'' = Inr False"
  by code_simp

lemma fresh_parts:
  "lp_config fresh = DEFAULT_CONFIG" "lp_tracking fresh = new_tracking 3600 0" "lp_command_names fresh = []"
  "ls_duplicates (lp_stats fresh) = Some 0" "lp_registry fresh = new_msg_registry 10000 3600 0"
  by (simp_all add: new_loop_prevention_def new_stats_def)

lemma vil_guarded: "guarded vil_message v fresh"
proof -
  have "dict_get vil_message ''command_type'' PNone = PNone" by (simp add: vil_message_def dict_get_def)
  then have "\<exists>c. extract_category [] (lp_categories fresh) vil_message = Inr c"
    by (simp add: extract_category_def vil_reads split: option.split)
  then show ?thesis by (simp add: guarded_def fresh_parts default_enabled)
qed

lemma vil_passes: "\<exists>e o' s1. process_message 1 u i vil_message v fresh = (Inr (True, e, o'), s1)"
proof -
  have e: "tk_cleanup_if_needed 1 (new_tracking 3600 0) = new_tracking 3600 0" "fsub 1 0 = 1"
    using fl_of_int [of 1] by (simp_all add: tk_cleanup_if_needed_def new_tracking_def fsub_def)
  have n: "\<not> tk_seen key (new_tracking 3600 0)" for key by (cases key) (simp add: tk_seen_def new_tracking_def)
  have "fst (is_processed 1 i c (new_msg_registry 10000 3600 0)) = False" for c
    by (simp add: is_processed_def cleanup_if_needed_def new_msg_registry_def category_stamps_def e Let_def split: option.split)
  then have "\<exists>e o' s1. check_registry 1 u i c v vil_message (s\<lparr>lp_tracking := k\<rparr>) = (Inr (True, e, o'), s1)"
    if "lp_registry s = new_msg_registry 10000 3600 0" for c k s
    using that by (simp add: check_registry_def add_processing_metadata_def vil_message_def dict_get_def split_beta Let_def)
  then show ?thesis
    using process_guarded [OF vil_guarded vil_reads(1) vil_type vil_ordinary, of 1 u i v] fresh_parts(5)
    by (auto simp: fresh_parts(2) e n Let_def)
qed

lemma guarded_cong:
  "lp_config s' = lp_config s \<Longrightarrow> lp_command_names s' = lp_command_names s \<Longrightarrow> lp_categories s' = lp_categories s \<Longrightarrow>
   guarded m v s' \<longleftrightarrow> guarded m v s"
  by (simp add: guarded_def)

theorem loop_broken_witness:
  "fst (process_message 5 ''u2'' ''i2'' vil_message ''unified_router''
     (fold service_step [Message 2 ''u'' ''j'' [] ''vil_handler'', Clear None]
       (service_step (Message 1 ''u'' ''i'' vil_message ''vil_handler'') fresh)))
     = Inr (False, vil_message, vil_message) \<and>
   fst (process_message 5 ''u2'' ''i2'' vil_message ''unified_router''
     (fold service_step [Reset] (service_step (Message 1 ''u'' ''i'' vil_message ''vil_handler'') fresh)))
     = Inl KeyError"
proof -
  obtain e o' s1 where p: "process_message 1 ''u'' ''i'' vil_message ''vil_handler'' fresh = (Inr (True, e, o'), s1)"
    using vil_passes by blast
  then have s1: "service_step (Message 1 ''u'' ''i'' vil_message ''vil_handler'') fresh = s1" by simp
  have f: "fsub 2 3600 \<le> 1" "fsub 5 3600 \<le> 1"
    using fl_of_int [of "- 3598"] fl_of_int [of "- 3595"] by (simp_all add: fsub_def)
  have g: "guarded vil_message ''unified_router'' (fold service_step es s1)"
    if "es = [Reset] \<or> es = [Message 2 ''u'' ''j'' [] ''vil_handler'', Clear None]" for es
    using that vil_guarded [of "''unified_router''"]
    by (subst guarded_cong [of _ fresh]) (auto simp: process_keeps clear_registry_def reset_stats_def simp flip: s1)
  note b = loop_broken [OF vil_reads(1) vil_type vil_reads(1) vil_type vil_ordinary vil_ordinary _ _ vil_guarded p _ g]
  show ?thesis unfolding s1
    by (rule conjI; subst b) (simp_all add: fresh_parts new_tracking_def f)
qed

theorem duplicate_after_reset_raises_witness:
  "fst (process_message 5 ''u2'' ''i2'' vil_message ''unified_router''
     (reset_stats (service_step (Message 1 ''u'' ''i'' vil_message ''vil_handler'') fresh))) = Inl KeyError"
proof -
  let ?s = "service_step (Message 1 ''u'' ''i'' vil_message ''vil_handler'') fresh"
  obtain e o' s1 where p: "process_message 1 ''u'' ''i'' vil_message ''vil_handler'' fresh = (Inr (True, e, o'), s1)"
    using vil_passes by blast
  have h: "held 1 (''r1'', ''vilData'') (lp_tracking ?s)"
    using passed_held [OF vil_guarded vil_reads(1) vil_type vil_ordinary, of 1 "''u''" "''i''" "''vil_handler''" e o'] p
    by (simp add: fresh_parts new_tracking_def)
  have g: "guarded vil_message ''unified_router'' ?s"
    using vil_guarded [of "''unified_router''"] by (subst guarded_cong [of _ fresh]) (simp_all add: process_keeps)
  have "fsub 5 3600 \<le> 1" using fl_of_int [of "- 3595"] by (simp add: fsub_def)
  then have "fsub 5 (tk_expiration (lp_tracking ?s)) \<le> 1"
    by (simp only: step_keeps fresh_parts) (simp add: new_tracking_def)
  from duplicate_after_reset_raises [OF vil_reads(1) vil_type vil_ordinary g h this] show ?thesis .
qed

theorem category_independent_of_order_witness:
  "best_category_match [''status'', ''fcs_status''] ''fcs_statusresponse'' = best_category_match [''fcs_status'', ''status''] ''fcs_statusresponse''"
  using category_independent_of_order [of "[''status'', ''fcs_status'']" "[''fcs_status'', ''status'']"] by auto

theorem original_metadata_modified_witness:
  "\<exists>e o' s'. process_message 1 ''u'' ''i'' vil_message ''vil_handler'' fresh = (Inr (True, e, o'), s') \<and>
     nested o' ''metadata'' ''_processed_by_vil_handler'' = PBool True \<and> nested vil_message ''metadata'' ''_processed_by_vil_handler'' = PNone"
proof -
  obtain e o' s1 where p: "process_message 1 ''u'' ''i'' vil_message ''vil_handler'' fresh = (Inr (True, e, o'), s1)"
    using vil_passes by blast
  have k: "has_key vil_message ''metadata''" by (simp add: has_key_def vil_message_def)
  have n: "nested vil_message ''metadata'' ''_processed_by_vil_handler'' = PNone"
    by (simp add: nested_def vil_message_def dict_get_def)
  from original_metadata_modified [OF p vil_guarded k vil_reads(1) vil_type vil_ordinary] p n show ?thesis by auto
qed

end
