(* ===== verification/Fcs_Control.thy ===== *)
theory Fcs_Control
  imports Fcs_Wire Loop_Prevention
begin

text \<open>
  The flight control system (\<^verbatim>\<open>flight_control_system.py\<close>) and the three places that decode commands for it: the
  message handler (\<^verbatim>\<open>FCSMessageHandler.py\<close>), the system's own synchronous handlers, and the processor of the
  flight management system (\<^verbatim>\<open>fms_message_processor.py\<close>). The attitude computation and the completion handler
  are not modelled: a completion is recorded when it would be sent. The response service accepts every response.
\<close>

section \<open>The flight control system\<close>

datatype fcs_completion = Control_Completion string pyval pyval | Mode_Completion string string int pyval

record fcs =
  fcs_mode :: string
  fcs_interval :: rat
  fcs_inputs :: pydict
  fcs_in_startup :: bool
  fcs_startup_end :: "rat option"
  fcs_running :: bool
  fcs_messenger :: bool
  fcs_sent :: "fcs_completion list"

definition ALL_MODES :: "string list" where
  "ALL_MODES = [''NORMAL'', ''COMBAT'', ''PRECISION'', ''AUTOPILOT'', ''TERRAIN'', ''EMERGENCY'']"

definition new_fcs :: fcs where
  "new_fcs = \<lparr>fcs_mode = ''NORMAL'', fcs_interval = fl (1 / 50),
     fcs_inputs = [(''aileron'', PInt 0), (''elevator'', PInt 0), (''rudder'', PInt 0), (''throttle'', PFloat (1 / 2))],
     fcs_in_startup = True, fcs_startup_end = None, fcs_running = False, fcs_messenger = False, fcs_sent = []\<rparr>"

definition fcs_set_messenger :: "fcs \<Rightarrow> fcs" where "fcs_set_messenger s = s\<lparr>fcs_messenger := True\<rparr>"

definition fcs_start :: "rat \<Rightarrow> fcs \<Rightarrow> bool \<times> fcs" where
  "fcs_start t s =
     (if fcs_running s then (False, s)
      else (True, s\<lparr>fcs_startup_end := Some (fadd t 5), fcs_running := True, fcs_mode := ''NORMAL'', fcs_in_startup := False\<rparr>))"

definition fcs_stop :: "fcs \<Rightarrow> fcs" where "fcs_stop s = s\<lparr>fcs_running := False\<rparr>"

definition send_completion :: "fcs_completion \<Rightarrow> fcs \<Rightarrow> fcs" where
  "send_completion c s = (if fcs_in_startup s \<or> \<not> fcs_messenger s then s else s\<lparr>fcs_sent := fcs_sent s @ [c]\<rparr>)"

text \<open>\<^verbatim>\<open>max(lo, min(1.0, v))\<close> keeps a value between the bounds as it is, an integer included.\<close>

definition py_num :: "pyval \<Rightarrow> rat option" where
  "py_num v = (case v of PFloat q \<Rightarrow> Some q | _ \<Rightarrow> map_option of_int (as_int v))"

definition clamp :: "rat \<Rightarrow> pyval \<Rightarrow> pyval pyres" where
  "clamp lo v = (case py_num v of
     None \<Rightarrow> Inl TypeError
   | Some q \<Rightarrow>
       let m = (if q < 1 then v else PFloat 1); p = (if q < 1 then q else 1)
       in Inr (if lo < p then m else PFloat lo))"

definition set_control_input :: "pyval \<Rightarrow> pyval \<Rightarrow> pyval \<Rightarrow> fcs \<Rightarrow> bool \<times> fcs" where
  "set_control_input control_type value request_id s =
     (case control_type of
        PStr k \<Rightarrow>
          if \<not> has_key (fcs_inputs s) k then (False, s)
          else (case clamp (if k = ''throttle'' then 0 else - 1) value of
                  Inl _ \<Rightarrow> (False, s)
                | Inr v \<Rightarrow> (True, send_completion (Control_Completion k v request_id)
                                   (s\<lparr>fcs_inputs := dict_set k v (fcs_inputs s)\<rparr>)))
      | _ \<Rightarrow> (False, s))"

definition mode_number :: "string \<Rightarrow> int" where
  "mode_number m = (case map_of [(''NORMAL'', 0), (''COMBAT'', 1), (''PRECISION'', 2), (''AUTOPILOT'', 3), (''TERRAIN'', 4),
     (''EMERGENCY'', 5)] m of None \<Rightarrow> 0 | Some n \<Rightarrow> n)"

definition set_mode :: "pyval \<Rightarrow> pyval \<Rightarrow> fcs \<Rightarrow> bool \<times> fcs" where
  "set_mode mode request_id s =
     (case mode of
        PStr m \<Rightarrow>
          if m \<notin> set ALL_MODES then (False, s)
          else if fcs_mode s = m then (True, s)
          else (True, send_completion (Mode_Completion (fcs_mode s) m (mode_number m) request_id)
                  (s\<lparr>fcs_mode := m, fcs_interval := (if m = ''COMBAT'' then fl (1 / 100) else fl (1 / 50))\<rparr>))
      | _ \<Rightarrow> (False, s))"

section \<open>The message handler\<close>

text \<open>
  What a request is answered with: skipped as a loop, refused before it reaches the system, or the outcome with what
  the system holds afterwards.
\<close>

datatype fcs_answer = Skipped | Refused | Mode_Answer bool pyval string string | Control_Answer bool pyval pyval pyval pyval

record fcs_handler =
  fh_gate :: "middleware option"
  fh_fcs :: fcs
  fh_service :: bool
  fh_sent :: "fcs_answer list"

definition py_in :: "string \<Rightarrow> pyval \<Rightarrow> bool pyres" where
  "py_in s v = (case v of
     PStr t \<Rightarrow> Inr (sublist s t) | PList xs \<Rightarrow> Inr (PStr s \<in> set xs) | PDict d \<Rightarrow> Inr (has_key d s) | _ \<Rightarrow> Inl TypeError)"

definition create_transaction_id :: "pydict \<Rightarrow> string \<Rightarrow> pyval pyres" where
  "create_transaction_id m message_subtype =
     (let composite = py_bind (py_str (dict_get m ''request_id'' (PStr []))) (\<lambda>r.
            py_bind (py_str (dict_get m ''message_type'' (PStr []))) (\<lambda>t.
            py_bind (py_str (dict_get m ''command_type'' (PStr []))) (\<lambda>c.
              Inr (PStr (r @ ''_'' @ t @ ''_'' @ c @ ''_'' @ message_subtype)))))
      in case dict_get m ''metadata'' (PDict []) of
           PDict d \<Rightarrow>
             let existing_id = dict_get d ''transaction_id'' PNone in
             if truthy existing_id
             then py_bind (py_in (''_'' @ message_subtype) existing_id) (\<lambda>b. if b then Inr existing_id else composite)
             else composite
         | _ \<Rightarrow> Inl AttributeError)"

text \<open>The message goes to the loop prevention with a transaction identifier in its metadata.\<close>

definition with_transaction :: "pyval \<Rightarrow> pydict \<Rightarrow> pydict" where
  "with_transaction transaction_id m =
     (case dict_get m ''metadata'' (PDict []) of
        PDict d \<Rightarrow> dict_set ''metadata''
          (PDict (if has_key d ''transaction_id'' then d else dict_set ''transaction_id'' transaction_id d)) m
      | _ \<Rightarrow> m)"

definition pass_gate ::
  "rat \<Rightarrow> string \<Rightarrow> string \<Rightarrow> string \<Rightarrow> string \<Rightarrow> pydict \<Rightarrow> fcs_handler \<Rightarrow> (bool \<times> pydict) pyres \<times> fcs_handler" where
  "pass_gate t uuid message_id message_subtype service m h =
     (case fh_gate h of
        None \<Rightarrow> (Inr (True, m), h)
      | Some w \<Rightarrow>
          (case create_transaction_id m message_subtype of
             Inl e \<Rightarrow> (Inl e, h)
           | Inr transaction_id \<Rightarrow>
               (case mw_process_message t uuid message_id (with_transaction transaction_id m) service w of
                  (r, w) \<Rightarrow> (py_bind r (\<lambda>(b, e, _). Inr (b, e)), h\<lparr>fh_gate := Some w\<rparr>))))"

definition respond :: "fcs_answer \<Rightarrow> fcs_handler \<Rightarrow> fcs_answer \<times> fcs_handler" where
  "respond a h = (a, if fh_service h then h\<lparr>fh_sent := fh_sent h @ [a]\<rparr> else h)"

text \<open>The mode value of a request: a binary data word, or a mode name among the parameters.\<close>

definition requested_mode :: "pydict \<Rightarrow> int pyres" where
  "requested_mode m =
     (case dict_get m ''data'' PNone of
        PStr s \<Rightarrow> py_int 2 s
      | _ \<Rightarrow>
          if \<not> has_key m ''parameters'' then Inl ValueError
          else case dict_get m ''parameters'' PNone of
                 PDict p \<Rightarrow>
                   (case dict_get p ''mode_name'' PNone of PStr s \<Rightarrow> mode_by_name s | _ \<Rightarrow> Inl ValueError)
               | _ \<Rightarrow> Inl TypeError)"

definition change_mode :: "pydict \<Rightarrow> fcs_handler \<Rightarrow> fcs_answer \<times> fcs_handler" where
  "change_mode m h =
     (case requested_mode m of
        Inl _ \<Rightarrow> (Refused, h)
      | Inr mode_value \<Rightarrow>
          let request_id = dict_get m ''request_id'' PNone;
              old_mode = fcs_mode (fh_fcs h);
              (success, f) = (case map_of MODE_VALUE_TO_NAME mode_value of
                 None \<Rightarrow> (False, fh_fcs h)
               | Some mode_name \<Rightarrow> set_mode (PStr mode_name) request_id (fh_fcs h))
          in respond (Mode_Answer success request_id old_mode (fcs_mode f)) (h\<lparr>fh_fcs := f\<rparr>))"

definition handle_mode_change_request ::
  "rat \<Rightarrow> string \<Rightarrow> string \<Rightarrow> pydict \<Rightarrow> fcs_handler \<Rightarrow> fcs_answer \<times> fcs_handler" where
  "handle_mode_change_request t uuid message_id m h0 =
     (case pass_gate t uuid message_id ''mode_change'' ''fcs_mode_handler'' m h0 of
        (Inl _, h) \<Rightarrow> (Refused, h)
      | (Inr (False, _), h) \<Rightarrow> (Skipped, h)
      | (Inr (True, m), h) \<Rightarrow> change_mode m h)"

text \<open>The surface and the value of a request: from the parameters, or from two data words.\<close>

definition word_value :: "pyval \<Rightarrow> int pyres" where
  "word_value v = (case v of PStr s \<Rightarrow> py_int 2 s | _ \<Rightarrow> Inl TypeError)"

definition control_of_words :: "pyval \<Rightarrow> pyval \<Rightarrow> (pyval \<times> pyval) pyres" where
  "control_of_words w0 w1 =
     py_bind (word_value w0) (\<lambda>control_code.
     py_bind (word_value w1) (\<lambda>scaled_value.
       if 2 ^ 1024 - 2 ^ 970 \<le> \<bar>scaled_value\<bar> then Inl OverflowError
       else Inr (case map_of CODE_TO_CONTROL_SURFACE control_code of None \<Rightarrow> PNone | Some s \<Rightarrow> PStr s,
                 PFloat (decode_control_value scaled_value))))"

definition requested_control :: "pydict \<Rightarrow> (pyval \<times> pyval) pyres" where
  "requested_control m =
     (if has_key m ''parameters'' then
        (case dict_get m ''parameters'' PNone of
           PDict p \<Rightarrow> Inr (dict_get p ''control_type'' PNone, dict_get p ''value'' (PFloat 0))
         | _ \<Rightarrow> Inl AttributeError)
      else if has_key m ''data'' then
        (case dict_get m ''data_words'' (PList []) of
           PList (w0 # w1 # _) \<Rightarrow> control_of_words w0 w1
         | PStr (c0 # c1 # _) \<Rightarrow> control_of_words (PStr [c0]) (PStr [c1])
         | PDict (_ # _ # _) \<Rightarrow> Inl KeyError
         | PList _ \<Rightarrow> Inr (PNone, PFloat 0)
         | PStr _ \<Rightarrow> Inr (PNone, PFloat 0)
         | PDict _ \<Rightarrow> Inr (PNone, PFloat 0)
         | _ \<Rightarrow> Inl TypeError)
      else Inr (PNone, PFloat 0))"

definition apply_control :: "pydict \<Rightarrow> fcs_handler \<Rightarrow> fcs_answer \<times> fcs_handler" where
  "apply_control m h =
     (case requested_control m of
        Inl _ \<Rightarrow> (Refused, h)
      | Inr (control_surface, control_value) \<Rightarrow>
          if \<not> truthy control_surface then (Refused, h)
          else
            let request_id = dict_get m ''request_id'' PNone;
                (success, f) = set_control_input control_surface control_value request_id (fh_fcs h);
                h = h\<lparr>fh_fcs := f\<rparr>
            in case control_surface of
                 PList _ \<Rightarrow> (Refused, h)
               | PDict _ \<Rightarrow> (Refused, h)
               | PStr k \<Rightarrow> respond (Control_Answer success request_id control_surface control_value
                               (dict_get (fcs_inputs f) k control_value)) h
               | _ \<Rightarrow> respond (Control_Answer success request_id control_surface control_value control_value) h)"

definition handle_control_input_request ::
  "rat \<Rightarrow> string \<Rightarrow> string \<Rightarrow> pydict \<Rightarrow> fcs_handler \<Rightarrow> fcs_answer \<times> fcs_handler" where
  "handle_control_input_request t uuid message_id m h0 =
     (case pass_gate t uuid message_id ''control_input'' ''fcs_control_input_handler'' m h0 of
        (Inl _, h) \<Rightarrow> (Refused, h)
      | (Inr (False, _), h) \<Rightarrow> (Skipped, h)
      | (Inr (True, m), h) \<Rightarrow> apply_control m h)"

text \<open>Packing on the sending side.\<close>

definition pack_mode_data :: "mode_arg \<Rightarrow> string list pyres" where
  "pack_mode_data data = (case data of
     Plain (PDict d) \<Rightarrow> mode_data_words (Plain (dict_get d ''mode_name'' (dict_get d ''mode'' PNone)))
   | _ \<Rightarrow> mode_data_words data)"

definition pack_control_input_data :: "pyval \<Rightarrow> string list pyres" where
  "pack_control_input_data data = (case data of
     PDict d \<Rightarrow> control_input_data_words (dict_get d ''control_type'' PNone) (dict_get d ''value'' (PFloat 0))
   | _ \<Rightarrow> Inl ValueError)"

section \<open>The synchronous handlers of the system\<close>

text \<open>A message object: the attributes it may have. A message of the bus has a string as its data.\<close>

record fcs_object =
  fo_data :: "pyval option"
  fo_control_type :: "pyval option"
  fo_value :: "pyval option"
  fo_mode :: "pyval option"
  fo_metadata :: "pydict option"

definition attr :: "pyval \<Rightarrow> pyval option \<Rightarrow> pyval" where
  "attr v a = (if v = PNone then (case a of None \<Rightarrow> PNone | Some w \<Rightarrow> w) else v)"

definition from_metadata :: "string \<Rightarrow> fcs_object \<Rightarrow> pyval \<Rightarrow> pyval" where
  "from_metadata k m v = (if v = PNone then (case fo_metadata m of None \<Rightarrow> PNone | Some d \<Rightarrow> dict_get d k PNone) else v)"

definition surface_of_number :: "int \<Rightarrow> pyval" where
  "surface_of_number n = (if n = 1 then PStr ''aileron'' else if n = 2 then PStr ''elevator''
     else if n = 3 then PStr ''rudder'' else if n = 4 then PStr ''throttle'' else PNone)"

text \<open>A word that is text is read as hexadecimal, binary or decimal; otherwise it is the name of the surface.\<close>

definition sync_surface :: "pyval \<Rightarrow> pyval" where
  "sync_surface w = (case w of
     PStr s \<Rightarrow> (case (if prefix ''0x'' s then py_int 16 s else if prefix ''0b'' s then py_int 2 s else py_int 10 s) of
        Inr n \<Rightarrow> surface_of_number n | Inl _ \<Rightarrow> w)
   | _ \<Rightarrow> (case as_int w of Some n \<Rightarrow> surface_of_number n | None \<Rightarrow> PNone))"

text \<open>\<^verbatim>\<open>float(s)\<close> of a string of digits that is below infinity; other texts are not modelled.\<close>

definition digit :: "char \<Rightarrow> bool" where
  "digit c = (case digit_val c of Some d \<Rightarrow> d < 10 | None \<Rightarrow> False)"

definition beyond_float :: "int \<Rightarrow> bool" where "beyond_float n \<longleftrightarrow> 2 ^ 1024 - 2 ^ 970 \<le> n"

definition text_value :: "string \<Rightarrow> rat pyres" where
  "text_value s = (if s = [] then Inl ValueError else if \<not> list_all digit s then Inl Unmodelled
     else py_bind (py_int 10 s) (\<lambda>n. if beyond_float n then Inl Unmodelled else Inr (fl (of_int n))))"

definition signed_word :: "int \<Rightarrow> int" where "signed_word n = (if 32767 < n then n - 65536 else n)"

definition sync_value :: "pyval \<Rightarrow> pyval pyres" where
  "sync_value w = (case w of
     PStr s \<Rightarrow> (case text_value s of Inr q \<Rightarrow> Inr (PFloat q) | Inl ValueError \<Rightarrow> Inr PNone | Inl e \<Rightarrow> Inl e)
   | PFloat q \<Rightarrow> Inr w
   | _ \<Rightarrow> (case as_int w of
       Some n \<Rightarrow> if 2 ^ 1024 - 2 ^ 970 \<le> \<bar>signed_word n\<bar> then Inl OverflowError
                 else Inr (PFloat (fdiv (fl (of_int (signed_word n))) 32767))
     | None \<Rightarrow> Inr PNone))"

definition handle_control_input_sync :: "fcs_object \<Rightarrow> pyval \<Rightarrow> fcs \<Rightarrow> bool pyres \<times> fcs" where
  "handle_control_input_sync m request_id s =
     (case (case fo_data m of
              Some (PList (w0 # w1 # _)) \<Rightarrow> py_bind (sync_value w1) (\<lambda>v. Inr (sync_surface w0, v))
            | _ \<Rightarrow> Inr (PNone, PNone)) of
        Inl Unmodelled \<Rightarrow> (Inl Unmodelled, s)
      | Inl _ \<Rightarrow> (Inr False, s)
      | Inr (c, v) \<Rightarrow>
          let control_type = from_metadata ''control_type'' m (attr c (fo_control_type m));
              value = from_metadata ''value'' m (attr v (fo_value m))
          in if control_type = PNone \<or> value = PNone then (Inr False, s)
             else case set_control_input control_type value request_id s of (b, s) \<Rightarrow> (Inr b, s))"

definition mode_of_number :: "int \<Rightarrow> pyval" where
  "mode_of_number n = (case map_of MODE_VALUE_TO_NAME n of None \<Rightarrow> PNone | Some m \<Rightarrow> PStr m)"

definition sync_mode :: "pyval option \<Rightarrow> pyval" where
  "sync_mode data = (case data of
     Some (PStr s) \<Rightarrow> PStr s
   | Some (PList (w # _)) \<Rightarrow>
       (case w of PStr s \<Rightarrow> PStr s | _ \<Rightarrow> (case as_int w of Some n \<Rightarrow> mode_of_number n | None \<Rightarrow> PNone))
   | _ \<Rightarrow> PNone)"

definition handle_mode_change_sync :: "fcs_object \<Rightarrow> pyval \<Rightarrow> fcs \<Rightarrow> bool \<times> fcs" where
  "handle_mode_change_sync m request_id s =
     (let mode = from_metadata ''mode'' m (attr (sync_mode (fo_data m)) (fo_mode m))
      in if mode = PNone then (False, s) else set_mode mode request_id s)"

text \<open>
  A message that arrives: during the startup period it is to be discarded. The handler that the message detector
  names is an argument, as is the outcome of the handling of other kinds of message.
\<close>

definition receive_message_sync ::
  "rat \<Rightarrow> string \<Rightarrow> (fcs \<Rightarrow> bool pyres \<times> fcs) \<Rightarrow> fcs_object \<Rightarrow> pyval \<Rightarrow> fcs \<Rightarrow> bool pyres \<times> fcs" where
  "receive_message_sync t handler other m request_id s0 =
     (if fcs_in_startup s0 \<and> (case fcs_startup_end s0 of None \<Rightarrow> False | Some e \<Rightarrow> e \<noteq> 0 \<and> t < e) then (Inr False, s0)
      else
        let s = s0\<lparr>fcs_in_startup := False\<rparr> in
        if handler = ''control_input_handler'' then handle_control_input_sync m request_id s
        else if handler = ''mode_handler'' then (case handle_mode_change_sync m request_id s of (b, s) \<Rightarrow> (Inr b, s))
        else other s)"

section \<open>The processor of the flight management system\<close>

definition fms_value :: "pyval \<Rightarrow> pyval pyres" where
  "fms_value w = (case w of
     PStr s \<Rightarrow> (case text_value s of Inr q \<Rightarrow> Inr (PFloat q) | Inl ValueError \<Rightarrow> Inr PNone | Inl e \<Rightarrow> Inl e)
   | PFloat q \<Rightarrow> Inr (PFloat q)
   | _ \<Rightarrow> (case as_int w of
       Some n \<Rightarrow> if 2 ^ 1024 - 2 ^ 970 \<le> \<bar>n\<bar> then Inl OverflowError
                 else if 1 < \<bar>n\<bar> then Inr (PFloat (fdiv (fl (of_int (signed_word n))) 32767))
                 else Inr (PFloat (of_int n))
     | None \<Rightarrow> Inr PNone))"

definition fms_surface :: "pyval \<Rightarrow> pyval" where
  "fms_surface w = (case w of
     PStr s \<Rightarrow> PStr s | _ \<Rightarrow> (case as_int w of Some n \<Rightarrow> surface_of_number n | None \<Rightarrow> PNone))"

definition fms_control_input :: "pydict \<Rightarrow> fcs \<Rightarrow> bool pyres \<times> fcs" where
  "fms_control_input m s =
     (case (case dict_get m ''data'' PNone of
              PList (w0 # w1 # _) \<Rightarrow> py_bind (fms_value w1) (\<lambda>v. Inr (fms_surface w0, v))
            | _ \<Rightarrow> Inr (PNone, PNone)) of
        Inl Unmodelled \<Rightarrow> (Inl Unmodelled, s)
      | Inl _ \<Rightarrow> (Inr False, s)
      | Inr (c, v) \<Rightarrow>
          let control_type = (if c = PNone then dict_get m ''control_type'' PNone else c);
              value = (if v = PNone then dict_get m ''value'' PNone else v)
          in if control_type = PNone \<or> value = PNone then (Inr False, s)
             else case set_control_input control_type value (dict_get m ''request_id'' PNone) s of (b, s) \<Rightarrow> (Inr b, s))"

text \<open>
  The mode of a command: text of binary digits is a number, and a number that is no mode is \<^verbatim>\<open>NORMAL\<close>. An
  empty text is no number and no mode.
\<close>

definition mode_or_normal :: "int \<Rightarrow> pyval" where
  "mode_or_normal n = (case map_of MODE_VALUE_TO_NAME n of None \<Rightarrow> PStr ''NORMAL'' | Some m \<Rightarrow> PStr m)"

definition fms_mode :: "pydict \<Rightarrow> pyval" where
  "fms_mode m =
     (if has_key m ''mode'' then dict_get m ''mode'' PNone
      else case dict_get m ''data'' PNone of
             PStr s \<Rightarrow> if list_all is_bit s then (case py_int 2 s of Inr n \<Rightarrow> mode_or_normal n | Inl _ \<Rightarrow> PNone) else PStr s
           | PList (w # _) \<Rightarrow>
               (case w of
                  PStr s \<Rightarrow> if list_all is_bit s then (case py_int 2 s of Inr n \<Rightarrow> mode_or_normal n | Inl _ \<Rightarrow> PStr s) else PStr s
                | _ \<Rightarrow> (case as_int w of Some n \<Rightarrow> mode_or_normal n | None \<Rightarrow> PNone))
           | _ \<Rightarrow> PNone)"

definition fms_mode_change :: "pydict \<Rightarrow> fcs \<Rightarrow> bool \<times> fcs" where
  "fms_mode_change m s =
     (let mode = fms_mode m;
          mode = (if truthy mode then mode
                  else case dict_get m ''data'' PNone of
                         PStr d \<Rightarrow> if list_all is_bit d then (case py_int 2 d of Inr n \<Rightarrow> mode_or_normal n | Inl _ \<Rightarrow> mode)
                                   else mode
                       | _ \<Rightarrow> mode)
      in if \<not> truthy mode then (False, s) else set_mode mode (dict_get m ''request_id'' PNone) s)"

section \<open>The state of the system\<close>

definition surfaces :: "string set" where "surfaces = {''aileron'', ''elevator'', ''rudder'', ''throttle''}"

definition lower_limit :: "string \<Rightarrow> rat" where "lower_limit k = (if k = ''throttle'' then 0 else - 1)"

definition fcs_ok :: "fcs \<Rightarrow> bool" where
  "fcs_ok s \<longleftrightarrow> fcs_mode s \<in> set ALL_MODES \<and> (\<forall>k. has_key (fcs_inputs s) k \<longleftrightarrow> k \<in> surfaces) \<and>
     (\<forall>k v. map_of (fcs_inputs s) k = Some v \<longrightarrow> (\<exists>q. py_num v = Some q \<and> lower_limit k \<le> q \<and> q \<le> 1)) \<and>
     (fcs_in_startup s \<longrightarrow> fcs_startup_end s = None)"

lemma py_num_float [simp]: "py_num (PFloat q) = Some q"
  by (simp add: py_num_def)

lemma clamp_value: "clamp lo v = Inr w \<Longrightarrow> lo \<le> 1 \<Longrightarrow> \<exists>q. py_num v = Some q \<and> py_num w = Some (max lo (min 1 q))"
  by (cases "py_num v") (auto simp: clamp_def Let_def max_def min_def split: if_splits)

lemma limit_le: "lower_limit k \<le> 1"
  by (simp add: lower_limit_def)

lemma send_completion_keeps [simp]:
  "fcs_mode (send_completion c s) = fcs_mode s" "fcs_inputs (send_completion c s) = fcs_inputs s"
  "fcs_in_startup (send_completion c s) = fcs_in_startup s" "fcs_startup_end (send_completion c s) = fcs_startup_end s"
  by (simp_all add: send_completion_def)

lemma set_control_ok: "fcs_ok s \<Longrightarrow> fcs_ok (snd (set_control_input c v rid s))"
proof -
  assume s: "fcs_ok s"
  show ?thesis
  proof (cases "\<exists>k w. c = PStr k \<and> has_key (fcs_inputs s) k \<and> clamp (lower_limit k) v = Inr w")
    case True
    then obtain k w where k: "c = PStr k" "has_key (fcs_inputs s) k" "clamp (lower_limit k) v = Inr w" by blast
    obtain q where "py_num w = Some (max (lower_limit k) (min 1 q))"
      using clamp_value [OF k(3)] limit_le by blast
    then show ?thesis using s k limit_le [of k]
      by (auto simp: set_control_input_def lower_limit_def [symmetric] fcs_ok_def map_of_dict_set)
  next
    case False
    then have "snd (set_control_input c v rid s) = s"
      by (auto simp: set_control_input_def lower_limit_def [symmetric] split: pyval.split sum.split)
    then show ?thesis using s by simp
  qed
qed

lemma set_mode_ok: "fcs_ok s \<Longrightarrow> fcs_ok (snd (set_mode m rid s))"
  by (cases m) (simp_all add: set_mode_def fcs_ok_def)

named_theorems fcs_ok "the operations keep the state of the system sound"

lemmas [fcs_ok] = set_control_ok set_mode_ok

lemma respond_fcs [simp]: "fh_fcs (snd (respond a h)) = fh_fcs h"
  by (simp add: respond_def)

lemma gate_fcs: "pass_gate t u i sub svc m h = (r, h') \<Longrightarrow> fh_fcs h' = fh_fcs h"
  by (auto simp: pass_gate_def split: option.splits sum.splits prod.splits)

lemma change_mode_ok [fcs_ok]: "fcs_ok (fh_fcs h) \<Longrightarrow> fcs_ok (fh_fcs (snd (change_mode m h)))"
  using set_mode_ok [of "fh_fcs h"] by (auto simp: change_mode_def Let_def split: sum.split option.split prod.split) (metis snd_conv)

lemma apply_control_ok [fcs_ok]: "fcs_ok (fh_fcs h) \<Longrightarrow> fcs_ok (fh_fcs (snd (apply_control m h)))"
  using set_control_ok [of "fh_fcs h"]
  by (auto simp: apply_control_def Let_def split: sum.split pyval.split prod.split) (metis snd_conv)+

lemma handle_ok [fcs_ok]:
  "fcs_ok (fh_fcs h) \<Longrightarrow> fcs_ok (fh_fcs (snd (handle_mode_change_request t u i m h)))"
  "fcs_ok (fh_fcs h) \<Longrightarrow> fcs_ok (fh_fcs (snd (handle_control_input_request t u i m h)))"
  unfolding handle_mode_change_request_def handle_control_input_request_def
  by (auto split: prod.split sum.split bool.split dest!: gate_fcs intro!: change_mode_ok apply_control_ok)

lemma startup_ok: "fcs_ok s \<Longrightarrow> fcs_ok (s\<lparr>fcs_in_startup := False\<rparr>)"
  by (simp add: fcs_ok_def)

lemma sync_ok [fcs_ok]:
  "fcs_ok s \<Longrightarrow> fcs_ok (snd (handle_control_input_sync m rid s))" "fcs_ok s \<Longrightarrow> fcs_ok (snd (handle_mode_change_sync m rid s))"
  using set_control_ok [of s] set_mode_ok [of s]
  by (auto simp: handle_control_input_sync_def handle_mode_change_sync_def Let_def split: sum.split pyerr.split prod.split)
    (metis snd_conv)

lemma fms_ok [fcs_ok]:
  "fcs_ok s \<Longrightarrow> fcs_ok (snd (fms_control_input d s))" "fcs_ok s \<Longrightarrow> fcs_ok (snd (fms_mode_change d s))"
  using set_control_ok [of s] set_mode_ok [of s]
  by (auto simp: fms_control_input_def fms_mode_change_def Let_def split: sum.split pyerr.split prod.split) (metis snd_conv)+

datatype fcs_op = Start_Fcs rat | Stop_Fcs | Messenger
  | Mode_Request rat string string pydict | Control_Request rat string string pydict
  | Sync_Message rat bool fcs_object pyval | Fms_Control pydict | Fms_Mode pydict

definition on_fcs :: "(fcs \<Rightarrow> fcs) \<Rightarrow> fcs_handler \<Rightarrow> fcs_handler" where
  "on_fcs f h = h\<lparr>fh_fcs := f (fh_fcs h)\<rparr>"

fun fcs_do :: "fcs_op \<Rightarrow> fcs_handler \<Rightarrow> fcs_handler" where
  "fcs_do (Start_Fcs t) h = on_fcs (\<lambda>s. snd (fcs_start t s)) h"
| "fcs_do Stop_Fcs h = on_fcs fcs_stop h"
| "fcs_do Messenger h = on_fcs fcs_set_messenger h"
| "fcs_do (Mode_Request t u i m) h = snd (handle_mode_change_request t u i m h)"
| "fcs_do (Control_Request t u i m) h = snd (handle_control_input_request t u i m h)"
| "fcs_do (Sync_Message t control m rid) h = on_fcs (\<lambda>s. snd (receive_message_sync t
     (if control then ''control_input_handler'' else ''mode_handler'') (Pair (Inr False)) m rid s)) h"
| "fcs_do (Fms_Control d) h = on_fcs (\<lambda>s. snd (fms_control_input d s)) h"
| "fcs_do (Fms_Mode d) h = on_fcs (\<lambda>s. snd (fms_mode_change d s)) h"

lemma receive_ok:
  "fcs_ok s \<Longrightarrow> fcs_ok (snd (receive_message_sync t k (Pair (Inr False)) m rid s))"
  using sync_ok [OF startup_ok [of s]] startup_ok [of s]
  by (simp add: receive_message_sync_def Let_def split: prod.split) (metis snd_conv)

lemma fcs_do_ok: "fcs_ok (fh_fcs h) \<Longrightarrow> fcs_ok (fh_fcs (fcs_do a h))"
proof (cases a)
  case (Start_Fcs t)
  then show "fcs_ok (fh_fcs h) \<Longrightarrow> ?thesis" by (simp add: on_fcs_def fcs_start_def fcs_ok_def ALL_MODES_def)
qed (simp_all add: on_fcs_def fcs_ok receive_ok, simp_all add: fcs_stop_def fcs_set_messenger_def fcs_ok_def)

lemma fcs_run_ok: "fcs_ok (fh_fcs h) \<Longrightarrow> fcs_ok (fh_fcs (fold fcs_do ops h))"
  by (induction ops arbitrary: h) (simp_all add: fcs_do_ok)

lemma new_fcs_ok: "fcs_ok new_fcs"
  by (auto simp: fcs_ok_def new_fcs_def ALL_MODES_def surfaces_def has_key_def py_num_def lower_limit_def split: if_splits
    intro: exI [of _ "1 / 2"])

section \<open>Properties\<close>

text \<open>
  C11. Whatever arrives over the three paths, the system always holds exactly the four control inputs, each a number
  within its limits, and one of the six modes.
\<close>

theorem fcs_state_sound:
  assumes "fh_fcs h = new_fcs"
  shows "fcs_mode (fh_fcs (fold fcs_do ops h)) \<in> set ALL_MODES \<and>
    (\<forall>k. map_of (fcs_inputs (fh_fcs (fold fcs_do ops h))) k \<noteq> None \<longleftrightarrow> k \<in> surfaces) \<and>
    (\<forall>k v. map_of (fcs_inputs (fh_fcs (fold fcs_do ops h))) k = Some v \<longrightarrow>
       (\<exists>q. py_num v = Some q \<and> lower_limit k \<le> q \<and> q \<le> 1))"
  using fcs_run_ok [of h ops] new_fcs_ok assms by (simp add: fcs_ok_def has_key_def)

text \<open>
  The startup period in which messages are to be discarded does not exist: the start ends it before it returns,
  and before the start it has no end to compare with, so a message is handled at any time.
\<close>

theorem startup_never_discards:
  assumes "fh_fcs h = new_fcs" "s = fh_fcs (fold fcs_do ops h)"
  shows "receive_message_sync t ''mode_handler'' other m rid s =
    (case handle_mode_change_sync m rid (s\<lparr>fcs_in_startup := False\<rparr>) of (b, s') \<Rightarrow> (Inr b, s'))"
  using fcs_run_ok [of h ops] new_fcs_ok assms by (auto simp: fcs_ok_def receive_message_sync_def)

lemma clamp_near:
  assumes "\<bar>v - q\<bar> \<le> e" "v \<le> 1"
  shows "\<exists>w p. clamp lo (PFloat v) = Inr w \<and> py_num w = Some p \<and> \<bar>p - max lo q\<bar> \<le> e"
  using assms by (auto simp: clamp_def Let_def max_def abs_if split: if_splits)

text \<open>
  C9. A control command sent in the wire format is carried out: the handler sets the named surface to within half a
  quantum of the value sent (raised to zero for the throttle), leaves the other surfaces and the mode as they were and
  answers with what it holds; for flaps, speedbrake and gear it answers that the system refused.
\<close>

theorem control_command_end_to_end:
  assumes "control_input_data_words (PStr name) (PFloat q) = Inr ws" "in_range q"
    "pass_gate t u i ''control_input'' ''fcs_control_input_handler'' m0 h0 = (Inr (True, m), h)"
    "\<not> has_key m ''parameters''" "has_key m ''data''" "dict_get m ''data_words'' (PList []) = PList (map PStr ws)"
    "fcs_ok (fh_fcs h)" "handle_control_input_request t u i m0 h0 = (answer, h')"
  shows "if lower name \<in> surfaces
    then \<exists>v w p. answer = Control_Answer True (dict_get m ''request_id'' PNone) (PStr (lower name)) v w \<and>
           map_of (fcs_inputs (fh_fcs h')) (lower name) = Some w \<and> py_num w = Some p \<and>
           \<bar>p - max (lower_limit (lower name)) q\<bar> \<le> 1 / 1000 + 1 / 2 ^ 50 \<and>
           (\<forall>k. k \<noteq> lower name \<longrightarrow> map_of (fcs_inputs (fh_fcs h')) k = map_of (fcs_inputs (fh_fcs h)) k) \<and>
           fcs_mode (fh_fcs h') = fcs_mode (fh_fcs h)
    else (\<exists>v. answer = Control_Answer False (dict_get m ''request_id'' PNone) (PStr (lower name)) v v) \<and> fh_fcs h' = fh_fcs h"
proof -
  obtain c n where w: "map_of CONTROL_SURFACE_TO_CODE (lower name) = Some c" "encode_control_value (PFloat q) = Inr n"
    "n \<in> wire_codes" "ws = [fmt_bin 16 c, fmt_bin 16 n]"
    using control_words [OF assms(1)] by auto
  have n: "n = enc_value q" using w(2) assms(2) by (simp add: encode_in_range)
  have c: "0 \<le> c" "map_of CODE_TO_CONTROL_SURFACE c = Some (lower name)" using surface_code [OF w(1)] by simp_all
  have n0: "0 \<le> n" "n \<le> 1000" using w(3) by (simp_all add: wire_codes_def)
  let ?v = "decode_control_value n"
  have "\<not> (2 :: int) ^ 1024 - 2 ^ 970 \<le> \<bar>n\<bar>" using n0 by simp
  then have r: "requested_control m = Inr (PStr (lower name), PFloat ?v)"
    using assms(4-6) w(4) c n0 by (simp add: requested_control_def control_of_words_def word_value_def py_int_fmt)
  have v: "?v \<le> 1" "\<bar>?v - q\<bar> \<le> 1 / 1000 + 1 / 2 ^ 50"
    using wire.near [OF assms(2)] wire.dec_valid [OF w(3)] by (simp_all add: n wire_error_def in_range_def)
  have ne: "truthy (PStr (lower name))" using w(1) by (auto simp: CONTROL_SURFACE_TO_CODE_def split: if_splits)
  have h': "apply_control m h = (answer, h')" using assms(3,8) by (simp add: handle_control_input_request_def)
  have k: "has_key (fcs_inputs (fh_fcs h)) (lower name) \<longleftrightarrow> lower name \<in> surfaces" using assms(7) by (simp add: fcs_ok_def)
  show ?thesis
  proof (cases "lower name \<in> surfaces")
    case True
    obtain x p where x: "clamp (lower_limit (lower name)) (PFloat ?v) = Inr x" "py_num x = Some p"
      "\<bar>p - max (lower_limit (lower name)) q\<bar> \<le> 1 / 1000 + 1 / 2 ^ 50"
      using clamp_near [OF v(2,1)] by blast
    define f where "f = send_completion (Control_Completion (lower name) x (dict_get m ''request_id'' PNone))
      ((fh_fcs h)\<lparr>fcs_inputs := dict_set (lower name) x (fcs_inputs (fh_fcs h))\<rparr>)"
    have "set_control_input (PStr (lower name)) (PFloat ?v) (dict_get m ''request_id'' PNone) (fh_fcs h) = (True, f)"
      using True k x(1) by (simp add: set_control_input_def lower_limit_def [symmetric] f_def)
    then have "(answer, h') = respond (Control_Answer True (dict_get m ''request_id'' PNone) (PStr (lower name)) (PFloat ?v)
        (dict_get (fcs_inputs f) (lower name) (PFloat ?v))) (h\<lparr>fh_fcs := f\<rparr>)"
      using h' r ne by (simp add: apply_control_def Let_def)
    then show ?thesis using True x by (auto simp: respond_def f_def map_of_dict_set)
  next
    case False
    then have "set_control_input (PStr (lower name)) (PFloat ?v) rid (fh_fcs h) = (False, fh_fcs h)" for rid
      using k by (simp add: set_control_input_def)
    moreover have "dict_get (fcs_inputs (fh_fcs h)) (lower name) w = w" for w
      using False k by (simp add: has_key_def dict_get_def)
    ultimately have "(answer, h') = respond (Control_Answer False (dict_get m ''request_id'' PNone) (PStr (lower name)) (PFloat ?v) (PFloat ?v)) h"
      using h' r ne by (simp add: apply_control_def Let_def)
    then show ?thesis using False by (auto simp: respond_def)
  qed
qed

text \<open>
  A mode command sent in the wire format puts the system into the mode it names, and a number that is no mode is
  refused with the mode unchanged.
\<close>

theorem mode_command_end_to_end:
  assumes "pass_gate t u i ''mode_change'' ''fcs_mode_handler'' m0 h0 = (Inr (True, m), h)"
    "dict_get m ''data'' PNone = PStr (fmt_bin 16 n)" "0 \<le> n" "handle_mode_change_request t u i m0 h0 = (answer, h')"
  shows "case map_of MODE_VALUE_TO_NAME n of
      Some mode \<Rightarrow> answer = Mode_Answer True (dict_get m ''request_id'' PNone) (fcs_mode (fh_fcs h)) mode \<and> fcs_mode (fh_fcs h') = mode
    | None \<Rightarrow> answer = Mode_Answer False (dict_get m ''request_id'' PNone) (fcs_mode (fh_fcs h)) (fcs_mode (fh_fcs h)) \<and>
        fh_fcs h' = fh_fcs h \<and> (\<forall>a. mode_data_words a \<noteq> Inr [fmt_bin 16 n])"
proof -
  have r: "requested_mode m = Inr n" using assms(2,3) by (simp add: requested_mode_def py_int_fmt)
  have h': "change_mode m h = (answer, h')" using assms(1,4) by (simp add: handle_mode_change_request_def)
  show ?thesis
  proof (cases "map_of MODE_VALUE_TO_NAME n")
    case None
    have "mode_data_words a \<noteq> Inr [fmt_bin 16 n]" for a
    proof
      assume "mode_data_words a = Inr [fmt_bin 16 n]"
      then obtain k where k: "resolve_mode a = Inr k" "fmt_bin 16 k = fmt_bin 16 n"
        by (auto simp: mode_data_words_def py_bind_eq_Inr)
      then have "Inr k = (Inr n :: int pyres)" using mode_value [OF k(1)] assms(3) py_int_fmt by metis
      then show False using mode_value [OF k(1)] None by simp
    qed
    then show ?thesis using h' r None by (auto simp: change_mode_def respond_def Let_def)
  next
    case (Some mode)
    then have "mode \<in> set ALL_MODES" by (auto simp: MODE_VALUE_TO_NAME_def ALL_MODES_def split: if_splits)
    then have "fst (set_mode (PStr mode) rid (fh_fcs h)) \<and> fcs_mode (snd (set_mode (PStr mode) rid (fh_fcs h))) = mode" for rid
      by (simp add: set_mode_def)
    then show ?thesis using h' r Some by (auto simp: change_mode_def respond_def Let_def split: prod.splits if_splits) (metis fst_conv snd_conv)+
  qed
qed

text \<open>A binary word read as a decimal number is at least as large as its value.\<close>

lemma decimal_ge: "foldl (\<lambda>a c. a * 2 + int (bit_nat c)) acc w \<le> foldl (\<lambda>a c. a * 10 + int (bit_nat c)) acc' w"
  if "acc \<le> acc'" "0 \<le> acc" for acc acc' :: int
  using that
proof (induction w arbitrary: acc acc')
  case (Cons c w)
  show ?case using Cons.prems by (simp, intro Cons.IH) auto
qed simp

lemma decimal_below:
  "0 \<le> acc \<Longrightarrow> foldl (\<lambda>a c. a * 10 + int (bit_nat c)) acc w < (acc + 1) * 10 ^ length w" for acc :: int
proof (induction w arbitrary: acc)
  case (Cons c w)
  have "foldl (\<lambda>a c. a * 10 + int (bit_nat c)) acc (c # w) < (acc * 10 + int (bit_nat c) + 1) * 10 ^ length w"
    using Cons by simp
  also have "\<dots> \<le> ((acc + 1) * 10) * 10 ^ length w"
    using bit_nat_le [of c] by (intro mult_right_mono) simp_all
  finally show ?case by (simp add: algebra_simps)
qed simp

lemma py_int_bits_10:
  assumes "bits w" "w \<noteq> []"
  shows "\<exists>n. py_int 10 w = Inr n \<and> int (bval w) \<le> n \<and> n < 10 ^ length w"
proof -
  have nws: "\<not> py_ws c" if "c \<in> set w" for c
    using bits_in [OF assms(1) that] by (auto simp: py_ws_def)
  then have s: "strip_with py_ws w = w" by (intro strip_with_id)
  obtain c cs where c: "w = c # cs" using assms(2) by (cases w) auto
  then have cb: "c = CHR ''0'' \<or> c = CHR ''1''" using bits_in [OF assms(1), of c] by simp
  have d: "drop_prefix 10 w = w" by (simp add: drop_prefix_def split: list.split)
  have "parse_digits 10 False 0 w = Some (foldl (\<lambda>a c. a * int 10 + int (bit_nat c)) 0 w)"
    using assms by (intro parse_digits_bits) simp_all
  moreover have "foldl (\<lambda>a c. a * 10 + int (bit_nat c)) 0 w < 10 ^ length w" using decimal_below [of 0 w] by simp
  moreover have "int (bval w) \<le> foldl (\<lambda>a c. a * 10 + int (bit_nat c)) 0 w"
    using decimal_ge [of 0 0 w] foldl_bval [of w] by simp
  moreover have "py_int 10 w = (case parse_digits 10 False 0 (drop_prefix 10 w) of None \<Rightarrow> Inl ValueError | Some v \<Rightarrow> Inr v)"
  proof -
    have "c \<noteq> CHR ''-''" "c \<noteq> CHR ''+''" using cb by auto
    then show ?thesis unfolding py_int_def s Let_def unfolding c by (simp cong: option.case_cong)
  qed
  ultimately show ?thesis by (simp add: d)
qed

lemma decimal_of_bits:
  assumes "bits w" "w \<noteq> []" "length w \<le> 300"
  shows "\<exists>v. sync_value (PStr w) = Inr (PFloat v) \<and> (1 \<le> bval w \<longrightarrow> 1 \<le> v)"
proof -
  obtain n where n: "py_int 10 w = Inr n" "int (bval w) \<le> n" "n < 10 ^ length w"
    using py_int_bits_10 [OF assms(1,2)] by blast
  have "n < 10 ^ 300" using n(3) power_increasing [OF assms(3), of "10 :: int"] by linarith
  then have b: "beyond_float n = False" by (simp add: beyond_float_def)
  have "digit c" if "is_bit c" for c using digit_val_bit [OF that] bit_nat_le [of c] by (simp add: digit_def)
  then have "list_all digit w" using assms(1) by (auto simp: bits_def list_all_iff)
  then have "sync_value (PStr w) = Inr (PFloat (fl (of_int n)))" using assms(2) n(1)
    by (simp add: sync_value_def text_value_def b)
  moreover have "1 \<le> fl (of_int n)" if "1 \<le> bval w"
    using fl_mono [of 1 "of_int n"] fl_small n(2) that by simp
  ultimately show ?thesis by blast
qed

text \<open>
  The other decoders misread the wire format. A word of the aileron that is not the lowest is read by the system's
  own handler as a decimal number and sets the aileron fully to the right; the same words as integers are scaled by
  32767 in the flight management processor, so the command for full deflection moves the surface by a thirtieth.
\<close>

theorem other_decoders_misread_control:
  assumes "fcs_ok s" "control_input_data_words (PStr ''aileron'') (PFloat q) = Inr ws"
    "encode_control_value (PFloat q) = Inr n" "1 \<le> n"
    "fo_data m = Some (PList (map PStr ws))" "dict_get d ''data'' PNone = PList [PInt 1, PInt 1000]"
  shows "fst (handle_control_input_sync m rid s) = Inr True \<and>
    map_of (fcs_inputs (snd (handle_control_input_sync m rid s))) ''aileron'' = Some (PFloat 1) \<and>
    (\<exists>x. fst (fms_control_input d s) = Inr True \<and>
       map_of (fcs_inputs (snd (fms_control_input d s))) ''aileron'' = Some (PFloat x) \<and> x < 1 / 30)"
proof -
  have ail: "has_key (fcs_inputs s) ''aileron''" using assms(1) by (simp add: fcs_ok_def surfaces_def)
  have "lower ''aileron'' = ''aileron''" by code_simp
  then have ws: "ws = [fmt_bin 16 1, fmt_bin 16 n]"
    using control_words [OF assms(2)] assms(3) by (auto simp: CONTROL_SURFACE_TO_CODE_def)
  have w0: "sync_surface (PStr (fmt_bin 16 1)) = PStr ''aileron''" by code_simp
  have b: "bits (fmt_bin 16 n)" "fmt_bin 16 n \<noteq> []" "length (fmt_bin 16 n) \<le> 300"
    using assms(4) encode_range [OF assms(3)] length_fmt_bin [of 16 n]
    by (simp_all add: bits_fmt_bin wire_codes_def) (simp add: fmt_bin_def zfill_def)
  obtain v where v: "sync_value (PStr (fmt_bin 16 n)) = Inr (PFloat v)" "1 \<le> v"
    using decimal_of_bits [OF b] assms(4) by (auto simp: bval_fmt_bin)
  have c: "clamp (- 1) (PFloat v) = Inr (PFloat 1)" using v(2) by (simp add: clamp_def Let_def)
  have "handle_control_input_sync m rid s = (case set_control_input (PStr ''aileron'') (PFloat v) rid s of (b, s) \<Rightarrow> (Inr b, s))"
    using assms(5) w0 v(1) by (simp add: ws handle_control_input_sync_def from_metadata_def attr_def)
  moreover have "fms_control_input d s =
      (case set_control_input (PStr ''aileron'') (PFloat (fdiv 1000 32767)) (dict_get d ''request_id'' PNone) s of (b, s) \<Rightarrow> (Inr b, s))"
    using assms(6) fl_small by (simp add: fms_control_input_def fms_surface_def fms_value_def surface_of_number_def signed_word_def)
  moreover have x: "fdiv 1000 32767 < 1 / 30" "- 1 < fdiv 1000 32767"
  proof -
    have d: "\<bar>fdiv 1000 32767 - 1000 / 32767\<bar> \<le> 1 / 2 ^ 53" unfolding fdiv_def by (rule fl_near) simp
    have "fdiv 1000 32767 \<le> 1000 / 32767 + 1 / 2 ^ 53" "1000 / 32767 \<le> fdiv 1000 32767 + 1 / 2 ^ 53"
      using abs_le_D1 [OF d] abs_le_D2 [OF d] by linarith+
    moreover have "1000 / 32767 + 1 / 2 ^ 53 < (1 / 30 :: rat)" "- 1 + 1 / 2 ^ 53 < (1000 / 32767 :: rat)" by simp_all
    ultimately show "fdiv 1000 32767 < 1 / 30" "- 1 < fdiv 1000 32767" by linarith+
  qed
  then have "clamp (- 1) (PFloat (fdiv 1000 32767)) = Inr (PFloat (fdiv 1000 32767))" by (simp add: clamp_def Let_def)
  ultimately show ?thesis using ail c x(1) by (simp add: set_control_input_def map_of_dict_set)
qed

text \<open>
  The other mode decoders disagree as well: the system's own handler takes the data of a bus message for the name
  of a mode and refuses every binary word, whatever mode the metadata names, and the flight management processor takes
  a number that is no mode for \<^verbatim>\<open>NORMAL\<close>, which the message handler refuses.
\<close>

theorem other_decoders_misread_mode:
  assumes "bits w" "w \<noteq> []" "fo_data m = Some (PStr w)" "\<not> has_key d ''mode''" "dict_get d ''data'' PNone = PStr w"
    "map_of MODE_VALUE_TO_NAME (int (bval w)) = None"
  shows "handle_mode_change_sync m rid s = (False, s) \<and>
    fms_mode_change d s = set_mode (PStr ''NORMAL'') (dict_get d ''request_id'' PNone) s \<and>
    change_mode d h = respond (Mode_Answer False (dict_get d ''request_id'' PNone) (fcs_mode (fh_fcs h)) (fcs_mode (fh_fcs h))) h"
proof -
  have "w \<notin> set ALL_MODES" using assms(1) by (auto simp: ALL_MODES_def is_bit_def)
  then have "handle_mode_change_sync m rid s = (False, s)"
    using assms(3) by (simp add: handle_mode_change_sync_def sync_mode_def attr_def from_metadata_def set_mode_def)
  moreover have "list_all is_bit w" using assms(1) by (simp add: bits_def)
  then have "fms_mode_change d s = set_mode (PStr ''NORMAL'') (dict_get d ''request_id'' PNone) s"
    using assms by (simp add: fms_mode_change_def fms_mode_def py_int_bits mode_or_normal_def)
  moreover have "change_mode d h = respond (Mode_Answer False (dict_get d ''request_id'' PNone) (fcs_mode (fh_fcs h)) (fcs_mode (fh_fcs h))) h"
    using assms by (simp add: change_mode_def requested_mode_def py_int_bits)
  ultimately show ?thesis by blast
qed

section \<open>Witnesses\<close>

definition fcs0 :: fcs_handler where "fcs0 = \<lparr>fh_gate = None, fh_fcs = new_fcs, fh_service = True, fh_sent = []\<rparr>"

theorem fcs_state_sound_witness:
  "fcs_mode (fh_fcs (fold fcs_do [Start_Fcs 1, Fms_Mode [(''mode'', PStr ''COMBAT'')], Stop_Fcs] fcs0)) \<in> set ALL_MODES"
  using fcs_state_sound [of fcs0 "[Start_Fcs 1, Fms_Mode [(''mode'', PStr ''COMBAT'')], Stop_Fcs]"] by (simp add: fcs0_def)

theorem startup_never_discards_witness:
  "\<exists>s. s = fh_fcs (fold fcs_do [Start_Fcs 1] fcs0) \<and>
     receive_message_sync 2 ''mode_handler'' (Pair (Inr False)) \<lparr>fo_data = Some (PStr ''COMBAT''), fo_control_type = None,
       fo_value = None, fo_mode = None, fo_metadata = None\<rparr> PNone s =
     (case handle_mode_change_sync \<lparr>fo_data = Some (PStr ''COMBAT''), fo_control_type = None, fo_value = None, fo_mode = None,
       fo_metadata = None\<rparr> PNone (s\<lparr>fcs_in_startup := False\<rparr>) of (b, s') \<Rightarrow> (Inr b, s'))"
  using startup_never_discards [of fcs0 _ "[Start_Fcs 1]"] by (simp add: fcs0_def)

lemma half_words: "\<exists>n. encode_control_value (PFloat (1 / 2)) = Inr n \<and> 500 \<le> n \<and>
    control_input_data_words (PStr ''aileron'') (PFloat (1 / 2)) = Inr [fmt_bin 16 1, fmt_bin 16 n]"
proof -
  have r: "in_range (1 / 2)" "in_range 0" by (simp_all add: in_range_def)
  have "lower ''aileron'' = ''aileron''" by code_simp
  then have "control_input_data_words (PStr ''aileron'') (PFloat (1 / 2)) = Inr [fmt_bin 16 1, fmt_bin 16 (enc_value (1 / 2))]"
    using encode_in_range [OF r(1)] by (simp add: control_input_data_words_def CONTROL_SURFACE_TO_CODE_def)
  moreover have "enc_value 0 = 500"
    using fl_small fl_of_int [of 500] rne_of_int [of 500] by (simp add: enc_value_def scaled_value_def fadd_def fmul_def py_round_def)
  then have "500 \<le> enc_value (1 / 2)" using wire.enc_mono [OF r(2,1)] by simp
  ultimately show ?thesis using encode_in_range [OF r(1)] by blast
qed

theorem control_command_end_to_end_witness:
  "\<exists>n w p h'. map_of (fcs_inputs (fh_fcs h')) ''aileron'' = Some w \<and> py_num w = Some p \<and> \<bar>p - 1 / 2\<bar> \<le> 1 / 1000 + 1 / 2 ^ 50 \<and>
     h' = snd (handle_control_input_request 1 ''u'' ''i''
       [(''data'', PStr []), (''data_words'', PList [PStr (fmt_bin 16 1), PStr (fmt_bin 16 n)])] fcs0)"
proof -
  obtain n where n: "control_input_data_words (PStr ''aileron'') (PFloat (1 / 2)) = Inr [fmt_bin 16 1, fmt_bin 16 n]"
    using half_words by blast
  let ?m = "[(''data'', PStr []), (''data_words'', PList [PStr (fmt_bin 16 1), PStr (fmt_bin 16 n)])]"
  obtain a h' where h': "handle_control_input_request 1 ''u'' ''i'' ?m fcs0 = (a, h')" by force
  have "lower ''aileron'' = ''aileron''" by code_simp
  then have "\<exists>w p. map_of (fcs_inputs (fh_fcs h')) ''aileron'' = Some w \<and> py_num w = Some p \<and> \<bar>p - 1 / 2\<bar> \<le> 1 / 1000 + 1 / 2 ^ 50"
    using control_command_end_to_end [OF n _ _ _ _ _ _ h', of ?m fcs0] new_fcs_ok
    by (auto simp: in_range_def pass_gate_def fcs0_def has_key_def dict_get_def surfaces_def lower_limit_def max_def
      simp del: map_of_eq_Some_iff)
  then show ?thesis using h' by (metis snd_conv)
qed

theorem mode_command_end_to_end_witness:
  "fcs_mode (fh_fcs (snd (handle_mode_change_request 1 ''u'' ''i'' [(''data'', PStr (fmt_bin 16 1))] fcs0))) = ''COMBAT''"
proof -
  obtain a h' where h': "handle_mode_change_request 1 ''u'' ''i'' [(''data'', PStr (fmt_bin 16 1))] fcs0 = (a, h')" by force
  then show ?thesis
    using mode_command_end_to_end [OF _ _ _ h', of "[(''data'', PStr (fmt_bin 16 1))]" fcs0 1]
    by (simp add: pass_gate_def fcs0_def dict_get_def MODE_VALUE_TO_NAME_def)
qed

theorem other_decoders_misread_control_witness:
  "\<exists>n. map_of (fcs_inputs (snd (handle_control_input_sync \<lparr>fo_data = Some (PList [PStr (fmt_bin 16 1), PStr (fmt_bin 16 n)]),
     fo_control_type = None, fo_value = None, fo_mode = None, fo_metadata = None\<rparr> PNone new_fcs))) ''aileron'' = Some (PFloat 1)"
proof -
  obtain n where n: "encode_control_value (PFloat (1 / 2)) = Inr n" "500 \<le> n"
    "control_input_data_words (PStr ''aileron'') (PFloat (1 / 2)) = Inr [fmt_bin 16 1, fmt_bin 16 n]" using half_words by blast
  let ?m = "\<lparr>fo_data = Some (PList [PStr (fmt_bin 16 1), PStr (fmt_bin 16 n)]),
     fo_control_type = None, fo_value = None, fo_mode = None, fo_metadata = None\<rparr>"
  have "1 \<le> n" using n(2) by simp
  from other_decoders_misread_control [OF new_fcs_ok n(3,1) this, of ?m "[(''data'', PList [PInt 1, PInt 1000])]" PNone]
  show ?thesis by (auto simp: dict_get_def simp del: map_of_eq_Some_iff)
qed

theorem other_decoders_misread_mode_witness:
  "fms_mode_change [(''data'', PStr ''1111'')] (new_fcs\<lparr>fcs_mode := ''COMBAT''\<rparr>) =
     set_mode (PStr ''NORMAL'') PNone (new_fcs\<lparr>fcs_mode := ''COMBAT''\<rparr>)"
proof -
  have "bval ''1111'' = 15" by code_simp
  then show ?thesis
    using other_decoders_misread_mode [of "''1111''" "\<lparr>fo_data = Some (PStr ''1111''), fo_control_type = None, fo_value = None,
        fo_mode = None, fo_metadata = None\<rparr>" "[(''data'', PStr ''1111'')]" PNone "new_fcs\<lparr>fcs_mode := ''COMBAT''\<rparr>" fcs0]
    by (simp add: has_key_def dict_get_def MODE_VALUE_TO_NAME_def)
qed

end
