(* ===== verification/Retry.thy ===== *)
theory Retry
  imports Py_Float
begin

text \<open>
  The bounded retry policy of the bus listeners (\<^verbatim>\<open>Utils/common/retry.py\<close>, class
  \<open>BackoffPolicy\<close>). The clock is an argument of the operations that read it; times and delays are binary64
  values. A float power that exceeds the range of binary64 is Python's \<^verbatim>\<open>OverflowError\<close>. A log line
  is the list of its parts, which the code joins with a dash.
\<close>

section \<open>State\<close>

record policy =
  p_name :: string
  p_initial :: rat
  p_maximum :: rat
  p_factor :: rat
  p_give_up_after :: "rat option"
  p_max_attempts :: "nat option"
  p_log_first :: nat
  p_log_interval :: rat
  p_attempts :: nat
  p_first_failure_at :: "rat option"
  p_last_logged_at :: "rat option"
  p_suppressed :: nat

definition new_policy :: "string \<Rightarrow> policy" where
  "new_policy name = \<lparr>p_name = name, p_initial = 1 / 2, p_maximum = 30, p_factor = 2, p_give_up_after = Some 120,
     p_max_attempts = None, p_log_first = 3, p_log_interval = 30, p_attempts = 0, p_first_failure_at = None,
     p_last_logged_at = None, p_suppressed = 0\<rparr>"

section \<open>Operations\<close>

definition exhausted :: "rat \<Rightarrow> policy \<Rightarrow> bool" where
  "exhausted now p =
     (if p_attempts p = 0 then False
      else if (case p_max_attempts p of Some m \<Rightarrow> m \<le> p_attempts p | None \<Rightarrow> False) then True
      else (case (p_give_up_after p, p_first_failure_at p) of
              (Some g, Some t) \<Rightarrow> g \<le> fsub now t
            | _ \<Rightarrow> False))"

definition failing_for :: "rat \<Rightarrow> policy \<Rightarrow> rat" where
  "failing_for now p = (case p_first_failure_at p of None \<Rightarrow> 0 | Some t \<Rightarrow> fsub now t)"

definition suppressed :: "policy \<Rightarrow> nat" where "suppressed p = p_suppressed p"

definition float_pow :: "rat \<Rightarrow> nat \<Rightarrow> rat pyres" where
  "float_pow b n = (let v = fl (b ^ n) in if 2 ^ 1024 \<le> \<bar>v\<bar> then Inl OverflowError else Inr v)"

text \<open>The wait after a failure; the failure is counted before the delay is computed.\<close>

definition record_failure :: "rat \<Rightarrow> policy \<Rightarrow> rat pyres \<times> policy" where
  "record_failure now p =
     (let p = (if p_first_failure_at p = None then p\<lparr>p_first_failure_at := Some now\<rparr> else p);
          p = p\<lparr>p_attempts := p_attempts p + 1\<rparr>
      in (py_bind (float_pow (p_factor p) (p_attempts p - 1)) (\<lambda>e. Inr (min (fmul (p_initial p) e) (p_maximum p))), p))"

definition record_success :: "policy \<Rightarrow> policy" where
  "record_success p = p\<lparr>p_attempts := 0, p_first_failure_at := None, p_last_logged_at := None, p_suppressed := 0\<rparr>"

definition should_log :: "rat \<Rightarrow> policy \<Rightarrow> bool \<times> policy" where
  "should_log now p =
     (if p_attempts p \<le> p_log_first p then (True, p\<lparr>p_last_logged_at := Some now, p_suppressed := 0\<rparr>)
      else if (case p_last_logged_at p of None \<Rightarrow> True | Some t \<Rightarrow> p_log_interval p \<le> fsub now t)
           then (True, p\<lparr>p_last_logged_at := Some now, p_suppressed := 0\<rparr>)
      else (False, p\<lparr>p_suppressed := p_suppressed p + 1\<rparr>))"

text \<open>\<^verbatim>\<open>f"{x:.1f}"\<close>: the exact value rounded to one decimal, ties to even.\<close>

definition fmt_1f :: "rat \<Rightarrow> string" where
  "fmt_1f x = (let n = nat (rne (\<bar>x\<bar> * 10))
               in (if x < 0 then ''-'' else []) @ dec_str (n div 10) @ ''.'' @ dec_str (n mod 10))"

definition describe :: "rat \<Rightarrow> string \<Rightarrow> policy \<Rightarrow> string list" where
  "describe now detail p =
     [p_name p @ '': attempt '' @ dec_str (p_attempts p)]
     @ (if p_first_failure_at p \<noteq> None then [''failing for '' @ fmt_1f (failing_for now p) @ ''s''] else [])
     @ (if p_suppressed p \<noteq> 0 then [dec_str (p_suppressed p) @ '' similar suppressed''] else [])
     @ (if detail \<noteq> [] then [detail] else [])"

text \<open>
  The reason for giving up: the count and its limit, or the printed duration and the time limit, of which the code
  prints the value as it is.
\<close>

datatype reason = Attempt_Limit nat nat | Time_Limit string "rat option"

definition give_up_reason :: "rat \<Rightarrow> policy \<Rightarrow> reason" where
  "give_up_reason now p =
     (case p_max_attempts p of
        Some m \<Rightarrow> if m \<le> p_attempts p then Attempt_Limit (p_attempts p) m
                  else Time_Limit (fmt_1f (failing_for now p)) (p_give_up_after p)
      | None \<Rightarrow> Time_Limit (fmt_1f (failing_for now p)) (p_give_up_after p))"

section \<open>A run of failures\<close>

text \<open>
  The listener's loop: at each time a failure is recorded and the log is asked. The result is the times at which a
  line was logged.
\<close>

fun failure_run :: "rat list \<Rightarrow> policy \<Rightarrow> rat list \<times> policy" where
  "failure_run [] p = ([], p)"
| "failure_run (t # ts) p =
     (let p = snd (record_failure t p); (log, p) = should_log t p; (logged, p) = failure_run ts p
      in (if log then t # logged else logged, p))"

lemma record_failure_state:
  "snd (record_failure now p) = p\<lparr>p_attempts := p_attempts p + 1,
     p_first_failure_at := Some (case p_first_failure_at p of None \<Rightarrow> now | Some t \<Rightarrow> t)\<rparr>"
  by (cases p) (auto simp: record_failure_def Let_def split: option.split)

lemma should_log_attempts: "p_attempts (snd (should_log t p)) = p_attempts p"
  "p_first_failure_at (snd (should_log t p)) = p_first_failure_at p"
  "p_max_attempts (snd (should_log t p)) = p_max_attempts p"
  by (simp_all add: should_log_def)

lemma failure_run_attempts: "p_attempts (snd (failure_run ts p)) = p_attempts p + length ts"
  by (induction ts arbitrary: p) (simp_all add: record_failure_state should_log_attempts split_beta Let_def)

lemma failure_run_max: "p_max_attempts (snd (failure_run ts p)) = p_max_attempts p"
  by (induction ts arbitrary: p) (simp_all add: record_failure_state should_log_attempts split_beta Let_def)

text \<open>Past the first failures, a logged line is at least the interval after the one before.\<close>

fun spaced :: "rat \<Rightarrow> rat option \<Rightarrow> rat list \<Rightarrow> bool" where
  "spaced d prev [] = True"
| "spaced d prev (t # ts) = ((case prev of None \<Rightarrow> True | Some u \<Rightarrow> d \<le> fsub t u) \<and> spaced d (Some t) ts)"

lemma failure_run_spaced:
  "p_log_first p \<le> p_attempts p \<Longrightarrow> spaced (p_log_interval p) (p_last_logged_at p) (fst (failure_run ts p))"
proof (induction ts arbitrary: p)
  case (Cons t ts)
  let ?q = "snd (record_failure t p)"
  let ?r = "snd (should_log t ?q)"
  have q: "p_log_first ?q = p_log_first p" "p_attempts ?q = p_attempts p + 1" "p_log_interval ?q = p_log_interval p"
    "p_last_logged_at ?q = p_last_logged_at p" by (simp_all add: record_failure_state)
  have r: "p_log_first ?r = p_log_first p" "p_attempts ?r = p_attempts p + 1" "p_log_interval ?r = p_log_interval p"
    by (simp_all add: should_log_def q)
  have ih: "spaced (p_log_interval p) (p_last_logged_at ?r) (fst (failure_run ts ?r))"
    using Cons.IH [of ?r] Cons.prems r by simp
  show ?case
  proof (cases "fst (should_log t ?q)")
    case True
    then have "p_last_logged_at ?r = Some t" "case p_last_logged_at p of None \<Rightarrow> True | Some u \<Rightarrow> p_log_interval p \<le> fsub t u"
      using Cons.prems by (auto simp: should_log_def q split: if_splits option.splits)
    with True ih show ?thesis by (simp add: split_beta Let_def)
  next
    case False
    then have "p_last_logged_at ?r = p_last_logged_at p" by (auto simp: should_log_def q split: if_splits)
    with False ih show ?thesis by (simp add: split_beta Let_def)
  qed
qed simp

lemma power_mono_rat: "(1::rat) \<le> b \<Longrightarrow> b ^ n \<le> b ^ Suc n"
  by (rule power_increasing) simp_all

section \<open>Properties\<close>

text \<open>
  The delay after a failure never exceeds the maximum, and with a factor of at least one and a positive initial
  delay it never shrinks from one failure to the next and is never below the initial delay's share of the maximum.
\<close>

theorem backoff_bounded_monotone:
  assumes "1 \<le> p_factor p" "0 \<le> p_initial p"
    "fst (record_failure t p) = Inr d" "fst (record_failure t' (snd (record_failure t p))) = Inr d'"
  shows "d \<le> p_maximum p \<and> d \<le> d' \<and> min (fl (p_initial p)) (p_maximum p) \<le> d"
proof (intro conjI)
  let ?b = "p_factor p" let ?n = "p_attempts p"
  have d: "d = min (fmul (p_initial p) (fl (?b ^ ?n))) (p_maximum p)"
    using assms(3) by (auto simp: record_failure_def float_pow_def Let_def py_bind_eq_Inr split: if_splits)
  have d': "d' = min (fmul (p_initial p) (fl (?b ^ Suc ?n))) (p_maximum p)"
    using assms(4) by (auto simp: record_failure_state record_failure_def [of t'] float_pow_def Let_def py_bind_eq_Inr
      split: if_splits)
  have "fl (?b ^ ?n) \<le> fl (?b ^ Suc ?n)" using power_mono_rat [OF assms(1)] by (rule fl_mono)
  then have "fmul (p_initial p) (fl (?b ^ ?n)) \<le> fmul (p_initial p) (fl (?b ^ Suc ?n))"
    unfolding fmul_def by (intro fl_mono) (rule mult_left_mono [OF _ assms(2)])
  then show "d \<le> d'" unfolding d d' by (rule min.mono) simp
  show "d \<le> p_maximum p" by (simp add: d)
  have "1 \<le> ?b ^ ?n" using assms(1) by simp
  then have "fl 1 \<le> fl (?b ^ ?n)" by (rule fl_mono)
  then have "1 \<le> fl (?b ^ ?n)" using fl_of_int [of 1] by simp
  then have "p_initial p * 1 \<le> p_initial p * fl (?b ^ ?n)" using assms(2) by (intro mult_left_mono) simp_all
  then have "fl (p_initial p) \<le> fmul (p_initial p) (fl (?b ^ ?n))" unfolding fmul_def by (intro fl_mono) simp
  then show "min (fl (p_initial p)) (p_maximum p) \<le> d" unfolding d by (rule min.mono) simp
qed

text \<open>
  Log lines of a continuing failure are rate limited: once the first failures have been logged in full, every
  further line comes at least the interval after the line before it, however fast the failures come.
\<close>

theorem log_lines_rate_limited:
  assumes "p_log_first p \<le> p_attempts p"
  shows "spaced (p_log_interval p) (p_last_logged_at p) (fst (failure_run ts p))"
  using assms by (rule failure_run_spaced)

text \<open>
  The retry loop gives up: after as many consecutive failures as the attempt bound allows the policy is
  exhausted whatever the clock says, after the time bound it is exhausted whatever the count, and a success clears
  the run.
\<close>

theorem gives_up:
  "(p_max_attempts p = Some m \<longrightarrow> m \<le> p_attempts p + length ts \<longrightarrow> ts \<noteq> [] \<longrightarrow> exhausted now (snd (failure_run ts p))) \<and>
   (p_give_up_after p = Some g \<longrightarrow> p_first_failure_at p = Some t \<longrightarrow> p_attempts p \<noteq> 0 \<longrightarrow> g \<le> fsub now t \<longrightarrow> exhausted now p) \<and>
   \<not> exhausted now (record_success p) \<and> failing_for now (record_success p) = 0"
  by (auto simp: exhausted_def failure_run_attempts failure_run_max record_success_def failing_for_def)

text \<open>
  A policy without bounds is documented to back off forever. With the default factor it raises instead at its
  1025th consecutive failure: the power overflows before the ceiling is applied.
\<close>

theorem unbounded_policy_overflows:
  assumes "p_factor p = 2" "p_attempts p = 1024"
  shows "fst (record_failure t p) = Inl OverflowError"
proof -
  have "fl (2 ^ 1024) = 2 ^ 1024"
    by (rule fl_exact [where m = 1 and k = 1024]) (simp_all add: power_int_def)
  then show ?thesis using assms by (simp add: record_failure_def float_pow_def Let_def)
qed

theorem backoff_bounded_monotone_witness:
  "\<exists>d d'. fst (record_failure 10 (new_policy ''bc'')) = Inr d \<and>
     fst (record_failure 11 (snd (record_failure 10 (new_policy ''bc'')))) = Inr d' \<and> d \<le> d' \<and> d \<le> 30"
proof -
  let ?p = "new_policy ''bc''"
  have 2: "fl 2 = 2" "fl 1 = 1" using fl_of_int [of 2] fl_of_int [of 1] by simp_all
  have "(1::rat) < 2 ^ 1024" "(2::rat) < 2 ^ 1024" using power_strict_increasing [of 0 1024 "2::rat"]
    power_strict_increasing [of 1 1024 "2::rat"] by simp_all
  then have "is_ok (fst (record_failure 10 ?p))" "is_ok (fst (record_failure 11 (snd (record_failure 10 ?p))))"
    by (simp_all add: record_failure_def float_pow_def new_policy_def Let_def 2 not_le)
  then obtain d d' where d: "fst (record_failure 10 ?p) = Inr d" "fst (record_failure 11 (snd (record_failure 10 ?p))) = Inr d'"
    by (auto simp: is_ok_iff)
  then show ?thesis
    using backoff_bounded_monotone [of ?p 10 d 11 d'] by (simp add: new_policy_def)
qed

theorem log_lines_rate_limited_witness:
  "let p = (new_policy ''bc'')\<lparr>p_attempts := 3, p_last_logged_at := Some 10\<rparr>
   in spaced (p_log_interval p) (p_last_logged_at p) (fst (failure_run [11, 50, 60] p))"
  unfolding Let_def by (rule log_lines_rate_limited) (simp add: new_policy_def)

theorem gives_up_witness:
  "exhausted 0 (snd (failure_run [1, 2] ((new_policy ''bc'')\<lparr>p_max_attempts := Some 2\<rparr>)))"
  using gives_up [of "(new_policy ''bc'')\<lparr>p_max_attempts := Some 2\<rparr>" 2 "[1, 2]"] by (simp add: new_policy_def)

theorem unbounded_policy_overflows_witness:
  "fst (record_failure 5 ((new_policy ''bc'')\<lparr>p_give_up_after := None, p_attempts := 1024\<rparr>)) = Inl OverflowError"
  by (rule unbounded_policy_overflows) (simp_all add: new_policy_def)

end
