(* ===== verification/Health.thy ===== *)
theory Health
  imports Retry "HOL-Library.List_Lexorder" "HOL-Library.Char_ord"
begin

text \<open>
  The component health contract (\<^verbatim>\<open>Utils/common/health.py\<close>): the three outcomes, the probe of one component, the
  worker-thread health of the flight subsystems, the late-resolving adapter of the bus listeners, the bound-socket
  test and the registry of the last sweep. A component is what its probe methods answer at the moment of the sweep;
  an attribute that is absent or not callable is \<open>None\<close>.
\<close>

section \<open>Reports\<close>

datatype health_state = HEALTHY | UNHEALTHY | UNKNOWN

fun state_value :: "health_state \<Rightarrow> string" where
  "state_value HEALTHY = ''healthy''"
| "state_value UNHEALTHY = ''unhealthy''"
| "state_value UNKNOWN = ''unknown''"

record health_report =
  r_name :: string
  r_state :: health_state
  r_reason :: string
  r_probed_via :: "string option"

definition report_healthy :: "health_report \<Rightarrow> bool" where
  "report_healthy r = (r_state r = HEALTHY)"

definition report_unhealthy :: "health_report \<Rightarrow> bool" where
  "report_unhealthy r = (r_state r = UNHEALTHY)"

abbreviation mk_report :: "string \<Rightarrow> health_state \<Rightarrow> string \<Rightarrow> string option \<Rightarrow> health_report" where
  "mk_report n s reason via \<equiv> \<lparr>r_name = n, r_state = s, r_reason = reason, r_probed_via = via\<rparr>"

text \<open>The subsystems without which the aircraft does not fly, by startup label and by component key.\<close>

definition SAFETY_CRITICAL_LABEL_TO_KEY :: "(string \<times> string) list" where
  "SAFETY_CRITICAL_LABEL_TO_KEY =
     [(''FCC'', ''flight_control_computer''), (''FlightSurfaceService'', ''flight_surface_service''),
      (''HydraulicSystemController'', ''hydraulic_system_controller''), (''ECU'', ''engine_control_unit''),
      (''ThrustManagementSystem'', ''thrust_management_system''),
      (''FuelManagementSystem'', ''fuel_management_system''),
      (''PowerManagementSystem'', ''power_management_system''), (''GCAS'', ''gcas''), (''NavService'', ''nav_service'')]"

definition CRITICAL_COMPONENTS :: "string list" where
  "CRITICAL_COMPONENTS =
     [''bc_listener'', ''rt_listener'', ''async_message_handler'', ''message_routing_service'', ''radar_management'',
      ''flightManagementSystem''] @ List.map snd SAFETY_CRITICAL_LABEL_TO_KEY"

section \<open>Probing a component\<close>

text \<open>A call either returns or raises an exception, of which the class name and the text are kept.\<close>

datatype 'a call = Returns 'a | Raises string string

datatype reported = Report health_report | Not_A_Report

record component =
  c_health_report :: "reported call option"
  c_check_health :: "pyval call option"
  c_is_healthy :: "pyval call option"

fun repr_falsy :: "pyval \<Rightarrow> string" where
  "repr_falsy PNone = ''None''"
| "repr_falsy (PBool b) = (if b then ''True'' else ''False'')"
| "repr_falsy (PInt i) = py_str_int i"
| "repr_falsy (PFloat q) = ''0.0''"
| "repr_falsy (PStr s) = [CHR 0x27, CHR 0x27]"
| "repr_falsy (PList xs) = ''[]''"
| "repr_falsy (PDict d) = ''{}''"

definition raised_reason :: "string \<Rightarrow> string \<Rightarrow> string \<Rightarrow> string" where
  "raised_reason m cls txt = m @ ''() raised '' @ cls @ '': '' @ txt"

definition no_interface_reason :: string where
  "no_interface_reason = ''exposes no health interface (health_report(), check_health() or is_healthy())''"

text \<open>The two boolean spellings, asked in order.\<close>

fun probe_methods :: "string \<Rightarrow> (string \<times> pyval call option) list \<Rightarrow> health_report" where
  "probe_methods n [] = mk_report n UNKNOWN no_interface_reason None"
| "probe_methods n ((m, None) # ms) = probe_methods n ms"
| "probe_methods n ((m, Some (Raises cls txt)) # ms) = mk_report n UNHEALTHY (raised_reason m cls txt) (Some m)"
| "probe_methods n ((m, Some (Returns v)) # ms) =
     (if truthy v then mk_report n HEALTHY [] (Some m)
      else mk_report n UNHEALTHY (m @ ''() returned '' @ repr_falsy v) (Some m))"

definition probe :: "string \<Rightarrow> component option \<Rightarrow> health_report" where
  "probe n cmp =
     (case cmp of
        None \<Rightarrow> mk_report n UNKNOWN ''component is None'' None
      | Some c \<Rightarrow>
          (let rest = probe_methods n [(''check_health'', c_check_health c), (''is_healthy'', c_is_healthy c)]
           in case c_health_report c of
                Some (Raises cls txt) \<Rightarrow> mk_report n UNHEALTHY (raised_reason ''health_report'' cls txt) (Some ''health_report'')
              | Some (Returns (Report r)) \<Rightarrow> mk_report n (r_state r) (r_reason r) (r_probed_via r)
              | Some (Returns Not_A_Report) \<Rightarrow> rest
              | None \<Rightarrow> rest))"

definition probe_all :: "(string \<times> component option) list \<Rightarrow> health_report list" where
  "probe_all cs = List.map (\<lambda>(n, c). probe n c) cs"

section \<open>A worker thread\<close>

record worker =
  w_name :: string
  w_alive :: bool

text \<open>\<^verbatim>\<open>repr\<close> of a thread name: names with quotes, backslashes or control characters are outside the model.\<close>

definition repr_name :: "string \<Rightarrow> string" where
  "repr_name s = CHR 0x27 # s @ [CHR 0x27]"

definition worker_health ::
  "string \<Rightarrow> worker option \<Rightarrow> bool \<Rightarrow> rat option \<Rightarrow> rat \<Rightarrow> string \<Rightarrow> rat \<Rightarrow> health_report" where
  "worker_health n thread stop_requested failing_since failure_grace_s last_error now =
     (let via = Some ''health_report'' in
      case thread of
        None \<Rightarrow> mk_report n UNKNOWN ''not started: no worker thread'' via
      | Some t \<Rightarrow>
          if stop_requested then
            mk_report n UNKNOWN (''stop requested; worker '' @ repr_name (w_name t) @ '' ''
              @ (if w_alive t then ''still running'' else ''stopped'')) via
          else if \<not> w_alive t then
            mk_report n UNHEALTHY (''worker thread '' @ repr_name (w_name t) @ '' is not alive'') via
          else
            (let healthy = mk_report n HEALTHY [] via in
             case failing_since of
               None \<Rightarrow> healthy
             | Some since \<Rightarrow>
                 if 0 < failure_grace_s then
                   (let d = fsub now since in
                    if failure_grace_s \<le> d then
                      mk_report n UNHEALTHY (''worker '' @ repr_name (w_name t) @ '' is alive but every pass has failed for ''
                        @ fmt_1f d @ ''s'' @ (if last_error \<noteq> [] then '': '' @ last_error else [])) via
                    else healthy)
                 else healthy))"

definition DEFAULT_FAILURE_GRACE_S :: rat where "DEFAULT_FAILURE_GRACE_S = 15"

section \<open>The late-resolving adapter and the socket test\<close>

definition delegated_report :: "string \<Rightarrow> component option call \<Rightarrow> health_report" where
  "delegated_report d resolver =
     (case resolver of
        Raises cls txt \<Rightarrow> mk_report d UNHEALTHY (''resolving '' @ d @ '' raised '' @ cls @ '': '' @ txt) (Some ''health_report'')
      | Returns None \<Rightarrow> mk_report d UNKNOWN (d @ '' not created yet'') (Some ''health_report'')
      | Returns (Some c) \<Rightarrow> probe d (Some c))"

text \<open>The adapter as a component of the registry.\<close>

definition delegated :: "string \<Rightarrow> component option call \<Rightarrow> component" where
  "delegated d resolver = \<lparr>c_health_report = Some (Returns (Report (delegated_report d resolver))), c_check_health = None,
     c_is_healthy = None\<rparr>"

text \<open>A socket: what \<^verbatim>\<open>fileno()\<close> answers and the address and port of \<^verbatim>\<open>getsockname()\<close>.\<close>

record socket =
  s_fileno :: "int call"
  s_sockname :: "(string \<times> int) call"

definition socket_is_bound :: "socket option \<Rightarrow> int option \<Rightarrow> bool" where
  "socket_is_bound sock expected =
     (case sock of
        None \<Rightarrow> False
      | Some s \<Rightarrow>
          (case s_fileno s of
             Raises _ _ \<Rightarrow> False
           | Returns fd \<Rightarrow>
               if fd < 0 then False
               else (case s_sockname s of
                       Raises _ _ \<Rightarrow> False
                     | Returns (_, port) \<Rightarrow>
                         if port = 0 then False
                         else if expected \<noteq> None \<and> Some port \<noteq> expected then False else True)))"

section \<open>The registry of the last sweep\<close>

record registry =
  h_reports :: "health_report list"
  h_swept_at :: rat

definition new_registry :: registry where "new_registry = \<lparr>h_reports = [], h_swept_at = 0\<rparr>"

definition registry_update :: "rat \<Rightarrow> health_report list \<Rightarrow> registry \<Rightarrow> registry" where
  "registry_update now rs h = h\<lparr>h_reports := rs, h_swept_at := now\<rparr>"

definition reg_snapshot :: "registry \<Rightarrow> health_report list" where "reg_snapshot h = h_reports h"

definition reg_unhealthy :: "registry \<Rightarrow> health_report list" where
  "reg_unhealthy h = filter report_unhealthy (reg_snapshot h)"

definition reg_unknown :: "registry \<Rightarrow> health_report list" where
  "reg_unknown h = filter (\<lambda>r. r_state r = UNKNOWN) (reg_snapshot h)"

definition reg_unhealthy_critical :: "registry \<Rightarrow> health_report list" where
  "reg_unhealthy_critical h = filter (\<lambda>r. r_name r \<in> set CRITICAL_COMPONENTS) (reg_unhealthy h)"

definition reg_has_swept :: "registry \<Rightarrow> bool" where "reg_has_swept h = (0 < h_swept_at h)"

section \<open>Lemmas\<close>

definition affirms :: "pyval call option \<Rightarrow> bool" where
  "affirms m = (case m of Some (Returns v) \<Rightarrow> truthy v | _ \<Rightarrow> False)"

lemma probe_methods_healthy:
  "r_state (probe_methods n ms) = HEALTHY \<longleftrightarrow>
     (case dropWhile (\<lambda>(m, c). c = None) ms of [] \<Rightarrow> False | (m, c) # _ \<Rightarrow> affirms c)"
  by (induction n ms rule: probe_methods.induct) (auto simp: affirms_def)

lemma probe_methods_unknown:
  "r_state (probe_methods n ms) = UNKNOWN \<longleftrightarrow> (\<forall>(m, c) \<in> set ms. c = None)"
  by (induction n ms rule: probe_methods.induct) auto

lemma probe_methods_name [simp]: "r_name (probe_methods n ms) = n"
  by (induction n ms rule: probe_methods.induct) auto

lemma probe_name [simp]: "r_name (probe n c) = n"
  by (auto simp: probe_def Let_def split: option.split call.split reported.split)

lemma probe_methods_state: "r_state (probe_methods n ms) = r_state (probe_methods m ms)"
  by (induction n ms rule: probe_methods.induct) auto

lemma probe_state: "r_state (probe n c) = r_state (probe m c)"
  using probe_methods_state [of n _ m]
  by (auto simp: probe_def Let_def simp del: probe_methods.simps split: option.split call.split reported.split)

lemma probe_all_names: "List.map r_name (probe_all cs) = List.map fst cs"
  by (induction cs) (auto simp: probe_all_def)

lemma probe_delegated [simp]:
  "r_state (probe n (Some (delegated d r))) = r_state (delegated_report d r)"
  by (simp add: probe_def delegated_def)

section \<open>Properties\<close>

text \<open>
  A component without a report of its own is called healthy exactly when the first of the two boolean methods it
  exposes returned a true value, and unknown exactly when it exposes neither: silence is never taken for health, and
  a method that raises or answers no is a failure.
\<close>

theorem probe_never_assumes:
  assumes "\<And>r. c_health_report c \<noteq> Some (Returns (Report r))" "\<And>x y. c_health_report c \<noteq> Some (Raises x y)"
  shows "r_state (probe n (Some c)) =
     (let asked = (if c_check_health c \<noteq> None then c_check_health c else c_is_healthy c)
      in if asked = None then UNKNOWN else if affirms asked then HEALTHY else UNHEALTHY)"
proof -
  have "probe n (Some c) = probe_methods n [(''check_health'', c_check_health c), (''is_healthy'', c_is_healthy c)]"
    using assms by (auto simp: probe_def Let_def split: option.split call.split reported.split)
  then show ?thesis
    by (cases "c_check_health c"; cases "c_is_healthy c") (auto simp: affirms_def Let_def split: call.split)
qed

text \<open>
  The health of a worker subsystem: healthy means alive, not asked to stop, and not failing for the grace
  period; a worker that died, or that has failed every pass for at least the grace period, is unhealthy; never
  started and asked to stop are unknown.
\<close>

theorem worker_health_spec:
  "(r_state (worker_health n thread stop since grace err now) = HEALTHY \<longleftrightarrow>
     (\<exists>t. thread = Some t \<and> w_alive t \<and> \<not> stop \<and> \<not> (\<exists>s. since = Some s \<and> 0 < grace \<and> grace \<le> fsub now s))) \<and>
   (r_state (worker_health n thread stop since grace err now) = UNKNOWN \<longleftrightarrow> thread = None \<or> stop)"
  by (auto simp: worker_health_def Let_def split: option.split)

text \<open>
  A worker is judged by how long it has failed and not by how often: a streak of any number of failed passes that
  is shorter than the grace period leaves it healthy. The documentation of the unhealthy outcome still states a count
  of consecutive failed passes.
\<close>

theorem failing_passes_within_grace_healthy:
  assumes "w_alive t" "fsub now since < DEFAULT_FAILURE_GRACE_S"
  shows "r_state (worker_health n (Some t) False (Some since) DEFAULT_FAILURE_GRACE_S err now) = HEALTHY"
  using assms by (simp add: worker_health_def Let_def)

text \<open>
  The listener adapter never reports a failure before its target exists, reports what the target's own probe
  says once it does, and a resolver that raises is a failure.
\<close>

theorem delegated_health:
  "r_state (probe n (Some (delegated d (Returns None)))) = UNKNOWN"
  "r_state (probe n (Some (delegated d (Returns (Some c))))) = r_state (probe n (Some c))"
  "r_state (probe n (Some (delegated d (Raises x y)))) = UNHEALTHY"
proof -
  have "r_state (probe d (Some c)) = r_state (probe n (Some c))" by (rule probe_state)
  then show "r_state (probe n (Some (delegated d (Returns (Some c))))) = r_state (probe n (Some c))"
    by (simp add: delegated_report_def)
qed (simp_all add: delegated_report_def)

text \<open>
  A socket counts as listening exactly when it is open and bound to a port, and to the expected one when an
  expectation is given.
\<close>

theorem socket_is_bound_iff:
  "socket_is_bound sock expected \<longleftrightarrow>
     (\<exists>s fd host port. sock = Some s \<and> s_fileno s = Returns fd \<and> 0 \<le> fd \<and> s_sockname s = Returns (host, port) \<and>
        port \<noteq> 0 \<and> expected \<in> {None, Some port})"
  by (auto simp: socket_is_bound_def split: option.split call.split)

theorem probe_never_assumes_witness:
  "r_state (probe ''radar'' (Some \<lparr>c_health_report = None, c_check_health = None, c_is_healthy = Some (Returns (PBool True))\<rparr>))
     = HEALTHY"
  by (subst probe_never_assumes) (simp_all add: affirms_def)

theorem failing_passes_within_grace_healthy_witness:
  "r_state (worker_health ''nav'' (Some \<lparr>w_name = ''nav'', w_alive = True\<rparr>) False (Some 7) DEFAULT_FAILURE_GRACE_S [] 7)
     = HEALTHY"
  by (rule failing_passes_within_grace_healthy) (simp_all add: DEFAULT_FAILURE_GRACE_S_def fsub_def fl_of_int [of 0, simplified])

end
