(* ===== verification/Collision.thy ===== *)
theory Collision
  imports Fcs_Control Health
begin

text \<open>
  Ground collision avoidance (\<^verbatim>\<open>groundCollisionAvoidanceSys.py\<close>): reading the flight state and the clearance of the terrain
  radar, the alerts of a reading, the pass of the polling thread with its failure streak, and the health report. The
  flight data of the flight management system, the conversion of a text to a float and the clock are arguments.
\<close>

section \<open>Readings\<close>

definition VS_PULLUP_FPM :: rat where "VS_PULLUP_FPM = - 4000"
definition VS_SINK_FPM :: rat where "VS_SINK_FPM = - 2000"
definition ALT_TERRAIN_FT :: rat where "ALT_TERRAIN_FT = 500"
definition ALT_LOW_FT :: rat where "ALT_LOW_FT = 200"

definition to_float :: "(string \<Rightarrow> rat pyres) \<Rightarrow> pyval \<Rightarrow> rat pyres" where
  "to_float text_float v =
     (case py_num v of
        Some q \<Rightarrow> Inr (fl q)
      | None \<Rightarrow> (case v of PStr t \<Rightarrow> text_float t | _ \<Rightarrow> Inl TypeError))"

record flight_state =
  st_altitude :: rat
  st_vertical :: rat

definition default_state :: flight_state where "default_state = \<lparr>st_altitude = 30000, st_vertical = 0\<rparr>"

definition get_of :: "pyval \<Rightarrow> string \<Rightarrow> pyval \<Rightarrow> pyval pyres" where
  "get_of v k d = (case v of PDict m \<Rightarrow> Inr (dict_get m k d) | _ \<Rightarrow> Inl AttributeError)"

definition read_state :: "(string \<Rightarrow> rat pyres) \<Rightarrow> pydict \<Rightarrow> flight_state pyres" where
  "read_state text_float fd =
     (let nav = dict_get fd ''navigation'' (PDict []); vel = dict_get fd ''velocity'' (PDict [])
      in py_bind (get_of nav ''altitude'' (PInt 30000)) (\<lambda>a. py_bind (to_float text_float a) (\<lambda>alt.
         py_bind (get_of vel ''vertical_speed'' (PInt 0)) (\<lambda>v. py_bind (to_float text_float v) (\<lambda>vs.
         Inr \<lparr>st_altitude = alt, st_vertical = vs\<rparr>)))))"

text \<open>The flight management system is \<open>None\<close> while it is not ready; its reading may raise.\<close>

definition get_flight_state :: "(string \<Rightarrow> rat pyres) \<Rightarrow> pydict pyres option \<Rightarrow> flight_state" where
  "get_flight_state text_float fms =
     (case fms of
        None \<Rightarrow> default_state
      | Some r \<Rightarrow> py_except (py_bind r (read_state text_float)) default_state)"

text \<open>
  The names that the module of the terrain radar's processor defines or imports, for the import of \<^verbatim>\<open>get_tfr_processor\<close>
  from it; an import of another name raises.
\<close>

definition tfr_module_names :: "string list" where
  "tfr_module_names =
     [''time'', ''dataclass'', ''field'', ''List'', ''Tuple'', ''get_logger'', ''logger'', ''CLEAR_M'', ''LOW_M'', ''CAUTION_M'',
      ''PULL_UP_M'', ''MIN_CLEARANCE_M'', ''LOOKAHEAD_M'', ''MAX_ALT_RATE_MPS'', ''_FT_PER_M'', ''ClearanceWarning'',
      ''ClearanceManager'', ''AltitudeCommand'', ''PathOptimiser'']"

definition import_name :: "string list \<Rightarrow> string \<Rightarrow> unit pyres" where
  "import_name names n = (if n \<in> set names then Inr () else Inl PlainException)"

definition clearance_of :: "(string \<Rightarrow> rat pyres) \<Rightarrow> pydict \<Rightarrow> rat option pyres" where
  "clearance_of text_float d =
     (let v = dict_get d ''terrain_clearance_ft'' (dict_get d ''clearance_ft'' PNone)
      in if v = PNone then Inr None else py_bind (to_float text_float v) (\<lambda>q. Inr (Some q)))"

definition get_tfr_clearance :: "(string \<Rightarrow> rat pyres) \<Rightarrow> string list \<Rightarrow> pydict pyres \<Rightarrow> rat option" where
  "get_tfr_clearance text_float names proc_data =
     py_except (py_bind (import_name names ''get_tfr_processor'') (\<lambda>_. py_bind proc_data (clearance_of text_float))) None"

section \<open>Alerts\<close>

datatype alert_code = PULLUP | SINK_RATE | TERRAIN | ALT_LOW

text \<open>The number is the one that the message of the alert prints.\<close>

record gcas_alert =
  al_severity :: nat
  al_code :: alert_code
  al_number :: rat
  al_time :: rat

definition mk_alert :: "nat \<Rightarrow> alert_code \<Rightarrow> rat \<Rightarrow> rat \<Rightarrow> gcas_alert" where
  "mk_alert severity code x now = \<lparr>al_severity = severity, al_code = code, al_number = x, al_time = now\<rparr>"

definition evaluate :: "rat \<Rightarrow> flight_state \<Rightarrow> rat option \<Rightarrow> gcas_alert list" where
  "evaluate now st clearance =
     (let alt = st_altitude st; vs = st_vertical st;
          a = (if vs \<le> VS_PULLUP_FPM \<and> alt < 2000 then [mk_alert 1 PULLUP vs now]
               else if vs \<le> VS_SINK_FPM then [mk_alert 1 SINK_RATE vs now]
               else []);
          a = (case clearance of
                 None \<Rightarrow> a
               | Some c \<Rightarrow> if c < ALT_TERRAIN_FT then a @ [mk_alert 1 TERRAIN c now] else a)
      in if alt < ALT_LOW_FT \<and> \<not> list_ex (\<lambda>x. al_code x = TERRAIN) a then a @ [mk_alert 2 ALT_LOW alt now] else a)"

datatype gcas_status = WARNING | CAUTION | ARMED

definition gcas_status_of :: "gcas_alert list \<Rightarrow> gcas_status" where
  "gcas_status_of alerts =
     (if list_ex (\<lambda>a. al_severity a = 1) alerts then WARNING else if alerts \<noteq> [] then CAUTION else ARMED)"

section \<open>The polling thread\<close>

record gcas =
  gc_alerts :: "gcas_alert list"
  gc_failing_since :: "rat option"
  gc_last_error :: string

definition new_gcas :: gcas where "new_gcas = \<lparr>gc_alerts = [], gc_failing_since = None, gc_last_error = []\<rparr>"

text \<open>
  One pass, with the alerts that it computes or the error it raises. The streak of failures ends inside the branch that logs
  the alerts.
\<close>

definition gcas_pass :: "rat \<Rightarrow> string + gcas_alert list \<Rightarrow> gcas \<Rightarrow> gcas" where
  "gcas_pass monotonic result s =
     (case result of
        Inr new_alerts \<Rightarrow>
          (let s = s\<lparr>gc_alerts := new_alerts\<rparr>
           in if new_alerts \<noteq> [] then s\<lparr>gc_failing_since := None, gc_last_error := []\<rparr> else s)
      | Inl text \<Rightarrow>
          s\<lparr>gc_failing_since := (case gc_failing_since s of None \<Rightarrow> Some monotonic | Some t \<Rightarrow> Some t), gc_last_error := text\<rparr>)"

definition gcas_reading ::
  "(string \<Rightarrow> rat pyres) \<Rightarrow> pydict pyres \<Rightarrow> pydict pyres option \<Rightarrow> rat \<Rightarrow> gcas_alert list" where
  "gcas_reading text_float proc_data fms now =
     evaluate now (get_flight_state text_float fms) (get_tfr_clearance text_float tfr_module_names proc_data)"

definition gcas_health_report :: "worker option \<Rightarrow> bool \<Rightarrow> rat \<Rightarrow> gcas \<Rightarrow> health_report" where
  "gcas_health_report thread stop_requested now s =
     worker_health ''GCAS'' thread stop_requested (gc_failing_since s) DEFAULT_FAILURE_GRACE_S (gc_last_error s) now"

section \<open>Properties\<close>

text \<open>
  The alerts of a reading are exactly those of the conditions: an extreme descent below 2000 feet or else an excessive
  one, the terrain when the clearance is known and too small, and a low altitude unless the terrain is announced.
\<close>

theorem alerts_exact:
  "map al_code (evaluate now st clearance) =
     (if st_vertical st \<le> - 4000 \<and> st_altitude st < 2000 then [PULLUP] else if st_vertical st \<le> - 2000 then [SINK_RATE] else []) @
     (if \<exists>c. clearance = Some c \<and> c < 500 then [TERRAIN] else if st_altitude st < 200 then [ALT_LOW] else []) \<and>
   list_all (\<lambda>a. al_time a = now \<and> (al_severity a = 2 \<longleftrightarrow> al_code a = ALT_LOW) \<and> al_severity a \<in> {1, 2}) (evaluate now st clearance) \<and>
   (gcas_status_of (evaluate now st clearance) = ARMED \<longleftrightarrow> evaluate now st clearance = [])"
  by (cases clearance)
    (auto simp: evaluate_def mk_alert_def VS_PULLUP_FPM_def VS_SINK_FPM_def ALT_TERRAIN_FT_def ALT_LOW_FT_def gcas_status_of_def Let_def)

text \<open>
  C36. The alert for the terrain is never raised: \<^verbatim>\<open>get_tfr_processor\<close> is imported from a module that does not define it, the
  error is swallowed, and the clearance is always unknown, whatever the terrain radar measures.
\<close>

theorem terrain_alert_never_raised:
  "get_tfr_clearance text_float tfr_module_names proc_data = None \<and>
   TERRAIN \<notin> al_code ` set (gcas_reading text_float proc_data fms now)"
proof -
  have c: "get_tfr_clearance text_float tfr_module_names proc_data = None"
    by (simp add: get_tfr_clearance_def import_name_def tfr_module_names_def)
  show ?thesis using c
    by (auto simp: gcas_reading_def evaluate_def mk_alert_def Let_def)
qed

text \<open>
  A flight management system that cannot be read looks safe: if it is missing, raises, or holds an altitude that is no
  number, the aircraft is taken to fly level at 30000 feet, no alert is raised and the status is armed.
\<close>

theorem unreadable_state_is_armed:
  assumes "fms = None \<or> fms = Some (Inl e) \<or> (\<exists>fd nav. fms = Some (Inr fd) \<and> map_of fd ''navigation'' = Some (PDict nav) \<and> map_of nav ''altitude'' = Some PNone)"
  shows "gcas_reading text_float proc_data fms now = [] \<and> gcas_status_of (gcas_reading text_float proc_data fms now) = ARMED"
proof -
  have s: "get_flight_state text_float fms = default_state"
    using assms by (auto simp: get_flight_state_def read_state_def dict_get_def get_of_def to_float_def py_num_def)
  have "get_tfr_clearance text_float tfr_module_names proc_data = None"
    by (simp add: get_tfr_clearance_def import_name_def tfr_module_names_def)
  then show ?thesis
    by (simp add: gcas_reading_def s evaluate_def default_state_def VS_PULLUP_FPM_def VS_SINK_FPM_def ALT_LOW_FT_def gcas_status_of_def)
qed

theorem unreadable_state_is_armed_witness:
  "gcas_status_of (gcas_reading (\<lambda>_. Inl ValueError) (Inr []) None 0) = ARMED"
  by (rule unreadable_state_is_armed [of None ValueError, THEN conjunct2]) simp

text \<open>
  A recovered system is reported unhealthy. The streak of failures ends only with a pass that raises alerts: after a
  single failed pass, any number of successful passes without alerts leaves the streak running, and once the grace period
  is over the health report says that every pass has failed.
\<close>

lemma quiet_passes:
  "gc_failing_since (fold (\<lambda>t. gcas_pass t (Inr [])) ts s) = gc_failing_since s \<and> gc_last_error (fold (\<lambda>t. gcas_pass t (Inr [])) ts s) = gc_last_error s"
  by (induction ts arbitrary: s) (simp_all add: gcas_pass_def)

theorem recovered_system_unhealthy:
  assumes "s = fold (\<lambda>t. gcas_pass t (Inr [])) ts (gcas_pass t0 (Inl text) new_gcas)" "DEFAULT_FAILURE_GRACE_S \<le> fsub now t0" "w_alive w"
  shows "gc_alerts s = [] \<and> r_state (gcas_health_report (Some w) False now s) = UNHEALTHY"
proof -
  have "gc_alerts s = []"
    unfolding assms(1) by (induction ts rule: rev_induct) (simp_all add: gcas_pass_def new_gcas_def)
  moreover have "gc_failing_since s = Some t0" unfolding assms(1) using quiet_passes [of ts "gcas_pass t0 (Inl text) new_gcas"]
    by (simp add: gcas_pass_def new_gcas_def)
  ultimately show ?thesis
    using assms(2,3) by (simp add: gcas_health_report_def worker_health_def DEFAULT_FAILURE_GRACE_S_def Let_def)
qed

theorem recovered_system_unhealthy_witness:
  "r_state (gcas_health_report (Some \<lparr>w_name = ''GCAS'', w_alive = True\<rparr>) False 20 (fold (\<lambda>t. gcas_pass t (Inr [])) [2, 3, 4] (gcas_pass 1 (Inl ''timeout'') new_gcas))) =
     UNHEALTHY"
proof -
  have "fsub 20 1 = 19" using fl_of_int [of 19] by (simp add: fsub_def)
  then show ?thesis
    using recovered_system_unhealthy [OF refl, of 20 1 "\<lparr>w_name = ''GCAS'', w_alive = True\<rparr>" "[2, 3, 4]" "''timeout''"]
    by (simp add: DEFAULT_FAILURE_GRACE_S_def)
qed

end
