(* ===== verification/Track_Fusion.thy ===== *)
theory Track_Fusion
  imports Py_Float "HOL-Library.Sublist" "HOL-Library.Multiset"
begin

text \<open>
  The fusion of the air tracks of several radars (\<^verbatim>\<open>radar_data_fusion.py\<close>): collecting the reports, clustering them by
  distance, merging each cluster, carrying identifiers over from the previous epoch and ageing. The sum of a list of floats
  and the square root are arguments: the supported versions of Python do not round sums alike. All floats are finite. The UUIDs of an epoch
  are an argument too, \<open>draw j\<close> for the cluster \<open>j\<close>.
\<close>

section \<open>Reports\<close>

definition GATE_M :: rat where "GATE_M = 500"
definition TRACK_TTL_S :: rat where "TRACK_TTL_S = 30"
definition W_TARGETING :: rat where "W_TARGETING = fl (80 / 100)"
definition W_AEWC :: rat where "W_AEWC = fl (70 / 100)"

text \<open>A track of a radar; an absent entry is \<open>None\<close>.\<close>

record target =
  tg_position :: "rat list option"
  tg_velocity :: "rat list option"
  tg_class :: "string option"
  tg_identity :: "string option"
  tg_rcs :: "rat option"
  tg_stealth :: bool
  tg_update :: "rat option"

record report =
  rp_position :: "rat list"
  rp_velocity :: "rat list"
  rp_class :: string
  rp_identity :: string
  rp_rcs :: rat
  rp_stealth :: bool
  rp_sensor :: string
  rp_weight :: rat
  rp_source :: string
  rp_time :: rat

text \<open>An absent or empty vector becomes the origin; a shorter one gets a single zero.\<close>

definition vector_of :: "rat list option \<Rightarrow> rat list" where
  "vector_of v =
     (let p = (case v of None \<Rightarrow> [0, 0, 0] | Some p \<Rightarrow> if p = [] then [0, 0, 0] else p);
          p = (if length p < 3 then p @ [0] else p)
      in take 3 p)"

definition or_else :: "'a option \<Rightarrow> 'a \<Rightarrow> 'a" where
  "or_else v d = (case v of None \<Rightarrow> d | Some x \<Rightarrow> x)"

definition radar_weight :: "string \<Rightarrow> rat option" where
  "radar_weight name =
     (if sublist ''targeting'' name then Some W_TARGETING
      else if sublist ''aewc'' name then Some W_AEWC
      else None)"

definition report_of :: "rat \<Rightarrow> string \<Rightarrow> rat \<Rightarrow> string \<Rightarrow> target \<Rightarrow> report" where
  "report_of now name weight track_id t =
     \<lparr>rp_position = vector_of (tg_position t), rp_velocity = vector_of (tg_velocity t),
      rp_class = or_else (tg_class t) ''UNKNOWN'', rp_identity = or_else (tg_identity t) ''UNKNOWN'',
      rp_rcs = or_else (tg_rcs t) 5, rp_stealth = tg_stealth t, rp_sensor = name, rp_weight = weight,
      rp_source = track_id, rp_time = or_else (tg_update t) now\<rparr>"

text \<open>The radars with their targets; a target that is no dictionary is \<open>None\<close>. Without a radar control there are no reports.\<close>

type_synonym radars = "(string \<times> (string \<times> target option) list) list"

definition radar_reports :: "rat \<Rightarrow> string \<times> (string \<times> target option) list \<Rightarrow> report list" where
  "radar_reports now = (\<lambda>(name, targets).
     case radar_weight name of
       None \<Rightarrow> []
     | Some w \<Rightarrow> concat (map (\<lambda>(i, t). case t of None \<Rightarrow> [] | Some t \<Rightarrow> [report_of now name w i t]) targets))"

definition collect_reports :: "rat \<Rightarrow> radars option \<Rightarrow> report list" where
  "collect_reports now ctrl = (case ctrl of None \<Rightarrow> [] | Some rs \<Rightarrow> concat (map (radar_reports now) rs))"

section \<open>Clusters\<close>

type_synonym summing = "rat list \<Rightarrow> rat"
type_synonym rooting = "rat \<Rightarrow> rat"

definition distance_m :: "summing \<Rightarrow> rooting \<Rightarrow> rat list \<Rightarrow> rat list \<Rightarrow> rat" where
  "distance_m tot rt a b =
     rt (tot (map (\<lambda>(x, y). fmul (fsub x y) (fsub x y)) (zip (take 3 a) (take 3 b))))"

definition component :: "nat \<Rightarrow> rat list \<Rightarrow> rat pyres" where
  "component i p = (if i < length p then Inr (p ! i) else Inl IndexError)"

fun collect_all :: "'a pyres list \<Rightarrow> 'a list pyres" where
  "collect_all [] = Inr []"
| "collect_all (r # rs) = py_bind r (\<lambda>x. py_bind (collect_all rs) (\<lambda>xs. Inr (x # xs)))"

definition centroid :: "summing \<Rightarrow> rat list list \<Rightarrow> rat list pyres" where
  "centroid tot ps =
     collect_all (map (\<lambda>i. py_bind (collect_all (map (component i) ps)) (\<lambda>xs. Inr (fdiv (tot xs) (of_nat (length ps))))) [0, 1, 2])"

text \<open>
  The search for the nearest cluster keeps the index and the distance of the best one; \<open>None\<close> is no cluster at an
  infinite distance.
\<close>

definition nearer :: "rat \<Rightarrow> ('k \<times> rat) option \<Rightarrow> bool" where
  "nearer d best \<longleftrightarrow> d < GATE_M \<and> (case best of None \<Rightarrow> True | Some (_, b) \<Rightarrow> d < b)"

fun nearest_cluster ::
  "summing \<Rightarrow> rooting \<Rightarrow> rat list \<Rightarrow> nat \<Rightarrow> (nat \<times> rat) option \<Rightarrow> report list list \<Rightarrow> (nat \<times> rat) option pyres" where
  "nearest_cluster tot rt p j best [] = Inr best"
| "nearest_cluster tot rt p j best (c # cs) =
     py_bind (centroid tot (map rp_position c)) (\<lambda>m.
       let d = distance_m tot rt p m
       in nearest_cluster tot rt p (Suc j) (if nearer d best then Some (j, d) else best) cs)"

definition place_report :: "summing \<Rightarrow> rooting \<Rightarrow> report \<Rightarrow> report list list \<Rightarrow> report list list pyres" where
  "place_report tot rt r cs =
     py_bind (nearest_cluster tot rt (rp_position r) 0 None cs) (\<lambda>best.
       Inr (case best of Some (j, _) \<Rightarrow> cs[j := cs ! j @ [r]] | None \<Rightarrow> cs @ [[r]]))"

fun cluster_reports :: "summing \<Rightarrow> rooting \<Rightarrow> report list \<Rightarrow> report list list \<Rightarrow> report list list pyres" where
  "cluster_reports tot rt [] cs = Inr cs"
| "cluster_reports tot rt (r # rs) cs = py_bind (place_report tot rt r cs) (cluster_reports tot rt rs)"

section \<open>Tracks\<close>

datatype threat = HOSTILE | FRIENDLY | UNKNOWN_THREAT

record fused_track =
  ft_id :: string
  ft_position :: "rat list"
  ft_velocity :: "rat list"
  ft_confidence :: rat
  ft_class :: string
  ft_identity :: string
  ft_threat :: threat
  ft_sources :: "string set"
  ft_seen :: rat

definition hostile_keywords :: "string list" where
  "hostile_keywords = [''HOSTILE'', ''ENEMY'', ''BANDIT'', ''BOGEY'']"

definition friendly_keywords :: "string list" where
  "friendly_keywords = [''FRIENDLY'', ''ALLY'', ''BLUE'', ''FRIENDLY_FORCE'']"

definition mentions_keyword :: "string list \<Rightarrow> string \<Rightarrow> string \<Rightarrow> bool" where
  "mentions_keyword ks c i \<longleftrightarrow> list_ex (\<lambda>k. sublist k (upper c) \<or> sublist k (upper i)) ks"

definition assess_threat :: "summing \<Rightarrow> rooting \<Rightarrow> string \<Rightarrow> string \<Rightarrow> report list \<Rightarrow> threat" where
  "assess_threat tot rt classification identity cluster =
     (if mentions_keyword hostile_keywords classification identity then HOSTILE
      else if mentions_keyword friendly_keywords classification identity then FRIENDLY
      else let avg_rcs = fdiv (tot (map rp_rcs cluster)) (of_nat (length cluster));
               speed = rt (tot (map (\<lambda>v. fmul v v) (rp_velocity (hd cluster))))
           in if avg_rcs < 3 \<and> 200 < speed then HOSTILE else UNKNOWN_THREAT)"

text \<open>\<^verbatim>\<open>max(cluster, key=...)\<close>: the first report of the largest weight.\<close>

fun heaviest :: "report \<Rightarrow> report list \<Rightarrow> report" where
  "heaviest a [] = a"
| "heaviest a (r # rs) = heaviest (if rp_weight a < rp_weight r then r else a) rs"

definition weighted_mean :: "summing \<Rightarrow> (report \<Rightarrow> rat list) \<Rightarrow> report list \<Rightarrow> rat list pyres" where
  "weighted_mean tot get cluster =
     collect_all (map (\<lambda>i.
       py_bind (collect_all (map (\<lambda>r. py_bind (component i (get r)) (\<lambda>x. Inr (fmul x (rp_weight r)))) cluster)) (\<lambda>xs.
         Inr (fdiv (tot xs) (tot (map rp_weight cluster))))) [0, 1, 2])"

definition confidence_of :: "report list \<Rightarrow> rat" where
  "confidence_of cluster = min 1 (fsub 1 (foldl (\<lambda>p r. fmul p (fsub 1 (rp_weight r))) 1 cluster))"

definition merge_cluster :: "summing \<Rightarrow> rooting \<Rightarrow> string \<Rightarrow> rat \<Rightarrow> report list \<Rightarrow> fused_track pyres" where
  "merge_cluster tot rt track_id timestamp cluster =
     py_bind (weighted_mean tot rp_position cluster) (\<lambda>pos.
     py_bind (weighted_mean tot rp_velocity cluster) (\<lambda>vel.
       let anchor = heaviest (hd cluster) (tl cluster)
       in Inr \<lparr>ft_id = track_id, ft_position = pos, ft_velocity = vel, ft_confidence = confidence_of cluster,
               ft_class = rp_class anchor, ft_identity = rp_identity anchor,
               ft_threat = assess_threat tot rt (rp_class anchor) (rp_identity anchor) cluster,
               ft_sources = set (map rp_sensor cluster), ft_seen = timestamp\<rparr>))"

type_synonym track_table = "(string \<times> fused_track) list"

fun merge_all :: "summing \<Rightarrow> rooting \<Rightarrow> (nat \<Rightarrow> string) \<Rightarrow> rat \<Rightarrow> nat \<Rightarrow> report list list \<Rightarrow> track_table \<Rightarrow> track_table pyres" where
  "merge_all tot rt draw now j [] t = Inr t"
| "merge_all tot rt draw now j (c # cs) t =
     py_bind (merge_cluster tot rt (draw j) now c) (\<lambda>x.
       merge_all tot rt draw now (Suc j) cs (dict_set (ft_id x) x t))"

section \<open>Identifiers and ageing\<close>

fun nearest_old ::
  "summing \<Rightarrow> rooting \<Rightarrow> fused_track \<Rightarrow> string set \<Rightarrow> (string \<times> rat) option \<Rightarrow> track_table \<Rightarrow> (string \<times> rat) option" where
  "nearest_old tot rt t used best [] = best"
| "nearest_old tot rt t used best ((k, u) # olds) =
     (if k \<in> used then nearest_old tot rt t used best olds
      else let d = distance_m tot rt (ft_position t) (ft_position u)
           in nearest_old tot rt t used
                (if nearer d best then Some (k, d) else best) olds)"

text \<open>The track takes the key of the old one as its identifier, but stays under its own key.\<close>

fun reassign_ids :: "summing \<Rightarrow> rooting \<Rightarrow> track_table \<Rightarrow> string set \<Rightarrow> track_table \<Rightarrow> track_table" where
  "reassign_ids tot rt old used [] = []"
| "reassign_ids tot rt old used ((k, t) # ts) =
     (case nearest_old tot rt t used None old of
        None \<Rightarrow> (k, t) # reassign_ids tot rt old used ts
      | Some (i, _) \<Rightarrow> (k, t\<lparr>ft_id := i\<rparr>) # reassign_ids tot rt old (insert i used) ts)"

definition correlate_and_merge ::
  "summing \<Rightarrow> rooting \<Rightarrow> (nat \<Rightarrow> string) \<Rightarrow> rat \<Rightarrow> track_table \<Rightarrow> report list \<Rightarrow> track_table pyres" where
  "correlate_and_merge tot rt draw now old reports =
     (if reports = [] then Inr []
      else py_bind (cluster_reports tot rt (sort_key (\<lambda>r. - rp_weight r) reports) []) (\<lambda>cs.
           py_bind (merge_all tot rt draw now 0 cs []) (\<lambda>t. Inr (reassign_ids tot rt old {} t))))"

definition age_out :: "rat \<Rightarrow> track_table \<Rightarrow> track_table" where
  "age_out now t = filter (\<lambda>(k, x). \<not> TRACK_TTL_S < fsub now (ft_seen x)) t"

text \<open>An epoch: the clock is read when the clusters are merged and again for the ageing. An error leaves the table.\<close>

definition fusion_update ::
  "summing \<Rightarrow> rooting \<Rightarrow> (nat \<Rightarrow> string) \<Rightarrow> rat \<Rightarrow> rat \<Rightarrow> report list \<Rightarrow> track_table \<Rightarrow> unit pyres \<times> track_table" where
  "fusion_update tot rt draw now later reports old =
     (case correlate_and_merge tot rt draw now old reports of
        Inl e \<Rightarrow> (Inl e, old)
      | Inr t \<Rightarrow> (Inr (), age_out later t))"

definition is_hostile :: "fused_track \<Rightarrow> bool" where "is_hostile t \<longleftrightarrow> ft_threat t = HOSTILE"

definition get_threat_tracks :: "track_table \<Rightarrow> fused_track list" where
  "get_threat_tracks t = filter (\<lambda>x. ft_threat x = HOSTILE) (map snd t)"

section \<open>Errors of an epoch\<close>

text \<open>A computation that fails only on a vector that is too short.\<close>

definition index_only :: "'a pyres \<Rightarrow> bool" where
  "index_only m = (case m of Inl e \<Rightarrow> e = IndexError | Inr _ \<Rightarrow> True)"

lemma index_only_simps [simp]: "index_only (Inr x)" "index_only (Inl IndexError)"
  by (simp_all add: index_only_def)

lemma index_only_bind: "index_only m \<Longrightarrow> (\<And>x. index_only (f x)) \<Longrightarrow> index_only (py_bind m f)"
  by (cases m) (simp_all add: index_only_def)

lemma index_only_component [simp]: "index_only (component i p)"
  by (simp add: component_def)

lemma index_only_collect: "list_all index_only rs \<Longrightarrow> index_only (collect_all rs)"
  by (induction rs) (auto intro!: index_only_bind)

lemma index_only_centroid: "index_only (centroid tot ps)"
  unfolding centroid_def by (intro index_only_collect) (simp add: index_only_bind index_only_collect list_all_iff)

lemma index_only_nearest: "index_only (nearest_cluster tot rt p j best cs)"
  by (induction cs arbitrary: j best) (auto simp: Let_def intro!: index_only_bind index_only_centroid)

lemma index_only_cluster: "index_only (cluster_reports tot rt rs cs)"
  by (induction rs arbitrary: cs) (auto simp: place_report_def intro!: index_only_bind index_only_nearest)

lemma index_only_mean: "index_only (weighted_mean tot get c)"
  unfolding weighted_mean_def by (intro index_only_collect) (simp add: index_only_bind index_only_collect list_all_iff)

lemma index_only_merge: "index_only (merge_all tot rt draw now j cs t)"
  by (induction cs arbitrary: j t) (auto simp: merge_cluster_def Let_def intro!: index_only_bind index_only_mean)

lemma collect_all_ok: "collect_all rs = Inr xs \<Longrightarrow> r \<in> set rs \<Longrightarrow> \<exists>x. r = Inr x"
  by (induction rs arbitrary: xs) (auto simp: py_bind_eq_Inr)

lemma collect_all_total: "(\<And>x. x \<in> set xs \<Longrightarrow> f x = Inr (g x)) \<Longrightarrow> collect_all (map f xs) = Inr (map g xs)"
  by (induction xs) simp_all

lemma mean_needs_three: "weighted_mean tot get c = Inr m \<Longrightarrow> r \<in> set c \<Longrightarrow> 3 \<le> length (get r)"
proof -
  assume m: "weighted_mean tot get c = Inr m" and r: "r \<in> set c"
  obtain x where "py_bind (collect_all (map (\<lambda>r. py_bind (component 2 (get r)) (\<lambda>x. Inr (fmul x (rp_weight r)))) c)) (\<lambda>xs.
      Inr (fdiv (tot xs) (tot (map rp_weight c)))) = Inr x"
    using collect_all_ok [OF m [unfolded weighted_mean_def]] by fastforce
  then obtain xs where "collect_all (map (\<lambda>r. py_bind (component 2 (get r)) (\<lambda>x. Inr (fmul x (rp_weight r)))) c) = Inr xs"
    by (auto simp: py_bind_eq_Inr)
  from collect_all_ok [OF this] r have "\<exists>y. py_bind (component 2 (get r)) (\<lambda>x. Inr (fmul x (rp_weight r))) = Inr y" by simp
  then show ?thesis by (auto simp: component_def split: if_splits)
qed

section \<open>Clusters partition the reports\<close>

lemma nearest_in_range:
  "nearest_cluster tot rt p j best cs = Inr (Some (i, d)) \<Longrightarrow> (case best of None \<Rightarrow> True | Some (b, _) \<Rightarrow> b < j) \<Longrightarrow> i < j + length cs"
proof (induction cs arbitrary: j best)
  case Nil
  then show ?case by simp
next
  case (Cons c cs)
  then obtain m where n: "nearest_cluster tot rt p (Suc j) (if nearer (distance_m tot rt p m) best then Some (j, distance_m tot rt p m) else best) cs =
      Inr (Some (i, d))" by (auto simp: py_bind_eq_Inr Let_def)
  show ?case using Cons.IH [OF n] Cons.prems(2) by (auto split: option.splits if_splits)
qed

lemma mset_concat_append: "j < length cs \<Longrightarrow> mset (concat (cs[j := cs ! j @ [r]])) = add_mset r (mset (concat cs))"
proof (induction cs arbitrary: j)
  case (Cons c cs)
  then show ?case by (cases j) simp_all
qed simp

lemma place_report_partition:
  "place_report tot rt r cs = Inr cs' \<Longrightarrow> [] \<notin> set cs \<Longrightarrow> mset (concat cs') = add_mset r (mset (concat cs)) \<and> [] \<notin> set cs'"
proof -
  assume p: "place_report tot rt r cs = Inr cs'" and ne: "[] \<notin> set cs"
  obtain best where b: "nearest_cluster tot rt (rp_position r) 0 None cs = Inr best"
    and cs': "cs' = (case best of Some (j, _) \<Rightarrow> cs[j := cs ! j @ [r]] | None \<Rightarrow> cs @ [[r]])"
    using p by (auto simp: place_report_def py_bind_eq_Inr)
  show ?thesis
  proof (cases best)
    case (Some jd)
    then have "fst jd < length cs" using nearest_in_range [of tot rt "rp_position r" 0 None cs "fst jd" "snd jd"] b by simp
    then show ?thesis using ne mset_concat_append [of "fst jd" cs r] by (auto simp: cs' Some split: prod.split dest!: set_update_subset_insert [THEN subsetD])
  qed (use ne in \<open>simp add: cs'\<close>)
qed

lemma cluster_reports_partition:
  "cluster_reports tot rt rs cs = Inr cs' \<Longrightarrow> [] \<notin> set cs \<Longrightarrow> mset (concat cs') = mset rs + mset (concat cs) \<and> [] \<notin> set cs'"
proof (induction rs arbitrary: cs)
  case (Cons r rs)
  then obtain c where c: "place_report tot rt r cs = Inr c" "cluster_reports tot rt rs c = Inr cs'" by (auto simp: py_bind_eq_Inr)
  show ?case using Cons.IH [OF c(2)] place_report_partition [OF c(1) Cons.prems(2)] by simp
qed simp

section \<open>The table of an epoch\<close>

lemma dict_set_fresh: "k \<notin> fst ` set t \<Longrightarrow> dict_set k v t = t @ [(k, v)]"
  by (rule dict_set_new)

lemma merge_cluster_id: "merge_cluster tot rt i now c = Inr x \<Longrightarrow> ft_id x = i \<and> ft_seen x = now \<and> ft_confidence x = confidence_of c \<and>
   ft_sources x = set (map rp_sensor c)"
  by (auto simp: merge_cluster_def py_bind_eq_Inr Let_def)

text \<open>With fresh identifiers the table lists one track for each cluster, in the order of the clusters.\<close>

definition track_of :: "rat \<Rightarrow> (nat \<Rightarrow> string) \<Rightarrow> nat \<Rightarrow> report list \<Rightarrow> string \<times> fused_track \<Rightarrow> bool" where
  "track_of now draw j c e \<longleftrightarrow> fst e = draw j \<and> ft_seen (snd e) = now \<and> ft_confidence (snd e) = confidence_of c \<and>
     ft_sources (snd e) = set (map rp_sensor c)"

lemma merge_all_tracks:
  assumes "inj draw" "\<And>k. k \<in> fst ` set t \<Longrightarrow> \<exists>i<j. k = draw i" "merge_all tot rt draw now j cs t = Inr t'"
  shows "\<exists>ts. t' = t @ ts \<and> length ts = length cs \<and> (\<forall>i<length cs. track_of now draw (j + i) (cs ! i) (ts ! i) \<and> ft_id (snd (ts ! i)) = draw (j + i))"
  using assms(2,3)
proof (induction cs arbitrary: j t)
  case (Cons c cs)
  then obtain x where x: "merge_cluster tot rt (draw j) now c = Inr x" "merge_all tot rt draw now (Suc j) cs (dict_set (ft_id x) x t) = Inr t'"
    by (auto simp: py_bind_eq_Inr)
  note i = merge_cluster_id [OF x(1)]
  have "draw j \<notin> fst ` set t" using Cons.prems(1) assms(1) by (metis injD less_irrefl)
  then have t: "dict_set (ft_id x) x t = t @ [(draw j, x)]" using i dict_set_fresh by metis
  have "\<exists>i<Suc j. k = draw i" if "k \<in> fst ` set (t @ [(draw j, x)])" for k
  proof (cases "k \<in> fst ` set t")
    case True
    then show ?thesis using Cons.prems(1) less_SucI by blast
  qed (use that in auto)
  from Cons.IH [OF this x(2) [unfolded t]] obtain ts where ts: "t' = t @ (draw j, x) # ts" "length ts = length cs"
    "\<And>i. i < length cs \<Longrightarrow> track_of now draw (Suc j + i) (cs ! i) (ts ! i) \<and> ft_id (snd (ts ! i)) = draw (Suc j + i)" by auto
  have "track_of now draw (j + k) ((c # cs) ! k) (((draw j, x) # ts) ! k) \<and> ft_id (snd (((draw j, x) # ts) ! k)) = draw (j + k)"
    if "k < length (c # cs)" for k
    using that ts(3) [of "k - 1"] i by (cases k) (simp_all add: track_of_def)
  then show ?case using ts(1,2) by (intro exI [of _ "(draw j, x) # ts"]) simp
qed simp

lemma reassign_ids_keeps:
  "length (reassign_ids tot rt old used ts) = length ts"
  "i < length ts \<Longrightarrow> track_of now draw j c (reassign_ids tot rt old used ts ! i) = track_of now draw j c (ts ! i)"
  "map fst (reassign_ids tot rt old used ts) = map fst ts"
proof -
  show "length (reassign_ids tot rt old used ts) = length ts"
    by (induction tot rt old used ts rule: reassign_ids.induct) (auto split: option.split)
  show "map fst (reassign_ids tot rt old used ts) = map fst ts"
    by (induction tot rt old used ts rule: reassign_ids.induct) (auto split: option.split)
  show "track_of now draw j c (reassign_ids tot rt old used ts ! i) = track_of now draw j c (ts ! i)" if "i < length ts"
    using that
  proof (induction ts arbitrary: used i)
    case (Cons kt ts)
    then show ?case by (cases i; cases kt) (simp_all add: track_of_def split: option.split)
  qed simp
qed

lemma age_out_fresh: "list_all (\<lambda>(k, x). ft_seen x = now) t \<Longrightarrow> fsub later now \<le> TRACK_TTL_S \<Longrightarrow> age_out later t = t"
  unfolding age_out_def by (rule filter_True) (auto simp: list_all_iff)

text \<open>Identifiers after the reassignment: keys of the old table, each at most once, or the track's own.\<close>

lemma nearest_old_known:
  "nearest_old tot rt t used best olds = Some (i, d) \<Longrightarrow> \<forall>b e. best = Some (b, e) \<longrightarrow> b \<notin> used \<Longrightarrow>
   i \<notin> used \<and> (i \<in> fst ` set olds \<or> (\<exists>e. best = Some (i, e)))"
proof (induction olds arbitrary: best)
  case (Cons ku olds)
  obtain k u where ku: "ku = (k, u)" by (rule prod.exhaust)
  show ?case
  proof (cases "k \<in> used")
    case True
    then show ?thesis using Cons.IH [of best] Cons.prems by (auto simp: ku)
  next
    case False
    define best' where "best' = (if nearer (distance_m tot rt (ft_position t) (ft_position u)) best
      then Some (k, distance_m tot rt (ft_position t) (ft_position u)) else best)"
    have n: "nearest_old tot rt t used best' olds = Some (i, d)" using Cons.prems(1) False by (simp add: ku Let_def best'_def)
    have "\<forall>b e. best' = Some (b, e) \<longrightarrow> b \<notin> used" using False Cons.prems(2) by (simp add: best'_def)
    from Cons.IH [OF n this] show ?thesis by (cases "nearer (distance_m tot rt (ft_position t) (ft_position u)) best") (auto simp: ku best'_def)
  qed
qed auto

lemma reassign_ids_distinct:
  "distinct (map (\<lambda>e. ft_id (snd e)) ts) \<Longrightarrow> (\<lambda>e. ft_id (snd e)) ` set ts \<inter> (fst ` set old \<union> used) = {} \<Longrightarrow>
   distinct (map (\<lambda>e. ft_id (snd e)) (reassign_ids tot rt old used ts)) \<and>
   (\<lambda>e. ft_id (snd e)) ` set (reassign_ids tot rt old used ts) \<subseteq> (\<lambda>e. ft_id (snd e)) ` set ts \<union> (fst ` set old - used)"
proof (induction ts arbitrary: used)
  case (Cons kt ts)
  obtain k t where kt: "kt = (k, t)" by (rule prod.exhaust)
  show ?case
  proof (cases "nearest_old tot rt t used None old")
    case None
    have h: "distinct (map (\<lambda>e. ft_id (snd e)) (reassign_ids tot rt old used ts)) \<and>
        (\<lambda>e. ft_id (snd e)) ` set (reassign_ids tot rt old used ts) \<subseteq> (\<lambda>e. ft_id (snd e)) ` set ts \<union> (fst ` set old - used)"
      by (rule Cons.IH) (use Cons.prems in auto)
    have "ft_id t \<notin> (\<lambda>e. ft_id (snd e)) ` set ts \<union> (fst ` set old - used)" using Cons.prems by (auto simp: kt)
    then have "ft_id t \<notin> (\<lambda>e. ft_id (snd e)) ` set (reassign_ids tot rt old used ts)" using h by blast
    then show ?thesis using h by (auto simp: kt None)
  next
    case (Some id)
    obtain i d where id: "id = (i, d)" by (rule prod.exhaust)
    have i: "i \<notin> used" "i \<in> fst ` set old" using nearest_old_known [of tot rt t used None old i d] Some by (auto simp: id)
    have h: "distinct (map (\<lambda>e. ft_id (snd e)) (reassign_ids tot rt old (insert i used) ts)) \<and>
        (\<lambda>e. ft_id (snd e)) ` set (reassign_ids tot rt old (insert i used) ts) \<subseteq> (\<lambda>e. ft_id (snd e)) ` set ts \<union> (fst ` set old - insert i used)"
      by (rule Cons.IH) (use Cons.prems i in auto)
    have "i \<notin> (\<lambda>e. ft_id (snd e)) ` set ts \<union> (fst ` set old - insert i used)" using Cons.prems i by auto
    then have "i \<notin> (\<lambda>e. ft_id (snd e)) ` set (reassign_ids tot rt old (insert i used) ts)" using h by blast
    then show ?thesis using h i by (auto simp: kt Some id)
  qed
qed simp

section \<open>A single contact\<close>

text \<open>The tables of successive epochs that see the same reports.\<close>

fun epochs :: "summing \<Rightarrow> rooting \<Rightarrow> (nat \<Rightarrow> nat \<Rightarrow> string) \<Rightarrow> (nat \<Rightarrow> rat) \<Rightarrow> (nat \<Rightarrow> rat) \<Rightarrow> report list \<Rightarrow> nat \<Rightarrow> track_table" where
  "epochs tot rt draw now later reports 0 = []"
| "epochs tot rt draw now later reports (Suc n) =
     snd (fusion_update tot rt (draw n) (now n) (later n) reports (epochs tot rt draw now later reports n))"

lemma single_mean:
  assumes "length (get r) = 3"
  shows "\<exists>a b c. weighted_mean tot get [r] = Inr [a, b, c]"
  using assms by (simp add: weighted_mean_def component_def)

lemma single_epoch:
  assumes "length (rp_position r) = 3" "length (rp_velocity r) = 3" "fsub later now \<le> TRACK_TTL_S"
    "weighted_mean tot rp_position [r] = Inr p"
  shows "\<exists>x. ft_position x = p \<and> ft_id x = draw 0 \<and>
     (\<forall>old. fusion_update tot rt draw now later [r] old = (Inr (), reassign_ids tot rt old {} [(draw 0, x)]))"
proof -
  obtain v where v: "weighted_mean tot rp_velocity [r] = Inr v" using single_mean [of rp_velocity, OF assms(2)] by blast
  have "\<exists>x. merge_cluster tot rt (draw 0) now [r] = Inr x \<and> ft_position x = p" using assms(4) v by (simp add: merge_cluster_def Let_def)
  then obtain x where x: "merge_cluster tot rt (draw 0) now [r] = Inr x" "ft_position x = p" by blast
  have i: "ft_id x = draw 0" "ft_seen x = now" using merge_cluster_id [OF x(1)] by simp_all
  have "fusion_update tot rt draw now later [r] old = (Inr (), reassign_ids tot rt old {} [(draw 0, x)])" for old
  proof -
    have "correlate_and_merge tot rt draw now old [r] = Inr (reassign_ids tot rt old {} [(draw 0, x)])"
      using x i(1) by (simp add: correlate_and_merge_def place_report_def dict_set_def del: reassign_ids.simps)
    moreover have "list_all (\<lambda>(k, x). ft_seen x = now) (reassign_ids tot rt old {} [(draw 0, x)])"
      using i(2) by (cases "nearest_old tot rt x {} None old") auto
    ultimately show ?thesis using age_out_fresh assms(3) by (simp add: fusion_update_def del: reassign_ids.simps)
  qed
  then show ?thesis using i x(2) by blast
qed

lemma self_distance:
  assumes "rt (tot [0, 0, 0]) = 0"
  shows "distance_m tot rt [a, b, c] [a, b, c] = 0"
  using assms by (simp add: distance_m_def fmul_def)

lemma collected_weights: "r \<in> set (collect_reports now ctrl) \<Longrightarrow> rp_weight r \<in> {W_TARGETING, W_AEWC}"
  by (auto simp: collect_reports_def radar_reports_def radar_weight_def report_of_def split: option.splits if_splits)

lemma miss_bounds: "w \<in> {W_TARGETING, W_AEWC} \<Longrightarrow> 0 \<le> fsub 1 w \<and> fsub 1 w \<le> 31 / 100"
proof -
  assume w: "w \<in> {W_TARGETING, W_AEWC}"
  have "\<bar>fl (80 / 100) - 80 / 100\<bar> \<le> 1 / 1000" "\<bar>fl (70 / 100) - 70 / 100\<bar> \<le> 1 / 1000" using fl_err [of "80 / 100"] fl_err [of "70 / 100"] by simp_all
  then have "699 / 1000 \<le> w" "w \<le> 801 / 1000" using w unfolding abs_le_iff by (auto simp: W_TARGETING_def W_AEWC_def)
  moreover have "\<bar>fsub 1 w - (1 - w)\<bar> \<le> \<bar>1 - w\<bar> / 2 ^ 53" unfolding fsub_def by (rule fl_err)
  ultimately have "\<bar>fsub 1 w - (1 - w)\<bar> \<le> 1 / 1000" by simp
  then show ?thesis using \<open>699 / 1000 \<le> w\<close> \<open>w \<le> 801 / 1000\<close> unfolding abs_le_iff by simp
qed

lemma miss_product:
  "\<forall>r\<in>set rs. rp_weight r \<in> {W_TARGETING, W_AEWC} \<Longrightarrow> is_float p \<Longrightarrow> 0 \<le> p \<Longrightarrow>
   0 \<le> foldl (\<lambda>p r. fmul p (fsub 1 (rp_weight r))) p rs \<and> foldl (\<lambda>p r. fmul p (fsub 1 (rp_weight r))) p rs \<le> p"
proof (induction rs arbitrary: p)
  case (Cons r rs)
  have w: "0 \<le> fsub 1 (rp_weight r)" "fsub 1 (rp_weight r) \<le> 1" using miss_bounds [of "rp_weight r"] Cons.prems(1) by auto
  define q where "q = fmul p (fsub 1 (rp_weight r))"
  have "q \<le> fl p" unfolding q_def fmul_def using w Cons.prems(3) by (intro fl_mono) (simp add: mult_left_le)
  then have q: "is_float q" "0 \<le> q" "q \<le> p" using w Cons.prems by (simp_all add: q_def fmul_def fl_nonneg)
  show ?case using Cons.IH [OF _ q(1,2)] Cons.prems(1) q(3) by (simp flip: q_def)
qed simp

text \<open>A report for the examples.\<close>

definition sample_report :: "rat list \<Rightarrow> report" where
  "sample_report p = report_of 0 ''targeting_radar'' W_TARGETING ''T1''
     \<lparr>tg_position = Some p, tg_velocity = Some [100, 0, 0], tg_class = Some ''FIGHTER'', tg_identity = None, tg_rcs = None,
      tg_stealth = False, tg_update = None\<rparr>"

lemma sample_epoch:
  "\<exists>t. correlate_and_merge (foldl fadd 0) (\<lambda>x. x) draw now old [sample_report [1, 2, 3]] = Inr t"
  by (simp add: correlate_and_merge_def place_report_def sample_report_def report_of_def vector_of_def merge_cluster_def weighted_mean_def
      component_def Let_def split: option.split)

lemma sample_names: "inj (\<lambda>j. replicate j CHR ''a'')"
  by (rule injI) (metis length_replicate)

section \<open>Properties\<close>

text \<open>The pass of an epoch that succeeds, in its stages.\<close>

lemma fusion_stages:
  assumes "fusion_update tot rt draw now later reports old = (Inr (), t)" "reports \<noteq> []"
  obtains cs ts where "cluster_reports tot rt (sort_key (\<lambda>r. - rp_weight r) reports) [] = Inr cs"
    "merge_all tot rt draw now 0 cs [] = Inr ts" "t = age_out later (reassign_ids tot rt old {} ts)"
  using assms by (auto simp: fusion_update_def correlate_and_merge_def py_bind_eq_Inr split: sum.splits)

text \<open>
  C27. An epoch partitions the reports. Every report goes into exactly one cluster, and the table lists one track for each
  cluster, with the sources and the confidence of the reports of that cluster.
\<close>

theorem tracks_partition_reports:
  assumes "fusion_update tot rt draw now later reports old = (Inr (), t)" "inj draw" "fsub later now \<le> TRACK_TTL_S"
  shows "\<exists>cs. mset (concat cs) = mset reports \<and> [] \<notin> set cs \<and> length t = length cs \<and>
     (\<forall>j<length cs. fst (t ! j) = draw j \<and> ft_seen (snd (t ! j)) = now \<and> ft_confidence (snd (t ! j)) = confidence_of (cs ! j) \<and>
        ft_sources (snd (t ! j)) = set (map rp_sensor (cs ! j)))"
proof (cases "reports = []")
  case True
  then have "t = []" using assms(1) by (simp add: fusion_update_def correlate_and_merge_def age_out_def)
  then show ?thesis using True by (intro exI [of _ "[]"]) simp
next
  case False
  then obtain cs ts where cs: "cluster_reports tot rt (sort_key (\<lambda>r. - rp_weight r) reports) [] = Inr cs"
    "merge_all tot rt draw now 0 cs [] = Inr ts" "t = age_out later (reassign_ids tot rt old {} ts)" using fusion_stages [OF assms(1)] by metis
  have p: "mset (concat cs) = mset reports" "[] \<notin> set cs" using cluster_reports_partition [OF cs(1)] by simp_all
  have ts: "length ts = length cs" "\<And>j. j < length cs \<Longrightarrow> track_of now draw j (cs ! j) (ts ! j)"
    using merge_all_tracks [OF assms(2) _ cs(2)] by auto
  define t' where "t' = reassign_ids tot rt old {} ts"
  have t': "length t' = length cs" "\<And>j. j < length cs \<Longrightarrow> track_of now draw j (cs ! j) (t' ! j)"
    using ts by (simp_all add: t'_def reassign_ids_keeps)
  have "list_all (\<lambda>(k, x). ft_seen x = now) t'" using t' by (auto simp: list_all_length track_of_def case_prod_beta)
  then have "t = t'" using age_out_fresh assms(3) cs(3) by (simp add: t'_def)
  then show ?thesis using p t' unfolding track_of_def by blast
qed

theorem tracks_partition_reports_witness:
  "\<exists>cs t. snd (fusion_update (foldl fadd 0) (\<lambda>x. x) (\<lambda>j. replicate j CHR ''a'') 0 0 [sample_report [1, 2, 3]] []) = t \<and>
     mset (concat cs) = {#sample_report [1, 2, 3]#} \<and> length t = length cs"
proof -
  obtain t where t: "fusion_update (foldl fadd 0) (\<lambda>x. x) (\<lambda>j. replicate j CHR ''a'') 0 0 [sample_report [1, 2, 3]] [] = (Inr (), t)"
    using sample_epoch [of "\<lambda>j. replicate j CHR ''a''" 0 "[]"] by (auto simp: fusion_update_def)
  then show ?thesis using tracks_partition_reports [OF t sample_names] by (auto simp: TRACK_TTL_S_def)
qed

text \<open>
  The identifiers of an epoch are unique: no two tracks share a key or an identifier, if the UUIDs are fresh.
\<close>

theorem track_identifiers_unique:
  assumes "fusion_update tot rt draw now later reports old = (Inr (), t)" "inj draw" "range draw \<inter> fst ` set old = {}"
  shows "distinct (map fst t) \<and> distinct (map (\<lambda>e. ft_id (snd e)) t)"
proof (cases "reports = []")
  case True
  then have "t = []" using assms(1) by (simp add: fusion_update_def correlate_and_merge_def age_out_def)
  then show ?thesis by simp
next
  case False
  then obtain cs ts where cs: "merge_all tot rt draw now 0 cs [] = Inr ts" "t = age_out later (reassign_ids tot rt old {} ts)"
    using fusion_stages [OF assms(1)] by metis
  have ts: "length ts = length cs" "\<And>j. j < length cs \<Longrightarrow> fst (ts ! j) = draw j \<and> ft_id (snd (ts ! j)) = draw j"
    using merge_all_tracks [OF assms(2) _ cs(1)] by (auto simp: track_of_def)
  have k: "map fst ts = map draw [0..<length cs]" "map (\<lambda>e. ft_id (snd e)) ts = map draw [0..<length cs]"
    using ts by (auto intro!: nth_equalityI)
  have d: "distinct (map draw [0..<length cs])" using assms(2) by (simp add: distinct_map inj_on_def inj_def)
  have "(\<lambda>e. ft_id (snd e)) ` set ts = draw ` set [0..<length cs]" using arg_cong [OF k(2), of set] by simp
  then have "(\<lambda>e. ft_id (snd e)) ` set ts \<inter> (fst ` set old \<union> {}) = {}" using assms(3) by auto
  then have "distinct (map (\<lambda>e. ft_id (snd e)) (reassign_ids tot rt old {} ts))" using reassign_ids_distinct k(2) d by metis
  moreover have "distinct (map fst (reassign_ids tot rt old {} ts))" using reassign_ids_keeps(3) k(1) d by metis
  ultimately show ?thesis by (simp add: cs(2) age_out_def distinct_map_filter)
qed

theorem track_identifiers_unique_witness:
  "distinct (map (\<lambda>e. ft_id (snd e)) (snd (fusion_update (foldl fadd 0) (\<lambda>x. x) (\<lambda>j. replicate j CHR ''a'') 0 0 [sample_report [1, 2, 3]] [])))"
proof -
  obtain t where t: "fusion_update (foldl fadd 0) (\<lambda>x. x) (\<lambda>j. replicate j CHR ''a'') 0 0 [sample_report [1, 2, 3]] [] = (Inr (), t)"
    using sample_epoch [of "\<lambda>j. replicate j CHR ''a''" 0 "[]"] by (auto simp: fusion_update_def)
  then show ?thesis using track_identifiers_unique [OF t sample_names] by simp
qed

text \<open>
  Tracks never age. A track is meant to stay for 30 seconds without a report, but the table is made anew from the reports
  of the epoch and every track in it has just been stamped: the ageing removes nothing, and a contact that misses a
  single epoch is gone.
\<close>

theorem tracks_never_age:
  assumes "correlate_and_merge tot rt draw now old reports = Inr t" "inj draw" "fsub later now \<le> TRACK_TTL_S"
  shows "fusion_update tot rt draw now later reports old = (Inr (), t) \<and> list_all (\<lambda>(k, x). ft_seen x = now) t \<and> (reports = [] \<longleftrightarrow> t = [])"
proof -
  have "list_all (\<lambda>(k, x). ft_seen x = now) t \<and> (reports = [] \<longleftrightarrow> t = [])"
  proof (cases "reports = []")
    case False
    then obtain cs ts where cs: "cluster_reports tot rt (sort_key (\<lambda>r. - rp_weight r) reports) [] = Inr cs"
      "merge_all tot rt draw now 0 cs [] = Inr ts" "t = reassign_ids tot rt old {} ts"
      using assms(1) by (auto simp: correlate_and_merge_def py_bind_eq_Inr)
    have ts: "length ts = length cs" "\<And>j. j < length cs \<Longrightarrow> track_of now draw j (cs ! j) (ts ! j)"
      using merge_all_tracks [OF assms(2) _ cs(2)] by auto
    then have "track_of now draw j (cs ! j) (t ! j)" if "j < length t" for j using that by (simp add: cs(3) reassign_ids_keeps)
    then have "list_all (\<lambda>(k, x). ft_seen x = now) t" by (auto simp: list_all_length track_of_def case_prod_beta)
    moreover have "cs \<noteq> []" using cluster_reports_partition [OF cs(1)] False by auto
    then have "length t \<noteq> 0" using ts(1) by (simp add: cs(3) reassign_ids_keeps)
    ultimately show ?thesis using False by auto
  qed (use assms(1) in \<open>simp add: correlate_and_merge_def\<close>)
  then show ?thesis using assms(1) age_out_fresh [OF _ assms(3), of t] by (simp add: fusion_update_def)
qed

theorem tracks_never_age_witness:
  "\<exists>t. fusion_update (foldl fadd 0) (\<lambda>x. x) (\<lambda>j. replicate j CHR ''a'') 7 8 [sample_report [1, 2, 3]] [] = (Inr (), t) \<and>
     list_all (\<lambda>(k, x). ft_seen x = 7) t \<and> t \<noteq> []"
proof -
  obtain t where t: "correlate_and_merge (foldl fadd 0) (\<lambda>x. x) (\<lambda>j. replicate j CHR ''a'') 7 [] [sample_report [1, 2, 3]] = Inr t"
    using sample_epoch by blast
  have "fsub 8 7 \<le> TRACK_TTL_S" using fl_of_int [of 1] by (simp add: fsub_def TRACK_TTL_S_def)
  then show ?thesis using tracks_never_age [OF t sample_names] by auto
qed

text \<open>
  A single report with a position or a velocity of one number blocks the fusion: the padding adds one zero and not two,
  the merge raises IndexError, and the table of an earlier epoch stays as it is.
\<close>

theorem short_vector_blocks_fusion:
  assumes "r \<in> set reports" "length (rp_position r) < 3 \<or> length (rp_velocity r) < 3"
  shows "fusion_update tot rt draw now later reports old = (Inl IndexError, old)"
proof (cases "cluster_reports tot rt (sort_key (\<lambda>r. - rp_weight r) reports) []")
  case (Inl e)
  then show ?thesis
    using index_only_cluster [of tot rt "sort_key (\<lambda>r. - rp_weight r) reports" "[]"] assms(1)
    by (auto simp: fusion_update_def correlate_and_merge_def index_only_def)
next
  case (Inr cs)
  then have "mset (concat cs) = mset reports" using cluster_reports_partition [of tot rt "sort_key (\<lambda>r. - rp_weight r) reports" "[]" cs] by simp
  then have "r \<in> set (concat cs)" using assms(1) by (metis set_mset_mset)
  then obtain c where c: "c \<in> set cs" "r \<in> set c" by auto
  have fails: "merge_all tot rt draw now j cs t \<noteq> Inr ts" if "c \<in> set cs" for j cs t ts
    using that
  proof (induction cs arbitrary: j t)
    case (Cons d cs)
    show ?case
    proof
      assume "merge_all tot rt draw now j (d # cs) t = Inr ts"
      then obtain x where x: "merge_cluster tot rt (draw j) now d = Inr x" "merge_all tot rt draw now (Suc j) cs (dict_set (ft_id x) x t) = Inr ts"
        by (auto simp: py_bind_eq_Inr)
      have "d \<noteq> c" using x(1) mean_needs_three [of tot rp_position d _ r] mean_needs_three [of tot rp_velocity d _ r] c(2) assms(2)
        by (auto simp: merge_cluster_def py_bind_eq_Inr)
      then show False using Cons x(2) by auto
    qed
  qed simp
  have "merge_all tot rt draw now 0 cs [] = Inl IndexError"
    using fails [OF c(1), of 0 "[]"] index_only_merge [of tot rt draw now 0 cs "[]"]
    by (cases "merge_all tot rt draw now 0 cs []") (auto simp: index_only_def)
  then show ?thesis using Inr assms(1) by (auto simp: fusion_update_def correlate_and_merge_def)
qed

theorem short_vector_blocks_fusion_witness:
  "fusion_update (foldl fadd 0) (\<lambda>x. x) (\<lambda>j. []) 0 0 [sample_report [1, 2, 3], sample_report [4]] [] = (Inl IndexError, [])"
  by (rule short_vector_blocks_fusion [where r = "sample_report [4]"]) (simp_all add: sample_report_def report_of_def vector_of_def)

text \<open>
  C26. The stable identifiers are not stable. A track keeps the key of its predecessor as its identifier, but it is filed under
  the UUID of its own epoch, so the next epoch hands on that UUID: a single contact that never moves is called, from
  the second epoch on, by the UUID drawn one epoch before, and so changes its name with each epoch from the third.
\<close>

theorem identifiers_change_every_epoch:
  assumes "length (rp_position r) = 3" "length (rp_velocity r) = 3" "\<And>n. fsub (later n) (now n) \<le> TRACK_TTL_S" "rt (tot [0, 0, 0]) = 0"
  shows "map (\<lambda>(k, x). (k, ft_id x)) (epochs tot rt draw now later [r] (Suc (Suc n))) = [(draw (Suc n) 0, draw n 0)]"
proof -
  obtain a b c where p: "weighted_mean tot rp_position [r] = Inr [a, b, c]" using single_mean [of rp_position, OF assms(1)] by blast
  have e: "\<exists>x. ft_position x = [a, b, c] \<and> ft_id x = draw n 0 \<and>
     (\<forall>old. fusion_update tot rt (draw n) (now n) (later n) [r] old = (Inr (), reassign_ids tot rt old {} [(draw n 0, x)]))" for n
    by (rule single_epoch [OF assms(1,2,3) p])
  have "\<exists>x. epochs tot rt draw now later [r] (Suc n) = [(draw n 0, x)] \<and> ft_position x = [a, b, c]" for n
    using e [of n] by (auto split: option.split)
  then obtain u where u: "epochs tot rt draw now later [r] (Suc n) = [(draw n 0, u)]" "ft_position u = [a, b, c]" by blast
  obtain x where x: "ft_position x = [a, b, c]"
    "\<And>old. fusion_update tot rt (draw (Suc n)) (now (Suc n)) (later (Suc n)) [r] old = (Inr (), reassign_ids tot rt old {} [(draw (Suc n) 0, x)])"
    using e [of "Suc n"] by blast
  have "epochs tot rt draw now later [r] (Suc (Suc n)) = snd (fusion_update tot rt (draw (Suc n)) (now (Suc n)) (later (Suc n)) [r] [(draw n 0, u)])"
    by (simp only: epochs.simps(2) [of tot rt draw now later "[r]" "Suc n"] u(1))
  then show ?thesis using u(2) x(1) self_distance [of rt tot a b c, OF assms(4)] by (simp add: x(2) nearer_def GATE_M_def)
qed

theorem identifiers_change_every_epoch_witness:
  "map (\<lambda>(k, x). (k, ft_id x)) (epochs (foldl fadd 0) (\<lambda>x. x) (\<lambda>n j. replicate n CHR ''a'') (\<lambda>_. 0) (\<lambda>_. 0) [sample_report [1, 2, 3]] (Suc (Suc 3))) =
     [(''aaaa'', ''aaa'')]"
  by (subst identifiers_change_every_epoch) (simp_all add: sample_report_def report_of_def vector_of_def TRACK_TTL_S_def fadd_def numeral_eq_Suc)

text \<open>
  The confidence of a track of collected reports is at least 0.68 and at most 1, whatever the number of reports.
\<close>

theorem confidence_bounded:
  assumes "c \<noteq> []" "set c \<subseteq> set (collect_reports now ctrl)"
  shows "68 / 100 \<le> confidence_of c \<and> confidence_of c \<le> 1"
proof -
  obtain r rs where c: "c = r # rs" using assms(1) by (cases c) auto
  have w: "\<forall>r\<in>set c. rp_weight r \<in> {W_TARGETING, W_AEWC}" using assms(2) collected_weights by blast
  define p where "p = fmul 1 (fsub 1 (rp_weight r))"
  have m: "0 \<le> fsub 1 (rp_weight r)" "fsub 1 (rp_weight r) \<le> 31 / 100" using miss_bounds [of "rp_weight r"] w by (simp_all add: c)
  have p: "p = fsub 1 (rp_weight r)" "is_float p" by (simp_all add: p_def fmul_def fsub_def)
  have f: "foldl (\<lambda>p r. fmul p (fsub 1 (rp_weight r))) 1 c = foldl (\<lambda>p r. fmul p (fsub 1 (rp_weight r))) p rs" by (simp add: c p_def)
  have "0 \<le> foldl (\<lambda>p r. fmul p (fsub 1 (rp_weight r))) 1 c \<and> foldl (\<lambda>p r. fmul p (fsub 1 (rp_weight r))) 1 c \<le> 31 / 100"
    unfolding f using miss_product [of rs p] w m p by (simp add: c)
  then have "fl (69 / 100) \<le> fsub 1 (foldl (\<lambda>p r. fmul p (fsub 1 (rp_weight r))) 1 c)" unfolding fsub_def [of 1 "foldl _ _ _"] by (intro fl_mono) simp
  moreover have "\<bar>fl (69 / 100) - 69 / 100\<bar> \<le> 1 / 1000" using fl_err [of "69 / 100"] by simp
  then have "68 / 100 \<le> fl (69 / 100)" unfolding abs_le_iff by simp
  ultimately show ?thesis by (simp add: confidence_of_def)
qed

theorem confidence_bounded_witness:
  "68 / 100 \<le> confidence_of [sample_report [1, 2, 3]]"
proof -
  define t where "t = \<lparr>tg_position = Some [1, 2, 3], tg_velocity = Some [100, 0, 0 :: rat], tg_class = Some ''FIGHTER'', tg_identity = None, tg_rcs = None,
      tg_stealth = False, tg_update = None\<rparr>"
  have "sublist ''targeting'' ''targeting_radar''" by code_simp
  then have "set [sample_report [1, 2, 3]] \<subseteq> set (collect_reports 0 (Some [(''targeting_radar'', [(''T1'', Some t)])]))"
    by (simp add: collect_reports_def radar_reports_def radar_weight_def sample_report_def t_def)
  then show ?thesis using confidence_bounded [of "[sample_report [1, 2, 3]]"] by simp
qed

end
