(* ===== verification/Defensive.thy ===== *)
theory Defensive
  imports Track_Fusion Py_Prelude
begin

text \<open>
  The defensive service (\<^verbatim>\<open>defensiveService.py\<close>): the table of contacts of the radar warning receiver, fed by the track
  fusion and by the passive sensor, the automatic and manual release of flares and chaff, and the jamming mode. Bearings
  and ranges of fused tracks and the random numbers of a signal are arguments; events written to the database change no
  state of the service. A new contact carries the clock of its pass as the time it was first seen, which nothing reads.
\<close>

section \<open>Classification\<close>

definition BAND_NAMES :: "((rat \<times> rat) \<times> string) list" where
  "BAND_NAMES =
     [((500000000, 2000000000), ''L''), ((2000000000, 4000000000), ''S''), ((4000000000, 8000000000), ''C''),
      ((8000000000, 12000000000), ''X''), ((12000000000, 18000000000), ''Ku''), ((18000000000, 27000000000), ''K''),
      ((27000000000, 40000000000), ''Ka'')]"

fun classify_in :: "rat \<Rightarrow> ((rat \<times> rat) \<times> string) list \<Rightarrow> string" where
  "classify_in f [] = ''?''"
| "classify_in f (((lo, hi), name) # bs) = (if lo \<le> f \<and> f < hi then name else classify_in f bs)"

definition classify_freq :: "rat \<Rightarrow> string" where "classify_freq f = classify_in f BAND_NAMES"

record threat_entry =
  te_band :: string
  te_pri :: int
  te_type :: string

definition THREAT_DB :: "(string \<times> threat_entry) list" where
  "THREAT_DB =
     [(''SA-10'', \<lparr>te_band = ''X'', te_pri = 1, te_type = ''SAM''\<rparr>),
      (''SA-15'', \<lparr>te_band = ''X'', te_pri = 1, te_type = ''SAM''\<rparr>),
      (''SA-6'', \<lparr>te_band = ''Ku'', te_pri = 2, te_type = ''SAM''\<rparr>),
      (''FIGHTER'', \<lparr>te_band = ''X'', te_pri = 2, te_type = ''AIR''\<rparr>),
      (''BOMBER'', \<lparr>te_band = ''S'', te_pri = 3, te_type = ''AIR''\<rparr>),
      (''UNKNOWN'', \<lparr>te_band = ''?'', te_pri = 4, te_type = ''UNK''\<rparr>)]"

definition unknown_entry :: threat_entry where "unknown_entry = \<lparr>te_band = ''?'', te_pri = 4, te_type = ''UNK''\<rparr>"

definition threat_of :: "string \<Rightarrow> threat_entry" where
  "threat_of classification = (case map_of THREAT_DB classification of Some e \<Rightarrow> e | None \<Rightarrow> unknown_entry)"

record contact =
  ct_id :: string
  ct_bearing :: rat
  ct_range :: rat
  ct_band :: string
  ct_type :: string
  ct_priority :: int
  ct_hostile :: bool
  ct_first :: rat
  ct_last :: rat

section \<open>The service\<close>

definition CHAFF_MAX :: int where "CHAFF_MAX = 60"
definition FLARE_MAX :: int where "FLARE_MAX = 30"
definition SALVO_SIZE :: int where "SALVO_SIZE = 2"
definition COOLDOWN_S :: rat where "COOLDOWN_S = 3"
definition TRACK_TTL :: rat where "TRACK_TTL = 10"

datatype ecm_mode = STANDBY | ACTIVE | PASSIVE

record defensive =
  df_chaff :: int
  df_flares :: int
  df_last_dispense :: rat
  df_contacts :: "(string \<times> contact) list"
  df_jamming :: bool
  df_ecm :: ecm_mode

definition new_defensive :: defensive where
  "new_defensive = \<lparr>df_chaff = CHAFF_MAX, df_flares = FLARE_MAX, df_last_dispense = 0, df_contacts = [],
     df_jamming = False, df_ecm = STANDBY\<rparr>"

text \<open>
  A value followed by parentheses. \<^verbatim>\<open>bearing_deg\<close> and \<^verbatim>\<open>range_nm\<close> of a fused track are properties, so naming them gives a
  float, and a float cannot be called.
\<close>

definition call_float :: "rat \<Rightarrow> rat pyres" where "call_float x = Inl TypeError"

definition fused_contact :: "(fused_track \<Rightarrow> rat) \<Rightarrow> (fused_track \<Rightarrow> rat) \<Rightarrow> rat \<Rightarrow> fused_track \<Rightarrow> contact pyres" where
  "fused_contact bearing_deg range_nm now t =
     (let entry = threat_of (ft_class t)
      in py_bind (call_float (bearing_deg t)) (\<lambda>b.
         py_bind (call_float (range_nm t)) (\<lambda>r.
         Inr \<lparr>ct_id = ''FUS-'' @ ft_id t, ct_bearing = b, ct_range = r, ct_band = te_band entry, ct_type = te_type entry,
              ct_priority = te_pri entry, ct_hostile = is_hostile t, ct_first = now, ct_last = now\<rparr>)))"

text \<open>The loop over the tracks; an error ends it and is only logged.\<close>

fun rwr_fusion :: "(fused_track \<Rightarrow> rat) \<Rightarrow> (fused_track \<Rightarrow> rat) \<Rightarrow> rat \<Rightarrow> fused_track list \<Rightarrow> (string \<times> contact) list \<Rightarrow> (string \<times> contact) list" where
  "rwr_fusion bearing_deg range_nm now [] m = m"
| "rwr_fusion bearing_deg range_nm now (t # ts) m =
     (case fused_contact bearing_deg range_nm now t of
        Inl _ \<Rightarrow> m
      | Inr c \<Rightarrow> rwr_fusion bearing_deg range_nm now ts (dict_set (''FUS-'' @ ft_id t) c m))"

text \<open>A signal of the passive sensor, with the random bearing and range drawn for it.\<close>

record signal =
  sg_frequency :: "rat option"
  sg_bearing :: "rat option"
  sg_random_bearing :: rat
  sg_random_range :: rat

definition esm_contact :: "rat \<Rightarrow> signal \<Rightarrow> (string \<times> contact) list \<Rightarrow> (string \<times> contact) list" where
  "esm_contact now sig m =
     (let freq = or_else (sg_frequency sig) 10000000000;
          bearing = or_else (sg_bearing sig) (sg_random_bearing sig);
          band = classify_freq freq;
          cid = ''ESM-'' @ band @ ''-'' @ py_str_int (py_trunc bearing)
      in case map_of m cid of
           None \<Rightarrow> dict_set cid \<lparr>ct_id = cid, ct_bearing = bearing, ct_range = sg_random_range sig, ct_band = band, ct_type = ''UNK'',
                               ct_priority = 3, ct_hostile = True, ct_first = now, ct_last = now\<rparr> m
         | Some c \<Rightarrow> dict_set cid (c\<lparr>ct_last := now\<rparr>) m)"

definition expire_contacts :: "rat \<Rightarrow> (string \<times> contact) list \<Rightarrow> (string \<times> contact) list" where
  "expire_contacts now m = filter (\<lambda>(k, c). \<not> TRACK_TTL < fsub now (ct_last c)) m"

text \<open>The fusion layer and the sensor are \<open>None\<close> when they could not be loaded; the sensor gives nothing while inactive.\<close>

definition update_rwr ::
  "(fused_track \<Rightarrow> rat) \<Rightarrow> (fused_track \<Rightarrow> rat) \<Rightarrow> rat \<Rightarrow> track_table option \<Rightarrow> signal list option \<Rightarrow> defensive \<Rightarrow> defensive" where
  "update_rwr bearing_deg range_nm now fusion esm s =
     (let m = df_contacts s;
          m = (case fusion of None \<Rightarrow> m | Some t \<Rightarrow> rwr_fusion bearing_deg range_nm now (get_threat_tracks t) m);
          m = (case esm of None \<Rightarrow> m | Some sigs \<Rightarrow> fold (esm_contact now) sigs m)
      in s\<lparr>df_contacts := expire_contacts now m\<rparr>)"

definition high_priority :: "defensive \<Rightarrow> contact list" where
  "high_priority s = filter (\<lambda>c. ct_priority c = 1 \<and> ct_hostile c) (map snd (df_contacts s))"

definition auto_dispense :: "rat \<Rightarrow> defensive \<Rightarrow> defensive" where
  "auto_dispense now s =
     (if high_priority s \<noteq> [] \<and> COOLDOWN_S < fsub now (df_last_dispense s)
      then let released = min SALVO_SIZE (df_flares s)
           in if 0 < released then s\<lparr>df_flares := df_flares s - released, df_last_dispense := now\<rparr> else s
      else s)"

definition dispense_chaff :: "int \<Rightarrow> defensive \<Rightarrow> int \<times> defensive" where
  "dispense_chaff n s = (let released = min n (df_chaff s) in (released, s\<lparr>df_chaff := df_chaff s - released\<rparr>))"

definition dispense_flares :: "rat \<Rightarrow> int \<Rightarrow> defensive \<Rightarrow> int \<times> defensive" where
  "dispense_flares now n s =
     (if fsub now (df_last_dispense s) < COOLDOWN_S then (0, s)
      else let released = min n (df_flares s)
           in (released, s\<lparr>df_flares := df_flares s - released, df_last_dispense := now\<rparr>))"

definition ecm_of :: "string \<Rightarrow> ecm_mode option" where
  "ecm_of mode = map_of [(''STANDBY'', STANDBY), (''ACTIVE'', ACTIVE), (''PASSIVE'', PASSIVE)] mode"

definition set_ecm_mode :: "string \<Rightarrow> defensive \<Rightarrow> defensive" where
  "set_ecm_mode mode s = (case ecm_of mode of None \<Rightarrow> s | Some m \<Rightarrow> s\<lparr>df_ecm := m, df_jamming := (m = ACTIVE)\<rparr>)"

definition get_rwr_contacts :: "defensive \<Rightarrow> contact list" where
  "get_rwr_contacts s = sort_key ct_priority (map snd (df_contacts s))"

text \<open>A contact that another component puts into the table, as the scenario engine does.\<close>

definition put_contact :: "string \<Rightarrow> contact \<Rightarrow> defensive \<Rightarrow> defensive" where
  "put_contact k c s = s\<lparr>df_contacts := dict_set k c (df_contacts s)\<rparr>"

text \<open>One pass of the worker reads the clock twice.\<close>

definition defensive_pass ::
  "(fused_track \<Rightarrow> rat) \<Rightarrow> (fused_track \<Rightarrow> rat) \<Rightarrow> rat \<Rightarrow> rat \<Rightarrow> track_table option \<Rightarrow> signal list option \<Rightarrow> defensive \<Rightarrow> defensive" where
  "defensive_pass bearing_deg range_nm now later fusion esm s = auto_dispense later (update_rwr bearing_deg range_nm now fusion esm s)"

section \<open>Steps\<close>

text \<open>
  What may happen to the service: a pass of the worker and the calls of its users. The calls carry the clock; the first
  flag tells whether another component puts contacts of its own into the table.
\<close>

inductive defensive_step :: "bool \<Rightarrow> defensive \<Rightarrow> defensive \<Rightarrow> bool" for foreign where
  Pass: "defensive_step foreign s (defensive_pass b r now later fusion esm s)"
| Chaff: "0 \<le> n \<Longrightarrow> defensive_step foreign s (snd (dispense_chaff n s))"
| Flares: "0 \<le> n \<Longrightarrow> defensive_step foreign s (snd (dispense_flares now n s))"
| Ecm: "defensive_step foreign s (set_ecm_mode mode s)"
| Put: "foreign \<Longrightarrow> defensive_step foreign s (put_contact k c s)"

inductive defensive_reach :: "bool \<Rightarrow> defensive \<Rightarrow> bool" for foreign where
  Init: "defensive_reach foreign new_defensive"
| Step: "defensive_reach foreign s \<Longrightarrow> defensive_step foreign s s' \<Longrightarrow> defensive_reach foreign s'"

inductive_cases defensive_step_cases: "defensive_step foreign s s'"

section \<open>Lemmas\<close>

lemma fused_contact_fails [simp]: "fused_contact b r now t = Inl TypeError"
  by (simp add: fused_contact_def call_float_def)

lemma rwr_fusion_none: "rwr_fusion b r now ts m = m"
  by (cases ts) simp_all

lemma update_rwr_rest [simp]:
  "df_chaff (update_rwr b r now f e s) = df_chaff s" "df_flares (update_rwr b r now f e s) = df_flares s"
  "df_last_dispense (update_rwr b r now f e s) = df_last_dispense s" "df_jamming (update_rwr b r now f e s) = df_jamming s"
  "df_ecm (update_rwr b r now f e s) = df_ecm s"
  by (simp_all add: update_rwr_def Let_def)

definition stock_ok :: "defensive \<Rightarrow> bool" where
  "stock_ok s \<longleftrightarrow> 0 \<le> df_chaff s \<and> df_chaff s \<le> CHAFF_MAX \<and> 0 \<le> df_flares s \<and> df_flares s \<le> FLARE_MAX \<and>
     (df_jamming s \<longleftrightarrow> df_ecm s = ACTIVE)"

lemma stock_ok_step: "defensive_step foreign s s' \<Longrightarrow> stock_ok s \<Longrightarrow> stock_ok s'"
  by (erule defensive_step_cases)
    (auto simp: stock_ok_def defensive_pass_def auto_dispense_def dispense_chaff_def dispense_flares_def set_ecm_mode_def put_contact_def Let_def
      SALVO_SIZE_def min_def split: option.split)

text \<open>Contacts of the service's own making: seen by the sensor, of priority three.\<close>

definition own_contacts :: "(string \<times> contact) list \<Rightarrow> bool" where
  "own_contacts m \<longleftrightarrow> list_all (\<lambda>(k, c). ct_priority c = 3) m"

lemma own_contacts_set: "own_contacts m \<Longrightarrow> ct_priority c = 3 \<Longrightarrow> own_contacts (dict_set k c m)"
  unfolding own_contacts_def by (rule list_all_dict_set) simp_all

lemma own_contacts_get: "own_contacts m \<Longrightarrow> map_of m k = Some c \<Longrightarrow> ct_priority c = 3"
  by (auto simp: own_contacts_def list_all_iff dest: map_of_SomeD)

lemma own_contacts_esm: "own_contacts m \<Longrightarrow> own_contacts (esm_contact now sig m)"
  using own_contacts_get [of m] by (auto simp: esm_contact_def Let_def own_contacts_set split: option.split)

lemma own_contacts_signals: "own_contacts m \<Longrightarrow> own_contacts (fold (esm_contact now) sigs m)"
  by (induction sigs arbitrary: m) (simp_all add: own_contacts_esm)

lemma own_contacts_expire: "own_contacts m \<Longrightarrow> own_contacts (expire_contacts now m)"
  by (simp add: own_contacts_def expire_contacts_def list_all_iff)

lemma own_contacts_update: "own_contacts (df_contacts s) \<Longrightarrow> own_contacts (df_contacts (update_rwr b r now f e s))"
  by (simp add: update_rwr_def rwr_fusion_none own_contacts_expire own_contacts_signals Let_def split: option.split)

lemma own_contacts_not_high: "own_contacts (df_contacts s) \<Longrightarrow> high_priority s = []"
  by (auto simp: high_priority_def own_contacts_def list_all_iff filter_empty_conv)

lemma auto_dispense_contacts [simp]: "df_contacts (auto_dispense now s) = df_contacts s"
  by (simp add: auto_dispense_def Let_def)

lemma own_contacts_reach: "defensive_reach False s \<Longrightarrow> own_contacts (df_contacts s)"
proof (induction rule: defensive_reach.induct)
  case Init
  then show ?case by (simp add: own_contacts_def new_defensive_def)
next
  case (Step s s')
  from Step(2) show ?case
    using Step.IH by (cases rule: defensive_step.cases)
      (auto simp: defensive_pass_def own_contacts_update dispense_chaff_def dispense_flares_def set_ecm_mode_def Let_def split: option.split)
qed

text \<open>A state for the examples: a missile site is being tracked.\<close>

definition site :: contact where
  "site = \<lparr>ct_id = ''SCEN-THR'', ct_bearing = 90, ct_range = 30, ct_band = ''X'', ct_type = ''SAM'', ct_priority = 1, ct_hostile = True,
     ct_first = 100, ct_last = 100\<rparr>"

definition threatened :: defensive where "threatened = put_contact ''SCEN-THR'' site new_defensive"

lemma threatened_simps:
  "df_flares threatened = 30" "df_last_dispense threatened = 0" "high_priority threatened = [site]" "df_contacts threatened = [(''SCEN-THR'', site)]"
  by (simp_all add: threatened_def put_contact_def new_defensive_def FLARE_MAX_def high_priority_def dict_set_def site_def)

lemma fsub_100 [simp]: "fsub 100 0 = 100" "fsub 101 100 = 1" "fsub 105 100 = 5"
  using fl_of_int [of 100] fl_of_int [of 1] fl_of_int [of 5] by (simp_all add: fsub_def)

section \<open>Properties\<close>

text \<open>
  The stocks stay sound, whatever happens: between nothing and their maximum, and the jammer runs exactly in the active
  mode, as long as the numbers asked for are not negative.
\<close>

theorem stocks_sound:
  assumes "defensive_reach foreign s"
  shows "stock_ok s"
  using assms
proof (induction rule: defensive_reach.induct)
  case Init
  then show ?case by (simp add: stock_ok_def new_defensive_def CHAFF_MAX_def FLARE_MAX_def)
qed (rule stock_ok_step)

theorem stocks_sound_witness: "stock_ok threatened"
  unfolding threatened_def by (rule stocks_sound [where foreign = True]) (auto intro: defensive_reach.intros defensive_step.intros)

text \<open>
  The threats of the fused radar tracks never reach the warning receiver: whatever the fusion reports, the table of
  contacts is the same as without it, since the first hostile track raises TypeError.
\<close>

theorem fused_threats_ignored: "update_rwr b r now (Some tracks) esm s = update_rwr b r now None esm s"
  by (simp add: update_rwr_def rwr_fusion_none)

text \<open>
  C28. The automatic release never happens. As long as no other component writes into the table, every contact has been made
  from a signal and has priority three; no pass of the worker ever releases a flare, however many hostile tracks and
  signals there are.
\<close>

theorem no_automatic_release:
  assumes "defensive_reach False s"
  shows "df_flares (defensive_pass b r now later fusion esm s) = df_flares s \<and>
     df_last_dispense (defensive_pass b r now later fusion esm s) = df_last_dispense s"
proof -
  have "high_priority (update_rwr b r now fusion esm s) = []"
    using own_contacts_update [OF own_contacts_reach [OF assms]] by (rule own_contacts_not_high)
  then show ?thesis by (simp add: defensive_pass_def auto_dispense_def)
qed

theorem no_automatic_release_witness:
  "df_flares (defensive_pass (\<lambda>_. 0) (\<lambda>_. 0) 100 101 None (Some [\<lparr>sg_frequency = Some 9000000000, sg_bearing = Some 45,
     sg_random_bearing = 0, sg_random_range = 7\<rparr>]) (set_ecm_mode ''ACTIVE'' new_defensive)) = 30"
proof -
  have r: "defensive_reach False (set_ecm_mode ''ACTIVE'' new_defensive)"
    by (rule defensive_reach.Step [OF defensive_reach.Init defensive_step.Ecm])
  have "df_flares (set_ecm_mode ''ACTIVE'' new_defensive) = 30" by (simp add: set_ecm_mode_def ecm_of_def new_defensive_def FLARE_MAX_def)
  then show ?thesis using no_automatic_release [OF r] by simp
qed

text \<open>
  The cooldown is kept: a pass or a call that takes flares from the stock comes at least three seconds after the last
  release, and restarts the cooldown; a manual call within it releases nothing and changes nothing.
\<close>

theorem cooldown_enforced:
  "(df_flares (auto_dispense now s) < df_flares s \<longrightarrow> COOLDOWN_S < fsub now (df_last_dispense s) \<and> df_last_dispense (auto_dispense now s) = now \<and>
      df_flares s \<le> df_flares (auto_dispense now s) + SALVO_SIZE) \<and>
   (df_flares (snd (dispense_flares now n s)) < df_flares s \<longrightarrow> COOLDOWN_S \<le> fsub now (df_last_dispense s) \<and>
      df_last_dispense (snd (dispense_flares now n s)) = now) \<and>
   (fsub now (df_last_dispense s) < COOLDOWN_S \<longrightarrow> dispense_flares now n s = (0, s))"
  by (auto simp: auto_dispense_def dispense_flares_def Let_def SALVO_SIZE_def)

theorem cooldown_enforced_witness:
  "df_flares (auto_dispense 100 threatened) = 28 \<and> df_last_dispense (auto_dispense 100 threatened) = 100 \<and>
   dispense_flares 101 1 (auto_dispense 100 threatened) = (0, auto_dispense 100 threatened)"
proof -
  have f: "df_flares (auto_dispense 100 threatened) = 28" by (simp add: auto_dispense_def threatened_simps COOLDOWN_S_def SALVO_SIZE_def)
  have l: "df_last_dispense (auto_dispense 100 threatened) = 100" using cooldown_enforced [of 100 threatened] f by (simp add: threatened_simps)
  show ?thesis using f l cooldown_enforced [of 101 "auto_dispense 100 threatened" 1] by (simp add: COOLDOWN_S_def)
qed

text \<open>
  A contact is dropped ten seconds after it was last seen and not before: after a pass over the table no contact is
  older, and every younger one of the table is still there.
\<close>

theorem stale_contacts_dropped:
  "(\<forall>(k, c)\<in>set (df_contacts (update_rwr b r now fusion esm s)). \<not> TRACK_TTL < fsub now (ct_last c)) \<and>
   (\<forall>(k, c)\<in>set (df_contacts s). \<not> TRACK_TTL < fsub now (ct_last c) \<longrightarrow> (k, c) \<in> set (df_contacts (update_rwr b r now fusion None s)))"
  by (auto simp: update_rwr_def rwr_fusion_none expire_contacts_def Let_def split: option.split)

theorem stale_contacts_dropped_witness:
  "(''SCEN-THR'', site) \<in> set (df_contacts (update_rwr (\<lambda>_. 0) (\<lambda>_. 0) 105 None None threatened))"
  using stale_contacts_dropped [of "\<lambda>_. 0" "\<lambda>_. 0" 105 None None threatened]
  by (simp add: threatened_simps TRACK_TTL_def site_def)

text \<open>
  A negative number refills the stock without limit and reports a negative release, for chaff and, after the cooldown,
  for flares.
\<close>

theorem negative_count_refills:
  assumes "n < 0" "stock_ok s" "COOLDOWN_S \<le> fsub now (df_last_dispense s)"
  shows "dispense_chaff n s = (n, s\<lparr>df_chaff := df_chaff s - n\<rparr>) \<and>
     dispense_flares now n s = (n, s\<lparr>df_flares := df_flares s - n, df_last_dispense := now\<rparr>)"
  using assms by (simp add: dispense_chaff_def dispense_flares_def stock_ok_def min_def Let_def)

theorem negative_count_refills_witness:
  "df_chaff (snd (dispense_chaff (- 5) threatened)) = 65 \<and> df_flares (snd (dispense_flares 100 (- 5) threatened)) = 35"
  using negative_count_refills [of "- 5" threatened 100]
  by (simp add: threatened_simps COOLDOWN_S_def stock_ok_def CHAFF_MAX_def FLARE_MAX_def threatened_def put_contact_def new_defensive_def)

text \<open>
  A release of nothing blocks the next one: a manual call that has no flares to release, or is asked for none, restarts
  the cooldown all the same.
\<close>

theorem empty_release_blocks:
  assumes "n = 0 \<or> df_flares s = 0" "0 \<le> n" "0 \<le> df_flares s" "COOLDOWN_S \<le> fsub now (df_last_dispense s)" "fsub later now < COOLDOWN_S"
  shows "fst (dispense_flares now n s) = 0 \<and> auto_dispense later (snd (dispense_flares now n s)) = snd (dispense_flares now n s) \<and>
     dispense_flares later m (snd (dispense_flares now n s)) = (0, snd (dispense_flares now n s))"
  using assms by (auto simp: dispense_flares_def auto_dispense_def Let_def)

theorem empty_release_blocks_witness:
  "auto_dispense 101 (snd (dispense_flares 100 0 threatened)) = snd (dispense_flares 100 0 threatened)"
  using empty_release_blocks [of 0 threatened 100 101 0] by (simp add: threatened_simps COOLDOWN_S_def)

end
