(* ===== verification/Fuel_System.thy ===== *)
theory Fuel_System
  imports Fcs_Control Health
begin

text \<open>
  The fuel system (\<^verbatim>\<open>fuelControl.py\<close>, \<^verbatim>\<open>fuelMonitor.py\<close>, \<^verbatim>\<open>fuelTransfer.py\<close>): tanks, engines and lines, the transfers between
  tanks, the monitor with its alarms, the rules of the transfer manager and the pass of the worker that drives them. All
  quantities are floats; the rows written to the database are not modelled, as it writes them in the background.
\<close>

section \<open>Tanks and engines\<close>

record fuel_tank =
  tk_capacity :: rat
  tk_level :: rat

record engine =
  en_max :: rat
  en_thrust :: rat
  en_rate :: rat

record fuel_system =
  fs_tanks :: "(string \<times> fuel_tank) list"
  fs_engines :: "(string \<times> engine) list"
  fs_lines :: "(string \<times> string list) list"
  fs_rates :: "((string \<times> string) \<times> rat) list"

definition new_tank :: "rat \<Rightarrow> fuel_tank" where
  "new_tank capacity = \<lparr>tk_capacity = capacity, tk_level = capacity\<rparr>"

definition consume :: "rat \<Rightarrow> fuel_tank \<Rightarrow> rat \<times> fuel_tank" where
  "consume amount t =
     (if tk_level t < amount then (tk_level t, t\<lparr>tk_level := 0\<rparr>)
      else (amount, t\<lparr>tk_level := fsub (tk_level t) amount\<rparr>))"

definition refill :: "rat \<Rightarrow> fuel_tank \<Rightarrow> rat \<times> fuel_tank" where
  "refill amount t =
     (let space_available = fsub (tk_capacity t) (tk_level t)
      in if space_available < amount then (space_available, t\<lparr>tk_level := tk_capacity t\<rparr>)
         else (amount, t\<lparr>tk_level := fadd (tk_level t) amount\<rparr>))"

definition new_engine :: "rat \<Rightarrow> engine" where
  "new_engine max_thrust = \<lparr>en_max = max_thrust, en_thrust = 0, en_rate = 0\<rparr>"

definition set_thrust :: "rat \<Rightarrow> engine \<Rightarrow> engine" where
  "set_thrust percentage e =
     (let thrust = fmul (en_max e) (fdiv percentage 100)
      in e\<lparr>en_thrust := thrust, en_rate := fmul thrust (fl (1 / 10))\<rparr>)"

section \<open>The fuel system\<close>

definition no_fuel_system :: fuel_system where
  "no_fuel_system = \<lparr>fs_tanks = [], fs_engines = [], fs_lines = [], fs_rates = []\<rparr>"

definition lines_of :: "fuel_system \<Rightarrow> string \<Rightarrow> string list" where
  "lines_of f tank = (case map_of (fs_lines f) tank of Some es \<Rightarrow> es | None \<Rightarrow> [])"

definition add_tank :: "string \<Rightarrow> rat \<Rightarrow> fuel_system \<Rightarrow> fuel_system" where
  "add_tank name capacity f = f\<lparr>fs_tanks := dict_set name (new_tank capacity) (fs_tanks f)\<rparr>"

definition add_engine :: "string \<Rightarrow> rat \<Rightarrow> fuel_system \<Rightarrow> fuel_system" where
  "add_engine name max_thrust f = f\<lparr>fs_engines := dict_set name (new_engine max_thrust) (fs_engines f)\<rparr>"

definition connect_tank_to_engine :: "string \<Rightarrow> string \<Rightarrow> rat \<Rightarrow> fuel_system \<Rightarrow> fuel_system" where
  "connect_tank_to_engine tank eng rate f =
     f\<lparr>fs_lines := dict_set tank (lines_of f tank @ [eng]) (fs_lines f), fs_rates := AList.update (tank, eng) rate (fs_rates f)\<rparr>"

definition set_engine_thrust :: "string \<Rightarrow> rat \<Rightarrow> fuel_system \<Rightarrow> fuel_system" where
  "set_engine_thrust name percentage f =
     (case map_of (fs_engines f) name of
        None \<Rightarrow> f
      | Some e \<Rightarrow> f\<lparr>fs_engines := dict_set name (set_thrust percentage e) (fs_engines f)\<rparr>)"

definition put_tank :: "string \<Rightarrow> fuel_tank \<Rightarrow> fuel_system \<Rightarrow> fuel_system" where
  "put_tank name t f = f\<lparr>fs_tanks := dict_set name t (fs_tanks f)\<rparr>"

text \<open>The source is drained before the destination is looked up.\<close>

definition transfer_fuel :: "string \<Rightarrow> string \<Rightarrow> rat \<Rightarrow> fuel_system \<Rightarrow> unit pyres \<times> fuel_system" where
  "transfer_fuel source destination amount f =
     (case map_of (fs_tanks f) source of
        None \<Rightarrow> (Inl KeyError, f)
      | Some t \<Rightarrow>
          (let (transferred, t) = consume amount t; f = put_tank source t f
           in case map_of (fs_tanks f) destination of
                None \<Rightarrow> (Inl KeyError, f)
              | Some u \<Rightarrow> (Inr (), put_tank destination (snd (refill transferred u)) f)))"

fun burn :: "rat \<Rightarrow> string \<Rightarrow> string list \<Rightarrow> fuel_system \<Rightarrow> unit pyres \<times> fuel_system" where
  "burn dt tank [] f = (Inr (), f)"
| "burn dt tank (e # es) f =
     (case (map_of (fs_engines f) e, map_of (fs_tanks f) tank) of
        (Some en, Some t) \<Rightarrow> burn dt tank es (put_tank tank (snd (consume (fmul (en_rate en) dt) t)) f)
      | _ \<Rightarrow> (Inl KeyError, f))"

text \<open>The entry without engines that the dictionary of lines makes for a tank is left out: nothing tells it from none.\<close>

fun burn_all :: "rat \<Rightarrow> string list \<Rightarrow> fuel_system \<Rightarrow> unit pyres \<times> fuel_system" where
  "burn_all dt [] f = (Inr (), f)"
| "burn_all dt (k # ks) f =
     (case burn dt k (lines_of f k) f of
        (Inr _, f) \<Rightarrow> burn_all dt ks f
      | r \<Rightarrow> r)"

definition fuel_update :: "rat \<Rightarrow> fuel_system \<Rightarrow> unit pyres \<times> fuel_system" where
  "fuel_update dt f = burn_all dt (map fst (fs_tanks f)) f"

definition get_fuel_status :: "fuel_system \<Rightarrow> (string \<times> rat) list" where
  "get_fuel_status f = map (\<lambda>(k, t). (k, tk_level t)) (fs_tanks f)"

text \<open>What a message may hold as a name: a text, another key, or something that is no key.\<close>

definition key_of :: "pyval \<Rightarrow> string option pyres" where
  "key_of v = (case v of PStr s \<Rightarrow> Inr (Some s) | PList _ \<Rightarrow> Inl TypeError | PDict _ \<Rightarrow> Inl TypeError | _ \<Rightarrow> Inr None)"

definition receive_thrust :: "pydict \<Rightarrow> fuel_system \<Rightarrow> unit pyres \<times> fuel_system" where
  "receive_thrust d f =
     (case map_of d ''engine_name'' of
        None \<Rightarrow> (Inl KeyError, f)
      | Some v \<Rightarrow>
          (case key_of v of
             Inl e \<Rightarrow> (Inl e, f)
           | Inr None \<Rightarrow> (Inr (), f)
           | Inr (Some name) \<Rightarrow>
               if map_of (fs_engines f) name = None then (Inr (), f)
               else case py_num (dict_get d ''engine_thrust'' PNone) of
                      None \<Rightarrow> (Inl TypeError, f)
                    | Some q \<Rightarrow> (Inr (), set_engine_thrust name q f)))"

definition receive_transfer :: "pydict \<Rightarrow> fuel_system \<Rightarrow> unit pyres \<times> fuel_system" where
  "receive_transfer d f =
     (case (map_of d ''source_tank'', map_of d ''destination_tank'', map_of d ''amount'') of
        (Some source, Some destination, Some amount) \<Rightarrow>
          (case key_of source of
             Inl e \<Rightarrow> (Inl e, f)
           | Inr None \<Rightarrow> (Inl KeyError, f)
           | Inr (Some a) \<Rightarrow>
               (case (map_of (fs_tanks f) a, py_num amount) of
                  (None, _) \<Rightarrow> (Inl KeyError, f)
                | (Some t, None) \<Rightarrow> (Inl TypeError, f)
                | (Some t, Some q) \<Rightarrow>
                    (case key_of destination of
                       Inr (Some b) \<Rightarrow> transfer_fuel a b q f
                     | Inr None \<Rightarrow> (Inl KeyError, put_tank a (snd (consume q t)) f)
                     | Inl e \<Rightarrow> (Inl e, put_tank a (snd (consume q t)) f))))
      | _ \<Rightarrow> (Inl KeyError, f))"

definition fuel_receive_message :: "pydict \<Rightarrow> fuel_system \<Rightarrow> unit pyres \<times> fuel_system" where
  "fuel_receive_message d f =
     (if has_key d ''engine_thrust'' then receive_thrust d f
      else if has_key d ''fuel_transfer'' then receive_transfer d f
      else (Inr (), f))"

section \<open>The monitor\<close>

definition LOW_FUEL_PCT :: rat where "LOW_FUEL_PCT = 20"
definition CRITICAL_FUEL_PCT :: rat where "CRITICAL_FUEL_PCT = 10"
definition LEAK_UNEXPLAINED_DROP_FRACTION :: rat where "LEAK_UNEXPLAINED_DROP_FRACTION = fl (2 / 100)"

record fuel_monitor =
  fm_last :: "(string \<times> rat) list"
  fm_rates :: "(string \<times> rat) list"
  fm_alerts :: "(string \<times> string) list"

definition raise_alert :: "string \<Rightarrow> string \<Rightarrow> fuel_monitor \<Rightarrow> fuel_monitor" where
  "raise_alert tank kind m = m\<lparr>fm_alerts := fm_alerts m @ [(tank, kind)]\<rparr>"

definition expected_consumption :: "fuel_system \<Rightarrow> string \<Rightarrow> rat \<Rightarrow> rat" where
  "expected_consumption f tank dt =
     fold (\<lambda>e expected. case map_of (fs_engines f) e of
         Some en \<Rightarrow> fadd expected (fmul (en_rate en) dt) | None \<Rightarrow> expected) (lines_of f tank) 0"

definition capacity_of :: "fuel_system \<Rightarrow> string \<Rightarrow> rat" where
  "capacity_of f tank = (case map_of (fs_tanks f) tank of Some t \<Rightarrow> tk_capacity t | None \<Rightarrow> 0)"

definition check_drop :: "rat \<Rightarrow> fuel_system \<Rightarrow> string \<Rightarrow> rat \<Rightarrow> fuel_monitor \<Rightarrow> fuel_monitor" where
  "check_drop dt f tank level m =
     (case map_of (fm_last m) tank of
        None \<Rightarrow> m
      | Some previous \<Rightarrow>
          (let drop = fsub previous level; rate = fdiv drop dt; capacity = capacity_of f tank;
               m = m\<lparr>fm_rates := dict_set tank (max 0 rate) (fm_rates m)\<rparr>
           in if capacity \<noteq> 0 \<and> fadd (expected_consumption f tank dt) (fmul capacity LEAK_UNEXPLAINED_DROP_FRACTION) < drop
              then raise_alert tank ''LEAK_SUSPECTED'' m else m))"

definition check_level :: "fuel_system \<Rightarrow> string \<Rightarrow> rat \<Rightarrow> fuel_monitor \<Rightarrow> fuel_monitor" where
  "check_level f tank level m =
     (let capacity = capacity_of f tank; pct = fmul (fdiv level capacity) 100
      in if capacity = 0 then m
         else if pct \<le> CRITICAL_FUEL_PCT then raise_alert tank ''CRITICAL_FUEL'' m
         else if pct \<le> LOW_FUEL_PCT then raise_alert tank ''LOW_FUEL'' m
         else m)"

definition sample_tank :: "rat \<Rightarrow> fuel_system \<Rightarrow> string \<times> rat \<Rightarrow> fuel_monitor \<Rightarrow> fuel_monitor" where
  "sample_tank dt f = (\<lambda>(tank, level) m.
     let m = check_drop dt f tank level m; m = m\<lparr>fm_last := dict_set tank level (fm_last m)\<rparr>
     in check_level f tank level m)"

definition poll_fuel :: "rat \<Rightarrow> fuel_system \<Rightarrow> fuel_monitor \<Rightarrow> fuel_monitor" where
  "poll_fuel dt f m = (if dt \<le> 0 then m else fold (sample_tank dt f) (get_fuel_status f) m)"

definition get_alerts :: "bool \<Rightarrow> fuel_monitor \<Rightarrow> (string \<times> string) list \<times> fuel_monitor" where
  "get_alerts clear m = (fm_alerts m, if clear then m\<lparr>fm_alerts := []\<rparr> else m)"

section \<open>The transfer manager\<close>

record transfer_rule =
  tr_source :: string
  tr_feed :: "string list"
  tr_below :: rat
  tr_min :: rat
  tr_rate :: rat

record transfer_manager =
  tm_rules :: "transfer_rule list"
  tm_log :: "(string \<times> string \<times> rat) list"

definition add_rule :: "transfer_rule \<Rightarrow> transfer_manager \<Rightarrow> transfer_manager" where
  "add_rule r m = m\<lparr>tm_rules := tm_rules m @ [r]\<rparr>"

definition pct_full :: "fuel_system \<Rightarrow> string \<Rightarrow> rat option" where
  "pct_full f tank =
     (case map_of (fs_tanks f) tank of
        None \<Rightarrow> None
      | Some t \<Rightarrow> if tk_capacity t \<le> 0 then None else Some (fmul (fdiv (tk_level t) (tk_capacity t)) 100))"

type_synonym transfer_log = "(string \<times> string \<times> rat) list"

fun feed_all :: "transfer_rule \<Rightarrow> rat \<Rightarrow> string list \<Rightarrow> fuel_system \<times> transfer_log \<Rightarrow> unit pyres \<times> fuel_system \<times> transfer_log" where
  "feed_all r dt [] (f, done_log) = (Inr (), f, done_log)"
| "feed_all r dt (k # ks) (f, done_log) =
     (case pct_full f k of
        None \<Rightarrow> feed_all r dt ks (f, done_log)
      | Some pct \<Rightarrow>
          if tr_below r \<le> pct then feed_all r dt ks (f, done_log)
          else let amount = fmul (tr_rate r) dt
               in case transfer_fuel (tr_source r) k amount f of
                    (Inl e, f) \<Rightarrow> (Inl e, f, done_log)
                  | (Inr _, f) \<Rightarrow> feed_all r dt ks (f, done_log @ [(tr_source r, k, amount)]))"

fun apply_rules :: "rat \<Rightarrow> transfer_rule list \<Rightarrow> fuel_system \<times> transfer_log \<Rightarrow> unit pyres \<times> fuel_system \<times> transfer_log" where
  "apply_rules dt [] (f, done_log) = (Inr (), f, done_log)"
| "apply_rules dt (r # rs) (f, done_log) =
     (case pct_full f (tr_source r) of
        None \<Rightarrow> apply_rules dt rs (f, done_log)
      | Some pct \<Rightarrow>
          if pct < tr_min r then apply_rules dt rs (f, done_log)
          else case feed_all r dt (tr_feed r) (f, done_log) of
                 (Inl e, w) \<Rightarrow> (Inl e, w)
               | (Inr _, w) \<Rightarrow> apply_rules dt rs w)"

definition manager_update :: "rat \<Rightarrow> fuel_system \<Rightarrow> transfer_manager \<Rightarrow> unit pyres \<times> fuel_system \<times> transfer_manager" where
  "manager_update dt f m =
     (if dt \<le> 0 then (Inr (), f, m)
      else case apply_rules dt (tm_rules m) (f, tm_log m) of (r, f, done_log) \<Rightarrow> (r, f, m\<lparr>tm_log := done_log\<rparr>))"

definition balance_lateral :: "string \<Rightarrow> string \<Rightarrow> rat \<Rightarrow> rat \<Rightarrow> rat \<Rightarrow> fuel_system \<Rightarrow> unit pyres \<times> fuel_system" where
  "balance_lateral tank_a tank_b tolerance_pct rate dt f =
     (case (pct_full f tank_a, pct_full f tank_b) of
        (Some pct_a, Some pct_b) \<Rightarrow>
          (let imbalance = fsub pct_a pct_b; amount = fmul rate dt
           in if \<bar>imbalance\<bar> \<le> tolerance_pct then (Inr (), f)
              else if 0 < imbalance then transfer_fuel tank_a tank_b amount f
              else transfer_fuel tank_b tank_a amount f)
      | _ \<Rightarrow> (Inr (), f))"

section \<open>The management system\<close>

record fuel_management =
  fg_system :: fuel_system
  fg_monitor :: fuel_monitor
  fg_manager :: transfer_manager
  fg_failing_since :: "rat option"
  fg_last_error :: string

definition UPDATE_INTERVAL :: rat where "UPDATE_INTERVAL = fl (1 / 10)"

definition new_fuel_management :: fuel_management where
  "new_fuel_management = \<lparr>fg_system = no_fuel_system, fg_monitor = \<lparr>fm_last = [], fm_rates = [], fm_alerts = []\<rparr>,
     fg_manager = \<lparr>tm_rules = [], tm_log = []\<rparr>, fg_failing_since = None, fg_last_error = []\<rparr>"

definition setup_aircraft :: "fuel_system \<Rightarrow> fuel_system" where
  "setup_aircraft f =
     (let f = add_tank ''Main Left'' 10000 f; f = add_tank ''Main Right'' 10000 f; f = add_tank ''Center'' 20000 f;
          f = add_engine ''Engine 1'' 50000 f; f = add_engine ''Engine 2'' 50000 f;
          f = connect_tank_to_engine ''Main Left'' ''Engine 1'' 100 f; f = connect_tank_to_engine ''Main Right'' ''Engine 2'' 100 f;
          f = connect_tank_to_engine ''Center'' ''Engine 1'' 50 f
      in connect_tank_to_engine ''Center'' ''Engine 2'' 50 f)"

text \<open>The levels are read once, before the transfers.\<close>

definition feed_main :: "(string \<times> rat) list \<Rightarrow> string \<Rightarrow> fuel_system \<Rightarrow> unit pyres \<times> fuel_system" where
  "feed_main status tank f =
     (case map_of status tank of
        None \<Rightarrow> (Inl KeyError, f)
      | Some level \<Rightarrow> if level < 5000 then transfer_fuel ''Center'' tank 1000 f else (Inr (), f))"

definition perform_fuel_transfer :: "fuel_system \<Rightarrow> unit pyres \<times> fuel_system" where
  "perform_fuel_transfer f =
     (let status = get_fuel_status f
      in case map_of status ''Center'' of
           None \<Rightarrow> (Inl KeyError, f)
         | Some level \<Rightarrow>
             if \<not> 5000 < level then (Inr (), f)
             else case feed_main status ''Main Left'' f of
                    (Inl e, f) \<Rightarrow> (Inl e, f)
                  | (Inr _, f) \<Rightarrow> feed_main status ''Main Right'' f)"

text \<open>One pass of the worker; an exception keeps what was done before it. The check of low levels only logs.\<close>

definition pass_failed :: "(pyerr \<Rightarrow> string) \<Rightarrow> rat \<Rightarrow> pyerr \<Rightarrow> fuel_management \<Rightarrow> fuel_management" where
  "pass_failed text_of now e g =
     g\<lparr>fg_failing_since := (case fg_failing_since g of None \<Rightarrow> Some now | Some t \<Rightarrow> Some t), fg_last_error := text_of e\<rparr>"

definition fuel_pass :: "(pyerr \<Rightarrow> string) \<Rightarrow> rat \<Rightarrow> fuel_management \<Rightarrow> fuel_management" where
  "fuel_pass text_of now g =
     (case fuel_update UPDATE_INTERVAL (fg_system g) of
        (Inl e, f) \<Rightarrow> pass_failed text_of now e (g\<lparr>fg_system := f\<rparr>)
      | (Inr _, f) \<Rightarrow>
          (case perform_fuel_transfer f of
             (Inl e, f) \<Rightarrow> pass_failed text_of now e (g\<lparr>fg_system := f\<rparr>)
           | (Inr _, f) \<Rightarrow>
               (case manager_update UPDATE_INTERVAL f (fg_manager g) of
                  (r, f', m) \<Rightarrow>
                    (let g = g\<lparr>fg_system := f', fg_monitor := poll_fuel UPDATE_INTERVAL f (fg_monitor g), fg_manager := m\<rparr>
                     in case r of
                          Inl e \<Rightarrow> pass_failed text_of now e g
                        | Inr _ \<Rightarrow> g\<lparr>fg_failing_since := None, fg_last_error := []\<rparr>))))"

definition fuel_health_report :: "worker option \<Rightarrow> bool \<Rightarrow> rat \<Rightarrow> fuel_management \<Rightarrow> health_report" where
  "fuel_health_report thread stop_requested now g =
     worker_health ''FUEL'' thread stop_requested (fg_failing_since g) DEFAULT_FAILURE_GRACE_S (fg_last_error g) now"

section \<open>Levels\<close>

text \<open>A full tank may exceed its capacity by the rounding of the last refill.\<close>

definition tank_ok :: "fuel_tank \<Rightarrow> bool" where
  "tank_ok t \<longleftrightarrow> is_float (tk_capacity t) \<and> is_float (tk_level t) \<and> 0 \<le> tk_level t \<and> tk_level t \<le> tk_capacity t + tk_capacity t / 2 ^ 51 \<and>
     0 \<le> tk_capacity t"

lemma is_float_results [simp]: "is_float (fsub a b)" "is_float (fadd a b)" "is_float (fmul a b)" "is_float 0"
  by (simp_all add: fsub_def fadd_def fmul_def) (simp add: is_float_def)

lemma fsub_le: "is_float a \<Longrightarrow> 0 \<le> b \<Longrightarrow> fsub a b \<le> a"
  using fl_mono [of "a - b" a] by (simp add: fsub_def)

lemma fmul_nonneg: "0 \<le> a \<Longrightarrow> 0 \<le> b \<Longrightarrow> 0 \<le> fmul a b"
  by (simp add: fmul_def fl_nonneg)

lemma consume_ok:
  assumes "tank_ok t" "0 \<le> amount"
  shows "tank_ok (snd (consume amount t))" "0 \<le> fst (consume amount t)" "fst (consume amount t) \<le> amount"
    "tk_level (snd (consume amount t)) \<le> tk_level t" "tk_capacity (snd (consume amount t)) = tk_capacity t"
  using assms fsub_le [of "tk_level t" amount] fsub_nonneg [of amount "tk_level t"]
  by (auto simp: consume_def tank_ok_def intro: order_trans)

lemma refill_bound:
  assumes "0 \<le> l" "l \<le> c" "a \<le> fsub c l" "0 \<le> a"
  shows "fadd l a \<le> c + c / 2 ^ 51"
proof -
  have "\<bar>fsub c l - (c - l)\<bar> \<le> (c - l) / 2 ^ 53" using fl_err [of "c - l"] assms(2) by (simp add: fsub_def)
  also have "\<dots> \<le> c / 2 ^ 53" using assms(1) by (intro divide_right_mono) simp_all
  finally have s: "l + a \<le> c + c / 2 ^ 53" using assms(3) by linarith
  have "\<bar>fadd l a - (l + a)\<bar> \<le> (l + a) / 2 ^ 53" using fl_err [of "l + a"] assms by (simp add: fadd_def)
  also have "\<dots> \<le> (c + c / 2 ^ 53) / 2 ^ 53" using s by (intro divide_right_mono) simp_all
  finally have "fadd l a \<le> (c + c / 2 ^ 53) + (c + c / 2 ^ 53) / 2 ^ 53" using s by linarith
  also have "\<dots> \<le> c + c / 2 ^ 51" using assms(1,2) by simp
  finally show ?thesis .
qed

lemma refill_ok:
  assumes "tank_ok t" "0 \<le> amount"
  shows "tank_ok (snd (refill amount t))" "tk_capacity (snd (refill amount t)) = tk_capacity t"
proof -
  note t = assms(1) [unfolded tank_ok_def]
  show "tank_ok (snd (refill amount t))"
  proof (cases "fsub (tk_capacity t) (tk_level t) < amount")
    case False
    have "tk_level t \<le> tk_capacity t \<or> amount = 0"
      using False assms(2) fl_mono [of "tk_capacity t - tk_level t" 0] by (cases "tk_level t \<le> tk_capacity t") (auto simp: fsub_def)
    then have "fadd (tk_level t) amount \<le> tk_capacity t + tk_capacity t / 2 ^ 51"
      using refill_bound [of "tk_level t" "tk_capacity t" amount] False assms(2) t by (auto simp: fadd_def)
    moreover have "0 \<le> fadd (tk_level t) amount" using t assms(2) by (simp add: fadd_def fl_nonneg)
    ultimately show ?thesis using False t by (simp add: refill_def tank_ok_def)
  qed (use t in \<open>simp add: refill_def tank_ok_def\<close>)
  show "tk_capacity (snd (refill amount t)) = tk_capacity t" by (simp add: refill_def Let_def)
qed

definition tanks_ok :: "fuel_system \<Rightarrow> bool" where "tanks_ok f \<longleftrightarrow> list_all (\<lambda>(k, t). tank_ok t) (fs_tanks f)"

definition engines_ok :: "fuel_system \<Rightarrow> bool" where
  "engines_ok f \<longleftrightarrow> list_all (\<lambda>(k, e). 0 \<le> en_max e \<and> 0 \<le> en_rate e) (fs_engines f)"

lemma tanks_ok_put: "tanks_ok f \<Longrightarrow> tank_ok t \<Longrightarrow> tanks_ok (put_tank k t f)"
  by (simp add: tanks_ok_def put_tank_def list_all_dict_set)

lemma tanks_ok_get: "tanks_ok f \<Longrightarrow> map_of (fs_tanks f) k = Some t \<Longrightarrow> tank_ok t"
  by (auto simp: tanks_ok_def list_all_iff dest: map_of_SomeD)

lemma engines_ok_get: "engines_ok f \<Longrightarrow> map_of (fs_engines f) k = Some e \<Longrightarrow> 0 \<le> en_max e \<and> 0 \<le> en_rate e"
  by (auto simp: engines_ok_def list_all_iff dest: map_of_SomeD)

lemma put_tank_rest [simp]:
  "fs_engines (put_tank k t f) = fs_engines f" "fs_lines (put_tank k t f) = fs_lines f" "engines_ok (put_tank k t f) = engines_ok f"
  "map_of (fs_tanks (put_tank k t f)) j = (if k = j then Some t else map_of (fs_tanks f) j)" "lines_of (put_tank k t f) = lines_of f"
  by (simp_all add: put_tank_def engines_ok_def map_of_dict_set lines_of_def fun_eq_iff)

lemma transfer_ok:
  "tanks_ok f \<Longrightarrow> 0 \<le> amount \<Longrightarrow> tanks_ok (snd (transfer_fuel a b amount f)) \<and> engines_ok (snd (transfer_fuel a b amount f)) = engines_ok f"
  by (auto simp: transfer_fuel_def Let_def split: option.split prod.split intro!: tanks_ok_put)
    (metis consume_ok(1) fst_conv snd_conv tanks_ok_get refill_ok(1) consume_ok(2) tanks_ok_put put_tank_rest(4))+

lemma burn_ok:
  "tanks_ok f \<Longrightarrow> engines_ok f \<Longrightarrow> 0 \<le> dt \<Longrightarrow> tanks_ok (snd (burn dt k es f)) \<and> engines_ok (snd (burn dt k es f))"
proof (induction es arbitrary: f)
  case (Cons e es)
  have "tanks_ok (put_tank k (snd (consume (fmul (en_rate en) dt) t)) f)"
    if "map_of (fs_engines f) e = Some en" "map_of (fs_tanks f) k = Some t" for en t
    using Cons.prems that by (intro tanks_ok_put consume_ok(1) fmul_nonneg) (auto dest: tanks_ok_get engines_ok_get)
  then show ?case using Cons by (auto split: option.split)
qed simp

lemma burn_all_ok:
  "tanks_ok f \<Longrightarrow> engines_ok f \<Longrightarrow> 0 \<le> dt \<Longrightarrow> tanks_ok (snd (burn_all dt ks f)) \<and> engines_ok (snd (burn_all dt ks f))"
proof (induction ks arbitrary: f)
  case (Cons k ks)
  obtain r f' where b: "burn dt k (lines_of f k) f = (r, f')" by (rule prod.exhaust)
  then have "tanks_ok f'" "engines_ok f'" using burn_ok [OF Cons.prems, of k "lines_of f k"] by simp_all
  then show ?case using Cons.IH [of f'] Cons.prems(3) b by (simp split: sum.split)
qed simp

lemma fuel_update_ok:
  "tanks_ok f \<Longrightarrow> engines_ok f \<Longrightarrow> 0 \<le> dt \<Longrightarrow> tanks_ok (snd (fuel_update dt f)) \<and> engines_ok (snd (fuel_update dt f))"
  by (simp add: fuel_update_def burn_all_ok)

lemma feed_main_ok:
  "tanks_ok f \<Longrightarrow> tanks_ok (snd (feed_main status k f)) \<and> engines_ok (snd (feed_main status k f)) = engines_ok f"
  using transfer_ok [of f 1000] by (simp add: feed_main_def split: option.split)

lemma perform_ok:
  "tanks_ok f \<Longrightarrow> tanks_ok (snd (perform_fuel_transfer f)) \<and> engines_ok (snd (perform_fuel_transfer f)) = engines_ok f"
proof -
  assume f: "tanks_ok f"
  obtain r f' where 1: "feed_main (get_fuel_status f) ''Main Left'' f = (r, f')" by (rule prod.exhaust)
  then have "tanks_ok f'" "engines_ok f' = engines_ok f" using feed_main_ok [OF f, of "get_fuel_status f" "''Main Left''"] by simp_all
  then show ?thesis
    using f feed_main_ok [of f' "get_fuel_status f" "''Main Right''"] 1 by (simp add: perform_fuel_transfer_def Let_def split: option.split sum.split)
qed

lemma feed_all_ok:
  "tanks_ok f \<Longrightarrow> 0 \<le> tr_rate r \<Longrightarrow> 0 \<le> dt \<Longrightarrow> feed_all r dt ks (f, lg) = (x, f', lg') \<Longrightarrow> tanks_ok f' \<and> engines_ok f' = engines_ok f"
proof (induction ks arbitrary: f lg)
  case (Cons k ks)
  obtain y f1 where 1: "transfer_fuel (tr_source r) k (fmul (tr_rate r) dt) f = (y, f1)" by (rule prod.exhaust)
  then have "tanks_ok f1" "engines_ok f1 = engines_ok f"
    using transfer_ok [OF Cons.prems(1) fmul_nonneg [OF Cons.prems(2,3)], of "tr_source r" k] by simp_all
  then show ?case using Cons 1 by (auto simp: Let_def split: option.splits if_splits sum.splits)
qed simp

lemma apply_rules_ok:
  "tanks_ok f \<Longrightarrow> \<forall>r\<in>set rs. 0 \<le> tr_rate r \<Longrightarrow> 0 \<le> dt \<Longrightarrow> apply_rules dt rs (f, lg) = (x, f', lg') \<Longrightarrow>
   tanks_ok f' \<and> engines_ok f' = engines_ok f"
proof (induction rs arbitrary: f lg)
  case (Cons r rs)
  obtain y f1 lg1 where 1: "feed_all r dt (tr_feed r) (f, lg) = (y, f1, lg1)" by (metis prod.exhaust)
  then have "tanks_ok f1" "engines_ok f1 = engines_ok f" using feed_all_ok [OF Cons.prems(1) _ Cons.prems(3) 1] Cons.prems(2) by auto
  then show ?case using Cons 1 by (auto split: option.splits if_splits sum.splits)
qed simp

definition fuel_ok :: "fuel_management \<Rightarrow> bool" where
  "fuel_ok g \<longleftrightarrow> tanks_ok (fg_system g) \<and> engines_ok (fg_system g) \<and> (\<forall>r\<in>set (tm_rules (fg_manager g)). 0 \<le> tr_rate r)"

lemma interval: "0 \<le> UPDATE_INTERVAL" "0 < UPDATE_INTERVAL" "\<bar>UPDATE_INTERVAL - 1 / 10\<bar> \<le> 1 / 2 ^ 50"
  using fl_err [of "1 / 10"] fl_pos [of "1 / 10"] by (simp_all add: UPDATE_INTERVAL_def)

lemma fuel_pass_ok: "fuel_ok g \<Longrightarrow> fuel_ok (fuel_pass text_of now g)"
proof -
  assume g: "fuel_ok g"
  obtain r1 f1 where 1: "fuel_update UPDATE_INTERVAL (fg_system g) = (r1, f1)" by (rule prod.exhaust)
  obtain r2 f2 where 2: "perform_fuel_transfer f1 = (r2, f2)" by (rule prod.exhaust)
  obtain r3 f3 lg where 3: "apply_rules UPDATE_INTERVAL (tm_rules (fg_manager g)) (f2, tm_log (fg_manager g)) = (r3, f3, lg)"
    by (metis prod.exhaust)
  have f1: "tanks_ok f1" "engines_ok f1"
    using fuel_update_ok [of "fg_system g" UPDATE_INTERVAL] g interval(1) by (simp_all add: fuel_ok_def 1)
  then have f2: "tanks_ok f2" "engines_ok f2" using perform_ok [OF f1(1)] by (simp_all add: 2)
  have "tanks_ok f3 \<and> engines_ok f3" using apply_rules_ok [OF f2(1) _ interval(1) 3] f2 g by (simp add: fuel_ok_def)
  then show ?thesis
    using g f1 f2 interval(2) by (simp add: fuel_pass_def 1 2 3 manager_update_def pass_failed_def fuel_ok_def Let_def split: sum.split)
qed

text \<open>A message whose numbers are not negative.\<close>

definition sensible :: "pydict \<Rightarrow> bool" where
  "sensible d \<longleftrightarrow> (\<forall>k q. map_of d k \<noteq> None \<longrightarrow> py_num (the (map_of d k)) = Some q \<longrightarrow> 0 \<le> q)"

lemma set_engine_thrust_ok:
  "engines_ok f \<Longrightarrow> 0 \<le> p \<Longrightarrow> engines_ok (set_engine_thrust n p f) \<and> fs_tanks (set_engine_thrust n p f) = fs_tanks f"
proof -
  assume f: "engines_ok f" and p: "0 \<le> p"
  have "0 \<le> fdiv p 100" using p by (simp add: fdiv_def fl_nonneg)
  then have "0 \<le> en_rate (set_thrust p e) \<and> 0 \<le> en_max (set_thrust p e)" if "0 \<le> en_max e" for e
    using that by (simp add: set_thrust_def Let_def fmul_nonneg fl_nonneg)
  then show ?thesis using f engines_ok_get [OF f] by (auto simp: set_engine_thrust_def engines_ok_def split: option.split intro!: list_all_dict_set)
qed

lemma fuel_message_ok:
  assumes "tanks_ok f" "engines_ok f" "sensible d"
  shows "tanks_ok (snd (fuel_receive_message d f)) \<and> engines_ok (snd (fuel_receive_message d f))"
proof -
  have q: "0 \<le> q" if "map_of d k = Some v" "py_num v = Some q" for k v q using assms(3) that unfolding sensible_def by (metis option.sel option.distinct(1))
  have "tanks_ok (snd (receive_thrust d f)) \<and> engines_ok (snd (receive_thrust d f))"
    if "has_key d ''engine_thrust''"
    using that assms(1,2) set_engine_thrust_ok [OF assms(2)] q
    by (auto simp: receive_thrust_def has_key_def dict_get_def tanks_ok_def split: option.split sum.split)
  moreover have "tanks_ok (snd (receive_transfer d f)) \<and> engines_ok (snd (receive_transfer d f))"
    using assms(1,2) transfer_ok [OF assms(1)] q tanks_ok_put consume_ok(1) tanks_ok_get
    by (auto simp: receive_transfer_def split: option.split sum.split)
  ultimately show ?thesis using assms by (simp add: fuel_receive_message_def)
qed

section \<open>The fuel of the aircraft\<close>

text \<open>The system of the aircraft with given levels and engines.\<close>

definition aircraft :: "rat \<Rightarrow> rat \<Rightarrow> rat \<Rightarrow> engine \<Rightarrow> engine \<Rightarrow> fuel_system" where
  "aircraft l r c e1 e2 =
     \<lparr>fs_tanks = [(''Main Left'', \<lparr>tk_capacity = 10000, tk_level = l\<rparr>), (''Main Right'', \<lparr>tk_capacity = 10000, tk_level = r\<rparr>),
        (''Center'', \<lparr>tk_capacity = 20000, tk_level = c\<rparr>)],
      fs_engines = [(''Engine 1'', e1), (''Engine 2'', e2)],
      fs_lines = [(''Main Left'', [''Engine 1'']), (''Main Right'', [''Engine 2'']), (''Center'', [''Engine 1'', ''Engine 2''])],
      fs_rates = [((''Main Left'', ''Engine 1''), 100), ((''Main Right'', ''Engine 2''), 100), ((''Center'', ''Engine 1''), 50),
        ((''Center'', ''Engine 2''), 50)]\<rparr>"

lemma setup_is_aircraft: "setup_aircraft no_fuel_system = aircraft 10000 10000 20000 (new_engine 50000) (new_engine 50000)"
  by (simp add: setup_aircraft_def no_fuel_system_def aircraft_def add_tank_def add_engine_def connect_tank_to_engine_def lines_of_def
      dict_set_def new_tank_def Let_def)

lemma is_float_of_int: "\<bar>n\<bar> \<le> 2 ^ 53 \<Longrightarrow> is_float (of_int n)"
  by (simp add: is_float_def fl_of_int)

lemma small_floats [simp]: "is_float 1000" "is_float 5000" "is_float 10000" "is_float 20000" "is_float 50000"
  using is_float_of_int [of 1000] is_float_of_int [of 5000] is_float_of_int [of 10000] is_float_of_int [of 20000] is_float_of_int [of 50000]
  by simp_all

lemma fuel_ok_setup:
  "fuel_ok (new_fuel_management\<lparr>fg_system := setup_aircraft no_fuel_system\<rparr>)"
  by (simp add: setup_is_aircraft fuel_ok_def tanks_ok_def engines_ok_def aircraft_def tank_ok_def new_engine_def new_fuel_management_def)

text \<open>What is left in a tank after consumption.\<close>

definition left_over :: "rat \<Rightarrow> rat \<Rightarrow> rat" where "left_over l a = (if l < a then 0 else fsub l a)"

lemma consume_left: "snd (consume a t) = t\<lparr>tk_level := left_over (tk_level t) a\<rparr>"
  by (simp add: consume_def left_over_def)

lemma aircraft_update:
  "fuel_update dt (aircraft l r c e1 e2) = (Inr (), aircraft (left_over l (fmul (en_rate e1) dt)) (left_over r (fmul (en_rate e2) dt))
     (left_over (left_over c (fmul (en_rate e1) dt)) (fmul (en_rate e2) dt)) e1 e2)"
  by (simp add: fuel_update_def aircraft_def lines_of_def put_tank_def consume_left dict_set_def)

definition topped_up :: "rat \<Rightarrow> rat \<Rightarrow> rat" where
  "topped_up l a = (if fsub 10000 l < a then 10000 else fadd l a)"

lemma aircraft_transfer:
  "perform_fuel_transfer (aircraft l r c e1 e2) = (Inr (),
     if \<not> 5000 < c then aircraft l r c e1 e2
     else let c1 = (if l < 5000 then left_over c 1000 else c)
          in aircraft (if l < 5000 then topped_up l (min c 1000) else l) (if r < 5000 then topped_up r (min c1 1000) else r)
               (if r < 5000 then left_over c1 1000 else c1) e1 e2)"
  by (simp add: perform_fuel_transfer_def get_fuel_status_def aircraft_def feed_main_def transfer_fuel_def consume_def refill_def
      put_tank_def dict_set_def left_over_def topped_up_def Let_def min_def)

text \<open>Rounding of quantities below a thousand million.\<close>

lemma fl_close: "x \<le> 1000000000 \<Longrightarrow> - x \<le> 1000000000 \<Longrightarrow> fl x - x \<le> 1 / 1000 \<and> x - fl x \<le> 1 / 1000"
proof -
  assume "x \<le> 1000000000" "- x \<le> 1000000000"
  then have "\<bar>x\<bar> \<le> 1000000000" by simp
  then have "\<bar>fl x - x\<bar> \<le> 1 / 1000" using fl_err [of x] divide_right_mono [of "\<bar>x\<bar>" 1000000000 "2 ^ 53"] by simp
  then show ?thesis unfolding abs_le_iff by linarith
qed

lemma fl_numerals [simp]: "fl 3000 = 3000" "fl 4000 = 4000" "fl 5000 = 5000" "fl 6000 = 6000"
  using fl_of_int [of 3000] fl_of_int [of 4000] fl_of_int [of 5000] fl_of_int [of 6000] by simp_all

lemma reserve: "5000 < c \<Longrightarrow> 4000 \<le> left_over c 1000" "4000 \<le> c \<Longrightarrow> 3000 \<le> left_over c 1000"
  using fl_mono [of 4000 "c - 1000"] fl_mono [of 3000 "c - 1000"] by (simp_all add: left_over_def fsub_def)

lemma topped_up_main: "l < 5000 \<Longrightarrow> topped_up l 1000 = fadd l 1000 \<and> fadd l 1000 \<le> 6000"
  using fl_mono [of 5000 "10000 - l"] fl_mono [of "l + 1000" 6000] by (auto simp: topped_up_def fsub_def fadd_def)

text \<open>A transfer, which needs the center tank above 5000 and a main tank below, takes at least 1000.\<close>

lemma transfer_takes:
  assumes "5000 < c" "l < 5000 \<or> r < 5000"
  shows "\<exists>l' r' c'. perform_fuel_transfer (aircraft l r c e1 e2) = (Inr (), aircraft l' r' c' e1 e2) \<and> 0 \<le> c' \<and> c' \<le> fsub c 1000"
proof -
  define c1 where "c1 = (if l < 5000 then left_over c 1000 else c)"
  define c2 where "c2 = (if r < 5000 then left_over c1 1000 else c1)"
  have o: "left_over c 1000 = fsub c 1000" "4000 \<le> fsub c 1000"
    using assms(1) reserve(1) [of c] by (auto simp: left_over_def)
  have "0 \<le> c2 \<and> c2 \<le> fsub c 1000"
  proof (cases "l < 5000")
    case True
    then have "left_over c1 1000 \<le> c1" "3000 \<le> left_over c1 1000"
      using fsub_le [of c1 1000] reserve(2) [of c1] o by (simp_all add: c1_def left_over_def fsub_def)
    with True o show ?thesis by (auto simp: c2_def c1_def)
  next
    case False
    with assms(2) o show ?thesis by (simp add: c2_def c1_def)
  qed
  moreover have "\<exists>l' r'. perform_fuel_transfer (aircraft l r c e1 e2) = (Inr (), aircraft l' r' c2 e1 e2)"
    using assms(1) by (auto simp: aircraft_transfer Let_def c2_def c1_def)
  ultimately show ?thesis by blast
qed

lemma capacity_aircraft: "capacity_of (aircraft l r c e1 e2) ''Center'' = 20000"
  by (simp add: capacity_of_def aircraft_def)

lemma status_aircraft: "get_fuel_status (aircraft l r c e1 e2) = [(''Main Left'', l), (''Main Right'', r), (''Center'', c)]"
  by (simp add: get_fuel_status_def aircraft_def)

lemma check_level_grows: "set (fm_alerts m) \<subseteq> set (fm_alerts (check_level f k l m))" "fm_last (check_level f k l m) = fm_last m"
  by (auto simp: check_level_def raise_alert_def Let_def)

lemma check_drop_last: "fm_last (check_drop dt f k l m) = fm_last m"
  by (auto simp: check_drop_def raise_alert_def Let_def split: option.split)

lemma sample_tank_last: "fm_last (sample_tank dt f (k, l) m) = dict_set k l (fm_last m)"
  by (simp add: sample_tank_def Let_def check_level_grows(2) check_drop_last)

lemma center_alarm:
  assumes "map_of (fm_last m) ''Center'' = Some previous" "capacity_of f ''Center'' = 20000"
    "fadd (expected_consumption f ''Center'' dt) (fmul 20000 LEAK_UNEXPLAINED_DROP_FRACTION) < fsub previous l"
  shows "(''Center'', ''LEAK_SUSPECTED'') \<in> set (fm_alerts (sample_tank dt f (''Center'', l) m))"
proof -
  have "(''Center'', ''LEAK_SUSPECTED'') \<in> set (fm_alerts (check_drop dt f ''Center'' l m))"
    using assms by (simp add: check_drop_def raise_alert_def Let_def)
  then show ?thesis using check_level_grows(1) by (fastforce simp: sample_tank_def Let_def)
qed

text \<open>
  The drop of the center tank in a pass with a transfer, against the engines' share: both with the rounding of every
  operation.
\<close>

lemma center_drop:
  assumes "0 \<le> p" "0 \<le> q" "c \<le> previous" "5000 < left_over (left_over c p) q" "previous \<le> 20001" "0 \<le> c'"
    "c' \<le> fsub (left_over (left_over c p) q) 1000"
  shows "p + q + 600 \<le> fsub previous c'" "p + q \<le> 20001"
proof -
  define c1 where "c1 = left_over c p"
  define c2 where "c2 = left_over c1 q"
  have h: "5000 < left_over c1 q" using assms(4) by (simp add: c1_def)
  then have q: "\<not> c1 < q" "c2 = fsub c1 q" by (auto simp: c2_def left_over_def split: if_splits)
  have p: "\<not> c < p"
  proof
    assume "c < p"
    then have "c1 = 0" by (simp add: c1_def left_over_def)
    with h assms(2) show False by (auto simp: left_over_def fsub_def split: if_splits)
  qed
  then have c1: "c1 = fsub c p" by (simp add: c1_def left_over_def)
  have "c1 - (c - p) \<le> 1 / 1000" "c - p - c1 \<le> 1 / 1000"
    using fl_close [of "c - p"] assms(1,3,5) p unfolding c1 fsub_def by linarith+
  moreover from this have "c2 - (c1 - q) \<le> 1 / 1000" "c1 - q - c2 \<le> 1 / 1000"
    using fl_close [of "c1 - q"] assms(1-3,5) p q(1) unfolding q(2) fsub_def by linarith+
  moreover have high: "5000 < c2" using assms(4) by (simp add: c2_def c1_def)
  moreover have "fsub c2 1000 - (c2 - 1000) \<le> 1 / 1000"
    using fl_close [of "c2 - 1000"] calculation assms(1-3,5) unfolding fsub_def by linarith
  moreover have low: "c' \<le> fsub c2 1000" using assms(7) by (simp add: c2_def c1_def)
  moreover have "previous - c' - fsub previous c' \<le> 1 / 1000"
    using fl_close [of "previous - c'"] calculation assms(1-3,5,6) unfolding fsub_def [of previous c'] by linarith
  ultimately show "p + q + 600 \<le> fsub previous c'" "p + q \<le> 20001" using assms(1-3,5) by linarith+
qed

lemma explained_drop:
  assumes "0 \<le> p" "0 \<le> q" "p + q \<le> 20001"
  shows "fadd (fadd (fadd 0 p) q) (fmul 20000 LEAK_UNEXPLAINED_DROP_FRACTION) < p + q + 600"
proof -
  define u where "u = fadd 0 p"
  define v where "v = fadd u q"
  define w where "w = fmul 20000 LEAK_UNEXPLAINED_DROP_FRACTION"
  have u: "u - p \<le> 1 / 1000" "p - u \<le> 1 / 1000" using fl_close [of p] assms unfolding u_def fadd_def by simp_all
  have v: "v - (p + q) \<le> 2 / 1000" "p + q - v \<le> 2 / 1000"
    using fl_close [of "u + q"] u assms unfolding v_def fadd_def by linarith+
  have "\<bar>fl (2 / 100) - 2 / 100\<bar> \<le> 1 / 10 ^ 10" using fl_err [of "2 / 100"] by simp
  then have two: "1 / 100 \<le> LEAK_UNEXPLAINED_DROP_FRACTION" "20000 * LEAK_UNEXPLAINED_DROP_FRACTION \<le> 401"
    unfolding abs_le_iff LEAK_UNEXPLAINED_DROP_FRACTION_def by simp_all
  have w: "w - 401 \<le> 1 / 100" "0 \<le> w"
    using fl_close [of "20000 * LEAK_UNEXPLAINED_DROP_FRACTION"] two unfolding w_def fmul_def by linarith+
  have "fadd v w - (v + w) \<le> 1 / 1000" using fl_close [of "v + w"] v w assms unfolding fadd_def by linarith
  then have "fadd v w < p + q + 600" using v w by linarith
  then show ?thesis by (simp only: u_def v_def w_def)
qed

lemma negative_rate:
  assumes "p \<le> - 10"
  shows "fmul (en_rate (set_thrust p (new_engine 50000))) UPDATE_INTERVAL \<le> - 36"
proof -
  have "\<bar>fl (- 1 / 10) - (- 1 / 10)\<bar> \<le> 1 / 1000" using fl_err [of "- 1 / 10"] by simp
  then have "fl (- 1 / 10) \<le> - 9 / 100" unfolding abs_le_iff by simp
  moreover have "fdiv p 100 \<le> fl (- 1 / 10)" using assms unfolding fdiv_def by (intro fl_mono) simp
  ultimately have "fmul 50000 (fdiv p 100) \<le> fl (of_int (- 4500))" unfolding fmul_def by (intro fl_mono) simp
  then have t: "fmul 50000 (fdiv p 100) \<le> - 4500" using fl_of_int [of "- 4500"] by simp
  have "\<bar>fl (1 / 10) - 1 / 10\<bar> \<le> 1 / 1000" using fl_err [of "1 / 10"] by simp
  then have g: "9 / 100 \<le> fl (1 / 10)" unfolding abs_le_iff by simp
  have "fmul 50000 (fdiv p 100) * fl (1 / 10) \<le> - 4500 * (9 / 100)" using mult_mono' [of 4500 "- fmul 50000 (fdiv p 100)" "9 / 100" "fl (1 / 10)"] t g by simp
  then have "fmul (fmul 50000 (fdiv p 100)) (fl (1 / 10)) \<le> fl (of_int (- 405))" unfolding fmul_def [of _ "fl (1 / 10)"] by (intro fl_mono) simp
  then have r: "en_rate (set_thrust p (new_engine 50000)) \<le> - 405" using fl_of_int [of "- 405"] by (simp add: set_thrust_def new_engine_def Let_def)
  have "en_rate (set_thrust p (new_engine 50000)) * UPDATE_INTERVAL \<le> - 405 * (9 / 100)"
    using mult_mono' [of 405 "- en_rate (set_thrust p (new_engine 50000))" "9 / 100" "fl (1 / 10)"] r g by (simp add: UPDATE_INTERVAL_def)
  then have "fmul (en_rate (set_thrust p (new_engine 50000))) UPDATE_INTERVAL \<le> fl (of_int (- 36))" unfolding fmul_def by (intro fl_mono) simp
  then show ?thesis using fl_of_int [of "- 36"] by simp
qed

section \<open>Properties\<close>

text \<open>
  C24. The levels stay sound: a pass of the worker, whatever fails in it, and every message whose numbers are not negative
  keep each tank between empty and its capacity, up to the rounding of a refill, and every engine at a rate that is not
  negative.
\<close>

theorem fuel_levels_sound:
  assumes "fuel_ok g" "sensible d"
  shows "fuel_ok (fuel_pass text_of now g) \<and> fuel_ok (g\<lparr>fg_system := snd (fuel_receive_message d (fg_system g))\<rparr>)"
  using fuel_pass_ok [OF assms(1)] fuel_message_ok [of "fg_system g" d] assms by (simp add: fuel_ok_def)

theorem fuel_levels_sound_witness:
  "fuel_ok (fuel_pass (\<lambda>_. []) 0 (new_fuel_management\<lparr>fg_system := setup_aircraft no_fuel_system\<rparr>))"
  by (rule fuel_levels_sound [OF fuel_ok_setup, of "[(''engine_thrust'', PFloat 50)]", THEN conjunct1]) (simp add: sensible_def)

text \<open>
  The automatic balancing keeps a reserve and loses nothing: it feeds only from a center tank above 5000, leaves at
  least 3000 in it, and each main tank below 5000 receives the whole 1000 that is taken and stays at or below 6000.
\<close>

theorem balancing_keeps_reserve:
  "\<exists>l' r' c'. perform_fuel_transfer (aircraft l r c e1 e2) = (Inr (), aircraft l' r' c' e1 e2) \<and>
     (if 5000 < c then
        3000 \<le> c' \<and> (if l < 5000 then l' = fadd l 1000 \<and> l' \<le> 6000 else l' = l) \<and> (if r < 5000 then r' = fadd r 1000 \<and> r' \<le> 6000 else r' = r)
      else l' = l \<and> r' = r \<and> c' = c)"
proof (cases "5000 < c")
  case True
  define c1 where "c1 = (if l < 5000 then left_over c 1000 else c)"
  have c1: "4000 \<le> c1" using True reserve(1) [of c] by (simp add: c1_def)
  have "perform_fuel_transfer (aircraft l r c e1 e2) = (Inr (), aircraft (if l < 5000 then fadd l 1000 else l)
      (if r < 5000 then fadd r 1000 else r) (if r < 5000 then left_over c1 1000 else c1) e1 e2)"
    using True c1 topped_up_main by (simp add: aircraft_transfer min_def flip: c1_def)
  moreover have "3000 \<le> (if r < 5000 then left_over c1 1000 else c1)" using reserve(2) [OF c1] c1 by simp
  ultimately show ?thesis using True topped_up_main by auto
next
  case False
  then show ?thesis by (intro exI [of _ l] exI [of _ r] exI [of _ c]) (simp add: aircraft_transfer)
qed

text \<open>
  C25. Every automatic transfer of the aircraft's fuel system raises the alarm for a leak: whatever the levels, when the
  center tank is above 5000 and either main tank below 5000 after the engines' share, at rates that are not negative and
  with nothing added to the center tank since the last sample. The monitor explains the drop of a tank by the engines alone, but the pass that samples the
  tanks has just taken at least 1000 from the center tank, which is more than the margin of 400: the alarm is raised
  however much the engines burn and whatever the transfer manager does after the sample.
\<close>

theorem automatic_transfer_raises_leak_alarm:
  assumes "fg_system g = aircraft l r c e1 e2" "0 \<le> en_rate e1" "0 \<le> en_rate e2"
    "map_of (fm_last (fg_monitor g)) ''Center'' = Some previous" "c \<le> previous" "previous \<le> 20001"
    "fuel_update UPDATE_INTERVAL (fg_system g) = (Inr (), aircraft l1 r1 c1 e1 e2)" "5000 < c1" "l1 < 5000 \<or> r1 < 5000"
  shows "(''Center'', ''LEAK_SUSPECTED'') \<in> set (fm_alerts (fg_monitor (fuel_pass text_of now g)))"
proof -
  define p where "p = fmul (en_rate e1) UPDATE_INTERVAL"
  define q where "q = fmul (en_rate e2) UPDATE_INTERVAL"
  have pq: "0 \<le> p" "0 \<le> q" using assms(2,3) interval(1) by (simp_all add: p_def q_def fmul_nonneg)
  have c1: "c1 = left_over (left_over c p) q"
    using assms(7) unfolding assms(1) aircraft_update by (simp add: aircraft_def p_def q_def)
  obtain l' r' c' where t: "perform_fuel_transfer (aircraft l1 r1 c1 e1 e2) = (Inr (), aircraft l' r' c' e1 e2)"
    and low: "c' \<le> fsub c1 1000" "0 \<le> c'" using transfer_takes [OF assms(8,9)] by blast
  have d: "p + q + 600 \<le> fsub previous c'" "p + q \<le> 20001"
    using center_drop [OF pq assms(5) _ assms(6) low(2)] low(1) assms(8) by (simp_all add: c1)
  have e: "expected_consumption (aircraft l' r' c' e1 e2) ''Center'' UPDATE_INTERVAL = fadd (fadd 0 p) q"
    by (simp add: expected_consumption_def aircraft_def lines_of_def p_def q_def)
  have alarm: "fadd (fadd (fadd 0 p) q) (fmul 20000 LEAK_UNEXPLAINED_DROP_FRACTION) < fsub previous c'"
    using explained_drop [OF pq d(2)] d(1) by linarith
  have "(''Center'', ''LEAK_SUSPECTED'') \<in> set (fm_alerts (poll_fuel UPDATE_INTERVAL (aircraft l' r' c' e1 e2) (fg_monitor g)))"
    using alarm assms(4) e interval(2) center_alarm [of _ previous "aircraft l' r' c' e1 e2" UPDATE_INTERVAL c']
    by (simp add: poll_fuel_def status_aircraft capacity_aircraft sample_tank_last map_of_dict_set)
  then show ?thesis
    using assms(7) t by (simp add: fuel_pass_def pass_failed_def Let_def split: prod.split sum.split)
qed

text \<open>The center tank at 8000, sampled before, and the main tanks at given levels.\<close>

definition sampled_aircraft :: "rat \<Rightarrow> rat \<Rightarrow> fuel_management" where
  "sampled_aircraft l r = new_fuel_management\<lparr>fg_system := aircraft l r 8000 (new_engine 50000) (new_engine 50000),
     fg_monitor := \<lparr>fm_last = [(''Center'', 8000)], fm_rates = [], fm_alerts = []\<rparr>\<rparr>"

theorem automatic_transfer_raises_leak_alarm_witness:
  "(''Center'', ''LEAK_SUSPECTED'') \<in> set (fm_alerts (fg_monitor (fuel_pass (\<lambda>_. []) 0 (sampled_aircraft 4000 4000)))) \<and>
   (''Center'', ''LEAK_SUSPECTED'') \<in> set (fm_alerts (fg_monitor (fuel_pass (\<lambda>_. []) 0 (sampled_aircraft 9000 4000))))"
proof -
  have keep: "left_over 4000 0 = 4000" "left_over 8000 0 = 8000" "left_over 9000 0 = 9000"
    using fl_of_int [of 4000] fl_of_int [of 8000] fl_of_int [of 9000] by (simp_all add: left_over_def fsub_def)
  have u: "fuel_update UPDATE_INTERVAL (aircraft l r 8000 (new_engine 50000) (new_engine 50000)) =
      (Inr (), aircraft l r 8000 (new_engine 50000) (new_engine 50000))" if "l \<in> {4000, 9000}" "r = 4000" for l r
    using that by (auto simp: aircraft_update new_engine_def fmul_def keep)
  then show ?thesis
    by (auto simp: sampled_aircraft_def new_fuel_management_def new_engine_def
        intro!: automatic_transfer_raises_leak_alarm [where ?e1.0 = "new_engine 50000" and ?e2.0 = "new_engine 50000" and previous = 8000])
qed

text \<open>
  A transfer can lose fuel. The source is drained first: what the destination has no room for is gone although the
  transfer is reported done, and a destination that does not exist is noticed only when the source has been drained.
\<close>

theorem transfer_loses_fuel:
  assumes "map_of (fs_tanks f) a = Some t" "amount \<le> tk_level t" "a \<noteq> b"
    "\<And>u. map_of (fs_tanks f) b = Some u \<Longrightarrow> fsub (tk_capacity u) (tk_level u) < amount"
  shows "\<exists>r f'. transfer_fuel a b amount f = (r, f') \<and> map_of (fs_tanks f') a = Some (t\<lparr>tk_level := fsub (tk_level t) amount\<rparr>) \<and>
     (case map_of (fs_tanks f) b of None \<Rightarrow> r = Inl KeyError
      | Some u \<Rightarrow> r = Inr () \<and> map_of (fs_tanks f') b = Some (u\<lparr>tk_level := tk_capacity u\<rparr>))"
  using assms by (cases "map_of (fs_tanks f) b") (simp_all add: transfer_fuel_def consume_def refill_def)

theorem transfer_loses_fuel_witness:
  "(\<exists>r f'. transfer_fuel ''Center'' ''Main Left'' 1000 (aircraft 10000 10000 20000 (new_engine 0) (new_engine 0)) = (r, f') \<and>
     map_of (fs_tanks f') ''Center'' = Some \<lparr>tk_capacity = 20000, tk_level = fsub 20000 1000\<rparr> \<and> r = Inr () \<and>
     map_of (fs_tanks f') ''Main Left'' = Some \<lparr>tk_capacity = 10000, tk_level = 10000\<rparr>) \<and>
   (\<exists>f'. transfer_fuel ''Center'' ''Aft'' 1000 (aircraft 10000 10000 20000 (new_engine 0) (new_engine 0)) = (Inl KeyError, f') \<and>
     map_of (fs_tanks f') ''Center'' = Some \<lparr>tk_capacity = 20000, tk_level = fsub 20000 1000\<rparr>)"
proof -
  define f where "f = aircraft 10000 10000 20000 (new_engine 0) (new_engine 0)"
  have t: "map_of (fs_tanks f) ''Center'' = Some \<lparr>tk_capacity = 20000, tk_level = 20000\<rparr>"
    "map_of (fs_tanks f) ''Main Left'' = Some \<lparr>tk_capacity = 10000, tk_level = 10000\<rparr>" "map_of (fs_tanks f) ''Aft'' = None"
    by (simp_all add: f_def aircraft_def)
  have "fsub 10000 10000 < (1000 :: rat)" by (simp add: fsub_def)
  then show ?thesis
    using transfer_loses_fuel [OF t(1), of 1000 "''Main Left''"] transfer_loses_fuel [OF t(1), of 1000 "''Aft''"] t(2,3)
    by (simp add: flip: f_def)
qed

text \<open>
  Each engine burns its full rate from every tank it is connected to: an update takes the consumption of an engine once
  from its main tank and once more from the center tank.
\<close>

theorem engines_burn_twice:
  assumes "fmul (en_rate e1) dt \<le> l" "fmul (en_rate e2) dt \<le> r" "fmul (en_rate e1) dt \<le> c"
    "fmul (en_rate e2) dt \<le> fsub c (fmul (en_rate e1) dt)"
  shows "fuel_update dt (aircraft l r c e1 e2) = (Inr (), aircraft (fsub l (fmul (en_rate e1) dt)) (fsub r (fmul (en_rate e2) dt))
     (fsub (fsub c (fmul (en_rate e1) dt)) (fmul (en_rate e2) dt)) e1 e2)"
  using assms by (simp add: aircraft_update left_over_def)

theorem engines_burn_twice_witness:
  "fuel_update 1 (aircraft 9000 9000 9000 (set_thrust 0 (new_engine 50000))(new_engine 50000)) =
     (Inr (), aircraft (fsub 9000 0) (fsub 9000 0) (fsub (fsub 9000 0) 0) (set_thrust 0 (new_engine 50000)) (new_engine 50000))"
proof -
  have "fmul (en_rate (set_thrust 0 (new_engine 50000))) 1 = 0" "fmul (en_rate (new_engine 50000)) 1 = 0" "0 \<le> fsub 9000 0"
    by (simp_all add: set_thrust_def new_engine_def fmul_def fdiv_def fsub_def fl_nonneg)
  then show ?thesis
    using engines_burn_twice [of "set_thrust 0 (new_engine 50000)" 1 9000 "new_engine 50000" 9000 9000] by simp
qed

text \<open>
  A thrust below zero fills the tanks: a message that sets an engine of the newly set up aircraft to -10 percent or less
  is accepted, and the next update raises the full main tank above its capacity.
\<close>

theorem negative_thrust_overfills:
  assumes "p \<le> - 10" "fuel_receive_message [(''engine_thrust'', PFloat p), (''engine_name'', PStr ''Engine 1'')] (setup_aircraft no_fuel_system) = (Inr (), f)"
    "fuel_update UPDATE_INTERVAL f = (Inr (), f')"
  shows "\<exists>t. map_of (fs_tanks f') ''Main Left'' = Some t \<and> tk_capacity t + 36 \<le> tk_level t"
proof -
  define e where "e = set_thrust p (new_engine 50000)"
  have f: "f = aircraft 10000 10000 20000 e (new_engine 50000)"
    using assms(2) by (simp add: setup_is_aircraft fuel_receive_message_def receive_thrust_def key_of_def has_key_def dict_get_def
        aircraft_def set_engine_thrust_def dict_set_def e_def)
  have r: "fmul (en_rate e) UPDATE_INTERVAL \<le> - 36" using negative_rate [OF assms(1)] by (simp add: e_def)
  then have "fl (of_int 10036) \<le> fsub 10000 (fmul (en_rate e) UPDATE_INTERVAL)" unfolding fsub_def by (intro fl_mono) simp
  then have "10036 \<le> left_over 10000 (fmul (en_rate e) UPDATE_INTERVAL)" using r fl_of_int [of 10036] by (simp add: left_over_def)
  then show ?thesis using assms(3) by (auto simp: f aircraft_update) (simp add: aircraft_def)
qed

theorem negative_thrust_overfills_witness:
  "\<exists>t. map_of (fs_tanks (snd (fuel_update UPDATE_INTERVAL (set_engine_thrust ''Engine 1'' (- 20) (setup_aircraft no_fuel_system))))) ''Main Left'' =
     Some t \<and> tk_capacity t + 36 \<le> tk_level t"
proof -
  define f where "f = set_engine_thrust ''Engine 1'' (- 20) (setup_aircraft no_fuel_system)"
  have m: "fuel_receive_message [(''engine_thrust'', PFloat (- 20)), (''engine_name'', PStr ''Engine 1'')] (setup_aircraft no_fuel_system) = (Inr (), f)"
    by (simp add: f_def setup_is_aircraft fuel_receive_message_def receive_thrust_def key_of_def has_key_def dict_get_def aircraft_def)
  have "f = aircraft 10000 10000 20000 (set_thrust (- 20) (new_engine 50000)) (new_engine 50000)"
    by (simp add: f_def setup_is_aircraft aircraft_def set_engine_thrust_def dict_set_def)
  then obtain f' where u: "fuel_update UPDATE_INTERVAL f = (Inr (), f')" by (simp add: aircraft_update)
  then show ?thesis using negative_thrust_overfills [OF _ m u] by (simp add: flip: f_def)
qed

end
