(* ===== verification/Py_Json.thy ===== *)
theory Py_Json
  imports Py_Float
begin

text \<open>
  \<^verbatim>\<open>json.loads\<close> of the standard library, as the decoders of the bus words call it: strict string
  scanning, the number grammar with integers kept exact and decimals rounded to a binary64 value,
  arrays, objects (a repeated key keeps its last value) and the three literals. A parse error is
  \<^verbatim>\<open>JSONDecodeError\<close>, a \<^verbatim>\<open>ValueError\<close>. The scanner is written with fuel; \<open>json_loads\<close> gives it
  twice the length of the text, which \<open>json_fuel_enough\<close> shows is never exhausted. A code point above 255, NaN and the
  infinities are reported as \<open>Unmodelled\<close>.
\<close>

section \<open>The scanner\<close>

definition json_ws :: "char \<Rightarrow> bool" where
  "json_ws c = (of_char c \<in> {32, 9, 10, 13 :: nat})"

definition skip_ws :: "string \<Rightarrow> string" where
  "skip_ws s = dropWhile json_ws s"

definition hex_val :: "char \<Rightarrow> nat option" where
  "hex_val c = (case digit_val c of Some d \<Rightarrow> if d < 16 then Some d else None | None \<Rightarrow> None)"

definition json_hex4 :: "string \<Rightarrow> nat option" where
  "json_hex4 s = (case map hex_val s of
     [Some a, Some b, Some c, Some d] \<Rightarrow> Some (a * 4096 + b * 256 + c * 16 + d) | _ \<Rightarrow> None)"

definition json_escape :: "char \<Rightarrow> char option" where
  "json_escape c = map_of [(CHR 0x22, CHR 0x22), (CHR 0x5C, CHR 0x5C), (CHR ''/'', CHR ''/''),
     (CHR ''b'', CHR 0x08), (CHR ''f'', CHR 0x0C), (CHR ''n'', CHR 0x0A), (CHR ''r'', CHR 0x0D),
     (CHR ''t'', CHR 0x09)] c"

text \<open>The characters of a string after its opening quote, and the text after its closing one.\<close>

function json_string :: "string \<Rightarrow> string \<Rightarrow> (string \<times> string) pyres" where
  "json_string acc [] = Inl ValueError"
| "json_string acc (c # s) =
     (if c = CHR 0x22 then Inr (rev acc, s)
      else if c = CHR 0x5C then
        (case s of
           [] \<Rightarrow> Inl ValueError
         | e # s' \<Rightarrow>
             if e = CHR ''u'' then
               (case json_hex4 (take 4 s') of
                  None \<Rightarrow> Inl ValueError
                | Some n \<Rightarrow> if n < 256 then json_string (char_of n # acc) (drop 4 s') else Inl Unmodelled)
             else (case json_escape e of
                     None \<Rightarrow> Inl ValueError
                   | Some d \<Rightarrow> json_string (d # acc) s'))
      else if (of_char c :: nat) < 32 then Inl ValueError
      else json_string (c # acc) s)"
  by pat_completeness auto
termination by (relation "measure (\<lambda>(_, s). length s)") auto

definition is_digit :: "char \<Rightarrow> bool" where
  "is_digit c = (48 \<le> (of_char c :: nat) \<and> (of_char c :: nat) \<le> 57)"

definition digits_nat :: "string \<Rightarrow> nat" where
  "digits_nat s = foldl (\<lambda>a c. 10 * a + (of_char c - 48)) 0 s"

text \<open>
  \<^verbatim>\<open>-?(0|[1-9]\d*)(\.\d+)?([eE][-+]?\d+)?\<close>: each part returns what it read and the text left.
\<close>

definition num_sign :: "string \<Rightarrow> int \<times> string" where
  "num_sign s = (case s of c # cs \<Rightarrow> if c = CHR ''-'' then (- 1, cs) else (1, s) | [] \<Rightarrow> (1, []))"

definition num_int :: "string \<Rightarrow> string \<times> string" where
  "num_int s = (case s of
     c # cs \<Rightarrow> if c = CHR ''0'' then ([c], cs) else (takeWhile is_digit s, dropWhile is_digit s)
   | [] \<Rightarrow> ([], []))"

definition num_frac :: "string \<Rightarrow> string \<times> string" where
  "num_frac s = (case s of
     c # cs \<Rightarrow> if c = CHR ''.'' \<and> takeWhile is_digit cs \<noteq> []
               then (takeWhile is_digit cs, dropWhile is_digit cs) else ([], s)
   | [] \<Rightarrow> ([], []))"

definition num_exp :: "string \<Rightarrow> int option \<times> string" where
  "num_exp s = (case s of
     c # cs \<Rightarrow>
       if c = CHR ''e'' \<or> c = CHR ''E'' then
         (let (sg, r) = (case cs of d # ds \<Rightarrow> if d = CHR ''-'' then (- 1, ds)
                                           else if d = CHR ''+'' then (1, ds) else (1, cs) | [] \<Rightarrow> (1, []))
          in if takeWhile is_digit r = [] then (None, s)
             else (Some (sg * int (digits_nat (takeWhile is_digit r))), dropWhile is_digit r))
       else (None, s)
   | [] \<Rightarrow> (None, []))"

definition json_number :: "string \<Rightarrow> (pyval \<times> string) option" where
  "json_number s0 =
     (let (sign, s1) = num_sign s0; (ip, s2) = num_int s1; (fp, s3) = num_frac s2; (e, s4) = num_exp s3
      in if ip = [] then None
         else if fp = [] \<and> e = None then Some (PInt (sign * int (digits_nat ip)), s4)
         else Some (PFloat (fl (of_int sign * of_nat (digits_nat (ip @ fp)) *
                10 powi ((case e of None \<Rightarrow> 0 | Some x \<Rightarrow> x) - int (length fp)))), s4))"

definition json_literals :: "(string \<times> pyval pyres) list" where
  "json_literals = [(''null'', Inr PNone), (''true'', Inr (PBool True)), (''false'', Inr (PBool False)),
     (''NaN'', Inl Unmodelled), (''Infinity'', Inl Unmodelled), (''-Infinity'', Inl Unmodelled)]"

definition json_atom :: "string \<Rightarrow> (pyval \<times> string) pyres" where
  "json_atom s = (case json_number s of
     Some r \<Rightarrow> Inr r
   | None \<Rightarrow>
       (case List.find (\<lambda>(l, _). take (length l) s = l) json_literals of
          Some (l, v) \<Rightarrow> py_bind v (\<lambda>w. Inr (w, drop (length l) s))
        | None \<Rightarrow> Inl ValueError))"

text \<open>
  A value at the head of the text, the elements of an array and the members of an object. The
  scanner of an array is called on the text after the bracket or a comma.
\<close>

fun json_value :: "nat \<Rightarrow> string \<Rightarrow> (pyval \<times> string) pyres"
  and json_array :: "nat \<Rightarrow> pyval list \<Rightarrow> string \<Rightarrow> (pyval \<times> string) pyres"
  and json_object :: "nat \<Rightarrow> pydict \<Rightarrow> string \<Rightarrow> (pyval \<times> string) pyres" where
  "json_value 0 s = Inl RuntimeError"
| "json_value (Suc n) s =
     (case s of
        [] \<Rightarrow> Inl ValueError
      | c # s' \<Rightarrow>
          if c = CHR 0x22 then py_bind (json_string [] s') (\<lambda>(t, r). Inr (PStr t, r))
          else if c = CHR ''['' then
            (case skip_ws s' of
               d # r \<Rightarrow> if d = CHR '']'' then Inr (PList [], r) else json_array n [] (d # r)
             | [] \<Rightarrow> json_array n [] [])
          else if c = CHR ''{'' then
            (case skip_ws s' of
               d # r \<Rightarrow> if d = CHR ''}'' then Inr (PDict [], r) else json_object n [] (d # r)
             | [] \<Rightarrow> json_object n [] [])
          else json_atom s)"
| "json_array 0 acc s = Inl RuntimeError"
| "json_array (Suc n) acc s =
     py_bind (json_value n s) (\<lambda>(v, r).
       case skip_ws r of
         [] \<Rightarrow> Inl ValueError
       | c # r' \<Rightarrow>
           if c = CHR '']'' then Inr (PList (rev (v # acc)), r')
           else if c = CHR '','' then json_array n (v # acc) (skip_ws r')
           else Inl ValueError)"
| "json_object 0 acc s = Inl RuntimeError"
| "json_object (Suc n) acc s =
     (case s of
        [] \<Rightarrow> Inl ValueError
      | q # s' \<Rightarrow>
          if q \<noteq> CHR 0x22 then Inl ValueError
          else py_bind (json_string [] s') (\<lambda>(k, r).
            case skip_ws r of
              [] \<Rightarrow> Inl ValueError
            | c # r' \<Rightarrow>
                if c \<noteq> CHR '':'' then Inl ValueError
                else py_bind (json_value n (skip_ws r')) (\<lambda>(v, r2).
                  case skip_ws r2 of
                    [] \<Rightarrow> Inl ValueError
                  | d # r3 \<Rightarrow>
                      if d = CHR ''}'' then Inr (PDict (dict_set k v acc), r3)
                      else if d = CHR '','' then json_object n (dict_set k v acc) (skip_ws r3)
                      else Inl ValueError)))"

definition json_loads :: "string \<Rightarrow> pyval pyres" where
  "json_loads s = py_bind (json_value (2 * length s + 1) (skip_ws s)) (\<lambda>(v, r).
     if skip_ws r = [] then Inr v else Inl ValueError)"

section \<open>Enough fuel\<close>

lemma skip_ws_le: "length (skip_ws s) \<le> length s"
  by (simp add: skip_ws_def length_dropWhile_le)

lemma skip_ws_Cons: "skip_ws s = c # r \<Longrightarrow> length r < length s"
  using skip_ws_le [of s] by simp

lemma json_string_shrinks: "json_string acc s = Inr (t, r) \<Longrightarrow> length r < length s"
proof (induction acc s rule: json_string.induct)
  case (2 acc c s)
  show ?case
  proof (cases "c = CHR 0x5C")
    case True
    with "2.prems" obtain e s' where s: "s = e # s'" by (cases s) auto
    show ?thesis
      using "2.prems" "2.IH"(1,2) [OF _ True s] True s
      by (auto split: if_splits option.splits)
  next
    case False
    then show ?thesis using "2.prems" "2.IH"(3) by (auto split: if_splits)
  qed
qed simp

lemma json_string_no_runtime: "json_string acc s \<noteq> Inl RuntimeError"
  by (induction acc s rule: json_string.induct) (auto split: list.split option.split)

lemma json_literals_nonempty: "(l, v) \<in> set json_literals \<Longrightarrow> l \<noteq> [] \<and> v \<noteq> Inl RuntimeError"
  by (auto simp: json_literals_def)

lemma length_dropWhile_takeWhile: "length (dropWhile p s) = length s - length (takeWhile p s)"
  by (metis add_diff_cancel_left' length_append takeWhile_dropWhile_id)

lemma num_parts_le:
  "num_sign s = (g, r) \<Longrightarrow> length r \<le> length s"
  "num_int s = (i, r) \<Longrightarrow> length r + length i = length s"
  "num_frac s = (f, r) \<Longrightarrow> length r \<le> length s"
  "num_exp s = (e, r) \<Longrightarrow> length r \<le> length s"
     apply (auto simp: num_sign_def split: list.splits if_splits)[1]
    apply (auto simp: num_int_def length_dropWhile_takeWhile length_takeWhile_le split: list.splits if_splits)[1]
   apply (auto simp: num_frac_def split: list.splits if_splits intro: le_SucI length_dropWhile_le)[1]
  apply (auto simp: num_exp_def Let_def split: list.splits if_splits prod.splits intro: le_SucI length_dropWhile_le order_trans [OF length_dropWhile_le])
  done

lemma json_number_shrinks:
  assumes "json_number s = Some (v, r)"
  shows "length r < length s"
proof -
  obtain g s1 where 1: "num_sign s = (g, s1)" by (cases "num_sign s")
  obtain i s2 where 2: "num_int s1 = (i, s2)" by (cases "num_int s1")
  obtain f s3 where 3: "num_frac s2 = (f, s3)" by (cases "num_frac s2")
  obtain e s4 where 4: "num_exp s3 = (e, s4)" by (cases "num_exp s3")
  have "i \<noteq> [] \<and> r = s4"
    using assms by (auto simp: json_number_def 1 2 3 4 split: if_splits)
  then have "0 < length i" "r = s4" by auto
  then show ?thesis using num_parts_le(1) [OF 1] num_parts_le(2) [OF 2] num_parts_le(3) [OF 3] num_parts_le(4) [OF 4]
    unfolding \<open>r = s4\<close> by linarith
qed

lemma json_atom_facts:
  "json_atom s \<noteq> Inl RuntimeError"
  "json_atom s = Inr (v, r) \<Longrightarrow> length r < length s"
proof -
  have lit: "l \<noteq> [] \<and> w \<noteq> Inl RuntimeError \<and> take (length l) s = l"
    if "List.find (\<lambda>(l, _). take (length l) s = l) json_literals = Some (l, w)" for l w
    using that json_literals_nonempty by (auto simp: find_Some_iff in_set_conv_nth) (metis nth_mem)+
  show "json_atom s \<noteq> Inl RuntimeError"
    using lit by (auto simp: json_atom_def py_bind_def split: option.split prod.split sum.splits)
  show "length r < length s" if "json_atom s = Inr (v, r)"
    using that
  proof (cases "json_number s")
    case None
    with that obtain l w where f: "List.find (\<lambda>(l, _). take (length l) s = l) json_literals = Some (l, w)"
      and r: "r = drop (length l) s"
      by (auto simp: json_atom_def py_bind_eq_Inr split: option.splits prod.splits)
    from lit [OF f] have "l \<noteq> []" "take (length l) s = l" by simp_all
    then have "s \<noteq> []" "0 < length l" by auto
    then show ?thesis by (cases s) (auto simp: r)
  qed (auto simp: json_atom_def dest: json_number_shrinks)
qed

text \<open>
  \<open>scan_ok e L res\<close>: the scan leaves fewer than \<open>L\<close> characters, and where \<open>e\<close> holds it did not run
  out of fuel.
\<close>

definition scan_ok :: "bool \<Rightarrow> nat \<Rightarrow> ('a \<times> string) pyres \<Rightarrow> bool" where
  "scan_ok e L res = (case res of Inl x \<Rightarrow> e \<longrightarrow> x \<noteq> RuntimeError | Inr (v, r) \<Rightarrow> length r < L)"

lemma scan_ok_simps [simp]:
  "scan_ok e L (Inl x) \<longleftrightarrow> (e \<longrightarrow> x \<noteq> RuntimeError)" "scan_ok e L (Inr (v, r)) \<longleftrightarrow> length r < L"
  by (simp_all add: scan_ok_def)

lemma scan_ok_weaken: "scan_ok e L m \<Longrightarrow> (e' \<longrightarrow> e) \<Longrightarrow> L \<le> L' \<Longrightarrow> scan_ok e' L' m"
  by (auto simp: scan_ok_def split: sum.splits)

lemma scan_ok_bind:
  "scan_ok e L m \<Longrightarrow> (\<And>v r. length r < L \<Longrightarrow> scan_ok e L' (f (v, r))) \<Longrightarrow> scan_ok e L' (py_bind m f)"
  by (cases m) auto

lemma scan_ok_string: "scan_ok e (length s) (json_string acc s)"
  using json_string_shrinks [of acc s] json_string_no_runtime [of acc s]
  by (auto simp: scan_ok_def split: sum.split)

lemma scan_ok_atom: "scan_ok e (length s) (json_atom s)"
  using json_atom_facts [of s] by (auto simp: scan_ok_def split: sum.split)

lemma json_fuel:
  "scan_ok (2 * length s + 1 \<le> n) (length s) (json_value n s) \<and>
   scan_ok (2 * length s + 2 \<le> n) (length s) (json_array n acc s) \<and>
   scan_ok (2 * length s + 2 \<le> n) (length s) (json_object n d s)"
proof (induction n arbitrary: s acc d)
  case (Suc n)
  have V: "scan_ok e L (json_value n t)" if "e \<longrightarrow> 2 * length t + 1 \<le> n" "length t \<le> L" for e L t
    using Suc.IH [of t] that by (blast intro: scan_ok_weaken)
  have A: "scan_ok e L (json_array n a t)" if "e \<longrightarrow> 2 * length t + 2 \<le> n" "length t \<le> L" for e L a t
    using Suc.IH [of t a] that by (blast intro: scan_ok_weaken)
  have O: "scan_ok e L (json_object n a t)" if "e \<longrightarrow> 2 * length t + 2 \<le> n" "length t \<le> L" for e L a t
    using Suc.IH [of t _ a] that by (blast intro: scan_ok_weaken)
  have sk: "length r < length t" if "skip_ws t = c # r" for c r t
    using that by (rule skip_ws_Cons)
  let ?e = "2 * length s + 2 \<le> Suc n"
  have 1: "scan_ok (2 * length s + 1 \<le> Suc n) (length s) (json_value (Suc n) s)"
  proof (cases s)
    case (Cons c s')
    have q: "scan_ok e (length s) (py_bind (json_string [] s') (\<lambda>(t, r). Inr (PStr t, r)))" for e
      by (rule scan_ok_bind [OF scan_ok_string]) (simp add: Cons)
    show ?thesis
      using q scan_ok_atom [of _ s] Cons
      by (auto split: list.split dest: sk intro!: A O)
  qed simp
  have nxt: "scan_ok ?e (length s) (json_array n a (skip_ws t))" "scan_ok ?e (length s) (json_object n a' (skip_ws t))"
    if "length t < length u" "length u < length s" for t u :: string and a a'
    using that skip_ws_le [of t] by (auto intro!: A O)
  have 2: "scan_ok ?e (length s) (json_array (Suc n) acc s)"
    by (simp, rule scan_ok_bind [OF V [of _ _ "length s"]])
       (auto split: list.split dest!: sk intro!: nxt [simplified])
  have 3: "scan_ok ?e (length s) (json_object (Suc n) d s)"
  proof (cases s)
    case (Cons q s')
    let ?k = "\<lambda>k. \<lambda>(v, r2). (case skip_ws r2 of [] \<Rightarrow> Inl ValueError
           | d1 # r3 \<Rightarrow> if d1 = CHR ''}'' then Inr (PDict (dict_set k v d), r3)
                      else if d1 = CHR '','' then json_object n (dict_set k v d) (skip_ws r3)
                      else Inl ValueError)"
    have cont: "scan_ok ?e (length s) (?k k (v, r))" if "length r < length s" for k v r
      using that by (auto split: list.split dest!: sk intro!: nxt(2) [simplified])
    have member: "scan_ok ?e (length s) (py_bind (json_value n (skip_ws t)) (?k k))"
      if "length t < length s'" for k t
    proof (rule scan_ok_bind)
      show "scan_ok ?e (length t) (json_value n (skip_ws t))"
        using that skip_ws_le [of t] Cons by (intro V) auto
    qed (rule cont, use that Cons in simp)
    have colon: "scan_ok ?e (length s) ((\<lambda>(k, r). case skip_ws r of [] \<Rightarrow> Inl ValueError
        | c # r' \<Rightarrow> if c \<noteq> CHR '':'' then Inl ValueError
                   else py_bind (json_value n (skip_ws r')) (?k k)) (k, r))"
      if "length r < length s'" for k r
    proof (cases "skip_ws r")
      case (Cons c t)
      with that have "length t < length s'" using sk less_trans by blast
      then show ?thesis using Cons member [of t k] by (cases "c = CHR '':''") simp_all
    qed simp
    have "scan_ok ?e (length s) (py_bind (json_string [] s') (\<lambda>(k, r). case skip_ws r of [] \<Rightarrow> Inl ValueError
        | c # r' \<Rightarrow> if c \<noteq> CHR '':'' then Inl ValueError
                   else py_bind (json_value n (skip_ws r')) (?k k)))"
      using colon by (rule scan_ok_bind [OF scan_ok_string])
    then show ?thesis
      unfolding Cons json_object.simps list.case by (cases "q = CHR 0x22") (simp_all only: if_False if_True not_not scan_ok_simps simp_thms, simp)
  qed simp
  from 1 2 3 show ?case by blast
qed simp


text \<open>The fuel of \<open>json_loads\<close> never runs out, so its error is never an artefact of the model.\<close>

lemma json_fuel_enough: "json_loads s \<noteq> Inl RuntimeError"
proof -
  have "scan_ok (2 * length (skip_ws s) + 1 \<le> 2 * length s + 1) (length (skip_ws s))
      (json_value (2 * length s + 1) (skip_ws s))"
    using json_fuel by blast
  then have "json_value (2 * length s + 1) (skip_ws s) \<noteq> Inl RuntimeError"
    using skip_ws_le [of s] unfolding scan_ok_def by fastforce
  then show ?thesis
    unfolding json_loads_def
    by (cases "json_value (2 * length s + 1) (skip_ws s)")
       (simp_all only: py_bind_simps split: if_splits prod.splits, auto)
qed

section \<open>Lists of plain strings\<close>

text \<open>A character that \<^verbatim>\<open>json.dumps\<close> writes as it is, and the text it writes for a list of such strings.\<close>

definition plain_char :: "char \<Rightarrow> bool" where
  "plain_char c = (32 \<le> (of_char c :: nat) \<and> c \<noteq> CHR 0x22 \<and> c \<noteq> CHR 0x5C)"

fun json_items :: "string list \<Rightarrow> string" where
  "json_items [] = '']''"
| "json_items [w] = [CHR 0x22] @ w @ [CHR 0x22] @ '']''"
| "json_items (w # ws) = [CHR 0x22] @ w @ [CHR 0x22] @ '', '' @ json_items ws"

definition json_dumps_list :: "string list \<Rightarrow> string" where
  "json_dumps_list ws = ''['' @ json_items ws"

lemma json_string_plain:
  "list_all plain_char w \<Longrightarrow> json_string acc (w @ CHR 0x22 # r) = Inr (rev acc @ w, r)"
  by (induction w arbitrary: acc) (auto simp: plain_char_def)

lemma skip_ws_id [simp]:
  "skip_ws (CHR 0x22 # s) = CHR 0x22 # s" "skip_ws (CHR ''['' # s) = CHR ''['' # s"
  "skip_ws (CHR '']'' # s) = CHR '']'' # s" "skip_ws (CHR '','' # s) = CHR '','' # s"
  "skip_ws (CHR '' '' # s) = skip_ws s" "skip_ws [] = []"
  by (simp_all add: skip_ws_def json_ws_def)

lemma json_array_plain:
  "ws \<noteq> [] \<Longrightarrow> \<forall>w\<in>set ws. list_all plain_char w \<Longrightarrow> 2 * length (json_items ws) \<le> n \<Longrightarrow>
   json_array n acc (json_items ws) = Inr (PList (rev acc @ map PStr ws), [])"
proof (induction ws arbitrary: n acc rule: json_items.induct)
  case (2 w)
  then obtain k where "n = Suc (Suc k)" by (cases n; cases "n - 1") auto
  with 2 show ?case by (simp add: json_string_plain)
next
  case (3 w v ws)
  then obtain k where "n = Suc (Suc k)" by (cases n; cases "n - 1") auto
  moreover have "skip_ws (json_items (v # ws)) = json_items (v # ws)" by (cases ws) simp_all
  moreover have "json_array (Suc k) (PStr w # acc) (json_items (v # ws)) =
      Inr (PList (rev (PStr w # acc) @ map PStr (v # ws)), [])"
    using 3 \<open>n = Suc (Suc k)\<close> by (intro "3.IH") simp_all
  ultimately show ?case
    using "3.prems" by (simp only: json_array.simps) (simp add: json_string_plain del: json_array.simps)
qed simp

lemma json_value_array:
  "skip_ws s = CHR 0x22 # r \<Longrightarrow> json_value (Suc n) (CHR ''['' # s) = json_array n [] (CHR 0x22 # r)"
  by simp

lemma json_loads_dumps:
  assumes "\<forall>w\<in>set ws. list_all plain_char w"
  shows "json_loads (json_dumps_list ws) = Inr (PList (map PStr ws))"
proof (cases ws)
  case Nil
  then show ?thesis by (simp add: json_loads_def json_dumps_list_def eval_nat_numeral)
next
  case (Cons w vs)
  obtain t where t: "json_items ws = CHR 0x22 # t"
    by (cases vs) (simp_all add: Cons)
  have "json_value (2 * length (json_dumps_list ws) + 1) (json_dumps_list ws)
      = json_array (2 * length (json_dumps_list ws)) [] (json_items ws)"
    by (simp only: json_dumps_list_def append.simps t Suc_eq_plus1 [symmetric] json_value_array skip_ws_id)
  also have "\<dots> = Inr (PList (map PStr ws), [])"
    using json_array_plain [of ws "2 * length (json_dumps_list ws)" "[]"] assms
    by (simp add: Cons json_dumps_list_def)
  finally have v: "json_value (2 * length (json_dumps_list ws) + 1) (json_dumps_list ws)
      = Inr (PList (map PStr ws), [])" .
  have "skip_ws (json_dumps_list ws) = json_dumps_list ws" by (simp add: json_dumps_list_def)
  then show ?thesis
    unfolding json_loads_def by (simp only: v py_bind_simps prod.case skip_ws_id if_True refl)
qed

lemma plain_bits: "bits w \<Longrightarrow> list_all plain_char w"
  unfolding bits_def by (erule list.pred_mono_strong, unfold is_bit_def, elim disjE) (simp_all add: plain_char_def)

end
