(* ===== verification/Word_Codec.thy ===== *)
theory Word_Codec
  imports Py_Json
begin

text \<open>
  The 20-bit words of MIL-STD-1553B as strings of '0' and '1': the bus controller's encoder and
  decoder (\<^verbatim>\<open>BC_words_encoder.py\<close>, \<^verbatim>\<open>BC_words_decoder.py\<close>) and the remote terminal's
  (\<^verbatim>\<open>RT_words_encoder.py\<close>, \<^verbatim>\<open>RT_words_decoder.py\<close>). The locale \<open>word_codec\<close> states what a codec of
  odd-parity words promises and derives single-bit error detection; it is interpreted on the
  command, status and data words of both sides.
\<close>

section \<open>The words' fields\<close>

text \<open>What the decoders return: the sync bits, the fields and the parity bit.\<close>

record cmd_word =
  cw_sync :: string
  cw_rt_address :: int
  cw_tr_bit :: int
  cw_subaddress_mode :: int
  cw_word_count_mode :: int
  cw_parity :: int

record status_word =
  sw_sync :: string
  sw_rt_address :: int
  sw_message_error :: int
  sw_instrumentation :: int
  sw_service_request :: int
  sw_reserved :: int
  sw_broadcast_cmd :: int
  sw_busy :: int
  sw_subsystem_flag :: int
  sw_dynamic_bus_control :: int
  sw_terminal_flag :: int
  sw_parity :: int

record data_word =
  dw_sync :: string
  dw_data :: int
  dw_parity :: int

text \<open>A received word: \<^verbatim>\<open>bytes\<close> or \<^verbatim>\<open>str\<close>; \<^verbatim>\<open>decode('ascii')\<close> rejects bytes above 127.\<close>

datatype raw = RawBytes string | RawStr string

definition decode_ascii :: "string \<Rightarrow> string pyres" where
  "decode_ascii b = (if list_all (\<lambda>c. (of_char c :: nat) < 128) b then Inr b else Inl ValueError)"

fun raw_text :: "raw \<Rightarrow> string pyres" where
  "raw_text (RawBytes b) = decode_ascii b"
| "raw_text (RawStr s) = Inr s"

definition COMMAND_SYNC :: string where "COMMAND_SYNC = ''100''"
definition DATA_SYNC :: string where "DATA_SYNC = ''001''"
definition STATUS_SYNC :: string where "STATUS_SYNC = ''100''"

section \<open>Bus controller: encoder\<close>

definition bc_calculate_parity :: "string \<Rightarrow> string" where
  "bc_calculate_parity word_without_parity =
     (let ones_count = ones word_without_parity in if ones_count mod 2 = 0 then ''1'' else ''0'')"

definition bc_encode_command_word :: "int \<Rightarrow> int \<Rightarrow> int \<Rightarrow> int \<Rightarrow> string pyres" where
  "bc_encode_command_word rt_address tr_bit subaddress_mode word_count_mode =
     (if \<not> (0 \<le> rt_address \<and> rt_address \<le> 31) then Inl ValueError
      else if tr_bit \<notin> {0, 1} then Inl ValueError
      else if \<not> (0 \<le> subaddress_mode \<and> subaddress_mode \<le> 31) then Inl ValueError
      else if \<not> (0 \<le> word_count_mode \<and> word_count_mode \<le> 31) then Inl ValueError
      else
        let word = ''100'' @ fmt_bin 5 rt_address @ py_str_int tr_bit @ fmt_bin 5 subaddress_mode
                   @ fmt_bin 5 word_count_mode;
            word = word @ bc_calculate_parity word
        in if length word \<noteq> 20 then Inl ValueError else Inr word)"

definition bc_encode_data_word :: "int \<Rightarrow> string pyres" where
  "bc_encode_data_word data =
     (if \<not> (0 \<le> data \<and> data \<le> 65535) then Inl ValueError
      else
        let word = ''001'' @ fmt_bin 16 data;
            word = word @ bc_calculate_parity word
        in if length word \<noteq> 20 then Inl ValueError else Inr word)"

definition bc_format_message :: "string list \<Rightarrow> string list pyres" where
  "bc_format_message words =
     (if words = [] then Inl ValueError
      else if \<exists>word\<in>set words. length word \<noteq> 20 then Inl ValueError
      else Inr words)"

section \<open>Bus controller: decoder\<close>

text \<open>The list of words: a JSON list when the text is bracketed, otherwise the text itself.\<close>

definition bc_parse_raw_data :: "raw \<Rightarrow> pyval list pyres" where
  "bc_parse_raw_data raw_data = py_bind (raw_text raw_data) (\<lambda>s.
     if prefix ''['' s \<and> suffix '']'' s
     then py_bind (json_loads s) (\<lambda>v. case v of PList ws \<Rightarrow> Inr ws | _ \<Rightarrow> Inl TypeError)
     else Inr [PStr s])"

definition first_word :: "pyval list \<Rightarrow> pyval pyres" where
  "first_word ws = (case ws of [] \<Rightarrow> Inl IndexError | w # _ \<Rightarrow> Inr w)"

text \<open>
  The guard \<^verbatim>\<open>len(word) != 20\<close> on a JSON value. A list of 20 items passes it and fails the
  comparison of its first three items with the sync string; a dictionary of 20 keys cannot be sliced.
\<close>

definition word_of_value :: "pyval \<Rightarrow> string pyres" where
  "word_of_value v = (case v of
     PStr s \<Rightarrow> if length s \<noteq> 20 then Inl ValueError else Inr s
   | PList xs \<Rightarrow> Inl ValueError
   | PDict d \<Rightarrow> if length d \<noteq> 20 then Inl ValueError else Inl TypeError
   | _ \<Rightarrow> Inl TypeError)"

definition bc_validate_parity :: "string \<Rightarrow> bool pyres" where
  "bc_validate_parity word =
     (let ones_count = ones (take 19 word)
      in py_bind (py_int 10 [word ! 19]) (\<lambda>parity_bit. Inr ((int ones_count + parity_bit) mod 2 = 1)))"

definition bc_decode_command_text :: "string \<Rightarrow> cmd_word pyres" where
  "bc_decode_command_text command_word =
     (let sync_bits = slice 0 3 command_word
      in if sync_bits \<noteq> COMMAND_SYNC then Inl ValueError
         else py_bind (bc_validate_parity command_word) (\<lambda>ok.
           if \<not> ok then Inl ValueError
           else py_bind (py_int 2 (slice 3 8 command_word)) (\<lambda>rt_address.
                py_bind (py_int 10 [command_word ! 8]) (\<lambda>tr_bit.
                py_bind (py_int 2 (slice 9 14 command_word)) (\<lambda>subaddress_mode.
                py_bind (py_int 2 (slice 14 19 command_word)) (\<lambda>word_count_mode.
                py_bind (py_int 10 [command_word ! 19]) (\<lambda>parity.
                Inr \<lparr>cw_sync = sync_bits, cw_rt_address = rt_address, cw_tr_bit = tr_bit,
                     cw_subaddress_mode = subaddress_mode, cw_word_count_mode = word_count_mode,
                     cw_parity = parity\<rparr>)))))))"

definition bc_decode_command_word :: "raw \<Rightarrow> cmd_word pyres" where
  "bc_decode_command_word word =
     py_bind (bc_parse_raw_data word) (\<lambda>words.
     py_bind (first_word words) (\<lambda>v.
     py_bind (word_of_value v) bc_decode_command_text))"

definition bc_decode_status_text :: "string \<Rightarrow> status_word pyres" where
  "bc_decode_status_text status_word =
     (let sync_bits = slice 0 3 status_word
      in if sync_bits \<noteq> COMMAND_SYNC then Inl ValueError
         else py_bind (bc_validate_parity status_word) (\<lambda>ok.
           if \<not> ok then Inl ValueError
           else py_bind (py_int 2 (slice 3 8 status_word)) (\<lambda>rt_address.
                py_bind (py_int 10 [status_word ! 8]) (\<lambda>message_error.
                py_bind (py_int 10 [status_word ! 9]) (\<lambda>instrumentation.
                py_bind (py_int 10 [status_word ! 10]) (\<lambda>service_request.
                py_bind (py_int 2 (slice 11 14 status_word)) (\<lambda>reserved.
                py_bind (py_int 10 [status_word ! 14]) (\<lambda>broadcast_cmd.
                py_bind (py_int 10 [status_word ! 15]) (\<lambda>busy.
                py_bind (py_int 10 [status_word ! 16]) (\<lambda>subsystem_flag.
                py_bind (py_int 10 [status_word ! 17]) (\<lambda>dynamic_bus_control.
                py_bind (py_int 10 [status_word ! 18]) (\<lambda>terminal_flag.
                py_bind (py_int 10 [status_word ! 19]) (\<lambda>parity.
                Inr \<lparr>sw_sync = sync_bits, sw_rt_address = rt_address, sw_message_error = message_error,
                     sw_instrumentation = instrumentation, sw_service_request = service_request,
                     sw_reserved = reserved, sw_broadcast_cmd = broadcast_cmd, sw_busy = busy,
                     sw_subsystem_flag = subsystem_flag, sw_dynamic_bus_control = dynamic_bus_control,
                     sw_terminal_flag = terminal_flag, sw_parity = parity\<rparr>)))))))))))))"

definition bc_decode_status_word :: "raw \<Rightarrow> status_word pyres" where
  "bc_decode_status_word word =
     py_bind (bc_parse_raw_data word) (\<lambda>words.
     py_bind (first_word words) (\<lambda>v.
     py_bind (word_of_value v) bc_decode_status_text))"

definition bc_decode_data_text :: "string \<Rightarrow> data_word pyres" where
  "bc_decode_data_text data_word =
     (let sync_bits = slice 0 3 data_word
      in if sync_bits \<noteq> DATA_SYNC then Inl ValueError
         else py_bind (bc_validate_parity data_word) (\<lambda>ok.
           if \<not> ok then Inl ValueError
           else py_bind (py_int 2 (slice 3 19 data_word)) (\<lambda>data.
                py_bind (py_int 10 [data_word ! 19]) (\<lambda>parity.
                Inr \<lparr>dw_sync = sync_bits, dw_data = data, dw_parity = parity\<rparr>))))"

text \<open>The data word is the second word of a list where there is one.\<close>

definition bc_decode_data_word :: "raw \<Rightarrow> data_word pyres" where
  "bc_decode_data_word word =
     py_bind (bc_parse_raw_data word) (\<lambda>words.
     py_bind (if 1 < length words then Inr (words ! 1) else first_word words) (\<lambda>v.
     py_bind (word_of_value v) bc_decode_data_text))"

section \<open>Remote terminal: decoder\<close>

text \<open>\<^verbatim>\<open>word.strip("[]'")\<close>\<close>

definition strip_list_chars :: "string \<Rightarrow> string" where
  "strip_list_chars s = strip_with (\<lambda>c. c \<in> set ''[]'' \<or> c = CHR 0x27) s"

definition rt_validate_parity :: "string \<Rightarrow> bool pyres" where
  "rt_validate_parity word =
     (let ones_count = ones (take 19 word)
      in py_bind (py_int 10 [word ! 19]) (\<lambda>parity_bit. Inr ((int ones_count + parity_bit) mod 2 = 1)))"

definition rt_decode_command_word :: "raw \<Rightarrow> cmd_word pyres" where
  "rt_decode_command_word raw_word =
     py_bind (raw_text raw_word) (\<lambda>s.
     let word = strip_list_chars s; sync_bits = slice 0 3 word
     in if length word \<noteq> 20 then Inl ValueError
        else if sync_bits \<noteq> COMMAND_SYNC then Inl ValueError
        else py_bind (rt_validate_parity word) (\<lambda>ok.
           if \<not> ok then Inl ValueError
           else py_bind (py_int 2 (slice 3 8 word)) (\<lambda>rt_address.
                py_bind (py_int 10 [word ! 8]) (\<lambda>tr_bit.
                py_bind (py_int 2 (slice 9 14 word)) (\<lambda>subaddress_mode.
                py_bind (py_int 2 (slice 14 19 word)) (\<lambda>word_count_mode.
                py_bind (py_int 10 [word ! 19]) (\<lambda>parity.
                Inr \<lparr>cw_sync = sync_bits, cw_rt_address = rt_address, cw_tr_bit = tr_bit,
                     cw_subaddress_mode = subaddress_mode, cw_word_count_mode = word_count_mode,
                     cw_parity = parity\<rparr>)))))))"

definition rt_decode_status_word :: "raw \<Rightarrow> status_word pyres" where
  "rt_decode_status_word raw_word =
     py_bind (raw_text raw_word) (\<lambda>s.
     let word = strip_list_chars s; sync_bits = slice 0 3 word
     in if length word \<noteq> 20 then Inl ValueError
        else if sync_bits \<noteq> STATUS_SYNC then Inl ValueError
        else py_bind (rt_validate_parity word) (\<lambda>ok.
           if \<not> ok then Inl ValueError
           else py_bind (py_int 2 (slice 3 8 word)) (\<lambda>rt_address.
                py_bind (py_int 10 [word ! 8]) (\<lambda>message_error.
                py_bind (py_int 10 [word ! 9]) (\<lambda>instrumentation.
                py_bind (py_int 10 [word ! 10]) (\<lambda>service_request.
                py_bind (py_int 2 (slice 11 14 word)) (\<lambda>reserved.
                py_bind (py_int 10 [word ! 14]) (\<lambda>broadcast_cmd.
                py_bind (py_int 10 [word ! 15]) (\<lambda>busy.
                py_bind (py_int 10 [word ! 16]) (\<lambda>subsystem_flag.
                py_bind (py_int 10 [word ! 17]) (\<lambda>dynamic_bus_control.
                py_bind (py_int 10 [word ! 18]) (\<lambda>terminal_flag.
                py_bind (py_int 10 [word ! 19]) (\<lambda>parity.
                Inr \<lparr>sw_sync = sync_bits, sw_rt_address = rt_address, sw_message_error = message_error,
                     sw_instrumentation = instrumentation, sw_service_request = service_request,
                     sw_reserved = reserved, sw_broadcast_cmd = broadcast_cmd, sw_busy = busy,
                     sw_subsystem_flag = subsystem_flag, sw_dynamic_bus_control = dynamic_bus_control,
                     sw_terminal_flag = terminal_flag, sw_parity = parity\<rparr>)))))))))))))"

definition rt_decode_data_word :: "raw \<Rightarrow> data_word pyres" where
  "rt_decode_data_word raw_word =
     py_bind (raw_text raw_word) (\<lambda>s.
     let word = strip_list_chars s; sync_bits = slice 0 3 word
     in if length word \<noteq> 20 then Inl ValueError
        else if sync_bits \<noteq> DATA_SYNC then Inl ValueError
        else py_bind (rt_validate_parity word) (\<lambda>ok.
           if \<not> ok then Inl ValueError
           else py_bind (py_int 2 (slice 3 19 word)) (\<lambda>data.
                py_bind (py_int 10 [word ! 19]) (\<lambda>parity.
                Inr \<lparr>dw_sync = sync_bits, dw_data = data, dw_parity = parity\<rparr>))))"

section \<open>Remote terminal: encoder\<close>

text \<open>An argument that is a string of bits or an integer.\<close>

datatype str_or_int = AStr string | AInt int

definition rt_calculate_parity :: "string \<Rightarrow> string" where
  "rt_calculate_parity word_without_parity =
     (let ones_count = ones word_without_parity in if ones_count mod 2 = 0 then ''1'' else ''0'')"

definition rt_addr_value :: "str_or_int \<Rightarrow> int pyres" where
  "rt_addr_value a = (case a of
     AStr s \<Rightarrow> if length s \<noteq> 5 \<or> \<not> list_all is_digit s then Inl ValueError else py_int 2 s
   | AInt n \<Rightarrow> Inr n)"

text \<open>The flags in the order of the word; the source's defaults are 0 except the terminal flag, 1.\<close>

record status_flags =
  f_message_error :: int
  f_instrumentation :: int
  f_service_request :: int
  f_broadcast_cmd :: int
  f_busy :: int
  f_subsystem_flag :: int
  f_dynamic_bus_control :: int
  f_terminal_flag :: int

definition default_flags :: status_flags where
  "default_flags = \<lparr>f_message_error = 0, f_instrumentation = 0, f_service_request = 0, f_broadcast_cmd = 0,
     f_busy = 0, f_subsystem_flag = 0, f_dynamic_bus_control = 0, f_terminal_flag = 1\<rparr>"

definition rt_encode_status_word :: "str_or_int \<Rightarrow> status_flags \<Rightarrow> string pyres" where
  "rt_encode_status_word rt_address f =
     py_bind (rt_addr_value rt_address) (\<lambda>rt_addr.
       if \<not> (0 \<le> rt_addr \<and> rt_addr \<le> 31) then Inl ValueError
       else
         let word = STATUS_SYNC @ fmt_bin 5 rt_addr @ py_str_int (f_message_error f)
               @ py_str_int (f_instrumentation f) @ py_str_int (f_service_request f) @ ''000''
               @ py_str_int (f_broadcast_cmd f) @ py_str_int (f_busy f) @ py_str_int (f_subsystem_flag f)
               @ py_str_int (f_dynamic_bus_control f) @ py_str_int (f_terminal_flag f);
             word = word @ rt_calculate_parity word
         in if length word \<noteq> 20 then Inl ValueError else Inr word)"

definition rt_data_value :: "str_or_int \<Rightarrow> int pyres" where
  "rt_data_value a = (case a of
     AStr s \<Rightarrow> if length s \<noteq> 16 \<or> \<not> list_all is_bit s then Inl ValueError else py_int 2 s
   | AInt n \<Rightarrow> Inr n)"

definition rt_encode_data_word :: "str_or_int \<Rightarrow> string pyres" where
  "rt_encode_data_word data =
     py_bind (rt_data_value data) (\<lambda>data_value.
       if \<not> (0 \<le> data_value \<and> data_value \<le> 65535) then Inl ValueError
       else
         let word = DATA_SYNC @ fmt_bin 16 data_value;
             word = word @ rt_calculate_parity word
         in if length word \<noteq> 20 then Inl ValueError else Inr word)"

definition rt_format_message :: "string list \<Rightarrow> string list pyres" where
  "rt_format_message words =
     (if words = [] then Inl ValueError
      else if \<exists>word\<in>set words. length word \<noteq> 20 then Inl ValueError
      else Inr words)"

section \<open>The decoders on bit strings\<close>

definition word20 :: "string \<Rightarrow> bool" where
  "word20 w = (bits w \<and> length w = 20)"

lemma word20_simps: "word20 w \<Longrightarrow> bits w" "word20 w \<Longrightarrow> length w = 20"
  by (simp_all add: word20_def)

lemma slice_props: "word20 w \<Longrightarrow> i < j \<Longrightarrow> j \<le> 20 \<Longrightarrow> bits (slice i j w) \<and> length (slice i j w) = j - i"
  by (auto simp: word20_def slice_def)

lemma py_int_slice:
  "word20 w \<Longrightarrow> i < j \<Longrightarrow> j \<le> 20 \<Longrightarrow> py_int 2 (slice i j w) = Inr (int (bval (slice i j w)))"
  using slice_props [of w i j] by (intro py_int_bits) auto

lemma py_int_nth: "word20 w \<Longrightarrow> i < 20 \<Longrightarrow> py_int 10 [w ! i] = Inr (int (bit_nat (w ! i)))"
  by (auto simp: word20_def intro!: py_int_bit bits_nth)

lemma ones_last: "length w = 20 \<Longrightarrow> ones w = ones (take 19 w) + bit_nat (w ! 19)"
  using take_Suc_conv_app_nth [of 19 w] by simp (metis ones_simps(1,2,3) add.right_neutral order_refl take_all)

lemma validate_parity_word:
  assumes "word20 w"
  shows "bc_validate_parity w = Inr (odd (ones w))" "rt_validate_parity w = Inr (odd (ones w))"
proof -
  have "(int (ones (take 19 w)) + int (bit_nat (w ! 19))) mod 2 = 1 \<longleftrightarrow> odd (ones w)"
    using ones_last [of w] assms by (simp add: word20_def) presburger
  then show "bc_validate_parity w = Inr (odd (ones w))" "rt_validate_parity w = Inr (odd (ones w))"
    using py_int_nth [OF assms, of 19] by (simp_all add: bc_validate_parity_def rt_validate_parity_def)
qed

definition command_fields :: "string \<Rightarrow> cmd_word" where
  "command_fields w = \<lparr>cw_sync = slice 0 3 w, cw_rt_address = int (bval (slice 3 8 w)),
     cw_tr_bit = int (bit_nat (w ! 8)), cw_subaddress_mode = int (bval (slice 9 14 w)),
     cw_word_count_mode = int (bval (slice 14 19 w)), cw_parity = int (bit_nat (w ! 19))\<rparr>"

definition status_fields :: "string \<Rightarrow> status_word" where
  "status_fields w = \<lparr>sw_sync = slice 0 3 w, sw_rt_address = int (bval (slice 3 8 w)),
     sw_message_error = int (bit_nat (w ! 8)), sw_instrumentation = int (bit_nat (w ! 9)),
     sw_service_request = int (bit_nat (w ! 10)), sw_reserved = int (bval (slice 11 14 w)),
     sw_broadcast_cmd = int (bit_nat (w ! 14)), sw_busy = int (bit_nat (w ! 15)),
     sw_subsystem_flag = int (bit_nat (w ! 16)), sw_dynamic_bus_control = int (bit_nat (w ! 17)),
     sw_terminal_flag = int (bit_nat (w ! 18)), sw_parity = int (bit_nat (w ! 19))\<rparr>"

definition data_fields :: "string \<Rightarrow> data_word" where
  "data_fields w = \<lparr>dw_sync = slice 0 3 w, dw_data = int (bval (slice 3 19 w)),
     dw_parity = int (bit_nat (w ! 19))\<rparr>"

text \<open>What every decoder does on a string of 20 bits: check the sync, check the parity, read the fields.\<close>

definition checked :: "string \<Rightarrow> (string \<Rightarrow> 'a) \<Rightarrow> string \<Rightarrow> 'a pyres" where
  "checked sync flds w =
     (if slice 0 3 w \<noteq> sync \<or> even (ones w) then Inl ValueError else Inr (flds w))"

lemma bc_text_checked:
  assumes "word20 w"
  shows "bc_decode_command_text w = checked COMMAND_SYNC command_fields w"
    "bc_decode_status_text w = checked COMMAND_SYNC status_fields w"
    "bc_decode_data_text w = checked DATA_SYNC data_fields w"
  by (simp_all add: bc_decode_command_text_def bc_decode_status_text_def bc_decode_data_text_def checked_def Let_def
      command_fields_def status_fields_def data_fields_def validate_parity_word [OF assms]
      py_int_slice [OF assms] py_int_nth [OF assms])

text \<open>A single word arrives at the bus controller as it is, as bytes, or as the first word of a JSON list.\<close>

lemma bits_not_bracket: "bits w \<Longrightarrow> \<not> prefix ''['' w"
  by (cases w) (auto simp: is_bit_def)

lemma decode_ascii_bits: "bits w \<Longrightarrow> decode_ascii w = Inr w"
proof -
  assume "bits w"
  then have "list_all (\<lambda>c. (of_char c :: nat) < 128) w"
    unfolding bits_def by (rule list.pred_mono_strong) (auto simp: is_bit_def)
  then show ?thesis by (simp add: decode_ascii_def)
qed

lemma raw_text_bits: "bits w \<Longrightarrow> r \<in> {RawBytes w, RawStr w} \<Longrightarrow> raw_text r = Inr w"
  by (auto simp: decode_ascii_bits)

lemma bc_parse_single: "bits w \<Longrightarrow> r \<in> {RawBytes w, RawStr w} \<Longrightarrow> bc_parse_raw_data r = Inr [PStr w]"
  by (simp add: bc_parse_raw_data_def raw_text_bits bits_not_bracket)

lemma suffix_dumps: "suffix '']'' (json_dumps_list ws)"
proof -
  have "suffix '']'' (json_items ws)"
    by (induction ws rule: json_items.induct) (auto simp: suffix_def)
  then show ?thesis by (auto simp: json_dumps_list_def suffix_def)
qed

lemma bc_parse_list:
  assumes "\<forall>w\<in>set ws. bits w"
  shows "bc_parse_raw_data (RawStr (json_dumps_list ws)) = Inr (map PStr ws)"
  using json_loads_dumps [of ws] assms suffix_dumps [of ws]
  by (simp add: bc_parse_raw_data_def plain_bits) (simp add: json_dumps_list_def)

lemma bc_decode_word:
  assumes "word20 w" "r \<in> {RawBytes w, RawStr w}"
  shows "bc_decode_command_word r = checked COMMAND_SYNC command_fields w"
    "bc_decode_status_word r = checked COMMAND_SYNC status_fields w"
    "bc_decode_data_word r = checked DATA_SYNC data_fields w"
  using assms
  by (simp_all only: bc_decode_command_word_def bc_decode_status_word_def bc_decode_data_word_def
      bc_parse_single [OF word20_simps(1)] py_bind_simps)
     (simp_all add: first_word_def word_of_value_def word20_simps bc_text_checked)

lemma strip_bits: "bits w \<Longrightarrow> strip_list_chars w = w"
  unfolding strip_list_chars_def by (rule strip_with_id) (drule (1) bits_in, elim disjE, simp_all)

lemma rt_decode_word:
  assumes "word20 w" "r \<in> {RawBytes w, RawStr w}"
  shows "rt_decode_command_word r = checked COMMAND_SYNC command_fields w"
    "rt_decode_status_word r = checked STATUS_SYNC status_fields w"
    "rt_decode_data_word r = checked DATA_SYNC data_fields w"
proof -
  have t: "raw_text r = Inr w" using assms by (intro raw_text_bits) (auto simp: word20_def)
  show "rt_decode_command_word r = checked COMMAND_SYNC command_fields w"
    "rt_decode_status_word r = checked STATUS_SYNC status_fields w"
    "rt_decode_data_word r = checked DATA_SYNC data_fields w"
    by (simp_all add: t rt_decode_command_word_def rt_decode_status_word_def rt_decode_data_word_def
      strip_bits word20_simps [OF assms(1)] checked_def Let_def
      command_fields_def status_fields_def data_fields_def validate_parity_word [OF assms(1)]
      py_int_slice [OF assms(1)] py_int_nth [OF assms(1)])
qed

section \<open>The encoders in closed form\<close>

definition with_parity :: "string \<Rightarrow> string" where
  "with_parity p = p @ bc_calculate_parity p"

lemma rt_parity_eq: "rt_calculate_parity = bc_calculate_parity"
  by (rule ext) (simp add: rt_calculate_parity_def bc_calculate_parity_def)

lemma length_parity [simp]: "length (bc_calculate_parity p) = 1" "bits (bc_calculate_parity p)"
  by (simp_all add: bc_calculate_parity_def Let_def)

lemma with_parity_word: "bits p \<Longrightarrow> length p = 19 \<Longrightarrow> word20 (with_parity p)"
  by (simp add: with_parity_def word20_def)

lemma with_parity_odd: "odd (ones (with_parity p))"
  unfolding with_parity_def bc_calculate_parity_def Let_def by (simp, presburger)

text \<open>A word of odd parity is determined by its first 19 bits.\<close>

lemma with_parity_take: "word20 w \<Longrightarrow> odd (ones w) \<Longrightarrow> with_parity (take 19 w) = w"
proof -
  assume w: "word20 w" and odd: "odd (ones w)"
  have "w ! 19 = CHR ''0'' \<or> w ! 19 = CHR ''1''"
    using w by (intro bits_in) (auto simp: word20_def)
  then have "bc_calculate_parity (take 19 w) = [w ! 19]"
    using odd ones_last [OF word20_simps(2) [OF w]]
    by (elim disjE) (simp_all add: bc_calculate_parity_def Let_def, presburger+)
  moreover have "take 19 w @ [w ! 19] = w"
    using take_Suc_conv_app_nth [of 19 w] w by (simp add: word20_def)
  ultimately show ?thesis by (simp add: with_parity_def)
qed

definition command_body :: "int \<Rightarrow> int \<Rightarrow> int \<Rightarrow> int \<Rightarrow> string" where
  "command_body rt tr sa wc = ''100'' @ fmt_bin 5 rt @ py_str_int tr @ fmt_bin 5 sa @ fmt_bin 5 wc"

definition valid_command :: "int \<times> int \<times> int \<times> int \<Rightarrow> bool" where
  "valid_command = (\<lambda>(rt, tr, sa, wc).
     0 \<le> rt \<and> rt \<le> 31 \<and> tr \<in> {0, 1} \<and> 0 \<le> sa \<and> sa \<le> 31 \<and> 0 \<le> wc \<and> wc \<le> 31)"

definition bit01 :: "int \<Rightarrow> char" where
  "bit01 n = (if n = 1 then CHR ''1'' else CHR ''0'')"

lemma py_str_bit: "n \<in> {0, 1} \<Longrightarrow> py_str_int n = [bit01 n]"
  by (auto simp: py_str_int_def bit01_def dec_str_digit char_of_01)

lemma bit01_simps [simp]: "is_bit (bit01 n)" "n \<in> {0, 1} \<Longrightarrow> int (bit_nat (bit01 n)) = n"
  by (auto simp: bit01_def)

lemma fmt5: "0 \<le> n \<Longrightarrow> n \<le> 31 \<Longrightarrow> length (fmt_bin 5 n) = 5 \<and> bits (fmt_bin 5 n) \<and> int (bval (fmt_bin 5 n)) = n"
  using length_fmt_bin [of 5 n] by (simp add: bits_fmt_bin bval_fmt_bin)

lemma fmt16: "0 \<le> n \<Longrightarrow> n \<le> 65535 \<Longrightarrow> length (fmt_bin 16 n) = 16 \<and> bits (fmt_bin 16 n) \<and> int (bval (fmt_bin 16 n)) = n"
  using length_fmt_bin [of 16 n] by (simp add: bits_fmt_bin bval_fmt_bin)

lemma command_body_word:
  "valid_command (rt, tr, sa, wc) \<Longrightarrow>
     bits (command_body rt tr sa wc) \<and> length (command_body rt tr sa wc) = 19"
  unfolding valid_command_def command_body_def using fmt5 [of rt] fmt5 [of sa] fmt5 [of wc]
  by (simp add: py_str_bit del: insert_iff)

lemma bc_encode_command_eq:
  "bc_encode_command_word rt tr sa wc =
     (if valid_command (rt, tr, sa, wc) then Inr (with_parity (command_body rt tr sa wc)) else Inl ValueError)"
proof (cases "valid_command (rt, tr, sa, wc)")
  case True
  with command_body_word have "length (with_parity (command_body rt tr sa wc)) = 20"
    by (simp add: with_parity_def)
  with True show ?thesis
    by (simp add: bc_encode_command_word_def valid_command_def Let_def with_parity_def command_body_def del: insert_iff)
next
  case False
  then show ?thesis by (auto simp: bc_encode_command_word_def valid_command_def)
qed

definition data_body :: "int \<Rightarrow> string" where
  "data_body d = ''001'' @ fmt_bin 16 d"

definition valid_data :: "int \<Rightarrow> bool" where
  "valid_data d = (0 \<le> d \<and> d \<le> 65535)"

lemma data_body_word: "valid_data d \<Longrightarrow> bits (data_body d) \<and> length (data_body d) = 19"
  unfolding valid_data_def data_body_def using fmt16 [of d] by simp

lemma bc_encode_data_eq:
  "bc_encode_data_word d = (if valid_data d then Inr (with_parity (data_body d)) else Inl ValueError)"
  using data_body_word [of d]
  by (auto simp: bc_encode_data_word_def valid_data_def Let_def with_parity_def data_body_def)

lemma rt_encode_data_eq: "rt_encode_data_word (AInt d) = bc_encode_data_word d"
  by (simp add: rt_encode_data_word_def rt_data_value_def bc_encode_data_word_def rt_parity_eq DATA_SYNC_def)

lemma rt_encode_data_str:
  assumes "bits s" "length s = 16"
  shows "rt_encode_data_word (AStr s) = bc_encode_data_word (int (bval s))"
  using assms py_int_bits [OF assms(1)] list.size(3) [where 'a = char]
  by (cases "s = []") (simp_all add: rt_encode_data_word_def rt_data_value_def bc_encode_data_word_def rt_parity_eq DATA_SYNC_def
      bits_def [symmetric])

definition status_body :: "int \<Rightarrow> status_flags \<Rightarrow> string" where
  "status_body rt f = ''100'' @ fmt_bin 5 rt @ [bit01 (f_message_error f), bit01 (f_instrumentation f),
     bit01 (f_service_request f)] @ ''000'' @ [bit01 (f_broadcast_cmd f), bit01 (f_busy f),
     bit01 (f_subsystem_flag f), bit01 (f_dynamic_bus_control f), bit01 (f_terminal_flag f)]"

definition valid_flags :: "status_flags \<Rightarrow> bool" where
  "valid_flags f = (set [f_message_error f, f_instrumentation f, f_service_request f, f_broadcast_cmd f,
     f_busy f, f_subsystem_flag f, f_dynamic_bus_control f, f_terminal_flag f] \<subseteq> {0, 1})"

definition valid_status :: "int \<times> status_flags \<Rightarrow> bool" where
  "valid_status = (\<lambda>(rt, f). 0 \<le> rt \<and> rt \<le> 31 \<and> valid_flags f)"

lemma status_body_word:
  "0 \<le> rt \<Longrightarrow> rt \<le> 31 \<Longrightarrow> bits (status_body rt f) \<and> length (status_body rt f) = 19"
  unfolding status_body_def using fmt5 [of rt] by simp

lemma rt_encode_status_eq:
  assumes "valid_status (rt, f)"
  shows "rt_encode_status_word (AInt rt) f = Inr (with_parity (status_body rt f))"
proof -
  have s: "py_str_int (f_message_error f) = [bit01 (f_message_error f)]"
    "py_str_int (f_instrumentation f) = [bit01 (f_instrumentation f)]"
    "py_str_int (f_service_request f) = [bit01 (f_service_request f)]"
    "py_str_int (f_broadcast_cmd f) = [bit01 (f_broadcast_cmd f)]"
    "py_str_int (f_busy f) = [bit01 (f_busy f)]"
    "py_str_int (f_subsystem_flag f) = [bit01 (f_subsystem_flag f)]"
    "py_str_int (f_dynamic_bus_control f) = [bit01 (f_dynamic_bus_control f)]"
    "py_str_int (f_terminal_flag f) = [bit01 (f_terminal_flag f)]"
    using assms by (auto simp: valid_status_def valid_flags_def py_str_bit)
  have rt: "0 \<le> rt" "rt \<le> 31" using assms by (simp_all add: valid_status_def)
  then have "length (with_parity (status_body rt f)) = 20"
    using status_body_word [of rt f] by (simp add: with_parity_def)
  with rt show ?thesis
    by (simp add: rt_encode_status_word_def rt_addr_value_def s Let_def with_parity_def status_body_def
        STATUS_SYNC_def rt_parity_eq)
qed

section \<open>Reading back what was written\<close>

lemma checked_with_parity:
  "slice 0 3 (with_parity p) = sync \<Longrightarrow> checked sync flds (with_parity p) = Inr (flds (with_parity p))"
  by (simp add: checked_def with_parity_odd)

lemma command_body_fields:
  assumes "valid_command (rt, tr, sa, wc)"
  defines "w \<equiv> with_parity (command_body rt tr sa wc)"
  shows "slice 0 3 w = ''100''" "slice 3 8 w = fmt_bin 5 rt" "w ! 8 = bit01 tr"
    "slice 9 14 w = fmt_bin 5 sa" "slice 14 19 w = fmt_bin 5 wc"
proof -
  have l: "length (fmt_bin 5 rt) = 5" "length (fmt_bin 5 sa) = 5" "length (fmt_bin 5 wc) = 5"
    "py_str_int tr = [bit01 tr]"
    using assms(1) fmt5 py_str_bit [of tr] by (auto simp: valid_command_def)
  show "slice 0 3 w = ''100''"
    by (simp add: w_def with_parity_def command_body_def slice_def)
  show "slice 3 8 w = fmt_bin 5 rt" "w ! 8 = bit01 tr"
    "slice 9 14 w = fmt_bin 5 sa" "slice 14 19 w = fmt_bin 5 wc"
    using l by (simp_all add: w_def with_parity_def command_body_def slice_def nth_append nth_Cons')
qed

lemma data_body_fields:
  assumes "valid_data d"
  defines "w \<equiv> with_parity (data_body d)"
  shows "slice 0 3 w = ''001''" "slice 3 19 w = fmt_bin 16 d"
proof -
  have "length (fmt_bin 16 d) = 16" using assms(1) fmt16 [of d] by (simp add: valid_data_def)
  then show "slice 0 3 w = ''001''" "slice 3 19 w = fmt_bin 16 d"
    by (simp_all add: w_def with_parity_def data_body_def slice_def)
qed

lemma status_body_fields:
  fixes f :: status_flags
  assumes "0 \<le> rt" "rt \<le> 31"
  defines "w \<equiv> with_parity (status_body rt f)"
  shows "slice 0 3 w = ''100''" "slice 3 8 w = fmt_bin 5 rt" "w ! 8 = bit01 (f_message_error f)"
    "w ! 9 = bit01 (f_instrumentation f)" "w ! 10 = bit01 (f_service_request f)"
    "slice 11 14 w = ''000''" "w ! 14 = bit01 (f_broadcast_cmd f)" "w ! 15 = bit01 (f_busy f)"
    "w ! 16 = bit01 (f_subsystem_flag f)" "w ! 17 = bit01 (f_dynamic_bus_control f)"
    "w ! 18 = bit01 (f_terminal_flag f)"
proof -
  have l: "length (fmt_bin 5 rt) = 5" using assms(1,2) fmt5 [of rt] by simp
  show "slice 0 3 w = ''100''" "slice 3 8 w = fmt_bin 5 rt" "slice 11 14 w = ''000''"
    using l by (simp_all add: w_def with_parity_def status_body_def slice_def)
  show "w ! 8 = bit01 (f_message_error f)"
    "w ! 9 = bit01 (f_instrumentation f)" "w ! 10 = bit01 (f_service_request f)"
    "w ! 14 = bit01 (f_broadcast_cmd f)" "w ! 15 = bit01 (f_busy f)"
    "w ! 16 = bit01 (f_subsystem_flag f)" "w ! 17 = bit01 (f_dynamic_bus_control f)"
    "w ! 18 = bit01 (f_terminal_flag f)"
    using l by (simp_all add: w_def with_parity_def status_body_def nth_append nth_Cons')
qed

text \<open>Conversely a checked word is the encoding of its own fields.\<close>

lemma word20_split:
  assumes "word20 w"
  shows "take 19 w = slice 0 3 w @ slice 3 8 w @ [w ! 8] @ slice 9 14 w @ slice 14 19 w"
    "take 19 w = slice 0 3 w @ slice 3 19 w"
proof -
  have l: "length w = 20" using assms by (rule word20_simps)
  show "take 19 w = slice 0 3 w @ slice 3 8 w @ [w ! 8] @ slice 9 14 w @ slice 14 19 w"
    using l by (intro nth_equalityI)
       (auto simp: slice_def nth_append nth_Cons', rule arg_cong [where f = "nth w"], linarith)
  show "take 19 w = slice 0 3 w @ slice 3 19 w"
    using l by (intro nth_equalityI) (auto simp: slice_def nth_append)
qed

lemma fmt_slice:
  "word20 w \<Longrightarrow> i < j \<Longrightarrow> j \<le> 20 \<Longrightarrow> fmt_bin (j - i) (int (bval (slice i j w))) = slice i j w"
  using slice_props [of w i j] fmt_bin_bval [of "slice i j w"] by (cases "slice i j w") auto

lemma py_str_nth: "word20 w \<Longrightarrow> i < 20 \<Longrightarrow> py_str_int (int (bit_nat (w ! i))) = [w ! i]"
proof -
  assume "word20 w" "i < 20"
  then have "w ! i = CHR ''0'' \<or> w ! i = CHR ''1''" by (intro bits_in) (auto simp: word20_def)
  then show ?thesis by (auto simp: py_str_bit bit01_def)
qed

lemma slice_range: "word20 w \<Longrightarrow> i < j \<Longrightarrow> j \<le> 20 \<Longrightarrow> bval (slice i j w) < 2 ^ (j - i)"
  using bval_bound [of "slice i j w"] slice_props [of w i j] by simp

lemma bit_nat_01: "int (bit_nat c) \<in> {0, 1}"
  by (simp add: bit_nat_def)

lemma command_of_word:
  assumes w: "word20 w" and ok: "checked ''100'' command_fields w = Inr f"
  shows "valid_command (cw_rt_address f, cw_tr_bit f, cw_subaddress_mode f, cw_word_count_mode f) \<and>
    with_parity (command_body (cw_rt_address f) (cw_tr_bit f) (cw_subaddress_mode f) (cw_word_count_mode f)) = w"
proof -
  from ok have sync: "slice 0 3 w = ''100''" and odd: "odd (ones w)" and f: "f = command_fields w"
    by (auto simp: checked_def split: if_splits)
  have "command_body (cw_rt_address f) (cw_tr_bit f) (cw_subaddress_mode f) (cw_word_count_mode f) = take 19 w"
    using fmt_slice [OF w, of 3 8] fmt_slice [OF w, of 9 14] fmt_slice [OF w, of 14 19] py_str_nth [OF w, of 8] sync
    by (simp add: f command_fields_def command_body_def word20_split(1) [OF w])
  then show ?thesis
    using with_parity_take [OF w odd] slice_range [OF w, of 3 8] slice_range [OF w, of 9 14]
      slice_range [OF w, of 14 19] bit_nat_01 [of "w ! 8"]
    by (simp add: f command_fields_def valid_command_def)
qed

lemma data_of_word:
  assumes w: "word20 w" and ok: "checked ''001'' data_fields w = Inr f"
  shows "valid_data (dw_data f) \<and> with_parity (data_body (dw_data f)) = w"
proof -
  from ok have sync: "slice 0 3 w = ''001''" and odd: "odd (ones w)" and f: "f = data_fields w"
    by (auto simp: checked_def split: if_splits)
  have "data_body (dw_data f) = take 19 w"
    using fmt_slice [OF w, of 3 19] sync
    by (simp add: f data_fields_def data_body_def word20_split(2) [OF w])
  then show ?thesis
    using with_parity_take [OF w odd] slice_range [OF w, of 3 19] by (simp add: f data_fields_def valid_data_def)
qed

section \<open>Codecs of odd-parity words\<close>

definition flip_bit :: "nat \<Rightarrow> string \<Rightarrow> string" where
  "flip_bit i w = w[i := (if w ! i = CHR ''1'' then CHR ''0'' else CHR ''1'')]"

definition hamming :: "string \<Rightarrow> string \<Rightarrow> nat" where
  "hamming u v = length (filter (\<lambda>(a, b). a \<noteq> b) (zip u v))"

lemma ones_update:
  "i < length w \<Longrightarrow> ones (w[i := c]) + bit_nat (w ! i) = ones w + bit_nat c"
  by (induction w arbitrary: i) (auto split: nat.split)

lemma flip_bit_word: "word20 w \<Longrightarrow> i < 20 \<Longrightarrow> word20 (flip_bit i w)"
  by (auto simp: word20_def flip_bit_def bits_def list_all_length nth_list_update)

lemma flip_bit_parity: "word20 w \<Longrightarrow> i < 20 \<Longrightarrow> odd (ones (flip_bit i w)) = even (ones w)"
proof -
  assume w: "word20 w" "i < 20"
  then have "i < length w" by (simp add: word20_def)
  then have "w ! i = CHR ''0'' \<or> w ! i = CHR ''1''" using w by (intro bits_in) (auto simp: word20_def)
  then show ?thesis
    using ones_update [OF \<open>i < length w\<close>, of "if w ! i = CHR ''1'' then CHR ''0'' else CHR ''1''"]
    by (elim disjE) (simp_all add: flip_bit_def, presburger+)
qed

lemma hamming_eq_0: "length u = length v \<Longrightarrow> hamming u v = 0 \<Longrightarrow> u = v"
  by (induction u v rule: list_induct2) (auto simp: hamming_def split: if_splits)

lemma hamming_parity:
  "length u = length v \<Longrightarrow> bits u \<Longrightarrow> bits v \<Longrightarrow> even (hamming u v) \<longleftrightarrow> (even (ones u) \<longleftrightarrow> even (ones v))"
  by (induction u v rule: list_induct2) (auto simp: hamming_def is_bit_def)

locale word_codec =
  fixes enc :: "'f \<Rightarrow> string" and dec :: "string \<Rightarrow> 'f pyres" and valid :: "'f \<Rightarrow> bool"
  assumes enc_word: "valid f \<Longrightarrow> word20 (enc f)"
    and enc_odd: "valid f \<Longrightarrow> odd (ones (enc f))"
    and dec_enc: "valid f \<Longrightarrow> dec (enc f) = Inr f"
    and dec_odd: "word20 w \<Longrightarrow> is_ok (dec w) \<Longrightarrow> odd (ones w)"
begin

lemma enc_inj: "valid f \<Longrightarrow> valid g \<Longrightarrow> enc f = enc g \<Longrightarrow> f = g"
  by (metis dec_enc sum.inject(2))

lemma single_error: "valid f \<Longrightarrow> i < 20 \<Longrightarrow> \<not> is_ok (dec (flip_bit i (enc f)))"
  using dec_odd [OF flip_bit_word [OF enc_word]] flip_bit_parity [OF enc_word] enc_odd by blast

lemma distance: "valid f \<Longrightarrow> valid g \<Longrightarrow> f \<noteq> g \<Longrightarrow> 2 \<le> hamming (enc f) (enc g)"
proof -
  assume a: "valid f" "valid g" "f \<noteq> g"
  then have w: "word20 (enc f)" "word20 (enc g)" by (simp_all add: enc_word)
  have "even (hamming (enc f) (enc g))"
    using hamming_parity [of "enc f" "enc g"] w a enc_odd by (simp add: word20_def)
  moreover have "hamming (enc f) (enc g) \<noteq> 0"
    using hamming_eq_0 [of "enc f" "enc g"] enc_inj a w by (auto simp: word20_def)
  ultimately show ?thesis by presburger
qed

end

text \<open>A codec that decodes nothing but what it encodes.\<close>

locale exact_word_codec = word_codec +
  assumes enc_dec: "word20 w \<Longrightarrow> dec w = Inr f \<Longrightarrow> valid f \<and> enc f = w"
begin

lemma dec_iff: "word20 w \<Longrightarrow> dec w = Inr f \<longleftrightarrow> valid f \<and> enc f = w"
  using enc_dec dec_enc by blast

lemma decodable_iff_image: "word20 w \<Longrightarrow> is_ok (dec w) \<longleftrightarrow> w \<in> enc ` {f. valid f}"
  using dec_iff by (auto simp: is_ok_iff)

end

text \<open>The words as the wire carries them: what the sender encodes and what the receiver reads back.\<close>

definition enc_command :: "int \<times> int \<times> int \<times> int \<Rightarrow> string" where
  "enc_command = (\<lambda>(rt, tr, sa, wc). py_except (bc_encode_command_word rt tr sa wc) [])"

definition map_ok :: "('a \<Rightarrow> 'b) \<Rightarrow> 'a pyres \<Rightarrow> 'b pyres" where
  "map_ok g r = py_bind r (\<lambda>v. Inr (g v))"

definition rt_dec_command :: "string \<Rightarrow> (int \<times> int \<times> int \<times> int) pyres" where
  "rt_dec_command w = map_ok (\<lambda>f. (cw_rt_address f, cw_tr_bit f, cw_subaddress_mode f, cw_word_count_mode f))
     (rt_decode_command_word (RawBytes w))"

definition enc_data :: "int \<Rightarrow> string" where
  "enc_data d = py_except (bc_encode_data_word d) []"

definition rt_dec_data :: "string \<Rightarrow> int pyres" where
  "rt_dec_data w = map_ok dw_data (rt_decode_data_word (RawBytes w))"

definition enc_status :: "int \<times> status_flags \<Rightarrow> string" where
  "enc_status = (\<lambda>(rt, f). py_except (rt_encode_status_word (AInt rt) f) [])"

definition flags_of :: "status_word \<Rightarrow> status_flags" where
  "flags_of s = \<lparr>f_message_error = sw_message_error s, f_instrumentation = sw_instrumentation s,
     f_service_request = sw_service_request s, f_broadcast_cmd = sw_broadcast_cmd s, f_busy = sw_busy s,
     f_subsystem_flag = sw_subsystem_flag s, f_dynamic_bus_control = sw_dynamic_bus_control s,
     f_terminal_flag = sw_terminal_flag s\<rparr>"

definition bc_dec_status :: "string \<Rightarrow> (int \<times> status_flags) pyres" where
  "bc_dec_status w = map_ok (\<lambda>s. (sw_rt_address s, flags_of s)) (bc_decode_status_word (RawBytes w))"

lemma map_ok_simps [simp]: "map_ok g (Inr v) = Inr (g v)" "map_ok g (Inl e) = Inl e"
  by (simp_all add: map_ok_def)

lemma is_ok_map_ok [simp]: "is_ok (map_ok g r) = is_ok r"
  by (cases r) simp_all

lemma checked_ok_odd: "is_ok (checked sync g w) \<Longrightarrow> odd (ones w)"
  by (auto simp: checked_def split: if_splits)

lemma enc_command_word: "valid_command f \<Longrightarrow> word20 (enc_command f) \<and> odd (ones (enc_command f))"
  using command_body_word
  by (cases f) (auto simp: enc_command_def bc_encode_command_eq with_parity_odd intro!: with_parity_word)

lemma enc_data_word: "valid_data d \<Longrightarrow> word20 (enc_data d) \<and> odd (ones (enc_data d))"
  using data_body_word by (auto simp: enc_data_def bc_encode_data_eq with_parity_odd intro!: with_parity_word)

lemma enc_status_word: "valid_status f \<Longrightarrow> word20 (enc_status f) \<and> odd (ones (enc_status f))"
  using status_body_word
  by (cases f) (auto simp: enc_status_def rt_encode_status_eq with_parity_odd valid_status_def
      intro!: with_parity_word)

lemma rt_dec_command_enc: "valid_command f \<Longrightarrow> rt_dec_command (enc_command f) = Inr f"
proof (cases f)
  case (fields rt tr sa wc)
  assume v: "valid_command f"
  then have w: "word20 (with_parity (command_body rt tr sa wc))"
    using enc_command_word [OF v] by (simp add: fields enc_command_def bc_encode_command_eq)
  have tr: "int (bit_nat (bit01 tr)) = tr" using v by (intro bit01_simps) (auto simp: valid_command_def fields)
  show ?thesis
    using v fmt5 [of rt] fmt5 [of sa] fmt5 [of wc] command_body_fields [of rt tr sa wc] tr
    by (simp add: enc_command_def bc_encode_command_eq fields rt_dec_command_def rt_decode_word [OF w]
        checked_with_parity COMMAND_SYNC_def command_fields_def valid_command_def)
qed

interpretation command_codec: exact_word_codec enc_command rt_dec_command valid_command
proof unfold_locales
  fix w f
  assume w: "word20 w" and d: "rt_dec_command w = Inr f"
  have "rt_decode_command_word (RawBytes w) = checked COMMAND_SYNC command_fields w"
    using rt_decode_word(1) [OF w, of "RawBytes w"] by simp
  with d obtain c where c: "checked COMMAND_SYNC command_fields w = Inr c"
    and f: "f = (cw_rt_address c, cw_tr_bit c, cw_subaddress_mode c, cw_word_count_mode c)"
    by (auto simp: rt_dec_command_def map_ok_def py_bind_eq_Inr)
  show "valid_command f \<and> enc_command f = w"
    using command_of_word [OF w c [unfolded COMMAND_SYNC_def]]
    by (simp add: f enc_command_def bc_encode_command_eq)
next
  show "odd (ones w)" if "word20 w" "is_ok (rt_dec_command w)" for w
    using that rt_decode_word(1) [OF that(1), of "RawBytes w"]
    by (auto simp: rt_dec_command_def dest: checked_ok_odd)
qed (use enc_command_word rt_dec_command_enc in auto)

lemma rt_dec_data_enc: "valid_data d \<Longrightarrow> rt_dec_data (enc_data d) = Inr d"
proof -
  assume v: "valid_data d"
  then have w: "word20 (with_parity (data_body d))"
    using enc_data_word [OF v] by (simp add: enc_data_def bc_encode_data_eq)
  show ?thesis
    using v fmt16 [of d] data_body_fields [OF v]
    by (simp add: enc_data_def bc_encode_data_eq rt_dec_data_def rt_decode_word [OF w]
        checked_with_parity DATA_SYNC_def data_fields_def valid_data_def)
qed

interpretation data_codec: exact_word_codec enc_data rt_dec_data valid_data
proof unfold_locales
  fix w d
  assume w: "word20 w" and d: "rt_dec_data w = Inr d"
  have "rt_decode_data_word (RawBytes w) = checked DATA_SYNC data_fields w"
    using rt_decode_word(3) [OF w, of "RawBytes w"] by simp
  with d obtain c where c: "checked DATA_SYNC data_fields w = Inr c" and f: "d = dw_data c"
    by (auto simp: rt_dec_data_def map_ok_def py_bind_eq_Inr)
  show "valid_data d \<and> enc_data d = w"
    using data_of_word [OF w c [unfolded DATA_SYNC_def]] by (simp add: f enc_data_def bc_encode_data_eq)
next
  show "odd (ones w)" if "word20 w" "is_ok (rt_dec_data w)" for w
    using that rt_decode_word(3) [OF that(1), of "RawBytes w"]
    by (auto simp: rt_dec_data_def dest: checked_ok_odd)
qed (use enc_data_word rt_dec_data_enc in auto)

lemma bc_dec_status_enc: "valid_status s \<Longrightarrow> bc_dec_status (enc_status s) = Inr s"
proof (cases s)
  case (Pair rt f)
  assume v: "valid_status s"
  then have rt: "0 \<le> rt" "rt \<le> 31" by (simp_all add: Pair valid_status_def)
  have w: "word20 (with_parity (status_body rt f))"
    using enc_status_word [OF v] v by (simp add: Pair enc_status_def rt_encode_status_eq)
  have "flags_of (status_fields (with_parity (status_body rt f))) = f"
    using v by (cases f)
      (simp add: Pair valid_status_def valid_flags_def flags_of_def status_fields_def status_body_fields [OF rt])
  then show ?thesis
    using v fmt5 [OF rt] status_body_fields [OF rt, of f]
    by (simp add: Pair enc_status_def rt_encode_status_eq bc_dec_status_def bc_decode_word [OF w]
        checked_with_parity COMMAND_SYNC_def) (simp add: status_fields_def)
qed

interpretation status_codec: word_codec enc_status bc_dec_status valid_status
proof unfold_locales
  show "odd (ones w)" if "word20 w" "is_ok (bc_dec_status w)" for w
    using that bc_decode_word(2) [OF that(1), of "RawBytes w"]
    by (auto simp: bc_dec_status_def dest: checked_ok_odd)
qed (use enc_status_word bc_dec_status_enc in auto)

lemma data_word_decodes:
  assumes "bc_encode_data_word d = Inr w" "r \<in> {RawBytes w, RawStr w}"
  shows "\<exists>p. rt_decode_data_word r = Inr \<lparr>dw_sync = ''001'', dw_data = d, dw_parity = p\<rparr>"
proof -
  have v: "valid_data d" and wp: "w = with_parity (data_body d)"
    using assms(1) by (auto simp: bc_encode_data_eq split: if_splits)
  have w: "word20 w" using enc_data_word [OF v] assms(1) by (simp add: enc_data_def)
  have "checked DATA_SYNC data_fields w = Inr \<lparr>dw_sync = ''001'', dw_data = d, dw_parity = int (bit_nat (w ! 19))\<rparr>"
    using v data_body_fields [OF v] fmt16 [of d]
    by (simp add: wp checked_with_parity DATA_SYNC_def data_fields_def valid_data_def)
  then show ?thesis using rt_decode_word(3) [OF w assms(2)] by simp
qed

lemma command_word_decodes:
  assumes "bc_encode_command_word rt tr sa wc = Inr w"
    "r \<in> {RawBytes w, RawStr w, RawStr (''['' @ [CHR 0x27] @ w @ [CHR 0x27] @ '']'')}"
  shows "\<exists>p. rt_decode_command_word r = Inr \<lparr>cw_sync = ''100'', cw_rt_address = rt, cw_tr_bit = tr,
      cw_subaddress_mode = sa, cw_word_count_mode = wc, cw_parity = p\<rparr>"
proof -
  have v: "valid_command (rt, tr, sa, wc)" and wp: "w = with_parity (command_body rt tr sa wc)"
    using assms(1) by (auto simp: bc_encode_command_eq split: if_splits)
  have w: "word20 w" using enc_command_word [OF v] assms(1) by (simp add: enc_command_def)
  have tr: "int (bit_nat (bit01 tr)) = tr" using v by (intro bit01_simps) (auto simp: valid_command_def)
  let ?f = "\<lparr>cw_sync = ''100'', cw_rt_address = rt, cw_tr_bit = tr, cw_subaddress_mode = sa,
      cw_word_count_mode = wc, cw_parity = int (bit_nat (w ! 19))\<rparr>"
  have c: "checked COMMAND_SYNC command_fields w = Inr ?f"
    using v command_body_fields [OF v] fmt5 [of rt] fmt5 [of sa] fmt5 [of wc] tr
    by (simp add: wp checked_with_parity COMMAND_SYNC_def command_fields_def valid_command_def)
  have s: "strip_list_chars (''['' @ [CHR 0x27] @ w @ [CHR 0x27] @ '']'') = strip_list_chars w"
    using strip_with_outer [of "''['' @ [CHR 0x27]" _ "[CHR 0x27] @ '']''" w] by (simp add: strip_list_chars_def)
  have "rt_decode_command_word (RawStr (''['' @ [CHR 0x27] @ w @ [CHR 0x27] @ '']''))
      = rt_decode_command_word (RawStr w)"
    by (simp only: rt_decode_command_word_def raw_text.simps py_bind_simps s)
  then show ?thesis using assms(2) rt_decode_word(1) [OF w] c by auto
qed

lemma status_word_decodes:
  assumes "valid_status (rt, f)"
  shows "\<exists>w. rt_encode_status_word (AInt rt) f = Inr w \<and> length w = 20 \<and>
    (\<forall>r \<in> {RawBytes w, RawStr w}. bc_decode_status_word r = Inr (status_fields w)) \<and>
    sw_sync (status_fields w) = ''100'' \<and> sw_rt_address (status_fields w) = rt \<and> sw_reserved (status_fields w) = 0 \<and>
    flags_of (status_fields w) = f"
proof -
  let ?w = "with_parity (status_body rt f)"
  have a: "0 \<le> rt" "rt \<le> 31" "valid_flags f" using assms by (simp_all add: valid_status_def)
  have e: "rt_encode_status_word (AInt rt) f = Inr ?w" using assms by (rule rt_encode_status_eq)
  have w: "word20 ?w" using enc_status_word [OF assms] e by (simp add: enc_status_def)
  have z: "bval ''000'' = 0" using bval_zeros [of 3] by (simp add: numeral_eq_Suc)
  have f: "flags_of (status_fields ?w) = f"
    using a(3) by (cases f)
      (simp add: valid_flags_def flags_of_def status_fields_def status_body_fields [OF a(1,2)])
  have "bc_decode_status_word r = Inr (status_fields ?w)" if "r \<in> {RawBytes ?w, RawStr ?w}" for r
    using bc_decode_word(2) [OF w that] status_body_fields(1) [OF a(1,2), of f]
    by (simp add: checked_with_parity COMMAND_SYNC_def)
  then show ?thesis
    using e w f fmt5 [OF a(1,2)] status_body_fields [OF a(1,2), of f]
    by (auto simp: word20_def status_fields_def z)
qed

section \<open>Properties\<close>

text \<open>
  C1. Command words: what the bus controller encodes, the remote terminal reads back field by field,
  whether the word arrives as bytes, as text or wrapped in list punctuation; the encoder accepts exactly the
  arguments in range.
\<close>

theorem command_word_roundtrip:
  "case bc_encode_command_word rt tr sa wc of
     Inr w \<Rightarrow> length w = 20 \<and> bits w \<and> odd (ones w) \<and>
       (\<forall>r \<in> {RawBytes w, RawStr w, RawStr (''['' @ [CHR 0x27] @ w @ [CHR 0x27] @ '']'')}.
          \<exists>p. rt_decode_command_word r = Inr \<lparr>cw_sync = ''100'', cw_rt_address = rt, cw_tr_bit = tr,
            cw_subaddress_mode = sa, cw_word_count_mode = wc, cw_parity = p\<rparr>)
   | Inl e \<Rightarrow> e = ValueError \<and> \<not> (rt \<in> {0..31} \<and> tr \<in> {0, 1} \<and> sa \<in> {0..31} \<and> wc \<in> {0..31})"
proof (cases "valid_command (rt, tr, sa, wc)")
  case True
  then have e: "bc_encode_command_word rt tr sa wc = Inr (with_parity (command_body rt tr sa wc))"
    by (simp add: bc_encode_command_eq)
  have "word20 (with_parity (command_body rt tr sa wc))" using enc_command_word [OF True] e by (simp add: enc_command_def)
  then show ?thesis
    using e command_word_decodes [OF e] with_parity_odd [of "command_body rt tr sa wc"] by (auto simp: word20_def)
next
  case False
  then show ?thesis by (auto simp: bc_encode_command_eq valid_command_def)
qed

text \<open>
  Status words: what the remote terminal encodes, address and every flag, the bus controller reads back,
  with the reserved bits zero.
\<close>

theorem status_word_roundtrip:
  assumes "0 \<le> rt" "rt \<le> 31" "valid_flags f"
  shows "\<exists>w. rt_encode_status_word (AInt rt) f = Inr w \<and> length w = 20 \<and>
    (\<forall>r \<in> {RawBytes w, RawStr w}. \<exists>s. bc_decode_status_word r = Inr s \<and> sw_sync s = ''100'' \<and>
       sw_rt_address s = rt \<and> sw_reserved s = 0 \<and> flags_of s = f)"
  using status_word_decodes [of rt f] assms by (fastforce simp: valid_status_def)

theorem command_word_roundtrip_witness:
  "\<exists>w p. bc_encode_command_word 5 1 2 1 = Inr w \<and> rt_decode_command_word (RawBytes w) =
     Inr \<lparr>cw_sync = ''100'', cw_rt_address = 5, cw_tr_bit = 1, cw_subaddress_mode = 2, cw_word_count_mode = 1, cw_parity = p\<rparr>"
  using command_word_roundtrip [of 5 1 2 1] by (auto split: sum.splits)

theorem status_word_roundtrip_witness:
  "\<exists>w s. rt_encode_status_word (AInt 5) default_flags = Inr w \<and> bc_decode_status_word (RawStr w) = Inr s \<and>
     sw_rt_address s = 5 \<and> flags_of s = default_flags"
  using status_word_roundtrip [of 5 default_flags] by (fastforce simp: valid_flags_def default_flags_def)

text \<open>
  Data words: both sides encode a 16-bit value to the same word and read it back, the bus controller also
  when the word is the second of a JSON list.
\<close>

theorem data_word_roundtrip:
  "case bc_encode_data_word d of
     Inr w \<Rightarrow> rt_encode_data_word (AInt d) = Inr w \<and> rt_encode_data_word (AStr (fmt_bin 16 d)) = Inr w \<and>
       (\<exists>p. let f = \<lparr>dw_sync = ''001'', dw_data = d, dw_parity = p\<rparr>
          in bc_decode_data_word (RawBytes w) = Inr f \<and> rt_decode_data_word (RawBytes w) = Inr f \<and>
             (\<forall>c. bits c \<longrightarrow> bc_decode_data_word (RawStr (json_dumps_list [c, w])) = Inr f))
   | Inl e \<Rightarrow> e = ValueError \<and> d \<notin> {0..65535}"
proof (cases "valid_data d")
  case True
  let ?w = "with_parity (data_body d)"
  have e: "bc_encode_data_word d = Inr ?w" using True by (simp add: bc_encode_data_eq)
  have w: "word20 ?w" using enc_data_word [OF True] e by (simp add: enc_data_def)
  let ?f = "\<lparr>dw_sync = ''001'', dw_data = d, dw_parity = int (bit_nat (?w ! 19))\<rparr>"
  have c: "checked DATA_SYNC data_fields ?w = Inr ?f"
    using True data_body_fields [OF True] fmt16 [of d]
    by (simp add: checked_with_parity DATA_SYNC_def data_fields_def valid_data_def)
  have "bc_decode_data_word (RawStr (json_dumps_list [c, ?w])) = Inr ?f" if "bits c" for c
    using bc_parse_list [of "[c, ?w]"] that w \<open>checked DATA_SYNC data_fields ?w = Inr ?f\<close>
    by (simp add: word20_simps bc_decode_data_word_def word_of_value_def bc_text_checked)
  moreover have "rt_encode_data_word (AStr (fmt_bin 16 d)) = Inr ?w"
    using rt_encode_data_str [of "fmt_bin 16 d"] fmt16 [of d] True e by (simp add: valid_data_def)
  ultimately show ?thesis
    using e c bc_decode_word(3) [OF w] rt_decode_word(3) [OF w] by (auto simp: rt_encode_data_eq)
next
  case False
  then show ?thesis by (auto simp: bc_encode_data_eq valid_data_def)
qed

theorem data_word_roundtrip_witness:
  "\<exists>w f. bc_encode_data_word 513 = Inr w \<and> dw_data f = 513 \<and>
     bc_decode_data_word (RawStr (json_dumps_list [''1'', w])) = Inr f"
proof -
  obtain w where w: "bc_encode_data_word 513 = Inr w" using data_word_roundtrip [of 513] by (auto split: sum.splits)
  have "bits ''1''" by simp
  with data_word_roundtrip [of 513] show ?thesis by (fastforce simp: w Let_def)
qed

text \<open>
  C2. Any single bit error in a word sent by the bus controller or in a status word is detected: the word with
  one bit flipped is rejected by the receiving decoder, whichever bit it is.
\<close>

theorem single_bit_error_detected:
  assumes "i < 20"
  shows "(bc_encode_command_word rt tr sa wc = Inr w \<longrightarrow> \<not> is_ok (rt_decode_command_word (RawBytes (flip_bit i w)))) \<and>
    (bc_encode_data_word d = Inr w \<longrightarrow> \<not> is_ok (rt_decode_data_word (RawBytes (flip_bit i w)))) \<and>
    (valid_flags f \<longrightarrow> rt_encode_status_word (AInt a) f = Inr w \<longrightarrow>
       \<not> is_ok (bc_decode_status_word (RawBytes (flip_bit i w))))"
proof (intro conjI impI)
  show "\<not> is_ok (rt_decode_command_word (RawBytes (flip_bit i w)))" if "bc_encode_command_word rt tr sa wc = Inr w"
    using command_codec.single_error [of "(rt, tr, sa, wc)", OF _ assms] that
    by (simp add: enc_command_def rt_dec_command_def bc_encode_command_eq split: if_splits)
  show "\<not> is_ok (rt_decode_data_word (RawBytes (flip_bit i w)))" if "bc_encode_data_word d = Inr w"
    using data_codec.single_error [of d, OF _ assms] that
    by (simp add: enc_data_def rt_dec_data_def bc_encode_data_eq split: if_splits)
  show "\<not> is_ok (bc_decode_status_word (RawBytes (flip_bit i w)))"
    if "valid_flags f" "rt_encode_status_word (AInt a) f = Inr w"
  proof -
    have "valid_status (a, f)"
      using that by (auto simp: valid_status_def rt_encode_status_word_def rt_addr_value_def split: if_splits)
    then show ?thesis
      using status_codec.single_error [of "(a, f)", OF _ assms] that by (simp add: enc_status_def bc_dec_status_def)
  qed
qed

theorem single_bit_error_detected_witness:
  "\<exists>w. bc_encode_data_word 7 = Inr w \<and> \<not> is_ok (rt_decode_data_word (RawBytes (flip_bit 3 w)))"
proof -
  have "is_ok (bc_encode_data_word 7)" by (simp add: bc_encode_data_eq valid_data_def)
  then show ?thesis using single_bit_error_detected [where i = 3 and d = 7] by (auto simp: is_ok_iff)
qed

text \<open>
  C3. On strings of 20 bits the remote terminal's decoder accepts nothing but what the bus controller's encoder
  produces: it decodes a command word exactly when some arguments encode to it, and then returns those
  arguments.
\<close>

theorem command_decoder_exact:
  assumes "length w = 20" "bits w"
  shows "(is_ok (rt_decode_command_word (RawBytes w)) \<longleftrightarrow> (\<exists>rt tr sa wc. bc_encode_command_word rt tr sa wc = Inr w)) \<and>
    (rt_decode_command_word (RawBytes w) = Inr f \<longrightarrow>
       bc_encode_command_word (cw_rt_address f) (cw_tr_bit f) (cw_subaddress_mode f) (cw_word_count_mode f) = Inr w)"
proof (intro conjI impI)
  have w: "word20 w" using assms by (simp add: word20_def)
  show dec: "bc_encode_command_word (cw_rt_address f) (cw_tr_bit f) (cw_subaddress_mode f) (cw_word_count_mode f) = Inr w"
    if "rt_decode_command_word (RawBytes w) = Inr f" for f
    using command_codec.enc_dec [OF w, of "(cw_rt_address f, cw_tr_bit f, cw_subaddress_mode f, cw_word_count_mode f)"] that
    by (auto simp: rt_dec_command_def enc_command_def bc_encode_command_eq)
  have "is_ok (rt_decode_command_word (RawBytes w))" if "bc_encode_command_word rt tr sa wc = Inr w" for rt tr sa wc
    using command_codec.dec_enc [of "(rt, tr, sa, wc)"] that
    by (auto simp: enc_command_def rt_dec_command_def bc_encode_command_eq map_ok_def py_bind_eq_Inr is_ok_iff
        split: if_splits)
  then show "is_ok (rt_decode_command_word (RawBytes w)) \<longleftrightarrow> (\<exists>rt tr sa wc. bc_encode_command_word rt tr sa wc = Inr w)"
    using dec unfolding is_ok_iff by blast
qed

theorem command_decoder_exact_witness:
  "\<exists>w f. rt_decode_command_word (RawBytes w) = Inr f \<and>
     bc_encode_command_word (cw_rt_address f) (cw_tr_bit f) (cw_subaddress_mode f) (cw_word_count_mode f) = Inr w"
proof -
  let ?w = "with_parity (command_body 5 1 2 3)"
  have v: "valid_command (5, 1, 2, 3)" by (simp add: valid_command_def)
  then have e: "bc_encode_command_word 5 1 2 3 = Inr ?w" by (simp add: bc_encode_command_eq)
  have "word20 ?w" using enc_command_word [OF v] e by (simp add: enc_command_def)
  then have l: "length ?w = 20" "bits ?w" by (simp_all add: word20_def)
  then have "is_ok (rt_decode_command_word (RawBytes ?w))" using command_decoder_exact [OF l] e by blast
  then show ?thesis using command_decoder_exact [OF l] by (auto simp: is_ok_iff)
qed

text \<open>
  Two different commands differ in at least two bits on the wire, so no single bit error turns one valid
  command word into another.
\<close>

theorem command_word_distance:
  assumes "bc_encode_command_word rt tr sa wc = Inr u" "bc_encode_command_word rt' tr' sa' wc' = Inr v"
    "(rt, tr, sa, wc) \<noteq> (rt', tr', sa', wc')"
  shows "2 \<le> hamming u v"
  using command_codec.distance [of "(rt, tr, sa, wc)" "(rt', tr', sa', wc')"] assms
  by (simp add: enc_command_def bc_encode_command_eq split: if_splits)

theorem command_word_distance_witness:
  "\<exists>u v. bc_encode_command_word 1 0 2 3 = Inr u \<and> bc_encode_command_word 1 1 2 3 = Inr v \<and> 2 \<le> hamming u v"
proof -
  have "is_ok (bc_encode_command_word 1 0 2 3)" "is_ok (bc_encode_command_word 1 1 2 3)"
    by (simp_all add: bc_encode_command_eq valid_command_def)
  then obtain u v where "bc_encode_command_word 1 0 2 3 = Inr u" "bc_encode_command_word 1 1 2 3 = Inr v"
    by (auto simp: is_ok_iff)
  then show ?thesis using command_word_distance [of 1 0 2 3 u 1 1 2 3 v] by simp
qed

text \<open>
  The decoders do not require the characters to be bits: \<^verbatim>\<open>int\<close> accepts a sign, blanks and
  underscores inside a field and any decimal digit for a flag, and only the characters '1' are counted for
  parity. A command word with the address field \<^verbatim>\<open>-1111\<close> and the T/R flag 7 is accepted by both
  sides with the address -15.
\<close>

theorem decoders_accept_non_bits:
  "let w = ''100-1111700000000002''
   in length w = 20 \<and> \<not> bits w \<and>
      (let f = \<lparr>cw_sync = ''100'', cw_rt_address = - 15, cw_tr_bit = 7, cw_subaddress_mode = 0,
                 cw_word_count_mode = 0, cw_parity = 2\<rparr>
       in rt_decode_command_word (RawStr w) = Inr f \<and> bc_decode_command_word (RawStr w) = Inr f)"
  by code_simp

end
