(* ===== verification/Word_Check.thy ===== *)
theory Word_Check
  imports Word_Codec
begin

text \<open>
  The word and frame checkers of the bus controller (\<^verbatim>\<open>BC_error_check.py\<close>) and of the remote
  terminal (\<^verbatim>\<open>RT_error_check.py\<close>). A check that raises is logged and answers \<^verbatim>\<open>False\<close>. The lemmas
  characterise the checkers as the image of the encoders.
\<close>

section \<open>Bus controller\<close>

definition bc_check_character :: "string \<Rightarrow> bool" where
  "bc_check_character chars = list_all is_bit chars"

definition bc_check_parity :: "string \<Rightarrow> bool" where
  "bc_check_parity word =
     (if length word \<noteq> 20 then False else let ones_count = ones word in ones_count mod 2 = 1)"

definition bc_check_sync_bits :: "string \<Rightarrow> string \<Rightarrow> bool" where
  "bc_check_sync_bits word word_type =
     (if length word < 3 then False
      else
        let sync_bits = slice 0 3 word
        in if lower word_type = ''command'' \<or> lower word_type = ''status'' then sync_bits = COMMAND_SYNC
           else if lower word_type = ''data'' then sync_bits = DATA_SYNC
           else False)"

definition bc_check_word_format :: "string \<Rightarrow> string \<Rightarrow> bool" where
  "bc_check_word_format word word_type =
     (if length word \<noteq> 20 then False
      else if \<not> bc_check_sync_bits word word_type then False
      else if \<not> bc_check_character word then False
      else if \<not> bc_check_parity word then False
      else True)"

definition bc_check_frame_format :: "string list \<Rightarrow> bool" where
  "bc_check_frame_format frame =
     (case frame of
        [] \<Rightarrow> False
      | w # ws \<Rightarrow> if \<not> bc_check_word_format w ''command'' then False
                 else list_all (\<lambda>word. bc_check_word_format word ''data'') ws)"

definition bc_check_command_word :: "string \<Rightarrow> string \<Rightarrow> string \<Rightarrow> string \<Rightarrow> bool" where
  "bc_check_command_word rt_address t_or_r sub_add_or_mode_code wd_count =
     (if length rt_address \<noteq> 5 then False
      else if length t_or_r \<noteq> 1 then False
      else if length sub_add_or_mode_code \<noteq> 5 then False
      else length wd_count = 5)"

definition bc_check_data_word :: "string \<Rightarrow> bool" where
  "bc_check_data_word data_word = (length data_word = 16)"

definition bc_validate_rt_address :: "str_or_int \<Rightarrow> bool" where
  "bc_validate_rt_address rt_address = py_except
     (py_bind (case rt_address of
          AStr s \<Rightarrow> if \<not> list_all is_bit s then Inl PlainException else py_int 2 s
        | AInt n \<Rightarrow> Inr n) (\<lambda>addr.
      if \<not> (0 \<le> addr \<and> addr \<le> 31) then Inl PlainException else Inr True)) False"

section \<open>Remote terminal\<close>

definition rt_check_command_word :: "string \<Rightarrow> string \<Rightarrow> string \<Rightarrow> string \<Rightarrow> bool" where
  "rt_check_command_word rt_address t_or_r sub_add_or_mode_code wd_count =
     (if length rt_address \<noteq> 5 then False
      else if length t_or_r \<noteq> 1 then False
      else if length sub_add_or_mode_code \<noteq> 5 then False
      else length wd_count = 5)"

definition rt_check_data_word :: "string \<Rightarrow> bool" where
  "rt_check_data_word data_word = (length data_word = 16)"

definition rt_check_character :: "string \<Rightarrow> bool" where
  "rt_check_character chars = py_except
     (if \<not> (chars \<noteq> [] \<and> list_all is_digit chars) then Inl PlainException
      else py_bind (py_int 2 chars) (\<lambda>v.
        if \<not> (0 \<le> v \<and> v \<le> 31) then Inl PlainException else Inr True)) False"

definition rt_check_sync_bits :: "string \<Rightarrow> string \<Rightarrow> bool" where
  "rt_check_sync_bits word word_type =
     (if length word < 3 then False
      else
        let sync_bits = slice 0 3 word
        in if lower word_type = ''command'' \<or> lower word_type = ''status'' then sync_bits = COMMAND_SYNC
           else if lower word_type = ''data'' then sync_bits = DATA_SYNC
           else False)"

definition rt_check_parity :: "string \<Rightarrow> bool" where
  "rt_check_parity word = py_except
     (if length word \<noteq> 20 then Inr False
      else
        let ones_count = ones (take 19 word)
        in py_bind (py_int 10 [word ! 19]) (\<lambda>parity_bit. Inr ((int ones_count + parity_bit) mod 2 = 1))) False"

definition rt_validate_rt_address :: "str_or_int \<Rightarrow> bool" where
  "rt_validate_rt_address address = py_except
     (py_bind (case address of
          AStr s \<Rightarrow> if \<not> list_all is_bit s then Inl PlainException else py_int 2 s
        | AInt n \<Rightarrow> Inr n) (\<lambda>addr_int.
      if \<not> (0 \<le> addr_int \<and> addr_int \<le> 31) then Inl PlainException else Inr True)) False"

definition rt_check_word_format :: "string \<Rightarrow> string \<Rightarrow> bool" where
  "rt_check_word_format word word_type =
     (if length word \<noteq> 20 then False
      else if \<not> rt_check_sync_bits word word_type then False
      else if \<not> list_all is_bit word then False
      else if \<not> rt_check_parity word then False
      else True)"

section \<open>The checkers are the image of the encoders\<close>

lemma lower_types [simp]:
  "lower ''command'' = ''command''" "lower ''status'' = ''status''" "lower ''data'' = ''data''"
  by (simp_all add: lower_def lower_char_def)

lemma bc_check_eq_checked:
  "bc_check_word_format w t \<longleftrightarrow> word20 w \<and> odd (ones w) \<and> bc_check_sync_bits w t"
  by (auto simp: bc_check_word_format_def bc_check_parity_def bc_check_character_def word20_def bits_def Let_def)

lemma check_sync_eq: "rt_check_sync_bits = bc_check_sync_bits"
  by (intro ext) (simp add: rt_check_sync_bits_def bc_check_sync_bits_def)

lemma rt_check_parity_word: "word20 w \<Longrightarrow> rt_check_parity w = odd (ones w)"
  using validate_parity_word(2) [of w]
  by (simp add: rt_check_parity_def rt_validate_parity_def word20_def Let_def)

lemma check_command_iff:
  "bc_check_word_format w ''command'' \<longleftrightarrow> (\<exists>rt tr sa wc. bc_encode_command_word rt tr sa wc = Inr w)"
proof (cases "word20 w")
  case True
  then have "bc_check_word_format w ''command'' \<longleftrightarrow> is_ok (rt_decode_command_word (RawBytes w))"
    using rt_decode_word(1) [OF True, of "RawBytes w"]
    by (auto simp: bc_check_eq_checked bc_check_sync_bits_def checked_def word20_def)
  then show ?thesis
    using command_codec.decodable_iff_image [OF True]
    by (force simp: rt_dec_command_def enc_command_def bc_encode_command_eq split: if_splits)
next
  case False
  then show ?thesis
    using enc_command_word by (auto simp: bc_check_eq_checked enc_command_def bc_encode_command_eq split: if_splits)
qed

lemma check_data_iff: "bc_check_word_format w ''data'' \<longleftrightarrow> (\<exists>d. bc_encode_data_word d = Inr w)"
proof (cases "word20 w")
  case True
  then have "bc_check_word_format w ''data'' \<longleftrightarrow> is_ok (rt_decode_data_word (RawBytes w))"
    using rt_decode_word(3) [OF True, of "RawBytes w"]
    by (auto simp: bc_check_eq_checked bc_check_sync_bits_def checked_def word20_def)
  then show ?thesis
    using data_codec.decodable_iff_image [OF True]
    by (force simp: rt_dec_data_def enc_data_def bc_encode_data_eq split: if_splits)
next
  case False
  then show ?thesis
    using enc_data_word by (auto simp: bc_check_eq_checked enc_data_def bc_encode_data_eq split: if_splits)
qed

lemma rt_check_eq_bc: "rt_check_word_format w t = bc_check_word_format w t"
  using rt_check_parity_word [of w]
  by (auto simp: rt_check_word_format_def bc_check_eq_checked check_sync_eq word20_def bits_def)

section \<open>Properties\<close>

text \<open>
  C4. The two sides' word checkers agree on every string and every word type, and a word passes as a command
  (or data) word exactly when some arguments encode to it.
\<close>

theorem word_check_is_encoder_image:
  "rt_check_word_format w t = bc_check_word_format w t \<and>
   (bc_check_word_format w ''command'' \<longleftrightarrow> (\<exists>rt tr sa wc. bc_encode_command_word rt tr sa wc = Inr w)) \<and>
   (bc_check_word_format w ''data'' \<longleftrightarrow> (\<exists>d. bc_encode_data_word d = Inr w))"
  by (intro conjI rt_check_eq_bc check_command_iff check_data_iff)

text \<open>
  C5. A frame passes the frame check exactly when it is an encoded command word followed by encoded data
  words.
\<close>

theorem frame_check_is_encoded_frame:
  "bc_check_frame_format frame \<longleftrightarrow>
     (\<exists>rt tr sa wc w ds. bc_encode_command_word rt tr sa wc = Inr w \<and>
        frame = w # map enc_data ds \<and> set ds \<subseteq> {0..65535})"
proof -
  have ds: "list_all (\<lambda>w. bc_check_word_format w ''data'') ws \<longleftrightarrow> (\<exists>ds. ws = map enc_data ds \<and> set ds \<subseteq> {0..65535})" for ws
  proof -
    have "bc_check_word_format w ''data'' \<longleftrightarrow> w \<in> enc_data ` {0..65535}" for w
      by (auto simp: check_data_iff enc_data_def bc_encode_data_eq valid_data_def split: if_splits)
    then have "list_all (\<lambda>w. bc_check_word_format w ''data'') ws \<longleftrightarrow> ws \<in> lists (enc_data ` {0..65535})"
      by (simp only: list_all_iff in_lists_conv_set)
    also have "\<dots> \<longleftrightarrow> ws \<in> map enc_data ` lists {0..65535}" by (simp only: lists_image)
    also have "\<dots> \<longleftrightarrow> (\<exists>ds. ws = map enc_data ds \<and> set ds \<subseteq> {0..65535})" by (auto simp: in_lists_conv_set)
    finally show ?thesis .
  qed
  show ?thesis
  proof (cases frame)
    case (Cons w ws)
    then have "bc_check_frame_format frame \<longleftrightarrow> (\<exists>rt tr sa wc. bc_encode_command_word rt tr sa wc = Inr w) \<and>
        (\<exists>ds. ws = map enc_data ds \<and> set ds \<subseteq> {0..65535})"
      by (simp only: bc_check_frame_format_def list.case check_command_iff ds) simp
    then show ?thesis unfolding Cons by blast
  qed (simp add: bc_check_frame_format_def)
qed

text \<open>
  Both address validators accept exactly the integers 0 to 31 and the non-empty bit strings that denote
  one of them, whatever the string's length.
\<close>

theorem validate_rt_address_iff:
  "bc_validate_rt_address a = rt_validate_rt_address a \<and>
   (rt_validate_rt_address (AInt n) \<longleftrightarrow> n \<in> {0..31}) \<and>
   (rt_validate_rt_address (AStr s) \<longleftrightarrow> bits s \<and> s \<noteq> [] \<and> bval s \<le> 31)"
proof (intro conjI)
  show "bc_validate_rt_address a = rt_validate_rt_address a"
    by (simp add: bc_validate_rt_address_def rt_validate_rt_address_def)
  show "rt_validate_rt_address (AInt n) \<longleftrightarrow> n \<in> {0..31}" by (auto simp: rt_validate_rt_address_def)
  have "py_int 2 [] = Inl ValueError" by (simp add: py_int_def strip_with_def drop_prefix_def)
  then show "rt_validate_rt_address (AStr s) \<longleftrightarrow> bits s \<and> s \<noteq> [] \<and> bval s \<le> 31"
    using py_int_bits [of s]
    by (cases "s = []") (auto simp: rt_validate_rt_address_def bits_def [symmetric])
qed

end
