(* ===== verification/Bus_Message.thy ===== *)
theory Bus_Message
  imports Word_Check
begin

text \<open>
  Message construction and deconstruction on the bus controller (\<^verbatim>\<open>BC_msg.py\<close>, classes
  \<open>BC_construct\<close> and \<open>BC_deconstruct\<close>). \<^verbatim>\<open>None\<close> results are \<open>None\<close>, an exception caught inside
  a method is the value the handler returns. The depth of \<open>deconstruct_status_word\<close>'s recursion is
  bounded as CPython bounds it: exhausted fuel is the interpreter's \<^verbatim>\<open>RecursionError\<close>. The metadata
  encoder is an argument of \<open>construct_communication_frame\<close>.
\<close>

section \<open>Python conversions\<close>

text \<open>\<^verbatim>\<open>int(v)\<close> and \<^verbatim>\<open>v == 0\<close>\<close>

definition py_to_int :: "pyval \<Rightarrow> int pyres" where
  "py_to_int v = (case v of
     PInt i \<Rightarrow> Inr i | PBool b \<Rightarrow> Inr (if b then 1 else 0) | PFloat q \<Rightarrow> Inr (py_trunc q)
   | PStr s \<Rightarrow> py_int 10 s | _ \<Rightarrow> Inl TypeError)"

definition py_eq_0 :: "pyval \<Rightarrow> bool" where
  "py_eq_0 v = (case v of PInt i \<Rightarrow> i = 0 | PBool b \<Rightarrow> \<not> b | PFloat q \<Rightarrow> q = 0 | _ \<Rightarrow> False)"

text \<open>
  The characters '0' and '1' of \<^verbatim>\<open>str(v)\<close>, which is all that is kept of it: a string is itself,
  inside a list or dictionary its \<^verbatim>\<open>repr\<close>, where unprintable characters become hexadecimal escapes. The
  shortest decimal form of a float is not modelled.
\<close>

definition keep_bits :: "string \<Rightarrow> string" where
  "keep_bits s = filter is_bit s"

definition hex_digit :: "nat \<Rightarrow> char" where
  "hex_digit n = (if n < 10 then char_of (48 + n) else char_of (87 + n))"

definition repr_char_bits :: "char \<Rightarrow> string" where
  "repr_char_bits c = (let n = (of_char c :: nat) in
     if n \<in> {9, 10, 13} then []
     else if n < 32 \<or> (127 \<le> n \<and> n \<le> 160) \<or> n = 173
          then keep_bits [hex_digit (n div 16), hex_digit (n mod 16)]
     else keep_bits [c])"

definition repr_str_bits :: "string \<Rightarrow> string" where
  "repr_str_bits s = concat (map repr_char_bits s)"

fun has_float :: "pyval \<Rightarrow> bool" where
  "has_float (PFloat q) = True"
| "has_float (PList xs) = list_ex has_float xs"
| "has_float (PDict d) = list_ex (\<lambda>(k, v). has_float v) d"
| "has_float _ = False"

fun repr_bits :: "pyval \<Rightarrow> string" where
  "repr_bits (PInt i) = keep_bits (py_str_int i)"
| "repr_bits (PStr s) = repr_str_bits s"
| "repr_bits (PList xs) = concat (map repr_bits xs)"
| "repr_bits (PDict d) = concat (map (\<lambda>(k, v). repr_str_bits k @ repr_bits v) d)"
| "repr_bits _ = []"

definition str_bits :: "pyval \<Rightarrow> string pyres" where
  "str_bits v = (case v of
     PStr s \<Rightarrow> Inr (keep_bits s)
   | _ \<Rightarrow> if has_float v then Inl Unmodelled else Inr (repr_bits v))"

section \<open>Construction\<close>

definition msg_calculate_parity :: "string \<Rightarrow> string" where
  "msg_calculate_parity word =
     (let ones_count = ones word in if ones_count mod 2 = 0 then ''1'' else ''0'')"

definition construct_command_word :: "pyval \<Rightarrow> pyval \<Rightarrow> pyval \<Rightarrow> pyval \<Rightarrow> string option" where
  "construct_command_word RT_address t_or_r sub_add_or_mode_code data_word_count = py_except
     (py_bind (py_to_int RT_address) (\<lambda>rt.
      py_bind (py_to_int sub_add_or_mode_code) (\<lambda>sub.
      py_bind (py_to_int data_word_count) (\<lambda>cnt.
        let RT_address_bin = fmt_bin 5 rt;
            t_or_r_bin = (if py_eq_0 t_or_r then ''0'' else ''1'');
            sub_add_bin = fmt_bin 5 sub;
            data_count_bin = fmt_bin 5 cnt
        in if \<not> (length RT_address_bin = 5 \<and> length t_or_r_bin = 1 \<and> length sub_add_bin = 5
                 \<and> length data_count_bin = 5)
           then Inr None
           else
             let word_16bit = RT_address_bin @ t_or_r_bin @ sub_add_bin @ data_count_bin;
                 word_with_sync = COMMAND_SYNC @ word_16bit;
                 command_word = word_with_sync @ msg_calculate_parity word_with_sync
             in if length command_word \<noteq> 20 then Inr None else Inr (Some command_word))))) None"

definition construct_data_word :: "pyval \<Rightarrow> string option" where
  "construct_data_word data =
     (let data_bin =
        (case as_int data of
           Some n \<Rightarrow> if n < 0 \<or> 65535 < n then None else Some (fmt_bin 16 n)
         | None \<Rightarrow>
             (case data of
                PStr s \<Rightarrow>
                  if list_all is_bit s then (if length s \<noteq> 16 then None else Some s)
                  else (case py_int 10 s of
                          Inl _ \<Rightarrow> None
                        | Inr n \<Rightarrow> if n < 0 \<or> 65535 < n then None else Some (fmt_bin 16 n))
              | _ \<Rightarrow> None))
      in case data_bin of
           None \<Rightarrow> None
         | Some bin \<Rightarrow>
             if length bin \<noteq> 16 then None
             else
               let word_with_sync = DATA_SYNC @ bin;
                   ones_count = ones word_with_sync;
                   data_word = word_with_sync @ (if ones_count mod 2 = 0 then ''1'' else ''0'')
               in if length data_word \<noteq> 20 then None else Some data_word)"

text \<open>The loop over the data words stops at the first that cannot be built.\<close>

fun construct_data_words :: "pyval list \<Rightarrow> string list option" where
  "construct_data_words [] = Some []"
| "construct_data_words (d # ds) =
     (case construct_data_word d of
        None \<Rightarrow> None
      | Some w \<Rightarrow> (case construct_data_words ds of None \<Rightarrow> None | Some ws \<Rightarrow> Some (w # ws)))"

definition frame_data_words :: "(pydict \<Rightarrow> string list pyres) \<Rightarrow> pyval \<Rightarrow> pydict \<Rightarrow> pyval list" where
  "frame_data_words encode_metadata message metadata =
     (let message_list = (case message of PList xs \<Rightarrow> xs | _ \<Rightarrow> if truthy message then [message] else []);
          metadata_words = (if metadata = [] then [] else py_except (encode_metadata metadata) [])
      in map PStr metadata_words @ message_list)"

definition construct_communication_frame ::
  "(pydict \<Rightarrow> string list pyres) \<Rightarrow> pyval \<Rightarrow> pyval \<Rightarrow> pyval \<Rightarrow> pyval \<Rightarrow> pyval \<Rightarrow> pydict \<Rightarrow> string list" where
  "construct_communication_frame encode_metadata RT_address t_or_r sub_add_or_mode_code data_word_count message metadata =
     py_except
     (py_bind (case data_word_count of PStr s \<Rightarrow> py_int 2 s | _ \<Rightarrow> Inr 0) (\<lambda>_.
        if (message = PNone \<or> message = PStr [] \<or> message = PList []) \<and> metadata = [] then
          (case construct_command_word RT_address t_or_r sub_add_or_mode_code (PInt 0) of
             Some command_word \<Rightarrow> Inr [command_word]
           | None \<Rightarrow> Inr [])
        else
          let all_data_words = frame_data_words encode_metadata message metadata;
              actual_data_word_count = length all_data_words
          in if 32 < actual_data_word_count then Inl PlainException
             else
               case construct_command_word RT_address t_or_r sub_add_or_mode_code (PInt (int actual_data_word_count)) of
                 None \<Rightarrow> Inr []
               | Some command_word \<Rightarrow>
                   (case construct_data_words all_data_words of
                      None \<Rightarrow> Inr []
                    | Some data_words \<Rightarrow> Inr (command_word # data_words)))) []"

definition validate_frame :: "string list \<Rightarrow> bool" where
  "validate_frame frame =
     (case frame of
        [] \<Rightarrow> False
      | w # ws \<Rightarrow>
          if \<not> list_all (\<lambda>word. length word = 20) frame then False
          else if \<not> prefix COMMAND_SYNC w then False
          else list_all (\<lambda>word. prefix DATA_SYNC word) ws)"

definition validate_status_word :: "pyval \<Rightarrow> bool" where
  "validate_status_word v = py_except
     (py_bind (str_bits v) (\<lambda>status_word.
        if status_word = [] \<or> length status_word \<noteq> 20 then Inr False
        else if \<not> prefix STATUS_SYNC status_word then Inr False
        else if msg_calculate_parity (butlast status_word) \<noteq> [last status_word] then Inr False
        else Inr True)) False"

section \<open>Deconstruction\<close>

definition create_default_status_word :: "pydict \<Rightarrow> pydict" where
  "create_default_status_word status_frame =
     (let default_status = [(''sync'', PStr STATUS_SYNC), (''rt_address'', PNone), (''parity'', PInt 0)];
          default_status =
            (case dict_get status_frame ''metadata'' PNone of
               PDict m \<Rightarrow> if has_key m ''rt_address''
                          then dict_set ''rt_address'' (dict_get m ''rt_address'' PNone) default_status
                          else default_status
             | _ \<Rightarrow> default_status);
          default_status =
            (if dict_get default_status ''rt_address'' PNone = PNone \<and> has_key status_frame ''rt_address''
             then dict_set ''rt_address'' (dict_get status_frame ''rt_address'' PNone) default_status
             else default_status)
      in if has_key status_frame ''request_id''
         then dict_set ''request_id'' (dict_get status_frame ''request_id'' PNone) default_status
         else default_status)"

definition status_dict :: "status_word \<Rightarrow> pydict" where
  "status_dict s = [(''sync'', PStr (sw_sync s)), (''rt_address'', PInt (sw_rt_address s)),
     (''message_error'', PInt (sw_message_error s)), (''instrumentation'', PInt (sw_instrumentation s)),
     (''service_request'', PInt (sw_service_request s)), (''reserved'', PInt (sw_reserved s)),
     (''broadcast_cmd'', PInt (sw_broadcast_cmd s)), (''busy'', PInt (sw_busy s)),
     (''subsystem_flag'', PInt (sw_subsystem_flag s)), (''dynamic_bus_control'', PInt (sw_dynamic_bus_control s)),
     (''terminal_flag'', PInt (sw_terminal_flag s)), (''parity'', PInt (sw_parity s))]"

definition data_dict :: "data_word \<Rightarrow> pydict" where
  "data_dict d = [(''sync'', PStr (dw_sync d)), (''data'', PInt (dw_data d)), (''parity'', PInt (dw_parity d))]"

definition is_status_frame :: "pyval \<Rightarrow> bool" where
  "is_status_frame v = (case v of PStr s \<Rightarrow> prefix STATUS_SYNC s | _ \<Rightarrow> False)"

text \<open>
  The dictionary case: the value the status word is read from (\<open>Inr\<close>), or the default status word the
  method returns at once (\<open>Inl\<close>).
\<close>

definition select_status_frame :: "pydict \<Rightarrow> pydict + pyval" where
  "select_status_frame d =
     (let status_word_branch =
        (if has_key d ''status_word'' then Inr (dict_get d ''status_word'' PNone)
         else Inl (create_default_status_word d))
      in case dict_get d ''frames'' PNone of
           PList frames \<Rightarrow>
             if frames = [] then status_word_branch
             else if is_status_frame (hd frames) then Inr (hd frames)
             else (case List.find is_status_frame frames of
                     Some frame \<Rightarrow> Inr frame
                   | None \<Rightarrow> Inl (create_default_status_word d))
         | _ \<Rightarrow> status_word_branch)"

text \<open>The scan of an oversized string for the sync pattern, at positions 0 to length - 20.\<close>

definition extract_status_text :: "string \<Rightarrow> string" where
  "extract_status_text s =
     (if prefix STATUS_SYNC s then take 20 s
      else case List.find (\<lambda>i. slice i (i + 3) s = STATUS_SYNC) [0..<length s - 20 + 1] of
             Some i \<Rightarrow> slice i (i + 20) s
           | None \<Rightarrow> s)"

text \<open>Cleaning, the length rule for concatenated frames, and decoding.\<close>

definition decode_cleaned :: "pyval \<Rightarrow> pyval \<Rightarrow> pydict pyres" where
  "decode_cleaned v request_id =
     py_bind (str_bits v) (\<lambda>cleaned.
     py_bind (if length cleaned \<noteq> 20 then
                (if 20 < length cleaned \<and> length cleaned mod 20 = 0 then Inr (take 20 cleaned)
                 else Inl PlainException)
              else Inr cleaned) (\<lambda>cleaned.
     py_bind (bc_decode_status_word (RawStr cleaned)) (\<lambda>s.
       Inr (if truthy request_id then dict_set ''request_id'' request_id (status_dict s) else status_dict s))))"

fun deconstruct_status_word :: "nat \<Rightarrow> pyval \<Rightarrow> pyval \<Rightarrow> pydict pyres" where
  "deconstruct_status_word 0 status_frame request_id = Inl RuntimeError"
| "deconstruct_status_word (Suc n) status_frame request_id =
     (case (case status_frame of PDict d \<Rightarrow> select_status_frame d | _ \<Rightarrow> Inr status_frame) of
        Inl default_status \<Rightarrow> Inr default_status
      | Inr (PStr s) \<Rightarrow>
          if length s \<le> 20 then decode_cleaned (PStr s) request_id
          else
            let continue = decode_cleaned (PStr (extract_status_text s)) request_id
            in if (prefix ''{'' s \<and> suffix ''}'' s) \<or> (prefix ''['' s \<and> suffix '']'' s)
               then (case py_bind (json_loads s) (\<lambda>parsed. deconstruct_status_word n parsed request_id) of
                       Inr r \<Rightarrow> Inr r
                     | Inl e \<Rightarrow> if e = ValueError then continue else Inl e)
               else continue
      | Inr v \<Rightarrow> decode_cleaned v request_id)"

definition deconstruct_data_word :: "raw \<Rightarrow> pydict option" where
  "deconstruct_data_word data_frame =
     (case bc_decode_data_word data_frame of Inl _ \<Rightarrow> None | Inr d \<Rightarrow> Some (data_dict d))"

text \<open>A slice of anything but a string never equals a sync string.\<close>

definition route_inc_frame :: "nat \<Rightarrow> pyval \<Rightarrow> pyval \<Rightarrow> (string \<times> string \<times> pydict) option" where
  "route_inc_frame fuel received_frame request_id =
     (case received_frame of
        PStr s \<Rightarrow>
          if slice 0 3 s = ''100'' then
            (case deconstruct_status_word fuel received_frame request_id of
               Inl _ \<Rightarrow> None
             | Inr status_word \<Rightarrow> if status_word \<noteq> [] then Some (''radar'', ''status_word'', status_word) else None)
          else if slice 0 3 s = ''001'' then
            (case deconstruct_data_word (RawStr s) of
               None \<Rightarrow> None
             | Some data_word \<Rightarrow> if data_word \<noteq> [] then Some (''radar'', ''data_word'', data_word) else None)
          else None
      | _ \<Rightarrow> None)"

section \<open>What the constructors build\<close>

lemma length_bin_str_iff: "0 < w \<Longrightarrow> length (bin_str n) \<le> w \<longleftrightarrow> n < 2 ^ w"
proof
  assume "length (bin_str n) \<le> w"
  then have "(2::nat) ^ length (bin_str n) \<le> 2 ^ w" by simp
  then show "n < 2 ^ w" using bval_bound [of "bin_str n"] by (simp only: bval_bin_str)
qed (rule length_bin_str)

lemma length_fmt5_iff: "length (fmt_bin 5 n) = 5 \<longleftrightarrow> - 15 \<le> n \<and> n \<le> 31"
proof -
  have "length (fmt_bin 5 n) = 5 \<longleftrightarrow>
      (if n < 0 then length (bin_str (nat (- n))) \<le> 4 else length (bin_str (nat n)) \<le> 5)"
    by (auto simp: fmt_bin_def zfill_def)
  also have "\<dots> \<longleftrightarrow> - 15 \<le> n \<and> n \<le> 31"
    using length_bin_str_iff [of 4 "nat (- n)"] length_bin_str_iff [of 5 "nat n"] by auto
  finally show ?thesis .
qed

lemma msg_parity_eq: "msg_calculate_parity = bc_calculate_parity"
  by (rule ext) (simp add: msg_calculate_parity_def bc_calculate_parity_def)

lemma construct_command_ints:
  "construct_command_word (PInt rt) t (PInt sa) (PInt wc) =
     (if {rt, sa, wc} \<subseteq> {- 15..31}
      then Some (with_parity (''100'' @ fmt_bin 5 rt @ (if py_eq_0 t then ''0'' else ''1'') @ fmt_bin 5 sa @ fmt_bin 5 wc))
      else None)"
proof (cases "{rt, sa, wc} \<subseteq> {- 15..31}")
  case True
  then have "length (fmt_bin 5 rt) = 5" "length (fmt_bin 5 sa) = 5" "length (fmt_bin 5 wc) = 5"
    by (simp_all add: length_fmt5_iff)
  with True show ?thesis
    by (simp add: construct_command_word_def py_to_int_def Let_def with_parity_def COMMAND_SYNC_def msg_parity_eq)
qed (auto simp: construct_command_word_def py_to_int_def length_fmt5_iff Let_def)

lemma construct_command_encodes:
  assumes "rt \<in> {0..31}" "sa \<in> {0..31}" "wc \<in> {0..31}"
  shows "\<exists>w. construct_command_word (PInt rt) t (PInt sa) (PInt wc) = Some w \<and>
     bc_encode_command_word rt (if py_eq_0 t then 0 else 1) sa wc = Inr w"
  using assms py_str_bit [of 0] py_str_bit [of 1]
  by (auto simp: construct_command_ints bc_encode_command_eq valid_command_def command_body_def bit01_def)

lemma bc_encode_data_sound: "0 \<le> n \<Longrightarrow> n \<le> 65535 \<Longrightarrow>
   bc_encode_data_word n = Inr (with_parity (DATA_SYNC @ fmt_bin 16 n)) \<and> length (fmt_bin 16 n) = 16"
  using fmt16 [of n] by (simp add: bc_encode_data_eq valid_data_def data_body_def DATA_SYNC_def)

text \<open>The number a datum stands for: an integer itself, 16 bits their value, another text its decimal value.\<close>

definition datum_value :: "pyval \<Rightarrow> int option" where
  "datum_value v = (case as_int v of
     Some n \<Rightarrow> Some n
   | None \<Rightarrow> (case v of
       PStr s \<Rightarrow> if bits s then (if length s = 16 then Some (int (bval s)) else None)
                 else (case py_int 10 s of Inl _ \<Rightarrow> None | Inr n \<Rightarrow> Some n)
     | _ \<Rightarrow> None))"

lemma construct_data_eq:
  "construct_data_word v =
     (case datum_value v of None \<Rightarrow> None
      | Some n \<Rightarrow> (case bc_encode_data_word n of Inl _ \<Rightarrow> None | Inr w \<Rightarrow> Some w))"
proof -
  have e: "bc_encode_data_word n =
      (if n < 0 \<or> 65535 < n then Inl ValueError else Inr (with_parity (DATA_SYNC @ fmt_bin 16 n)))" for n
    using bc_encode_data_sound [of n] by (auto simp: bc_encode_data_word_def)
  have l: "\<not> (n < 0 \<or> 65535 < n) \<Longrightarrow> length (fmt_bin 16 n) = 16" for n
    using bc_encode_data_sound [of n] by simp
  have s: "bits s \<Longrightarrow> length s = 16 \<Longrightarrow> fmt_bin 16 (int (bval s)) = s \<and> \<not> 65535 < bval s" for s
    using fmt_bin_bval [of s] bval_bound [of s] by (cases "s = []") auto
  have sync: "length DATA_SYNC = 3" by (simp add: DATA_SYNC_def)
  show ?thesis
    by (auto simp: construct_data_word_def datum_value_def e l s sync Let_def with_parity_def bc_calculate_parity_def bits_def [symmetric]
        split: option.split pyval.split sum.split)
qed

lemma construct_data_sound:
  "construct_data_word v = Some w \<Longrightarrow> \<exists>n. datum_value v = Some n \<and> bc_encode_data_word n = Inr w"
  by (auto simp: construct_data_eq split: option.splits sum.splits)

text \<open>What the remote terminal reads from the word of a datum.\<close>

definition carries_datum :: "pyval \<Rightarrow> string \<Rightarrow> bool" where
  "carries_datum v w = (\<exists>n p. datum_value v = Some n \<and>
     rt_decode_data_word (RawStr w) = Inr \<lparr>dw_sync = ''001'', dw_data = n, dw_parity = p\<rparr>)"

lemma construct_data_words_carry:
  "construct_data_words ds = Some ws \<Longrightarrow> list_all2 carries_datum ds ws"
proof (induction ds arbitrary: ws)
  case (Cons d ds)
  then obtain v vs where v: "construct_data_word d = Some v" "construct_data_words ds = Some vs" "ws = v # vs"
    by (auto split: option.splits)
  then obtain n where n: "datum_value d = Some n" "bc_encode_data_word n = Inr v"
    using construct_data_sound by blast
  from n(2) data_word_decodes [of n v "RawStr v"] have "carries_datum d v" using n(1) by (simp add: carries_datum_def)
  then show ?case using v Cons.IH [OF v(2)] by simp
qed simp

lemma construct_data_words_sound:
  "construct_data_words ds = Some ws \<Longrightarrow>
     length ws = length ds \<and> list_all (\<lambda>w. bc_check_word_format w ''data'') ws"
  by (induction ds arbitrary: ws)
     (auto simp: check_data_iff dest!: construct_data_sound split: option.splits)

lemma check_prefix:
  "bc_check_word_format w ''data'' \<Longrightarrow> length w = 20 \<and> prefix DATA_SYNC w"
  "bc_check_word_format w ''command'' \<Longrightarrow> length w = 20 \<and> prefix COMMAND_SYNC w"
  by (auto simp: bc_check_eq_checked bc_check_sync_bits_def word20_def slice_def Let_def split: if_splits
      intro: take_is_prefix simp del: take_is_prefix) (metis take_is_prefix)+

section \<open>Reading a status word back\<close>

lemma keep_bits_id [simp]: "bits s \<Longrightarrow> keep_bits s = s"
  by (simp add: keep_bits_def bits_def list_all_iff)

lemma repr_char_bits_id: "is_bit c \<Longrightarrow> repr_char_bits c = [c]"
  by (auto simp: is_bit_def repr_char_bits_def keep_bits_def)

lemma repr_str_bits_id: "bits s \<Longrightarrow> repr_str_bits s = s"
  by (induction s) (simp_all add: repr_str_bits_def repr_char_bits_id)

lemma decode_cleaned_text:
  assumes "word20 w"
  shows "decode_cleaned (PStr w) r =
    map_ok (\<lambda>s. if truthy r then dict_set ''request_id'' r (status_dict s) else status_dict s)
      (bc_decode_status_word (RawStr w))"
  using assms by (simp add: decode_cleaned_def str_bits_def word20_def map_ok_def)

lemma decode_cleaned_list:
  assumes "word20 w" "\<forall>v\<in>set ws. word20 v"
  shows "decode_cleaned (PList (map PStr (w # ws))) r = decode_cleaned (PStr w) r"
proof -
  let ?s = "w @ concat ws"
  have c: "concat (map (repr_bits \<circ> PStr) ws) = concat ws"
    using assms(2) by (induction ws) (auto simp: word20_def repr_str_bits_id)
  have "str_bits (PList (map PStr (w # ws))) = Inr ?s"
    using assms by (simp add: str_bits_def list_ex_iff repr_str_bits_id word20_def c)
  moreover have "length ?s = 20 + 20 * length ws"
    using assms by (simp add: word20_def length_concat) (induction ws, auto simp: word20_def)
  ultimately show ?thesis
    using assms(1) by (cases ws) (simp_all add: decode_cleaned_def str_bits_def word20_def)
qed

lemma word20_not_bracket: "word20 w \<Longrightarrow> \<not> prefix ''['' (w @ s) \<and> \<not> prefix ''{'' (w @ s)"
  by (cases w) (auto simp: word20_def is_bit_def)

lemma extract_status_prefix:
  "word20 w \<Longrightarrow> slice 0 3 w = ''100'' \<Longrightarrow> extract_status_text (w @ s) = w"
proof -
  assume w: "word20 w" and "slice 0 3 w = ''100''"
  then have "w = ''100'' @ drop 3 w" by (metis append_take_drop_id diff_zero drop0 slice_def)
  then have "prefix STATUS_SYNC (w @ s)" by (metis STATUS_SYNC_def append.assoc prefixI)
  then show ?thesis using w by (simp add: extract_status_text_def word20_def)
qed

lemma deconstruct_text:
  assumes "word20 w" "slice 0 3 w = ''100''"
  shows "deconstruct_status_word (Suc n) (PStr (w @ s)) r = decode_cleaned (PStr w) r"
  using extract_status_prefix [OF assms] word20_not_bracket [OF assms(1), of s] assms(1)
  by (cases "s = []") (simp_all add: word20_def Let_def)

lemma deconstruct_json:
  assumes "word20 w" "\<forall>v\<in>set ws. word20 v" "is_ok (decode_cleaned (PStr w) r)"
  shows "deconstruct_status_word (Suc (Suc n)) (PStr (json_dumps_list (w # ws))) r = decode_cleaned (PStr w) r"
proof -
  have j: "json_loads (json_dumps_list (w # ws)) = Inr (PList (map PStr (w # ws)))"
    using assms by (intro json_loads_dumps) (auto simp: word20_def intro: plain_bits)
  have "20 < length (json_dumps_list (w # ws))"
    using assms(1) by (cases ws) (simp_all add: json_dumps_list_def word20_def)
  moreover have "prefix ''['' (json_dumps_list (w # ws))" by (simp add: json_dumps_list_def)
  moreover obtain d where "decode_cleaned (PStr w) r = Inr d" using assms(3) by (auto simp: is_ok_iff)
  ultimately show ?thesis
    using j suffix_dumps [of "w # ws"] decode_cleaned_list [OF assms(1,2), of r] by (simp add: Let_def)
qed

lemma construct_frame_cases:
  "construct_communication_frame enc rt t sa cnt msg md = w # ws \<Longrightarrow>
     \<exists>ds. ds = frame_data_words enc msg md \<and>
        construct_command_word rt t sa (PInt (int (length ds))) = Some w \<and> construct_data_words ds = Some ws"
  by (auto simp: construct_communication_frame_def frame_data_words_def Let_def py_except_def py_bind_def
      split: if_splits sum.splits option.splits)

section \<open>Properties\<close>

text \<open>
  C6. A frame the bus controller builds for a terminal and subaddress in range is well formed: it passes the
  bus controller's frame check and its own validation, carries at most 31 data words, and the remote terminal
  reads the address, the direction, the subaddress and the number of data words that follow from its command
  word. The data words carry the data: for the encoded metadata followed by the items of the message (a message
  that is no list is one item, or none when it is falsy), in this order, the terminal decodes from each word
  the number its datum stands for.
\<close>

theorem constructed_frame_wellformed:
  assumes "rt \<in> {0..31}" "sa \<in> {0..31}"
    "construct_communication_frame enc (PInt rt) t (PInt sa) cnt msg md = w # ws"
  shows "bc_check_frame_format (w # ws) \<and> validate_frame (w # ws) \<and> length ws \<le> 31 \<and>
    (\<exists>p. rt_decode_command_word (RawStr w) = Inr \<lparr>cw_sync = ''100'', cw_rt_address = rt,
        cw_tr_bit = (if py_eq_0 t then 0 else 1), cw_subaddress_mode = sa,
        cw_word_count_mode = int (length ws), cw_parity = p\<rparr>) \<and>
    list_all2 (\<lambda>d word. \<exists>n p. datum_value d = Some n \<and>
        rt_decode_data_word (RawStr word) = Inr \<lparr>dw_sync = ''001'', dw_data = n, dw_parity = p\<rparr>)
      (map PStr (if md = [] then [] else py_except (enc md) []) @
       (case msg of PList xs \<Rightarrow> xs | _ \<Rightarrow> if truthy msg then [msg] else [])) ws"
proof (intro conjI)
  obtain ds where f: "ds = frame_data_words enc msg md"
    and n: "construct_command_word (PInt rt) t (PInt sa) (PInt (int (length ds))) = Some w"
    and ds: "construct_data_words ds = Some ws"
    using construct_frame_cases [OF assms(3)] by blast
  let ?n = "length ds"
  have len: "length ws = ?n" and ws: "list_all (\<lambda>w. bc_check_word_format w ''data'') ws"
    using construct_data_words_sound [OF ds] by simp_all
  from n have n31: "?n \<le> 31" by (auto simp: construct_command_ints split: if_splits)
  then obtain v where v: "construct_command_word (PInt rt) t (PInt sa) (PInt (int ?n)) = Some v"
    "bc_encode_command_word rt (if py_eq_0 t then 0 else 1) sa (int ?n) = Inr v"
    using construct_command_encodes [of rt sa "int ?n" t] assms(1,2) by auto
  with n have e: "bc_encode_command_word rt (if py_eq_0 t then 0 else 1) sa (int ?n) = Inr w" by simp
  then have c: "bc_check_word_format w ''command''" by (auto simp: check_command_iff)
  show "bc_check_frame_format (w # ws)" using c ws by (simp add: bc_check_frame_format_def)
  show "validate_frame (w # ws)"
    using check_prefix(2) [OF c] ws check_prefix(1)
    by (auto simp: validate_frame_def list_all_iff)
  show "length ws \<le> 31" using len n31 by simp
  show "\<exists>p. rt_decode_command_word (RawStr w) = Inr \<lparr>cw_sync = ''100'', cw_rt_address = rt,
        cw_tr_bit = (if py_eq_0 t then 0 else 1), cw_subaddress_mode = sa,
        cw_word_count_mode = int (length ws), cw_parity = p\<rparr>"
    using command_word_decodes [OF e, of "RawStr w"] len by auto
  show "list_all2 (\<lambda>d word. \<exists>n p. datum_value d = Some n \<and>
        rt_decode_data_word (RawStr word) = Inr \<lparr>dw_sync = ''001'', dw_data = n, dw_parity = p\<rparr>)
      (map PStr (if md = [] then [] else py_except (enc md) []) @
       (case msg of PList xs \<Rightarrow> xs | _ \<Rightarrow> if truthy msg then [msg] else [])) ws"
    using construct_data_words_carry [OF ds] by (simp only: f frame_data_words_def Let_def carries_datum_def [abs_def])
qed

theorem constructed_frame_wellformed_witness:
  "\<exists>w ws. construct_communication_frame (\<lambda>_. Inr []) (PInt 5) (PInt 1) (PInt 2) (PInt 2) (PList [PInt 7, PStr ''9'']) []
       = w # ws \<and> bc_check_frame_format (w # ws) \<and> length ws \<le> 31 \<and>
     map_ok dw_data (rt_decode_data_word (RawStr (hd ws))) = Inr 7"
proof -
  let ?f = "construct_communication_frame (\<lambda>_. Inr []) (PInt 5) (PInt 1) (PInt 2) (PInt 2) (PList [PInt 7, PStr ''9'']) []"
  have "is_ok (bc_encode_data_word 7)" "is_ok (bc_encode_data_word 9)"
    by (simp_all add: bc_encode_data_eq valid_data_def)
  then obtain u v where "bc_encode_data_word 7 = Inr u" "bc_encode_data_word 9 = Inr v"
    by (auto simp: is_ok_iff)
  moreover have "py_int 10 ''9'' = Inr 9" by (simp add: py_int_digit digit_val_def)
  ultimately have "construct_data_words [PInt 7, PStr ''9''] = Some [u, v]"
    by (simp add: construct_data_eq datum_value_def is_bit_def)
  moreover obtain w where "construct_command_word (PInt 5) (PInt 1) (PInt 2) (PInt 2) = Some w"
    using construct_command_encodes [of 5 2 2 "PInt 1"] by auto
  ultimately have "?f = w # [u, v]"
    by (simp add: construct_communication_frame_def frame_data_words_def Let_def)
  then show ?thesis
    using constructed_frame_wellformed [of 5 2 "\<lambda>_. Inr []" "PInt 1" "PInt 2" "PList [PInt 7, PStr ''9'']" "[]" w "[u, v]"]
    by (auto simp: datum_value_def map_ok_def)
qed

text \<open>
  A payload of exactly 32 data words, which the guard on the word count lets through as the limit of the
  standard, yields no frame at all: its count is formatted with six bits and the command word is refused.
\<close>

theorem frame_of_32_words_refused:
  assumes "length msg = 32"
  shows "construct_communication_frame enc rt t sa cnt (PList msg) [] = []"
proof -
  have "construct_command_word rt t sa (PInt 32) = None"
  proof -
    have "length (fmt_bin 5 32) \<noteq> 5" by (simp add: length_fmt5_iff)
    then show ?thesis
      by (cases "py_to_int rt"; cases "py_to_int sa")
         (simp_all add: construct_command_word_def py_to_int_def [of "PInt 32"] Let_def)
  qed
  then show ?thesis
    using assms by (auto simp: construct_communication_frame_def frame_data_words_def py_except_def py_bind_def Let_def
        split: sum.split)
qed

theorem frame_of_32_words_refused_witness:
  "construct_communication_frame (\<lambda>_. Inr []) (PInt 5) (PInt 1) (PInt 2) (PInt 32) (PList (replicate 32 (PInt 7))) [] = []"
  by (rule frame_of_32_words_refused) simp

text \<open>
  The bit-length check of the command word's components accepts exactly the values from -15 to 31: a
  negative address is formatted with its sign, and the 20 characters handed to the bus are then not a bit
  string, which no word check passes.
\<close>

theorem command_word_accepts_negative:
  "(construct_command_word (PInt rt) t (PInt sa) (PInt wc) \<noteq> None \<longleftrightarrow> {rt, sa, wc} \<subseteq> {- 15..31}) \<and>
   (\<exists>w. construct_command_word (PInt (- 1)) t (PInt 0) (PInt 0) = Some w \<and> length w = 20 \<and>
       slice 0 8 w = ''100-0001'' \<and> \<not> bc_check_word_format w ty)"
proof (intro conjI)
  show "construct_command_word (PInt rt) t (PInt sa) (PInt wc) \<noteq> None \<longleftrightarrow> {rt, sa, wc} \<subseteq> {- 15..31}"
    by (simp add: construct_command_ints)
  have b: "bin_str 1 = ''1''" "bin_str 0 = ''0''" by (subst bin_str.simps, simp)+
  then have f: "fmt_bin 5 (- 1) = ''-0001''" "length (fmt_bin 5 0) = 5"
    by (simp_all add: fmt_bin_def zfill_def numeral_eq_Suc)
  then show "\<exists>w. construct_command_word (PInt (- 1)) t (PInt 0) (PInt 0) = Some w \<and> length w = 20 \<and>
       slice 0 8 w = ''100-0001'' \<and> \<not> bc_check_word_format w ty"
    by (auto simp: construct_command_ints with_parity_def slice_def bc_check_eq_checked word20_def is_bit_def)
qed

text \<open>
  A status word sent by a remote terminal is recovered by the bus controller whichever way it is packed:
  alone or followed by further characters, in the field of a dictionary, first in a list of frames, or first
  in a JSON list of words; a request identifier is added to the decoded word.
\<close>

theorem status_word_recovered:
  assumes "0 \<le> rt" "rt \<le> 31" "valid_flags f" "truthy req" "\<forall>v\<in>set ws. bits v \<and> length v = 20"
  shows "\<exists>w s. rt_encode_status_word (AInt rt) f = Inr w \<and> sw_rt_address s = rt \<and> flags_of s = f \<and>
    (\<forall>v \<in> {PStr (w @ rest), PDict [(''status_word'', PStr w)],
            PDict [(''frames'', PList (PStr w # later_frames))], PStr (json_dumps_list (w # ws))}.
       deconstruct_status_word (Suc (Suc n)) v req = Inr (dict_set ''request_id'' req (status_dict s)))"
proof -
  let ?w = "with_parity (status_body rt f)"
  have e: "rt_encode_status_word (AInt rt) f = Inr ?w"
    using assms by (intro rt_encode_status_eq) (simp add: valid_status_def)
  then obtain s where s: "bc_decode_status_word (RawStr ?w) = Inr s" "sw_rt_address s = rt" "flags_of s = f"
    using status_word_decodes [of rt f] assms(1-3) by (fastforce simp: valid_status_def)
  have w: "word20 ?w" using status_body_word [OF assms(1,2), of f] by (intro with_parity_word) auto
  have sync: "slice 0 3 ?w = ''100''" by (rule status_body_fields [OF assms(1,2)])
  have d: "decode_cleaned (PStr ?w) req = Inr (dict_set ''request_id'' req (status_dict s))"
    using s(1) assms(4) by (simp add: decode_cleaned_text [OF w])
  have t: "deconstruct_status_word (Suc m) (PStr (?w @ r)) req = decode_cleaned (PStr ?w) req" for m r
    by (rule deconstruct_text [OF w sync])
  have "is_status_frame (PStr ?w)"
    using take_is_prefix [of 3 ?w] sync by (simp add: is_status_frame_def STATUS_SYNC_def slice_def)
  then have sel: "select_status_frame [(''frames'', PList (PStr ?w # later_frames))] = Inr (PStr ?w)"
    "select_status_frame [(''status_word'', PStr ?w)] = Inr (PStr ?w)"
    by (simp_all add: select_status_frame_def dict_get_def has_key_def Let_def)
  have dict: "deconstruct_status_word (Suc (Suc n)) (PDict x) req = deconstruct_status_word (Suc (Suc n)) (PStr ?w) req"
    if "select_status_frame x = Inr (PStr ?w)" for x
    using that by simp
  have "deconstruct_status_word (Suc (Suc n)) (PStr (json_dumps_list (?w # ws))) req = decode_cleaned (PStr ?w) req"
    using assms(5) d by (intro deconstruct_json [OF w]) (auto simp: word20_def)
  then show ?thesis
    using e s(2,3) d t [of "Suc n" rest] t [of "Suc n" "[]"] dict [OF sel(1)] dict [OF sel(2)]
    by (intro exI [of _ ?w] exI [of _ s]) (simp del: deconstruct_status_word.simps)
qed

theorem status_word_recovered_witness:
  "\<exists>w s. rt_encode_status_word (AInt 9) default_flags = Inr w \<and> sw_rt_address s = 9 \<and> flags_of s = default_flags \<and>
     deconstruct_status_word 2 (PStr (json_dumps_list [w])) (PStr ''r1'') = Inr (dict_set ''request_id'' (PStr ''r1'') (status_dict s))"
  using status_word_recovered [of 9 default_flags "PStr ''r1''" "[]" "''0''" "[]" 0]
  by (fastforce simp: valid_flags_def default_flags_def numeral_2_eq_2 simp del: deconstruct_status_word.simps)

end
