(* ===== verification/Block_Transfer.thy ===== *)
theory Block_Transfer
  imports Bus_Message
begin

text \<open>
  Reassembly of transfers that arrive in several blocks (\<^verbatim>\<open>block_transfer_manager.py\<close>, class
  \<open>BlockTransferManager\<close>). The pending transfers are a dictionary from request identifiers to transfer
  records, in insertion order; the blocks of a transfer are a list of slots that hold no block or a list of
  items. The clock is an argument of the operations that read it.
\<close>

section \<open>State\<close>

record transfer =
  t_blocks :: "pyval list option list"
  t_total_sequences :: int
  t_received_count :: int
  t_timestamp :: rat
  t_complete :: bool
  t_data_type :: "string option"
  t_message_type :: "string option"
  t_is_zero_based :: bool

type_synonym manager = "(string \<times> transfer) list"

definition new_transfer :: "rat \<Rightarrow> int \<Rightarrow> int \<Rightarrow> transfer" where
  "new_transfer t sequence_number total_seq =
     \<lparr>t_blocks = replicate (nat total_seq) None, t_total_sequences = total_seq, t_received_count = 0, t_timestamp = t,
      t_complete = False, t_data_type = None, t_message_type = None, t_is_zero_based = (sequence_number = 0)\<rparr>"

section \<open>Registering a block\<close>

text \<open>
  The search of the block's items for an indication of precipitation or VIL data: the first item that gives one
  ends it. The result is \<open>is_precipitation\<close>, \<open>is_vil\<close> and the message type.
\<close>

definition indicates :: "string \<Rightarrow> string \<Rightarrow> bool" where
  "indicates t s = sublist t (lower s)"

fun detect_data_type :: "pyval list \<Rightarrow> bool \<times> bool \<times> string option" where
  "detect_data_type [] = (False, False, None)"
| "detect_data_type (item # items) =
     (case item of
        PDict d \<Rightarrow>
          (case dict_get d ''metadata'' (PDict []) of
             PDict m \<Rightarrow>
               let by_command =
                 (case dict_get m ''command_type'' (PStr []) of
                    PStr c \<Rightarrow>
                      if indicates ''precip'' c \<or> indicates ''precipitation'' c then (True, False, None)
                      else if indicates ''vil'' c then (False, True, None)
                      else detect_data_type items
                  | _ \<Rightarrow> detect_data_type items)
               in (case dict_get m ''message_type'' (PStr []) of
                     PStr t \<Rightarrow>
                       if indicates ''precip'' t \<or> indicates ''precipitation'' t then (True, False, Some t)
                       else if indicates ''vil'' t then (False, True, Some t)
                       else by_command
                   | _ \<Rightarrow> by_command)
           | _ \<Rightarrow> detect_data_type items)
      | _ \<Rightarrow> detect_data_type items)"

text \<open>The first two words of an ordinary block of more than two words are dropped as sequence metadata.\<close>

definition strip_sequence_words :: "pyval list \<Rightarrow> pyval list" where
  "strip_sequence_words data = (if 2 < length data then drop 2 data else data)"

text \<open>The data to store and the transfer's data and message type after the block.\<close>

definition classify_block ::
  "int \<Rightarrow> pyval list \<Rightarrow> string option \<Rightarrow> string option \<Rightarrow> pyval list \<times> string option \<times> string option" where
  "classify_block sequence_number data data_type msg_type =
     (let (is_precipitation, is_vil, message_type) = detect_data_type data;
          (actual_data, data_type, is_precipitation) =
            (if \<not> (is_precipitation \<or> is_vil) \<and> 0 < length data \<and> sequence_number = 1 then
               (case as_int (hd data) of
                  Some word0 \<Rightarrow>
                    if 0 < word0 \<and> word0 < 100 then (data, Some ''precipitation'', True)
                    else (strip_sequence_words data, data_type, is_precipitation)
                | None \<Rightarrow> (strip_sequence_words data, data_type, is_precipitation))
             else if data_type \<in> {Some ''precipitation'', Some ''vil''} then (data, data_type, is_precipitation)
             else (strip_sequence_words data, data_type, is_precipitation))
      in if is_precipitation \<and> data_type = None then
           (actual_data, Some ''precipitation'', if message_type \<noteq> None then message_type else msg_type)
         else if is_vil \<and> data_type = None then
           (actual_data, Some ''vil'', if message_type \<noteq> None then message_type else msg_type)
         else (actual_data, data_type, msg_type))"

text \<open>An index of -1 is the last slot of a Python list.\<close>

definition slot :: "int \<Rightarrow> 'a list \<Rightarrow> nat" where
  "slot i xs = (if i < 0 then nat (int (length xs) + i) else nat i)"

definition adjusted_sequence :: "transfer \<Rightarrow> int \<Rightarrow> int" where
  "adjusted_sequence tr sequence_number = (if t_is_zero_based tr then sequence_number else sequence_number - 1)"

definition store_block :: "transfer \<Rightarrow> int \<Rightarrow> pyval list \<Rightarrow> bool \<times> transfer" where
  "store_block tr sequence_number data =
     (let adjusted = adjusted_sequence tr sequence_number
      in if t_total_sequences tr \<le> adjusted then (False, tr)
         else
           let i = slot adjusted (t_blocks tr)
           in if t_blocks tr ! i \<noteq> None then (t_complete tr, tr)
              else
                let (actual_data, data_type, msg_type) =
                      classify_block sequence_number data (t_data_type tr) (t_message_type tr);
                    count = t_received_count tr + 1;
                    complete = (count = t_total_sequences tr)
                in (complete,
                    tr\<lparr>t_data_type := data_type, t_message_type := msg_type,
                       t_blocks := (t_blocks tr)[i := Some actual_data], t_received_count := count,
                       t_complete := complete\<rparr>))"

text \<open>The argument checks: a non-empty identifier, a sequence number from 0, a total from 1 and a list.\<close>

definition block_args :: "pyval \<Rightarrow> pyval \<Rightarrow> pyval \<Rightarrow> pyval \<Rightarrow> (string \<times> int \<times> int \<times> pyval list) option" where
  "block_args request_id sequence_number total_sequences data =
     (case request_id of
        PStr rid \<Rightarrow>
          if rid = [] then None
          else
            (case as_int sequence_number of
               None \<Rightarrow> None
             | Some sq \<Rightarrow>
                 if sq < 0 then None
                 else
                   (case as_int total_sequences of
                      None \<Rightarrow> None
                    | Some n \<Rightarrow>
                        if n < 1 then None
                        else (case data of PList items \<Rightarrow> Some (rid, sq, n, items) | _ \<Rightarrow> None)))
      | _ \<Rightarrow> None)"

definition entry :: "rat \<Rightarrow> int \<Rightarrow> int \<Rightarrow> string \<Rightarrow> manager \<Rightarrow> transfer" where
  "entry t sq n rid m = (case map_of m rid of None \<Rightarrow> new_transfer t sq n | Some tr \<Rightarrow> tr)"

definition register_block ::
  "rat \<Rightarrow> pyval \<Rightarrow> pyval \<Rightarrow> pyval \<Rightarrow> pyval \<Rightarrow> manager \<Rightarrow> bool \<times> manager" where
  "register_block t request_id sequence_number total_sequences data m =
     (case block_args request_id sequence_number total_sequences data of
        None \<Rightarrow> (False, m)
      | Some (rid, sq, n, items) \<Rightarrow>
          let (r, tr) = store_block (entry t sq n rid m) sq items in (r, dict_set rid tr m))"

definition is_transfer_complete :: "manager \<Rightarrow> string \<Rightarrow> bool" where
  "is_transfer_complete m request_id =
     (case map_of m request_id of None \<Rightarrow> False | Some tr \<Rightarrow> t_complete tr)"

section \<open>Validating and splitting frames\<close>

text \<open>A frame of 18 to 22 characters is padded or cut to 20, others are dropped; the sync is checked after.\<close>

fun validate_1553b_frames :: "pyval list \<Rightarrow> pyval list" where
  "validate_1553b_frames [] = []"
| "validate_1553b_frames (v # frames) =
     (case v of
        PStr frame \<Rightarrow>
          if length frame \<noteq> 20 \<and> \<not> (18 \<le> length frame \<and> length frame \<le> 22) then validate_1553b_frames frames
          else
            let frame = (if length frame \<noteq> 20 then
                           (if length frame < 20 then frame @ replicate (20 - length frame) (CHR ''0'') else take 20 frame)
                         else frame);
                sync_bits = slice 0 3 frame
            in if sync_bits \<noteq> ''100'' \<and> sync_bits \<noteq> ''001'' then validate_1553b_frames frames
               else PStr frame # validate_1553b_frames frames
      | _ \<Rightarrow> v # validate_1553b_frames frames)"

definition btm_validate_parity :: "string \<Rightarrow> bool" where
  "btm_validate_parity frame =
     (if length frame \<noteq> 20 then False
      else
        let ones_count = ones (take 19 frame);
            expected_parity = (if ones_count mod 2 = 0 then CHR ''1'' else CHR ''0'')
        in frame ! 19 = expected_parity)"

definition has_sync :: "string \<Rightarrow> bool" where
  "has_sync s = (slice 0 3 s = ''100'' \<or> slice 0 3 s = ''001'')"

text \<open>The sliding window, on the text from the current position on.\<close>

function scan_frames :: "string \<Rightarrow> string list" where
  "scan_frames s =
     (if length s < 20 then []
      else if has_sync s \<and> btm_validate_parity (take 20 s) then take 20 s # scan_frames (drop 20 s)
      else scan_frames (drop 1 s))"
  by pat_completeness auto
termination by (relation "measure length") auto

declare scan_frames.simps [simp del]

text \<open>The values a \<^verbatim>\<open>for\<close> loop over a decoded JSON value visits.\<close>

definition py_iter :: "pyval \<Rightarrow> pyval list pyres" where
  "py_iter v = (case v of
     PList xs \<Rightarrow> Inr xs | PStr s \<Rightarrow> Inr (map (\<lambda>c. PStr [c]) s) | PDict d \<Rightarrow> Inr (map (\<lambda>(k, _). PStr k) d)
   | _ \<Rightarrow> Inl TypeError)"

definition is_frame :: "pyval \<Rightarrow> bool" where
  "is_frame v = (case v of PStr f \<Rightarrow> length f = 20 \<and> (prefix ''100'' f \<or> prefix ''001'' f) | _ \<Rightarrow> False)"

definition split_oversized_frames :: "string \<Rightarrow> pyval list pyres" where
  "split_oversized_frames s =
     (let binary = (if \<not> list_all is_bit s then [PStr s]
                    else if length s \<le> 20 then [PStr s]
                    else map PStr (scan_frames s))
      in if prefix ''{'' s \<and> suffix ''}'' s then
           (case json_loads s of
              Inr (PDict d) \<Rightarrow>
                if has_key d ''frames'' then
                  py_bind (py_iter (dict_get d ''frames'' PNone)) (\<lambda>frames.
                    let valid_frames = filter is_frame frames
                    in Inr (if valid_frames \<noteq> [] then valid_frames else binary))
                else Inr binary
            | Inr _ \<Rightarrow> Inr binary
            | Inl e \<Rightarrow> if e = ValueError then Inr binary else Inl e)
         else Inr binary)"

section \<open>Assembling\<close>

definition process_item :: "pyval \<Rightarrow> pyval list pyres" where
  "process_item item =
     (case item of
        PDict d \<Rightarrow>
          (case map_of d ''frames'' of
             Some (PList frames) \<Rightarrow> Inr (validate_1553b_frames frames)
           | _ \<Rightarrow> Inr [item])
      | PStr s \<Rightarrow>
          if length s = 20 \<and> (prefix ''100'' s \<or> prefix ''001'' s) then Inr [item]
          else if 20 < length s then
            py_bind (split_oversized_frames s) (\<lambda>extracted_frames.
              Inr (if extracted_frames \<noteq> [] then validate_1553b_frames extracted_frames else [item]))
          else Inr [item]
      | _ \<Rightarrow> Inr [item])"

fun process_items :: "pyval list \<Rightarrow> pyval list pyres" where
  "process_items [] = Inr []"
| "process_items (x # xs) = py_bind (process_item x) (\<lambda>ys. py_bind (process_items xs) (\<lambda>zs. Inr (ys @ zs)))"

definition raw_assembled :: "transfer \<Rightarrow> pyval list" where
  "raw_assembled tr = concat (map (\<lambda>b. case b of None \<Rightarrow> [] | Some d \<Rightarrow> d) (t_blocks tr))"

definition get_assembled_data :: "manager \<Rightarrow> string \<Rightarrow> pyval list option pyres \<times> manager" where
  "get_assembled_data m request_id =
     (if \<not> is_transfer_complete m request_id then (Inr None, m)
      else case map_of m request_id of
             None \<Rightarrow> (Inr None, m)
           | Some tr \<Rightarrow>
               (case process_items (raw_assembled tr) of
                  Inl e \<Rightarrow> (Inl e, m)
                | Inr processed_data \<Rightarrow> (Inr (Some processed_data), AList.delete request_id m)))"

section \<open>House-keeping\<close>

definition stale :: "rat \<Rightarrow> rat \<Rightarrow> transfer \<Rightarrow> bool" where
  "stale t max_age_seconds tr = (max_age_seconds < fsub t (t_timestamp tr))"

definition cleanup_stale_transfers :: "rat \<Rightarrow> rat \<Rightarrow> manager \<Rightarrow> nat \<times> manager" where
  "cleanup_stale_transfers t max_age_seconds m =
     (let stale_transfers = map fst (filter (\<lambda>(_, tr). stale t max_age_seconds tr) m)
      in (length stale_transfers, fold AList.delete stale_transfers m))"

definition get_pending_transfers_count :: "manager \<Rightarrow> nat" where
  "get_pending_transfers_count m = length m"

definition clear_transfer :: "manager \<Rightarrow> string \<Rightarrow> bool \<times> manager" where
  "clear_transfer m request_id =
     (if map_of m request_id = None then (False, m) else (True, AList.delete request_id m))"

definition get_transfer_status :: "rat \<Rightarrow> manager \<Rightarrow> string \<Rightarrow> pydict" where
  "get_transfer_status t m request_id =
     (case map_of m request_id of
        None \<Rightarrow> [(''exists'', PBool False), (''complete'', PBool False), (''received_blocks'', PInt 0),
                  (''total_blocks'', PInt 0), (''age_seconds'', PInt 0), (''percent_complete'', PInt 0)]
      | Some tr \<Rightarrow>
          [(''exists'', PBool True), (''complete'', PBool (t_complete tr)),
           (''received_blocks'', PInt (t_received_count tr)), (''total_blocks'', PInt (t_total_sequences tr)),
           (''age_seconds'', PFloat (fsub t (t_timestamp tr))),
           (''percent_complete'',
              PFloat (fmul (fdiv (of_int (t_received_count tr)) (of_int (t_total_sequences tr))) 100))])"

section \<open>The invariant of the pending transfers\<close>

definition filled :: "'a option list \<Rightarrow> nat" where
  "filled bs = length (filter (\<lambda>b. b \<noteq> None) bs)"

definition transfer_ok :: "transfer \<Rightarrow> bool" where
  "transfer_ok tr \<longleftrightarrow> 1 \<le> t_total_sequences tr \<and> int (length (t_blocks tr)) = t_total_sequences tr \<and>
     t_received_count tr = int (filled (t_blocks tr)) \<and>
     t_complete tr = (t_received_count tr = t_total_sequences tr)"

definition manager_ok :: "manager \<Rightarrow> bool" where
  "manager_ok m \<longleftrightarrow> distinct (map fst m) \<and> (\<forall>tr \<in> snd ` set m. transfer_ok tr)"

lemma filled_update:
  "i < length bs \<Longrightarrow> bs ! i = None \<Longrightarrow> filled (bs[i := Some d]) = Suc (filled bs)"
  by (induction bs arbitrary: i) (auto simp: filled_def split: nat.split)

lemma filled_full: "filled bs = length bs \<longleftrightarrow> None \<notin> set bs"
proof (induction bs)
  case (Cons b bs)
  have le: "filled bs \<le> length bs" by (simp add: filled_def)
  have "filled (b # bs) = (if b = None then filled bs else Suc (filled bs))" by (simp add: filled_def)
  with Cons le show ?case by (cases b) auto
qed (simp add: filled_def)

lemma new_transfer_ok: "1 \<le> n \<Longrightarrow> transfer_ok (new_transfer t sq n)"
  by (simp add: transfer_ok_def new_transfer_def filled_def)

lemma slot_bound:
  assumes "transfer_ok tr" "0 \<le> sq" "adjusted_sequence tr sq < t_total_sequences tr"
  shows "slot (adjusted_sequence tr sq) (t_blocks tr) < length (t_blocks tr)"
  using assms by (auto simp: transfer_ok_def slot_def adjusted_sequence_def split: if_splits)

lemma store_block_ok:
  assumes "transfer_ok tr" "0 \<le> sq"
  shows "transfer_ok (snd (store_block tr sq data))"
    "fst (store_block tr sq data) \<Longrightarrow> t_complete (snd (store_block tr sq data))"
proof -
  have b: "\<not> t_total_sequences tr \<le> adjusted_sequence tr sq \<Longrightarrow>
      slot (adjusted_sequence tr sq) (t_blocks tr) < length (t_blocks tr)"
    using slot_bound [OF assms] by simp
  show "transfer_ok (snd (store_block tr sq data))"
    using assms(1) b filled_update [of "slot (adjusted_sequence tr sq) (t_blocks tr)" "t_blocks tr"]
    by (auto simp: store_block_def Let_def transfer_ok_def split: prod.split)
  show "fst (store_block tr sq data) \<Longrightarrow> t_complete (snd (store_block tr sq data))"
    by (auto simp: store_block_def Let_def split: prod.splits if_splits)
qed

lemma manager_ok_update:
  assumes "manager_ok m" "transfer_ok tr"
  shows "manager_ok (dict_set k tr m)"
proof -
  have "snd ` set (dict_set k tr m) \<subseteq> insert tr (snd ` set m)"
    unfolding dict_set_def by (induction m) auto
  with assms show ?thesis unfolding manager_ok_def by (blast intro: distinct_dict_set)
qed

lemma manager_ok_delete: "manager_ok m \<Longrightarrow> manager_ok (AList.delete k m)"
proof -
  assume m: "manager_ok m"
  have "set (AList.delete k m) \<subseteq> set m" by (induction m) auto
  with m show ?thesis unfolding manager_ok_def by (auto intro: distinct_delete)
qed

lemma manager_ok_lookup: "manager_ok m \<Longrightarrow> map_of m k = Some tr \<Longrightarrow> transfer_ok tr"
  by (auto simp: manager_ok_def dest!: map_of_SomeD)

lemma block_args_bounds:
  "block_args rid sq nv data = Some (r, k, n, items) \<Longrightarrow> r \<noteq> [] \<and> 0 \<le> k \<and> 1 \<le> n"
  by (auto simp: block_args_def split: pyval.splits option.splits if_splits)

lemma block_args_id: "block_args (PStr rid) sq nv data = Some (r, k, n, items) \<Longrightarrow> r = rid"
  by (auto simp: block_args_def split: pyval.splits option.splits if_splits)

lemma block_args_ints: "r \<noteq> [] \<Longrightarrow> 0 \<le> k \<Longrightarrow> 1 \<le> n \<Longrightarrow>
    block_args (PStr r) (PInt k) (PInt n) (PList items) = Some (r, k, n, items)"
  by (simp add: block_args_def)

lemma entry_ok: "manager_ok m \<Longrightarrow> 1 \<le> n \<Longrightarrow> transfer_ok (entry t k n r m)"
  by (auto simp: entry_def new_transfer_ok split: option.split intro: manager_ok_lookup)

lemma register_block_ok: "manager_ok m \<Longrightarrow> manager_ok (snd (register_block t rid sq n data m))"
  by (auto simp: register_block_def split_beta split: option.split
      dest!: block_args_bounds intro!: manager_ok_update store_block_ok(1) entry_ok)

lemma get_assembled_data_ok: "manager_ok m \<Longrightarrow> manager_ok (snd (get_assembled_data m rid))"
  by (auto simp: get_assembled_data_def manager_ok_delete split: option.split sum.split)

lemma clear_transfer_ok: "manager_ok m \<Longrightarrow> manager_ok (snd (clear_transfer m rid))"
  by (simp add: clear_transfer_def manager_ok_delete)

lemma cleanup_ok: "manager_ok m \<Longrightarrow> manager_ok (snd (cleanup_stale_transfers t a m))"
proof -
  have "manager_ok m \<Longrightarrow> manager_ok (fold AList.delete ks m)" for ks
    by (induction ks arbitrary: m) (auto intro: manager_ok_delete)
  then show "manager_ok m \<Longrightarrow> manager_ok (snd (cleanup_stale_transfers t a m))"
    by (simp add: cleanup_stale_transfers_def Let_def)
qed

text \<open>The operations of the manager as steps, in any order and with any arguments.\<close>

inductive manager_step :: "manager \<Rightarrow> manager \<Rightarrow> bool" where
  step_register: "manager_step m (snd (register_block t rid sq n data m))"
| step_assemble: "manager_step m (snd (get_assembled_data m r))"
| step_clear: "manager_step m (snd (clear_transfer m r))"
| step_cleanup: "manager_step m (snd (cleanup_stale_transfers t a m))"

inductive manager_reachable :: "manager \<Rightarrow> bool" where
  reach_init: "manager_reachable []"
| reach_step: "manager_reachable m \<Longrightarrow> manager_step m m' \<Longrightarrow> manager_reachable m'"

lemma manager_step_ok: "manager_step m m' \<Longrightarrow> manager_ok m \<Longrightarrow> manager_ok m'"
  by (induction rule: manager_step.induct)
     (auto intro: register_block_ok get_assembled_data_ok clear_transfer_ok cleanup_ok)

lemma reachable_ok: "manager_reachable m \<Longrightarrow> manager_ok m"
  by (induction rule: manager_reachable.induct) (auto simp: manager_ok_def [of "[]"] intro: manager_step_ok)

section \<open>Splitting concatenated frames\<close>

lemma btm_parity_word: "word20 w \<Longrightarrow> btm_validate_parity w = odd (ones w)"
proof -
  assume w: "word20 w"
  then have "w ! 19 = CHR ''0'' \<or> w ! 19 = CHR ''1''" by (intro bits_in) (auto simp: word20_def)
  then show ?thesis
    using ones_last [OF word20_simps(2) [OF w]] word20_simps [OF w]
    by (elim disjE) (simp_all add: btm_validate_parity_def Let_def, presburger+)
qed

lemma scan_frames_word:
  assumes "word20 w" "odd (ones w)" "has_sync w"
  shows "scan_frames (w @ s) = w # scan_frames s"
proof -
  have l: "length w = 20" using assms(1) by (rule word20_simps)
  then have "slice 0 3 (w @ s) = slice 0 3 w" by (simp add: slice_def)
  then have "has_sync (w @ s)" using assms(3) by (simp add: has_sync_def)
  then show ?thesis using assms l by (subst scan_frames.simps) (simp add: btm_parity_word)
qed

lemma scan_frames_concat:
  "\<forall>w\<in>set ws. word20 w \<and> odd (ones w) \<and> has_sync w \<Longrightarrow> length s < 20 \<Longrightarrow> scan_frames (concat ws @ s) = ws"
proof (induction ws)
  case Nil
  then show ?case by (subst scan_frames.simps) simp
next
  case (Cons w ws)
  then show ?case using scan_frames_word [of w "concat ws @ s"] by simp
qed

lemma scan_frames_valid: "f \<in> set (scan_frames s) \<Longrightarrow> length f = 20 \<and> has_sync f \<and> btm_validate_parity f"
proof (induction s rule: scan_frames.induct)
  case (1 s)
  have "slice 0 3 (take 20 s) = slice 0 3 s" by (simp add: slice_def)
  then have "has_sync s \<longleftrightarrow> has_sync (take 20 s)" by (simp add: has_sync_def)
  with 1 show ?case by (subst (asm) scan_frames.simps) (auto split: if_splits)
qed

section \<open>Blocks arriving in any order\<close>

text \<open>
  A transfer of integer words. The words of the block with sequence number 1 must not start with a number from
  1 to 99, which the manager takes for the object count of precipitation data.
\<close>

definition int_block :: "(int \<Rightarrow> int list) \<Rightarrow> int \<Rightarrow> pyval list" where
  "int_block f k = map PInt (f k)"

definition ordinary :: "(int \<Rightarrow> int list) \<Rightarrow> bool" where
  "ordinary f = (f 1 = [] \<or> \<not> (0 < hd (f 1) \<and> hd (f 1) < 100))"

lemma detect_ints: "detect_data_type (map PInt xs) = (False, False, None)"
  by (induction xs) simp_all

lemma classify_ints:
  "ordinary f \<Longrightarrow> classify_block k (int_block f k) None None = (strip_sequence_words (int_block f k), None, None)"
  by (cases "f 1") (auto simp: classify_block_def int_block_def detect_ints ordinary_def hd_map Let_def)

definition send_blocks :: "(int \<Rightarrow> int list) \<Rightarrow> int list \<Rightarrow> transfer \<Rightarrow> transfer" where
  "send_blocks f ks tr = fold (\<lambda>k tr. snd (store_block tr k (int_block f k))) ks tr"

definition position :: "bool \<Rightarrow> int \<Rightarrow> int \<Rightarrow> nat" where
  "position zero_based n k = nat (if zero_based then k else if k = 0 then n - 1 else k - 1)"

lemma store_int_block:
  assumes "t_data_type tr = None" "t_message_type tr = None" "ordinary f" "0 \<le> k"
    "int (length (t_blocks tr)) = t_total_sequences tr"
    "k < t_total_sequences tr + (if t_is_zero_based tr then 0 else 1)"
    "t_blocks tr ! position (t_is_zero_based tr) (t_total_sequences tr) k = None"
  shows "store_block tr k (int_block f k) =
    (t_received_count tr + 1 = t_total_sequences tr,
     tr\<lparr>t_blocks := (t_blocks tr)[position (t_is_zero_based tr) (t_total_sequences tr) k :=
          Some (strip_sequence_words (int_block f k))],
        t_received_count := t_received_count tr + 1,
        t_complete := (t_received_count tr + 1 = t_total_sequences tr)\<rparr>)"
proof -
  have "slot (adjusted_sequence tr k) (t_blocks tr) = position (t_is_zero_based tr) (t_total_sequences tr) k"
    using assms(4,5) by (auto simp: slot_def adjusted_sequence_def position_def)
  moreover have "\<not> t_total_sequences tr \<le> adjusted_sequence tr k"
    using assms(6) by (auto simp: adjusted_sequence_def split: if_splits)
  ultimately show ?thesis
    using assms(1,2,7) classify_ints [OF assms(3), of k] by (simp add: store_block_def Let_def)
qed

lemma send_blocks_state:
  assumes "t_data_type tr = None" "t_message_type tr = None" "ordinary f"
    "int (length (t_blocks tr)) = t_total_sequences tr"
    "\<forall>k\<in>set ks. 0 \<le> k \<and> k < t_total_sequences tr + (if t_is_zero_based tr then 0 else 1) \<and>
       t_blocks tr ! position (t_is_zero_based tr) (t_total_sequences tr) k = None"
    "distinct (map (position (t_is_zero_based tr) (t_total_sequences tr)) ks)"
  defines "p \<equiv> position (t_is_zero_based tr) (t_total_sequences tr)"
  shows "t_blocks (send_blocks f ks tr) = fold (\<lambda>k bs. bs[p k := Some (strip_sequence_words (int_block f k))]) ks (t_blocks tr)"
    "t_received_count (send_blocks f ks tr) = t_received_count tr + int (length ks)"
    "t_total_sequences (send_blocks f ks tr) = t_total_sequences tr"
    "t_complete (send_blocks f ks tr) =
       (if ks = [] then t_complete tr else t_received_count tr + int (length ks) = t_total_sequences tr)"
proof -
  have "t_blocks (send_blocks f ks tr) = fold (\<lambda>k bs. bs[p k := Some (strip_sequence_words (int_block f k))]) ks (t_blocks tr) \<and>
    t_received_count (send_blocks f ks tr) = t_received_count tr + int (length ks) \<and>
    t_total_sequences (send_blocks f ks tr) = t_total_sequences tr \<and>
    t_complete (send_blocks f ks tr) =
       (if ks = [] then t_complete tr else t_received_count tr + int (length ks) = t_total_sequences tr)"
    using assms(1-6) unfolding p_def
  proof (induction ks arbitrary: tr)
    case Nil
    then show ?case by (simp add: send_blocks_def)
  next
    case (Cons k ks)
    let ?q = "position (t_is_zero_based tr) (t_total_sequences tr)"
    let ?tr = "tr\<lparr>t_blocks := (t_blocks tr)[?q k := Some (strip_sequence_words (int_block f k))],
        t_received_count := t_received_count tr + 1,
        t_complete := (t_received_count tr + 1 = t_total_sequences tr)\<rparr>"
    have st: "snd (store_block tr k (int_block f k)) = ?tr"
      using Cons.prems by (subst store_int_block) auto
    have ks: "?q j \<noteq> ?q k" if "j \<in> set ks" for j using Cons.prems(6) that by (simp, metis imageI)
    have "\<forall>j\<in>set ks. 0 \<le> j \<and> j < t_total_sequences ?tr + (if t_is_zero_based ?tr then 0 else 1) \<and>
       t_blocks ?tr ! position (t_is_zero_based ?tr) (t_total_sequences ?tr) j = None"
      using Cons.prems(5) ks [symmetric] by (simp add: nth_list_update_neq)
    from Cons.IH [of ?tr, OF _ _ _ _ this] Cons.prems(1-4,6) have
      "t_blocks (send_blocks f ks ?tr) = fold (\<lambda>k bs. bs[?q k := Some (strip_sequence_words (int_block f k))]) ks (t_blocks ?tr) \<and>
       t_received_count (send_blocks f ks ?tr) = t_received_count ?tr + int (length ks) \<and>
       t_total_sequences (send_blocks f ks ?tr) = t_total_sequences ?tr \<and>
       t_complete (send_blocks f ks ?tr) =
         (if ks = [] then t_complete ?tr else t_received_count ?tr + int (length ks) = t_total_sequences ?tr)"
      by simp
    moreover have "send_blocks f (k # ks) tr = send_blocks f ks ?tr" by (simp add: send_blocks_def st)
    ultimately show ?case by auto
  qed
  then show "t_blocks (send_blocks f ks tr) = fold (\<lambda>k bs. bs[p k := Some (strip_sequence_words (int_block f k))]) ks (t_blocks tr)"
    "t_received_count (send_blocks f ks tr) = t_received_count tr + int (length ks)"
    "t_total_sequences (send_blocks f ks tr) = t_total_sequences tr"
    "t_complete (send_blocks f ks tr) =
       (if ks = [] then t_complete tr else t_received_count tr + int (length ks) = t_total_sequences tr)"
    by blast+
qed

lemma length_fold_update: "length (fold (\<lambda>k bs. bs[p k := g k]) ks bs) = length bs"
  by (induction ks arbitrary: bs) simp_all

lemma nth_fold_update:
  "distinct (map p ks) \<Longrightarrow> k \<in> set ks \<Longrightarrow> p k < length bs \<Longrightarrow> fold (\<lambda>k bs. bs[p k := g k]) ks bs ! p k = g k"
proof (induction ks arbitrary: bs)
  case (Cons j ks)
  have keep: "i \<notin> p ` set ks \<Longrightarrow> fold (\<lambda>k bs. bs[p k := g k]) ks cs ! i = cs ! i" for i cs
    by (induction ks arbitrary: cs) auto
  show ?case
  proof (cases "k = j")
    case True
    then show ?thesis using Cons.prems by (simp add: keep)
  next
    case False
    then show ?thesis using Cons by simp
  qed
qed simp

text \<open>The sequence numbers of a transfer of \<open>n\<close> blocks, and the order its slots end up in.\<close>

definition slot_order :: "bool \<Rightarrow> int \<Rightarrow> int list" where
  "slot_order zero_based n = (if zero_based then [0..n - 1] else [1..n])"

lemma reassemble:
  assumes "ordinary f" "distinct ks" "ks \<noteq> []" "length ks = nat n"
    "\<forall>k\<in>set ks. 0 \<le> k \<and> k < n + (if hd ks = 0 then 0 else 1)" "\<not> {0, n} \<subseteq> set ks"
  shows "let tr = send_blocks f ks (new_transfer t (hd ks) n) in
     t_complete tr \<and> (\<forall>k\<in>set ks. t_blocks tr ! position (hd ks = 0) n k = Some (strip_sequence_words (int_block f k)))
     \<and> length (t_blocks tr) = nat n"
proof -
  let ?z = "hd ks = 0"
  let ?tr = "new_transfer t (hd ks) n"
  have z: "t_is_zero_based ?tr = ?z" "t_total_sequences ?tr = n" "t_received_count ?tr = 0"
    "t_blocks ?tr = replicate (nat n) None" "t_data_type ?tr = None" "t_message_type ?tr = None"
    by (simp_all add: new_transfer_def)
  have n: "0 < n" using assms(3,4) by (cases ks) auto
  have p: "position ?z n k < nat n" if "k \<in> set ks" for k
    using assms(5) n that by (auto simp: position_def split: if_splits)
  have "inj_on (position ?z n) (set ks)"
  proof (rule inj_onI)
    fix x y assume xy: "x \<in> set ks" "y \<in> set ks" "position ?z n x = position ?z n y"
    then have "0 \<le> x" "0 \<le> y" "x \<le> n" "y \<le> n" "\<not> (x = 0 \<and> y = n)" "\<not> (x = n \<and> y = 0)"
      using assms(5,6) by (auto split: if_splits)
    with xy(3) n show "x = y" by (auto simp: position_def eq_nat_nat_iff split: if_splits)
  qed
  then have d: "distinct (map (position ?z n) ks)" using assms(2) by (simp add: distinct_map)
  have h: "\<forall>k\<in>set ks. 0 \<le> k \<and> k < t_total_sequences ?tr + (if t_is_zero_based ?tr then 0 else 1) \<and>
       t_blocks ?tr ! position (t_is_zero_based ?tr) (t_total_sequences ?tr) k = None"
    using assms(5) p by (simp add: z)
  have l: "int (length (t_blocks ?tr)) = t_total_sequences ?tr" using n by (simp add: z)
  note s = send_blocks_state [OF z(5,6) assms(1) l h, unfolded z, OF d]
  have "t_complete (send_blocks f ks ?tr)" using s(4) assms(3,4) n by simp
  moreover have "t_blocks (send_blocks f ks ?tr) ! position ?z n k = Some (strip_sequence_words (int_block f k))"
    if "k \<in> set ks" for k
    unfolding s(1) using d that p [OF that]
    by (intro nth_fold_update [where g = "\<lambda>k. Some (strip_sequence_words (int_block f k))"]) simp_all
  moreover have "length (t_blocks (send_blocks f ks ?tr)) = nat n"
    unfolding s(1) by (simp add: length_fold_update)
  ultimately show ?thesis by simp
qed

lemma process_ints: "process_items (map PInt xs) = Inr (map PInt xs)"
  by (induction xs) (simp_all add: process_item_def)

lemma raw_assembled_order:
  assumes "length (t_blocks tr) = length ord"
    "\<And>i. i < length ord \<Longrightarrow> t_blocks tr ! i = Some (g (ord ! i))"
  shows "raw_assembled tr = concat (map g ord)"
proof -
  have "t_blocks tr = map (\<lambda>k. Some (g k)) ord"
    using assms by (intro nth_equalityI) simp_all
  then show ?thesis by (simp add: raw_assembled_def comp_def)
qed

text \<open>The manager fed one block after the other under one identifier.\<close>

definition feed :: "rat \<Rightarrow> string \<Rightarrow> int \<Rightarrow> (int \<Rightarrow> int list) \<Rightarrow> int list \<Rightarrow> manager \<Rightarrow> manager" where
  "feed t rid n f ks m =
     fold (\<lambda>k m. snd (register_block t (PStr rid) (PInt k) (PInt n) (PList (int_block f k)) m)) ks m"

lemma feed_entry:
  assumes "rid \<noteq> []" "1 \<le> n" "\<forall>k\<in>set ks. 0 \<le> k"
  shows "ks \<noteq> [] \<Longrightarrow> map_of m rid = None \<Longrightarrow>
    feed t rid n f ks m = dict_set rid (send_blocks f ks (new_transfer t (hd ks) n)) m"
proof -
  have step: "snd (register_block t (PStr rid) (PInt k) (PInt n) (PList (int_block f k)) m)
      = dict_set rid (snd (store_block (entry t k n rid m) k (int_block f k))) m" if "0 \<le> k" for k m
    using that assms by (simp add: register_block_def block_args_ints split_beta)
  have known: "map_of m rid = Some tr \<Longrightarrow> feed t rid n f ks m = (if ks = [] then m else dict_set rid (send_blocks f ks tr) m)"
    if "\<forall>k\<in>set ks. 0 \<le> k" for ks m tr
    using that
  proof (induction ks arbitrary: m tr)
    case (Cons k ks)
    let ?m = "dict_set rid (snd (store_block tr k (int_block f k))) m"
    have "map_of ?m rid = Some (snd (store_block tr k (int_block f k)))" by (simp add: dict_set_def update_conv)
    with Cons show ?case
      by (auto simp: feed_def step entry_def send_blocks_def dict_set_def)
  qed (simp add: feed_def)
  show "ks \<noteq> [] \<Longrightarrow> map_of m rid = None \<Longrightarrow>
    feed t rid n f ks m = dict_set rid (send_blocks f ks (new_transfer t (hd ks) n)) m"
  proof (cases ks)
    case (Cons k js)
    assume "map_of m rid = None"
    let ?tr = "snd (store_block (new_transfer t k n) k (int_block f k))"
    have "map_of (dict_set rid ?tr m) rid = Some ?tr" by (simp add: dict_set_def update_conv)
    then show ?thesis
      using assms(3) known [of js "dict_set rid ?tr m" ?tr] \<open>map_of m rid = None\<close>
      by (cases "js = []") (auto simp: Cons feed_def step entry_def send_blocks_def dict_set_def)
  qed simp
qed

lemma sort_interval: "distinct ks \<Longrightarrow> set ks = {a..b} \<Longrightarrow> sort ks = [a..b]"
  by (rule sorted_distinct_set_unique) auto

lemma length_interval: "distinct ks \<Longrightarrow> set ks = {a..b} \<Longrightarrow> length ks = nat (b - a + 1)"
  using distinct_card [of ks] by simp

text \<open>The slots filled in an order of sequence numbers are read out in that order.\<close>

lemma assembled:
  assumes "rid \<noteq> []" "1 \<le> n" "map_of m rid = None" "ordinary f" "distinct ks" "ks \<noteq> []" "length ks = nat n"
    "\<forall>k\<in>set ks. 0 \<le> k \<and> k < n + (if hd ks = 0 then 0 else 1)" "\<not> {0, n} \<subseteq> set ks"
    "length ord = nat n" "set ord \<subseteq> set ks" "\<And>i. i < nat n \<Longrightarrow> position (hd ks = 0) n (ord ! i) = i"
  shows "fst (get_assembled_data (feed t rid n f ks m) rid)
      = Inr (Some (concat (map (\<lambda>k. strip_sequence_words (int_block f k)) ord)))"
    "map_of (snd (get_assembled_data (feed t rid n f ks m) rid)) rid = None"
proof -
  let ?tr = "send_blocks f ks (new_transfer t (hd ks) n)"
  have m: "feed t rid n f ks m = dict_set rid ?tr m"
    using assms(1-3,6,8) by (intro feed_entry) auto
  then have l: "map_of (feed t rid n f ks m) rid = Some ?tr" by (simp add: dict_set_def update_conv)
  have r: "t_complete ?tr" "length (t_blocks ?tr) = nat n"
    "k \<in> set ks \<Longrightarrow> t_blocks ?tr ! position (hd ks = 0) n k = Some (strip_sequence_words (int_block f k))" for k
    using reassemble [OF assms(4-9), where t = t] by (simp_all add: Let_def)
  have raw: "raw_assembled ?tr = concat (map (\<lambda>k. strip_sequence_words (int_block f k)) ord)"
  proof (rule raw_assembled_order)
    show "t_blocks ?tr ! i = Some (strip_sequence_words (int_block f (ord ! i)))" if "i < length ord" for i
      using r(3) [of "ord ! i"] assms(10,11) assms(12) [of i] that by (simp add: subset_iff)
  qed (use r(2) assms(10) in simp)
  have "\<exists>xs. concat (map (\<lambda>k. strip_sequence_words (int_block f k)) ord) = map PInt xs"
  proof (rule exI)
    show "concat (map (\<lambda>k. strip_sequence_words (int_block f k)) ord)
        = map PInt (concat (map (\<lambda>k. if 2 < length (f k) then drop 2 (f k) else f k) ord))"
      by (induction ord) (auto simp: strip_sequence_words_def int_block_def drop_map)
  qed
  with raw obtain xs where xs: "raw_assembled ?tr = map PInt xs" by auto
  then have p: "process_items (raw_assembled ?tr) = Inr (raw_assembled ?tr)" by (simp add: process_ints)
  show "fst (get_assembled_data (feed t rid n f ks m) rid)
      = Inr (Some (concat (map (\<lambda>k. strip_sequence_words (int_block f k)) ord)))"
    "map_of (snd (get_assembled_data (feed t rid n f ks m) rid)) rid = None"
    using l r(1) p raw by (simp_all add: get_assembled_data_def is_transfer_complete_def delete_conv)
qed

section \<open>Properties\<close>

text \<open>
  C13. Whatever sequence of registrations, assemblies, clearances and clean-ups the manager has seen, every
  pending transfer has one slot per expected block, counts exactly the slots that hold a block, and is marked
  complete exactly when no slot is empty; a registration answers true only for a transfer that is complete.
\<close>

theorem pending_transfers_consistent:
  assumes "manager_reachable m"
  shows "(map_of m rid = Some tr \<longrightarrow> int (length (t_blocks tr)) = t_total_sequences tr \<and>
      t_received_count tr = int (filled (t_blocks tr)) \<and> (t_complete tr \<longleftrightarrow> None \<notin> set (t_blocks tr))) \<and>
    (fst (register_block t (PStr r) sq n data m) \<longrightarrow> is_transfer_complete (snd (register_block t (PStr r) sq n data m)) r)"
proof (rule conjI; rule impI)
  have ok: "manager_ok m" by (rule reachable_ok [OF assms])
  show "int (length (t_blocks tr)) = t_total_sequences tr \<and>
      t_received_count tr = int (filled (t_blocks tr)) \<and> (t_complete tr \<longleftrightarrow> None \<notin> set (t_blocks tr))"
    if "map_of m rid = Some tr"
    using manager_ok_lookup [OF ok that] filled_full [of "t_blocks tr"] by (auto simp: transfer_ok_def)
  show "is_transfer_complete (snd (register_block t (PStr r) sq n data m)) r"
    if ans: "fst (register_block t (PStr r) sq n data m)"
  proof -
    obtain k nv items where a: "block_args (PStr r) sq n data = Some (r, k, nv, items)"
    proof (cases "block_args (PStr r) sq n data")
      case (Some x)
      then show ?thesis using block_args_id that by (cases x) auto
    next
      case None
      with ans show ?thesis by (simp add: register_block_def)
    qed
    then have "transfer_ok (entry t k nv r m)" "0 \<le> k" using block_args_bounds [OF a] entry_ok [OF ok] by auto
    from store_block_ok(2) [OF this, of items] ans show ?thesis
      by (simp add: register_block_def a split_beta is_transfer_complete_def dict_set_def update_conv)
  qed
qed

theorem pending_transfers_consistent_witness:
  "let m = snd (register_block 0 (PStr ''r'') (PInt 1) (PInt 2) (PList [PInt 200]) [])
   in \<exists>tr. map_of m ''r'' = Some tr \<and> (t_complete tr \<longleftrightarrow> None \<notin> set (t_blocks tr))"
proof -
  let ?m = "snd (register_block 0 (PStr ''r'') (PInt 1) (PInt 2) (PList [PInt 200]) [])"
  have "manager_reachable ?m" by (blast intro: reach_init reach_step step_register)
  moreover have "\<exists>tr. map_of ?m ''r'' = Some tr"
    by (simp add: register_block_def block_args_ints split_beta dict_set_def update_conv)
  ultimately show ?thesis using pending_transfers_consistent [of ?m "''r''"] by (auto simp: Let_def)
qed

text \<open>
  C14. What a transfer of integer blocks is reassembled to, for every order in which the blocks arrive, each once. When
  they are numbered from 1, or from 0 and block 0 is the first to arrive, the blocks' words follow each other in
  sequence order; when they are numbered from 0 and another block arrives first, block 0 comes last. Of a block of
  more than two words the first two are dropped as sequence metadata, and the transfer is removed. The words of
  the block numbered 1 must not start with a number from 1 to 99, which the manager takes for the object count of
  precipitation data (\<open>ordinary\<close>).
\<close>

theorem reassembly_in_order:
  assumes "rid \<noteq> []" "1 \<le> n" "map_of m rid = None" "ordinary f" "distinct ks"
    "set ks = {1..n} \<or> set ks = {0..n - 1}"
  shows "let order = (if 0 \<in> set ks \<and> hd ks \<noteq> 0 then [1..n - 1] @ [0] else sort ks);
             (result, m') = get_assembled_data (feed t rid n f ks m) rid
    in result = Inr (Some (map PInt (concat (map (\<lambda>k. if 2 < length (f k) then drop 2 (f k) else f k) order)))) \<and>
       map_of m' rid = None"
proof -
  have ne: "ks \<noteq> []" using assms(2,6) by auto
  then have hd: "hd ks \<in> set ks" by simp
  have len: "length ks = nat n" using length_interval [OF assms(5), of 1 n] length_interval [OF assms(5), of 0 "n - 1"] assms(6) by auto
  have b: "\<forall>k\<in>set ks. 0 \<le> k \<and> k < n + (if hd ks = 0 then 0 else 1)" "\<not> {0, n} \<subseteq> set ks"
    using assms(6) hd by auto
  let ?ord = "if 0 \<in> set ks \<and> hd ks \<noteq> 0 then [1..n - 1] @ [0] else sort ks"
  have z: "set ks = {0..n - 1}" if "0 \<in> set ks"
    using assms(6)
  proof
    assume "set ks = {1..n}"
    with that show ?thesis by simp
  qed
  have nat: "Suc (nat (n - 1)) = nat n" using assms(2) by simp
  have ord: "length ?ord = nat n" using len nat by simp
  have sub: "set ?ord \<subseteq> set ks" using z by (cases "0 \<in> set ks") auto
  have p: "position (hd ks = 0) n (?ord ! i) = i" if i: "i < nat n" for i
  proof (cases "0 \<in> set ks \<and> hd ks \<noteq> 0")
    case True
    then show ?thesis using i by (auto simp: position_def nth_append nth_upto)
  next
    case False
    then obtain a where a: "set ks = {a..n - 1 + a}" "a = (if hd ks = 0 then 0 else 1)"
      using assms(6) hd by (cases "hd ks = 0") auto
    have "?ord = [a..n - 1 + a]" unfolding if_not_P [OF False] by (rule sort_interval [OF assms(5) a(1)])
    then show ?thesis using i a(2) by (auto simp: position_def nth_upto)
  qed
  have r: "fst (get_assembled_data (feed t rid n f ks m) rid)
      = Inr (Some (concat (map (\<lambda>k. strip_sequence_words (int_block f k)) ?ord)))"
    "map_of (snd (get_assembled_data (feed t rid n f ks m) rid)) rid = None"
    by (rule assembled [OF assms(1-5) ne len b ord sub p], assumption)+
  have "strip_sequence_words (int_block f k) = map PInt (if 2 < length (f k) then drop 2 (f k) else f k)" for k
    by (simp add: strip_sequence_words_def int_block_def drop_map)
  then show ?thesis using r by (simp only: Let_def split_beta map_concat map_map comp_def)
qed

theorem reassembly_in_order_witness:
  "fst (get_assembled_data (feed 0 ''r'' 2 (\<lambda>k. [k + 200, 2, 100 + k]) [2, 1] []) ''r'')
     = Inr (Some [PInt 101, PInt 102]) \<and>
   fst (get_assembled_data (feed 0 ''r'' 2 (\<lambda>k. [k + 200, 2, 100 + k]) [1, 0] []) ''r'')
     = Inr (Some [PInt 101, PInt 100])"
proof -
  have a: "set [2, 1 :: int] = {1..2} \<or> set [2, 1 :: int] = {0..2 - 1}" by auto
  have b: "set [1, 0 :: int] = {1..2} \<or> set [1, 0 :: int] = {0..2 - 1}" by auto
  have o: "ordinary (\<lambda>k. [k + 200, 2, 100 + k])" by (simp add: ordinary_def)
  have "[1..2 - 1] = [1 :: int]" by (simp add: upto_single)
  then show ?thesis
    using reassembly_in_order [OF _ _ _ o _ a, of "''r''" "[]" 0] reassembly_in_order [OF _ _ _ o _ b, of "''r''" "[]" 0]
    by (simp add: Let_def split_beta)
qed

text \<open>
  When the blocks are numbered from 0 and any block but block 0 arrives first, the manager takes the numbers
  to start at 1, block 0 lands in the last slot (a list index of -1), and the transfer is declared complete with
  its first block's data moved to the end.
\<close>

theorem late_block_zero_rotates:
  assumes "rid \<noteq> []" "1 \<le> n" "map_of m rid = None" "ordinary f" "distinct ks" "set ks = {0..n - 1}" "hd ks \<noteq> 0"
  shows "is_transfer_complete (feed t rid n f ks m) rid \<and>
    fst (get_assembled_data (feed t rid n f ks m) rid)
      = Inr (Some (concat (map (\<lambda>k. strip_sequence_words (int_block f k)) (tl (sort ks) @ [0]))))"
proof (rule conjI)
  have ne: "ks \<noteq> []" using assms(2,6) by auto
  have s: "sort ks = [0..n - 1]" by (rule sort_interval [OF assms(5,6)])
  have len: "length ks = nat n" using length_interval [OF assms(5,6)] by simp
  have b: "\<forall>k\<in>set ks. 0 \<le> k \<and> k < n + (if hd ks = 0 then 0 else 1)" "\<not> {0, n} \<subseteq> set ks"
    using assms(6,7) by auto
  have tl: "tl (sort ks) = [1..n - 1]" using assms(2) by (subst s, subst upto.simps) simp
  have ord: "length (tl (sort ks) @ [0]) = nat n" "set (tl (sort ks) @ [0]) \<subseteq> set ks"
    using assms(2,6) by (auto simp: tl)
  have p: "position (hd ks = 0) n ((tl (sort ks) @ [0]) ! i) = i" if "i < nat n" for i
    using that assms(7) by (auto simp: tl position_def nth_append nth_upto)
  show r: "fst (get_assembled_data (feed t rid n f ks m) rid)
      = Inr (Some (concat (map (\<lambda>k. strip_sequence_words (int_block f k)) (tl (sort ks) @ [0]))))"
    by (rule assembled(1) [OF assms(1-5) ne len b ord p])
  then show "is_transfer_complete (feed t rid n f ks m) rid"
    by (auto simp: get_assembled_data_def split: if_splits)
qed

theorem late_block_zero_rotates_witness:
  "fst (get_assembled_data (feed 0 ''r'' 2 (\<lambda>k. [k + 200, 2, 100 + k]) [1, 0] []) ''r'')
     = Inr (Some [PInt 101, PInt 100])"
proof -
  have "set [1, 0 :: int] = {0..2 - 1}" by auto
  then have "fst (get_assembled_data (feed 0 ''r'' 2 (\<lambda>k. [k + 200, 2, 100 + k]) [1, 0] []) ''r'')
     = Inr (Some (concat (map (\<lambda>k. strip_sequence_words (int_block (\<lambda>k. [k + 200, 2, 100 + k]) k)) (tl (sort [1, 0]) @ [0]))))"
    by (intro late_block_zero_rotates [THEN conjunct2]) (simp_all add: ordinary_def)
  then show ?thesis by (simp add: strip_sequence_words_def int_block_def)
qed

text \<open>
  A string of concatenated valid words, with fewer than 20 further bits at its end, is split into exactly those words;
  whatever the bits, every piece the scan returns is a 20-bit word with a sync pattern and odd parity.
\<close>

theorem split_concatenated_frames:
  assumes "\<forall>w\<in>set ws. \<exists>t. t \<in> {''command'', ''data''} \<and> bc_check_word_format w t" "bits trailing" "length trailing < 20"
    "20 < length (concat ws @ trailing)"
  shows "split_oversized_frames (concat ws @ trailing) = Inr (map PStr ws)"
proof -
  have w: "\<forall>w\<in>set ws. word20 w \<and> odd (ones w) \<and> has_sync w"
    using assms(1) by (auto simp: bc_check_eq_checked bc_check_sync_bits_def has_sync_def word20_def
      COMMAND_SYNC_def DATA_SYNC_def Let_def split: if_splits)
  then have b: "bits (concat ws @ trailing)" using assms(2) by (induction ws) (auto simp: word20_def)
  moreover obtain c cs where c: "concat ws @ trailing = c # cs"
    using assms(4) by (cases "concat ws @ trailing") auto
  ultimately have "is_bit c" by (metis bits_simps(2))
  then have "\<not> prefix ''{'' (concat ws @ trailing)" unfolding c by (auto simp: is_bit_def)
  then show ?thesis
    using b assms(4) scan_frames_concat [OF w assms(3)]
    by (simp add: split_oversized_frames_def bits_def [symmetric])
qed

theorem split_concatenated_frames_witness:
  "\<exists>u v. bc_encode_command_word 5 1 2 1 = Inr u \<and> bc_encode_data_word 7 = Inr v \<and>
     split_oversized_frames (concat [u, v] @ ''01'') = Inr (map PStr [u, v])"
proof -
  have "is_ok (bc_encode_command_word 5 1 2 1)" "is_ok (bc_encode_data_word 7)"
    by (simp_all add: bc_encode_command_eq valid_command_def bc_encode_data_eq valid_data_def)
  then obtain u v where uv: "bc_encode_command_word 5 1 2 1 = Inr u" "bc_encode_data_word 7 = Inr v"
    by (auto simp: is_ok_iff)
  then have c: "bc_check_word_format u ''command''" "bc_check_word_format v ''data''"
    unfolding check_command_iff check_data_iff by blast+
  then have "20 < length (concat [u, v] @ ''01'')" by (simp add: bc_check_eq_checked word20_def)
  moreover have "\<forall>w\<in>set [u, v]. \<exists>t. t \<in> {''command'', ''data''} \<and> bc_check_word_format w t"
    using c by auto
  ultimately have "split_oversized_frames (concat [u, v] @ ''01'') = Inr (map PStr [u, v])"
    by (intro split_concatenated_frames) simp_all
  with uv show ?thesis by blast
qed

text \<open>
  An item of the assembled data that is a text of more than 22 characters, not all of them bits and not a
  JSON object, is lost: the splitter returns it unchanged, and the frame validation that follows drops it for
  its length.
\<close>

theorem long_text_items_lost:
  assumes "22 < length s" "\<not> bits s" "\<not> prefix ''{'' s"
  shows "process_item (PStr s) = Inr []"
  using assms by (simp add: process_item_def split_oversized_frames_def bits_def [symmetric])

theorem long_text_items_lost_witness:
  "process_item (PStr ''precipitation rate heavy'') = Inr []"
  by (rule long_text_items_lost) (simp_all add: is_bit_def)

text \<open>
  The clean-up removes exactly the transfers older than the given age, leaves the others and their order
  untouched, and returns the number removed.
\<close>

theorem cleanup_removes_exactly_stale:
  assumes "distinct (map fst m)"
  shows "cleanup_stale_transfers t a m = (length (filter (\<lambda>(_, tr). stale t a tr) m), filter (\<lambda>(_, tr). \<not> stale t a tr) m)"
proof -
  have del: "fold AList.delete ks m = filter (\<lambda>(k, _). k \<notin> set ks) m" for ks
    by (induction ks arbitrary: m) (auto simp: AList.delete_eq intro!: filter_cong)
  have "filter (\<lambda>(k, _). k \<notin> set (map fst (filter (\<lambda>(_, tr). stale t a tr) m))) m = filter (\<lambda>(_, tr). \<not> stale t a tr) m"
  proof (rule filter_cong)
    show "(case x of (k, _) \<Rightarrow> k \<notin> set (map fst (filter (\<lambda>(_, tr). stale t a tr) m))) = (case x of (_, tr) \<Rightarrow> \<not> stale t a tr)"
      if "x \<in> set m" for x
    proof -
      obtain k tr where x: "x = (k, tr)" by (cases x)
      have "k \<in> fst ` set (filter (\<lambda>(_, tr). stale t a tr) m) \<longleftrightarrow> stale t a tr"
      proof
        assume "k \<in> fst ` set (filter (\<lambda>(_, tr). stale t a tr) m)"
        then obtain tr' where "(k, tr') \<in> set m" "stale t a tr'" by auto
        then show "stale t a tr" using eq_key_imp_eq_value [OF assms, of k tr tr'] that x by simp
      next
        assume "stale t a tr"
        then show "k \<in> fst ` set (filter (\<lambda>(_, tr). stale t a tr) m)"
          using that x by (intro image_eqI [where x = "(k, tr)"]) simp_all
      qed
      then show ?thesis by (simp add: x)
    qed
  qed simp
  then show ?thesis by (simp add: cleanup_stale_transfers_def del Let_def)
qed

theorem cleanup_removes_exactly_stale_witness:
  "cleanup_stale_transfers 100 60 [(''a'', new_transfer 10 1 2), (''b'', new_transfer 90 1 2)]
     = (1, [(''b'', new_transfer 90 1 2)])"
proof -
  have "stale 100 60 (new_transfer 10 1 2)" "\<not> stale 100 60 (new_transfer 90 1 2)"
    using fl_of_int [of 90] fl_of_int [of 10] by (simp_all add: stale_def new_transfer_def fsub_def)
  then show ?thesis
    using cleanup_removes_exactly_stale [of "[(''a'', new_transfer 10 1 2), (''b'', new_transfer 90 1 2)]" 100 60]
    by simp
qed

end
