(* ===== verification/BC_Block_Processor.thy ===== *)
theory BC_Block_Processor
  imports Block_Transfer
begin

text \<open>
  The bus controller's side of the block transfer protocol (\<^verbatim>\<open>BC_block_transfer_processor.py\<close>): the kind of a
  message and the handlers of its three kinds, over the extracted fields of the message and the pending transfers.
  A handler answers with its result, the fields it leaves behind and the pending transfers; an exception ends it
  with a negative answer.
\<close>

section \<open>Handlers\<close>

text \<open>A request identifier that is not a string is no key of the manager; a list or dictionary cannot be looked up.\<close>

definition request_key :: "pyval \<Rightarrow> string option pyres" where
  "request_key v = (case v of PStr s \<Rightarrow> Inr (Some s) | PList _ \<Rightarrow> Inl TypeError | PDict _ \<Rightarrow> Inl TypeError | _ \<Rightarrow> Inr None)"

definition handle_transfer_init :: "pydict \<Rightarrow> manager \<Rightarrow> bool \<times> manager" where
  "handle_transfer_init ef m =
     (let request_id = dict_get ef ''request_id'' PNone in
      if \<not> truthy request_id then (False, m)
      else (case request_key request_id of
              Inl _ \<Rightarrow> (False, m)
            | Inr None \<Rightarrow> (True, m)
            | Inr (Some rid) \<Rightarrow> (True, snd (clear_transfer m rid))))"

text \<open>A parameter of the message: the metadata's value is used when the field itself is missing or false.\<close>

definition block_field :: "pydict \<Rightarrow> string \<Rightarrow> pyval \<Rightarrow> pyval" where
  "block_field ef k dflt =
     (let v = dict_get ef k dflt in
      case dict_get ef ''metadata'' (PDict []) of
        PDict md \<Rightarrow> if has_key md k \<and> \<not> truthy (dict_get ef k PNone) then dict_get md k PNone else v
      | _ \<Rightarrow> v)"

definition with_assembled :: "pydict \<Rightarrow> pyval list \<Rightarrow> pydict" where
  "with_assembled ef assembled_data =
     dict_set ''binary_data_length'' (PInt (int (length assembled_data)))
       (dict_set ''block_transfer_complete'' (PBool True) (dict_set ''data'' (PList assembled_data) ef))"

definition handle_transfer_data :: "rat \<Rightarrow> pydict \<Rightarrow> manager \<Rightarrow> bool \<times> pydict \<times> manager" where
  "handle_transfer_data t ef m0 =
     (let request_id = dict_get ef ''request_id'' PNone in
      if \<not> truthy request_id then (False, ef, m0)
      else
        (let (transfer_complete, m) = register_block t request_id (block_field ef ''sequence_number'' (PInt 1))
               (block_field ef ''total_sequences'' (PInt 1)) (dict_get ef ''data'' (PList [])) m0
         in case request_key request_id of
              Inl _ \<Rightarrow> (False, ef, m)
            | Inr None \<Rightarrow> (True, ef, m)
            | Inr (Some rid) \<Rightarrow>
                if \<not> transfer_complete then (True, ef, m)
                else (case get_assembled_data m rid of
                        (Inr (Some assembled_data), m') \<Rightarrow>
                          if assembled_data \<noteq> [] then (True, with_assembled ef assembled_data, m')
                          else (False, ef, m')
                      | (_, m') \<Rightarrow> (False, ef, m'))))"

definition handle_transfer_complete :: "pydict \<Rightarrow> manager \<Rightarrow> bool \<times> pydict \<times> manager" where
  "handle_transfer_complete ef m =
     (let request_id = dict_get ef ''request_id'' PNone in
      if \<not> truthy request_id then (False, ef, m)
      else (case request_key request_id of
              Inr (Some rid) \<Rightarrow>
                if is_transfer_complete m rid then
                  (case get_assembled_data m rid of
                     (Inr (Some assembled_data), m') \<Rightarrow>
                       if assembled_data \<noteq> [] then (True, with_assembled ef assembled_data, m')
                       else (False, ef, m')
                   | (_, m') \<Rightarrow> (False, ef, m'))
                else (False, ef, m)
            | _ \<Rightarrow> (False, ef, m)))"

datatype transfer_kind = Init | Data | Complete

definition flagged :: "pydict \<Rightarrow> transfer_kind option" where
  "flagged d =
     (if truthy (dict_get d ''is_transfer_init'' (PBool False)) then Some Init
      else if truthy (dict_get d ''is_transfer_data'' (PBool False)) then Some Data
      else if truthy (dict_get d ''is_transfer_complete'' (PBool False)) then Some Complete
      else None)"

definition detect_block_transfer :: "pydict \<Rightarrow> transfer_kind option" where
  "detect_block_transfer ef =
     (case flagged ef of
        Some k \<Rightarrow> Some k
      | None \<Rightarrow>
          (case (case dict_get ef ''metadata'' (PDict []) of PDict md \<Rightarrow> flagged md | _ \<Rightarrow> None) of
             Some k \<Rightarrow> Some k
           | None \<Rightarrow>
               if dict_get ef ''sequence_number'' PNone \<noteq> PNone \<and> dict_get ef ''total_sequences'' PNone \<noteq> PNone
               then Some Data else None))"

section \<open>Lemmas\<close>

lemma handlers_ok:
  "manager_ok m \<Longrightarrow> manager_ok (snd (handle_transfer_init ef m))"
  "manager_ok m \<Longrightarrow> manager_ok (snd (snd (handle_transfer_data t ef m)))"
  "manager_ok m \<Longrightarrow> manager_ok (snd (snd (handle_transfer_complete ef m)))"
proof -
  assume m: "manager_ok m"
  show "manager_ok (snd (handle_transfer_init ef m))"
    using m by (auto simp: handle_transfer_init_def Let_def clear_transfer_ok split: sum.split option.split)
  have g: "manager_ok m' \<Longrightarrow> get_assembled_data m' rid = (r, m'') \<Longrightarrow> manager_ok m''" for m' rid r m''
    by (metis get_assembled_data_ok snd_conv)
  have r: "register_block t a b c d m = (x, m') \<Longrightarrow> manager_ok m'" for a b c d x m'
    by (metis register_block_ok [OF m] snd_conv)
  show "manager_ok (snd (snd (handle_transfer_data t ef m)))"
    using m by (auto simp: handle_transfer_data_def Let_def dest: g r split: prod.splits sum.splits option.splits)
  show "manager_ok (snd (snd (handle_transfer_complete ef m)))"
    using m by (auto simp: handle_transfer_complete_def Let_def dest: g split: prod.splits sum.splits option.splits)
qed

lemma assembled_gone:
  assumes "get_assembled_data m rid = (Inr (Some d), m')"
  shows "\<not> is_transfer_complete m' rid"
  using assms by (auto simp: get_assembled_data_def is_transfer_complete_def delete_conv split: if_splits option.splits sum.splits)

lemma register_incomplete:
  assumes "register_block t (PStr rid) sq n data m = (False, m')" "\<not> is_transfer_complete m rid"
  shows "\<not> is_transfer_complete m' rid"
  using assms
  by (auto simp: register_block_def is_transfer_complete_def store_block_def Let_def dict_set_def update_conv entry_def
      new_transfer_def dest!: block_args_id split: option.splits prod.splits if_splits)

section \<open>Properties\<close>

text \<open>
  C15. The message that closes a transfer is refused after a transfer that was received in full: the handler of the
  last block has assembled the data and removed the transfer, so the handler of the completion message finds none.
  It never succeeds after the data handler, unless the assembly of the last block raised or the transfer was
  complete before.
\<close>

theorem completion_message_refused:
  assumes "dict_get ef ''request_id'' PNone = PStr rid" "dict_get ef' ''request_id'' PNone = PStr rid"
    "handle_transfer_data t ef m = (True, out, m')" "\<not> is_transfer_complete m rid"
  shows "fst (handle_transfer_complete ef' m') = False"
proof -
  have "\<not> is_transfer_complete m' rid"
    using assms(1,3,4)
    by (auto simp: handle_transfer_data_def Let_def request_key_def dest: assembled_gone register_incomplete
        split: prod.splits if_splits sum.splits option.splits)
  then show ?thesis using assms(2) by (simp add: handle_transfer_complete_def request_key_def)
qed

text \<open>
  The handler of a block delivers a transfer exactly when its block completes it: the fields then carry the
  assembled data, its length and the completion flag, and the transfer is no longer pending.
\<close>

theorem data_handler_delivers:
  assumes "dict_get ef ''request_id'' PNone = PStr rid" "rid \<noteq> []"
    "register_block t (PStr rid) (block_field ef ''sequence_number'' (PInt 1))
       (block_field ef ''total_sequences'' (PInt 1)) (dict_get ef ''data'' (PList [])) m = (True, m1)"
    "get_assembled_data m1 rid = (Inr (Some d), m2)" "d \<noteq> []"
  shows "\<exists>out. handle_transfer_data t ef m = (True, out, m2) \<and> dict_get out ''data'' PNone = PList d \<and>
     dict_get out ''block_transfer_complete'' PNone = PBool True \<and>
     dict_get out ''binary_data_length'' PNone = PInt (int (length d)) \<and> \<not> is_transfer_complete m2 rid"
  using assms assembled_gone [OF assms(4)]
  by (simp add: handle_transfer_data_def request_key_def with_assembled_def)

theorem completion_message_refused_witness:
  "fst (handle_transfer_complete [(''request_id'', PStr ''r'')]
     (snd (snd (handle_transfer_data 0 [(''request_id'', PStr ''r''), (''data'', PList [PInt 200])] [])))) = False"
proof (rule completion_message_refused)
  show "handle_transfer_data 0 [(''request_id'', PStr ''r''), (''data'', PList [PInt 200])] [] =
      (True, fst (snd (handle_transfer_data 0 [(''request_id'', PStr ''r''), (''data'', PList [PInt 200])] [])),
       snd (snd (handle_transfer_data 0 [(''request_id'', PStr ''r''), (''data'', PList [PInt 200])] [])))"
    by (simp add: handle_transfer_data_def register_block_def block_args_def block_field_def dict_get_def entry_def
        new_transfer_def store_block_def adjusted_sequence_def slot_def classify_block_def strip_sequence_words_def
        request_key_def get_assembled_data_def is_transfer_complete_def dict_set_def raw_assembled_def process_item_def
        Let_def)
qed (simp_all add: dict_get_def is_transfer_complete_def)

end
