(* ===== verification/Bus_Adapter.thy ===== *)
theory Bus_Adapter
  imports Py_Json
begin

text \<open>
  The transport of the bus (\<^verbatim>\<open>bus_adapter.py\<close>): the addresses the listeners bind, the configuration file, the
  three adapters, and the cache of adapters of the process. The parsed configuration file, the environment, the
  network, the receive callbacks and the hardware drivers are arguments: the network answers each attempt, a callback
  makes transmissions and may raise, a driver answers each call, all of them depending on what went before.
\<close>

section \<open>IP addresses\<close>

text \<open>What \<^verbatim>\<open>ipaddress.ip_address\<close> accepts.\<close>

fun split_on :: "char \<Rightarrow> string \<Rightarrow> string list" where
  "split_on c [] = [[]]"
| "split_on c (x # xs) =
     (if x = c then [] # split_on c xs else case split_on c xs of [] \<Rightarrow> [[x]] | p # ps \<Rightarrow> (x # p) # ps)"

definition octet :: "string \<Rightarrow> bool" where
  "octet s \<longleftrightarrow> s \<noteq> [] \<and> list_all is_digit s \<and> length s \<le> 3 \<and> (s = ''0'' \<or> hd s \<noteq> CHR ''0'') \<and> digits_nat s \<le> 255"

definition ipv4 :: "string \<Rightarrow> bool" where
  "ipv4 s = (let ps = split_on (CHR ''.'') s in length ps = 4 \<and> list_all octet ps)"

definition hextet :: "string \<Rightarrow> bool" where
  "hextet s \<longleftrightarrow> s \<noteq> [] \<and> length s \<le> 4 \<and> list_all (\<lambda>c. hex_val c \<noteq> None) s"

text \<open>The parts between colons; an IPv4 suffix stands for two of them, and \<^verbatim>\<open>::\<close> for the missing ones.\<close>

definition ipv6_parts :: "string list \<Rightarrow> bool" where
  "ipv6_parts ps =
     (let n = length ps in
      n \<le> 9 \<and>
      (case filter (\<lambda>i. ps ! i = []) [1..<n - 1] of
         [] \<Rightarrow> n = 8 \<and> list_all hextet ps
       | [k] \<Rightarrow>
           let hi = (if ps ! 0 = [] then k - 1 else k);
               lo = (if ps ! (n - 1) = [] then n - k - 2 else n - k - 1)
           in (ps ! 0 = [] \<longrightarrow> hi = 0) \<and> (ps ! (n - 1) = [] \<longrightarrow> lo = 0) \<and> hi + lo < 8 \<and>
              list_all hextet (take hi ps) \<and> list_all hextet (drop (n - lo) ps)
       | _ \<Rightarrow> False))"

definition ipv6 :: "string \<Rightarrow> bool" where
  "ipv6 s =
     (case split_on (CHR ''%'') s of
        a # zone \<Rightarrow>
          (zone = [] \<or> length zone = 1 \<and> zone \<noteq> [[]]) \<and>
          (let ps = split_on (CHR '':'') a in
           3 \<le> length ps \<and>
           (if CHR ''.'' \<in> set (last ps) then ipv4 (last ps) \<and> ipv6_parts (butlast ps @ [''0'', ''0''])
            else ipv6_parts ps))
      | [] \<Rightarrow> False)"

definition ip_address :: "string \<Rightarrow> bool" where
  "ip_address s \<longleftrightarrow> CHR ''/'' \<notin> set s \<and> (ipv4 s \<or> ipv6 s)"

section \<open>The endpoint of a listener\<close>

record role_default =
  rd_peer_host :: string
  rd_peer_port :: int
  rd_listen_host :: string
  rd_listen_port :: int

definition ROLE_DEFAULTS :: "(string \<times> role_default) list" where
  "ROLE_DEFAULTS =
     [(''bc'', \<lparr>rd_peer_host = ''localhost'', rd_peer_port = 5001, rd_listen_host = ''127.0.0.1'', rd_listen_port = 5000\<rparr>),
      (''rt'', \<lparr>rd_peer_host = ''localhost'', rd_peer_port = 5000, rd_listen_host = ''127.0.0.1'', rd_listen_port = 5001\<rparr>)]"

definition VALID_ROLES :: "string list" where "VALID_ROLES = map fst ROLE_DEFAULTS"

definition LOOPBACK_HOSTS :: "string list" where "LOOPBACK_HOSTS = [''127.0.0.1'', ''localhost'', ''::1'', []]"

definition ALL_INTERFACES_HOSTS :: "string list" where "ALL_INTERFACES_HOSTS = [''0.0.0.0'', ''::'', ''*'']"

text \<open>What is logged about an address: nothing, the warning about all interfaces or about another address, or the refusal.\<close>

datatype notice = Silent | All_Interfaces | Not_Loopback | Refused_Host

definition strip :: "string \<Rightarrow> string" where "strip s = strip_with py_ws s"

definition resolve_listen_host :: "string \<Rightarrow> string \<Rightarrow> string \<times> notice" where
  "resolve_listen_host host default_host =
     (let candidate = strip host in
      if lower candidate \<in> set LOOPBACK_HOSTS then (candidate, Silent)
      else if candidate \<in> set ALL_INTERFACES_HOSTS then (candidate, All_Interfaces)
      else if \<not> ip_address candidate then (default_host, Refused_Host)
      else (candidate, Not_Loopback))"

text \<open>The configuration file: missing, not parsable, or the attributes of its \<^verbatim>\<open>adapter\<close> elements in document order.\<close>

datatype config_file = Missing | Broken | Adapters "(string \<times> string) list list"

record entry =
  e_type :: string
  e_peer_host :: "string option"
  e_peer_port :: "int option"
  e_listen_host :: "string option"
  e_listen_port :: "int option"

definition filled :: "(string \<times> string) list \<Rightarrow> string \<Rightarrow> string option" where
  "filled e k = (case map_of e k of Some v \<Rightarrow> if v = [] then None else Some v | None \<Rightarrow> None)"

definition port_of :: "string option \<Rightarrow> int option pyres" where
  "port_of v = (case v of None \<Rightarrow> Inr None | Some s \<Rightarrow> py_bind (py_int 10 s) (\<lambda>n. Inr (Some n)))"

definition text_or :: "string \<Rightarrow> string option \<Rightarrow> string" where
  "text_or d v = (case v of None \<Rightarrow> d | Some s \<Rightarrow> s)"

definition load_entry :: "(string \<times> string) list \<Rightarrow> (string \<times> entry) option pyres" where
  "load_entry e =
     (let role = lower (strip (text_or [] (filled e ''role''))) in
      if role \<notin> set VALID_ROLES then Inr None
      else
        py_bind (port_of (filled e ''peer_port'')) (\<lambda>peer_port.
        py_bind (port_of (map_of e ''listen_port'')) (\<lambda>listen_port.
        Inr (Some (role, \<lparr>e_type = lower (strip (text_or ''socket'' (filled e ''type''))),
          e_peer_host = map_option strip (filled e ''peer_host''), e_peer_port = peer_port,
          e_listen_host = map_option strip (filled e ''listen_host''), e_listen_port = listen_port\<rparr>)))))"

fun load_entries :: "(string \<times> string) list list \<Rightarrow> (string \<times> entry) list \<Rightarrow> (string \<times> entry) list pyres" where
  "load_entries [] config = Inr config"
| "load_entries (e # es) config =
     py_bind (load_entry e) (\<lambda>r. load_entries es (case r of None \<Rightarrow> config | Some (role, n) \<Rightarrow> dict_set role n config))"

definition load_config :: "config_file \<Rightarrow> (string \<times> entry) list" where
  "load_config f = (case f of Adapters es \<Rightarrow> py_except (load_entries es []) [] | _ \<Rightarrow> [])"

text \<open>
  The environment overrides the file, and the file the defaults. The model of the configuration keeps \<^verbatim>\<open>None\<close> where the
  dictionary of the code has no key.
\<close>

definition or_else :: "'a option \<Rightarrow> 'a \<Rightarrow> 'a" where
  "or_else v d = (case v of None \<Rightarrow> d | Some x \<Rightarrow> x)"

definition get_listen_endpoint :: "(string \<Rightarrow> string option) \<Rightarrow> config_file \<Rightarrow> string \<Rightarrow> (string \<times> int \<times> notice) pyres" where
  "get_listen_endpoint env f role0 =
     (let role = lower (strip role0) in
      case map_of ROLE_DEFAULTS role of
        None \<Rightarrow> Inl ValueError
      | Some defaults \<Rightarrow>
          let entry = map_of (load_config f) role;
              var = (\<lambda>k. case env (''FMOFP_'' @ upper role @ k) of Some v \<Rightarrow> if v = [] then None else Some v | None \<Rightarrow> None);
              host = or_else (Option.bind entry e_listen_host) (rd_listen_host defaults);
              host = or_else (map_option strip (var ''_LISTEN_HOST'')) host;
              port = or_else (Option.bind entry e_listen_port) (rd_listen_port defaults);
              port = (case var ''_LISTEN_PORT'' of None \<Rightarrow> port | Some v \<Rightarrow> py_except (py_int 10 v) port)
          in case resolve_listen_host host (rd_listen_host defaults) of (host, n) \<Rightarrow> Inr (host, port, n))"

section \<open>Adapters\<close>

datatype kind = Socket string int | Loopback "string list" | Hardware "nat option"

record adapter =
  ad_role :: string
  ad_callback :: "nat option"
  ad_kind :: kind

datatype driver_call = Open | Close | Transmit string | Receive_With "nat option"

datatype outcome = Accepted | Connection_Refused | Timed_Out | Failed

text \<open>
  The process: the adapters ever created, by number; the cache of the factory; the loopback pairing; the attempts on
  the network; the payloads handed to callbacks; and the calls of drivers.
\<close>

record bus_world =
  w_objects :: "adapter list"
  w_adapters :: "(string \<times> nat) list"
  w_peers :: "(string \<times> nat) list"
  w_wire :: "(string \<times> int \<times> string) list"
  w_delivered :: "(nat \<times> string) list"
  w_driver :: "(nat \<times> driver_call) list"

record outside =
  x_net :: "nat \<Rightarrow> string \<times> int \<times> string \<Rightarrow> outcome"
  x_callback :: "nat \<Rightarrow> nat \<times> string \<Rightarrow> (nat \<times> string) list \<times> bool"
  x_method :: "nat \<Rightarrow> string \<Rightarrow> bool"
  x_driver :: "nat \<Rightarrow> nat \<times> driver_call \<Rightarrow> pyval pyres"

definition new_world :: bus_world where
  "new_world = \<lparr>w_objects = [], w_adapters = [], w_peers = [], w_wire = [], w_delivered = [], w_driver = []\<rparr>"

definition call_driver :: "outside \<Rightarrow> nat \<Rightarrow> driver_call \<Rightarrow> bus_world \<Rightarrow> pyval pyres \<times> bus_world" where
  "call_driver x d c w = (x_driver x (length (w_driver w)) (d, c), w\<lparr>w_driver := w_driver w @ [(d, c)]\<rparr>)"

definition update_object :: "nat \<Rightarrow> (adapter \<Rightarrow> adapter) \<Rightarrow> bus_world \<Rightarrow> bus_world" where
  "update_object i f w = (if i < length (w_objects w) then w\<lparr>w_objects := (w_objects w)[i := f (w_objects w ! i)]\<rparr> else w)"

text \<open>The queue of a loopback adapter keeps the newest 256 payloads.\<close>

definition queue_payload :: "string \<Rightarrow> adapter \<Rightarrow> adapter" where
  "queue_payload p a =
     (case ad_kind a of
        Loopback ps \<Rightarrow> a\<lparr>ad_kind := Loopback (let q = ps @ [p] in drop (length q - 256) q)\<rparr>
      | _ \<Rightarrow> a)"

definition peer_role :: "string \<Rightarrow> string" where "peer_role r = (if r = ''bc'' then ''rt'' else ''bc'')"

definition socket_transmit :: "outside \<Rightarrow> string \<Rightarrow> int \<Rightarrow> string \<Rightarrow> bus_world \<Rightarrow> bool pyres \<times> bus_world" where
  "socket_transmit x host port p w =
     (Inr (x_net x (length (w_wire w)) (host, port, p) = Accepted), w\<lparr>w_wire := w_wire w @ [(host, port, p)]\<rparr>)"

definition hardware_transmit :: "outside \<Rightarrow> nat option \<Rightarrow> string \<Rightarrow> bus_world \<Rightarrow> bool pyres \<times> bus_world" where
  "hardware_transmit x h p w =
     (case h of
        None \<Rightarrow> (Inl NotImplementedError, w)
      | Some d \<Rightarrow>
          (case call_driver x d (Transmit p) w of
             (Inl NotImplementedError, w) \<Rightarrow> (Inl NotImplementedError, w)
           | (Inl _, w) \<Rightarrow> (Inr False, w)
           | (Inr v, w) \<Rightarrow> (Inr (truthy v), w)))"

text \<open>
  A transmission. A loopback transmission runs the callback of the peer, which may transmit in turn: the first number
  is the depth of the stack that is left, and running out of it is a \<^verbatim>\<open>RecursionError\<close>.
\<close>

function (sequential) transmit :: "outside \<Rightarrow> nat \<Rightarrow> nat \<Rightarrow> string \<Rightarrow> bus_world \<Rightarrow> bool pyres \<times> bus_world"
  and transmit_all :: "outside \<Rightarrow> nat \<Rightarrow> (nat \<times> string) list \<Rightarrow> bus_world \<Rightarrow> unit pyres \<times> bus_world" where
  "transmit x 0 i p w = (Inl RuntimeError, w)"
| "transmit x (Suc n) i p w =
     (if length (w_objects w) \<le> i then (Inl Unmodelled, w)
      else case ad_kind (w_objects w ! i) of
        Socket host port \<Rightarrow> socket_transmit x host port p w
      | Hardware h \<Rightarrow> hardware_transmit x h p w
      | Loopback _ \<Rightarrow>
          (case map_of (w_peers w) (peer_role (ad_role (w_objects w ! i))) of
             None \<Rightarrow> (Inr False, w)
           | Some j \<Rightarrow>
               let w = update_object j (queue_payload p) w in
               case ad_callback (w_objects w ! j) of
                 None \<Rightarrow> (Inr True, w)
               | Some c \<Rightarrow>
                   (case x_callback x (length (w_delivered w)) (c, p) of
                      (sends, fails) \<Rightarrow>
                        (case transmit_all x n sends (w\<lparr>w_delivered := w_delivered w @ [(c, p)]\<rparr>) of
                           (r, w) \<Rightarrow> (Inr (is_ok r \<and> \<not> fails), w)))))"
| "transmit_all x n [] w = (Inr (), w)"
| "transmit_all x n ((i, p) # ss) w =
     (case transmit x n i p w of (Inl e, w) \<Rightarrow> (Inl e, w) | (Inr _, w) \<Rightarrow> transmit_all x n ss w)"
  by pat_completeness auto
termination
  by (relation "measures [\<lambda>a. case a of Inl (_, n, _) \<Rightarrow> n | Inr (_, n, _) \<Rightarrow> n,
        \<lambda>a. case a of Inl _ \<Rightarrow> 0 | Inr (_, _, ss, _) \<Rightarrow> Suc (length ss)]") auto

definition set_receive_callback :: "outside \<Rightarrow> nat \<Rightarrow> nat option \<Rightarrow> bus_world \<Rightarrow> unit pyres \<times> bus_world" where
  "set_receive_callback x i c w0 =
     (let w = update_object i (\<lambda>a. a\<lparr>ad_callback := c\<rparr>) w0 in
      case ad_kind (w_objects w ! i) of
        Hardware (Some d) \<Rightarrow>
          if x_method x d ''set_receive_callback''
          then (case call_driver x d (Receive_With c) w of (r, w) \<Rightarrow> (py_bind r (\<lambda>_. Inr ()), w))
          else (Inr (), w)
      | _ \<Rightarrow> (Inr (), w))"

definition register_driver :: "outside \<Rightarrow> nat \<Rightarrow> nat \<Rightarrow> bus_world \<Rightarrow> unit pyres \<times> bus_world" where
  "register_driver x i d w0 =
     (if \<not> list_all (x_method x d) [''open'', ''close'', ''transmit''] then (Inl TypeError, w0)
      else
        let w = update_object i (\<lambda>a. a\<lparr>ad_kind := Hardware (Some d)\<rparr>) w0 in
        case ad_callback (w_objects w ! i) of
          Some c \<Rightarrow>
            if x_method x d ''set_receive_callback''
            then (case call_driver x d (Receive_With (Some c)) w of (r, w) \<Rightarrow> (py_bind r (\<lambda>_. Inr ()), w))
            else (Inr (), w)
        | None \<Rightarrow> (Inr (), w))"

definition adapter_open :: "outside \<Rightarrow> nat \<Rightarrow> bus_world \<Rightarrow> unit pyres \<times> bus_world" where
  "adapter_open x i w =
     (case ad_kind (w_objects w ! i) of
        Hardware None \<Rightarrow> (Inl NotImplementedError, w)
      | Hardware (Some d) \<Rightarrow> (case call_driver x d Open w of (r, w) \<Rightarrow> (py_bind r (\<lambda>_. Inr ()), w))
      | _ \<Rightarrow> (Inr (), w))"

definition adapter_close :: "outside \<Rightarrow> nat \<Rightarrow> bus_world \<Rightarrow> unit pyres \<times> bus_world" where
  "adapter_close x i w =
     (case ad_kind (w_objects w ! i) of
        Hardware (Some d) \<Rightarrow> (case call_driver x d Close w of (r, w) \<Rightarrow> (py_bind r (\<lambda>_. Inr ()), w))
      | _ \<Rightarrow> (Inr (), w))"

section \<open>The factory\<close>

definition socket_adapter :: "string \<Rightarrow> entry option \<Rightarrow> role_default \<Rightarrow> kind" where
  "socket_adapter role e d =
     Socket (case Option.bind e e_peer_host of Some h \<Rightarrow> if h = [] then rd_peer_host d else h | None \<Rightarrow> rd_peer_host d)
       (case Option.bind e e_peer_port of Some n \<Rightarrow> if n = 0 then rd_peer_port d else n | None \<Rightarrow> rd_peer_port d)"

definition new_adapter :: "string \<Rightarrow> kind \<Rightarrow> bus_world \<Rightarrow> nat \<times> bus_world" where
  "new_adapter role k w =
     (let i = length (w_objects w);
          w = w\<lparr>w_objects := w_objects w @ [\<lparr>ad_role = role, ad_callback = None, ad_kind = k\<rparr>]\<rparr>
      in (i, case k of Loopback _ \<Rightarrow> w\<lparr>w_peers := dict_set role i (w_peers w)\<rparr> | _ \<Rightarrow> w))"

definition get_bus_adapter :: "config_file \<Rightarrow> string \<Rightarrow> bus_world \<Rightarrow> nat pyres \<times> bus_world" where
  "get_bus_adapter f role w =
     (case map_of ROLE_DEFAULTS role of
        None \<Rightarrow> (Inl ValueError, w)
      | Some d \<Rightarrow>
          (case map_of (w_adapters w) role of
             Some i \<Rightarrow> (Inr i, w)
           | None \<Rightarrow>
               let e = map_of (load_config f) role;
                   t = (case e of None \<Rightarrow> ''socket'' | Some n \<Rightarrow> e_type n);
                   k = (if t = ''loopback'' then Loopback [] else if t = ''hardware'' then Hardware None
                        else socket_adapter role e d)
               in case new_adapter role k w of (i, w) \<Rightarrow> (Inr i, w\<lparr>w_adapters := dict_set role i (w_adapters w)\<rparr>)))"

definition register_hardware_driver :: "outside \<Rightarrow> config_file \<Rightarrow> string \<Rightarrow> nat \<Rightarrow> bus_world \<Rightarrow> unit pyres \<times> bus_world" where
  "register_hardware_driver x f role d w =
     (case get_bus_adapter f role w of
        (Inl e, w) \<Rightarrow> (Inl e, w)
      | (Inr i, w) \<Rightarrow> (case ad_kind (w_objects w ! i) of Hardware _ \<Rightarrow> register_driver x i d w | _ \<Rightarrow> (Inl RuntimeError, w)))"

definition reset_bus_adapters :: "outside \<Rightarrow> bus_world \<Rightarrow> bus_world" where
  "reset_bus_adapters x w =
     (fold (\<lambda>(_, i) w. snd (adapter_close x i w)) (w_adapters w) w)\<lparr>w_adapters := [], w_peers := []\<rparr>"

section \<open>Well-formed worlds\<close>

definition is_loopback :: "adapter \<Rightarrow> bool" where
  "is_loopback a \<longleftrightarrow> (case ad_kind a of Loopback _ \<Rightarrow> True | _ \<Rightarrow> False)"

definition adapter_ok :: "adapter \<Rightarrow> bool" where
  "adapter_ok a \<longleftrightarrow> ad_role a \<in> set VALID_ROLES \<and> (case ad_kind a of Loopback ps \<Rightarrow> length ps \<le> 256 | _ \<Rightarrow> True)"

definition names_object :: "(adapter \<Rightarrow> bool) \<Rightarrow> bus_world \<Rightarrow> string \<times> nat \<Rightarrow> bool" where
  "names_object q w = (\<lambda>(r, i). i < length (w_objects w) \<and> ad_role (w_objects w ! i) = r \<and> q (w_objects w ! i))"

definition world_ok :: "bus_world \<Rightarrow> bool" where
  "world_ok w \<longleftrightarrow> list_all adapter_ok (w_objects w) \<and> list_all (names_object (\<lambda>_. True) w) (w_adapters w) \<and>
     list_all (names_object is_loopback w) (w_peers w)"

text \<open>A change of one adapter that keeps its role and its class.\<close>

definition keeps_class :: "(adapter \<Rightarrow> adapter) \<Rightarrow> bool" where
  "keeps_class f \<longleftrightarrow> (\<forall>a. ad_role (f a) = ad_role a \<and> is_loopback (f a) = is_loopback a \<and> (adapter_ok a \<longrightarrow> adapter_ok (f a)))"

lemma w_update_object [simp]:
  "w_adapters (update_object i f w) = w_adapters w" "w_peers (update_object i f w) = w_peers w"
  "length (w_objects (update_object i f w)) = length (w_objects w)"
  "w_wire (update_object i f w) = w_wire w" "w_delivered (update_object i f w) = w_delivered w"
  "w_driver (update_object i f w) = w_driver w"
  by (simp_all add: update_object_def)

lemma objects_update_object:
  "j < length (w_objects w) \<Longrightarrow>
   w_objects (update_object i f w) ! j = (if i = j then f (w_objects w ! j) else w_objects w ! j)"
  by (simp add: update_object_def)

lemma names_object_cong:
  "w_objects w' = w_objects w \<Longrightarrow> names_object q w' = names_object q w"
  by (simp add: names_object_def)

lemma world_ok_cong:
  "w_objects w' = w_objects w \<Longrightarrow> w_adapters w' = w_adapters w \<Longrightarrow> w_peers w' = w_peers w \<Longrightarrow> world_ok w' = world_ok w"
  by (simp add: world_ok_def names_object_cong [of w' w])

lemma names_object_update:
  assumes "keeps_class f" "names_object q w e" "\<And>a. q (f a) = q a" shows "names_object q (update_object i f w) e"
proof -
  obtain r j where e: "e = (r, j)" by (rule prod.exhaust)
  then have j: "j < length (w_objects w)" "ad_role (w_objects w ! j) = r" "q (w_objects w ! j)"
    using assms(2) by (simp_all add: names_object_def)
  have "ad_role (f (w_objects w ! j)) = r" "q (f (w_objects w ! j))" using assms(1,3) j by (simp_all add: keeps_class_def)
  then show ?thesis using j by (simp add: e names_object_def objects_update_object)
qed

lemma world_ok_update:
  assumes "keeps_class f" "world_ok w" shows "world_ok (update_object i f w)"
proof -
  have "list_all adapter_ok (w_objects (update_object i f w))"
    using assms by (auto simp: list_all_length objects_update_object keeps_class_def world_ok_def)
  moreover have "is_loopback (f a) = is_loopback a" for a using assms(1) by (simp add: keeps_class_def)
  then have "names_object is_loopback w e \<Longrightarrow> names_object is_loopback (update_object i f w) e" for e
    by (intro names_object_update [OF assms(1)])
  moreover have "names_object (\<lambda>_. True) w e \<Longrightarrow> names_object (\<lambda>_. True) (update_object i f w) e" for e
    by (intro names_object_update [OF assms(1)]) simp_all
  ultimately show ?thesis using assms(2) by (simp add: world_ok_def list_all_iff)
qed

lemma keeps_queue: "keeps_class (queue_payload p)"
  by (auto simp: keeps_class_def queue_payload_def adapter_ok_def is_loopback_def Let_def split: kind.split)

lemma keeps_callback: "keeps_class (\<lambda>a. a\<lparr>ad_callback := c\<rparr>)"
  by (auto simp: keeps_class_def adapter_ok_def is_loopback_def)

lemma world_ok_fields [simp]:
  "world_ok (w\<lparr>w_wire := a\<rparr>) = world_ok w" "world_ok (w\<lparr>w_delivered := b\<rparr>) = world_ok w"
  "world_ok (w\<lparr>w_driver := c\<rparr>) = world_ok w"
  by (rule world_ok_cong; simp)+

text \<open>What no operation but the reset takes away: the cached adapters, their roles and their classes.\<close>

definition extends :: "bus_world \<Rightarrow> bus_world \<Rightarrow> bool" where
  "extends w w' \<longleftrightarrow> length (w_objects w) \<le> length (w_objects w') \<and>
     (\<forall>r i. map_of (w_adapters w) r = Some i \<longrightarrow> map_of (w_adapters w') r = Some i) \<and>
     (\<forall>i < length (w_objects w). ad_role (w_objects w' ! i) = ad_role (w_objects w ! i) \<and>
        is_loopback (w_objects w' ! i) = is_loopback (w_objects w ! i))"

lemma extends_refl [simp]: "extends w w"
  by (simp add: extends_def)

lemma extends_trans: "extends u v \<Longrightarrow> extends v w \<Longrightarrow> extends u w"
  unfolding extends_def by (metis order.trans order.strict_trans2)

lemma extends_update: "keeps_class f \<Longrightarrow> extends w (update_object i f w)"
  by (auto simp: extends_def objects_update_object keeps_class_def)

lemma extends_fields [simp]:
  "extends w (w'\<lparr>w_wire := a\<rparr>) = extends w w'" "extends w (w'\<lparr>w_delivered := b\<rparr>) = extends w w'"
  "extends w (w'\<lparr>w_driver := c\<rparr>) = extends w w'" "extends (w\<lparr>w_wire := a\<rparr>) w' = extends w w'"
  "extends (w\<lparr>w_delivered := b\<rparr>) w' = extends w w'" "extends (w\<lparr>w_driver := c\<rparr>) w' = extends w w'"
  by (simp_all add: extends_def)

lemma snd_call_driver: "snd (call_driver x d c w) = w\<lparr>w_driver := w_driver w @ [(d, c)]\<rparr>"
  by (simp add: call_driver_def)

definition step_ok :: "bus_world \<Rightarrow> bus_world \<Rightarrow> bool" where
  "step_ok w w' \<longleftrightarrow> extends w w' \<and> (world_ok w \<longrightarrow> world_ok w')"

lemma step_ok_refl [simp]: "step_ok w w"
  by (simp add: step_ok_def)

lemma step_ok_trans: "step_ok u v \<Longrightarrow> step_ok v w \<Longrightarrow> step_ok u w"
  using extends_trans by (auto simp: step_ok_def)

lemma step_ok_update: "keeps_class f \<Longrightarrow> step_ok w (update_object i f w)"
  by (simp add: step_ok_def extends_update world_ok_update)

lemma step_ok_fields [simp]:
  "step_ok w (w'\<lparr>w_wire := a\<rparr>) = step_ok w w'" "step_ok w (w'\<lparr>w_delivered := b\<rparr>) = step_ok w w'"
  "step_ok w (w'\<lparr>w_driver := c\<rparr>) = step_ok w w'" "step_ok (w\<lparr>w_delivered := b\<rparr>) w' = step_ok w w'"
  by (simp_all add: step_ok_def)

lemma step_ok_transmit:
  "step_ok w (snd (transmit x n i p w))" "step_ok w (snd (transmit_all x n ss w))"
proof (induction x n i p w and x n ss w rule: transmit_transmit_all.induct)
  case (2 x n i p w)
  show ?case
  proof (cases "length (w_objects w) \<le> i")
    case False
    show ?thesis
    proof (cases "ad_kind (w_objects w ! i)")
      case (Loopback q)
      show ?thesis
      proof (cases "map_of (w_peers w) (peer_role (ad_role (w_objects w ! i)))")
        case (Some j)
        let ?w = "update_object j (queue_payload p) w"
        have u: "step_ok w ?w" by (rule step_ok_update [OF keeps_queue])
        show ?thesis
        proof (cases "ad_callback (w_objects ?w ! j)")
          case (Some c)
          obtain sends fails where sf: "x_callback x (length (w_delivered ?w)) (c, p) = (sends, fails)" by (rule prod.exhaust)
          have "step_ok ?w (snd (transmit_all x n sends (?w\<lparr>w_delivered := w_delivered ?w @ [(c, p)]\<rparr>)))"
            using 2 [OF False Loopback \<open>map_of _ _ = Some j\<close> refl Some sf [symmetric]] by simp
          then show ?thesis
            using False Loopback \<open>map_of _ _ = Some j\<close> Some sf step_ok_trans [OF u]
            by (simp split: prod.split) (metis snd_conv)
        qed (use False Loopback Some u in simp)
      qed (use False Loopback in simp)
    next
      case (Hardware d)
      then show ?thesis using False
        by (cases d) (auto simp: hardware_transmit_def call_driver_def split: sum.split pyerr.split)
    qed (use False in \<open>simp add: socket_transmit_def\<close>)
  qed simp
next
  case (4 x n i p ss w)
  obtain r w' where t: "transmit x n i p w = (r, w')" by (rule prod.exhaust)
  then show ?case
    using 4 step_ok_trans by (cases r) fastforce+
qed simp_all

lemma list_all_names_append:
  "list_all (names_object q w) es \<Longrightarrow> w_objects w' = w_objects w @ [a] \<Longrightarrow> list_all (names_object q w') es"
  by (auto simp: list_all_iff names_object_def nth_append)

declare map_of_dict_set [simp]

lemma step_ok_new_adapter:
  assumes "role \<in> set VALID_ROLES" "case k of Loopback ps \<Rightarrow> length ps \<le> 256 | _ \<Rightarrow> True" "new_adapter role k w = (i, w')"
  shows "step_ok w w' \<and> i < length (w_objects w') \<and> ad_role (w_objects w' ! i) = role"
proof -
  let ?a = "\<lparr>ad_role = role, ad_callback = None, ad_kind = k\<rparr>"
  have i: "i = length (w_objects w)" and o: "w_objects w' = w_objects w @ [?a]" and a: "w_adapters w' = w_adapters w"
    and pp: "w_peers w' = w_peers w \<or> is_loopback ?a \<and> w_peers w' = dict_set role i (w_peers w)"
    using assms(3) by (auto simp: new_adapter_def Let_def is_loopback_def split: kind.splits)
  have "adapter_ok ?a" using assms(1,2) by (simp add: adapter_ok_def)
  moreover have "names_object is_loopback w' (role, i)" if "is_loopback ?a" using that by (simp add: names_object_def o i)
  ultimately have "world_ok w \<longrightarrow> world_ok w'"
    using pp list_all_names_append [OF _ o] by (auto simp: world_ok_def o a intro!: list_all_dict_set)
  then show ?thesis by (simp add: step_ok_def extends_def o a i nth_append)
qed

lemma roles_known: "map_of ROLE_DEFAULTS role = Some d \<Longrightarrow> role \<in> set VALID_ROLES"
  by (auto simp: ROLE_DEFAULTS_def VALID_ROLES_def split: if_splits)

text \<open>The factory caches the adapter it creates, and otherwise changes nothing.\<close>

lemma get_bus_adapter_cases:
  assumes "get_bus_adapter f role w = (Inr i, w')" "world_ok w"
  shows "step_ok w w' \<and> map_of (w_adapters w') role = Some i \<and> i < length (w_objects w') \<and>
    ad_role (w_objects w' ! i) = role \<and> role \<in> set VALID_ROLES"
proof -
  obtain d where d: "map_of ROLE_DEFAULTS role = Some d" using assms(1) by (auto simp: get_bus_adapter_def split: option.splits)
  note r = roles_known [OF d]
  show ?thesis
  proof (cases "map_of (w_adapters w) role")
    case (Some j)
    then have "i = j" "w' = w" using assms(1) d by (simp_all add: get_bus_adapter_def)
    moreover have "names_object (\<lambda>_. True) w (role, j)"
      using assms(2) map_of_SomeD [OF Some] by (auto simp: world_ok_def list_all_iff)
    ultimately show ?thesis using Some r by (simp add: names_object_def)
  next
    case None
    then obtain k v where v: "new_adapter role k w = (i, v)" "w' = v\<lparr>w_adapters := dict_set role i (w_adapters v)\<rparr>"
      "case k of Loopback ps \<Rightarrow> length ps \<le> 256 | _ \<Rightarrow> True"
      using assms(1) d by (auto simp: get_bus_adapter_def Let_def socket_adapter_def split: prod.splits)
    note n = step_ok_new_adapter [OF r v(3,1)]
    have "w_adapters v = w_adapters w" using v(1) by (auto simp: new_adapter_def Let_def split: kind.splits)
    then have "extends w w'" using n None by (auto simp: step_ok_def extends_def v(2))
    moreover have "world_ok v \<Longrightarrow> world_ok w'"
      using n by (auto simp: world_ok_def v(2) names_object_def intro!: list_all_dict_set)
    ultimately show ?thesis using n r by (simp add: step_ok_def v(2))
  qed
qed

section \<open>Runs\<close>

datatype adapter_op = Get config_file string | New_Loopback string | Send nat nat string | Set_Callback nat "nat option"
  | Register config_file string nat | Open_Adapter nat | Close_Adapter nat | Reset

fun adapter_do :: "outside \<Rightarrow> adapter_op \<Rightarrow> bus_world \<Rightarrow> bus_world" where
  "adapter_do x (Get f r) w = snd (get_bus_adapter f r w)"
| "adapter_do x (New_Loopback r) w = (if r \<in> set VALID_ROLES then snd (new_adapter r (Loopback []) w) else w)"
| "adapter_do x (Send n i p) w = snd (transmit x n i p w)"
| "adapter_do x (Set_Callback i c) w = snd (set_receive_callback x i c w)"
| "adapter_do x (Register f r d) w = snd (register_hardware_driver x f r d w)"
| "adapter_do x (Open_Adapter i) w = snd (adapter_open x i w)"
| "adapter_do x (Close_Adapter i) w = snd (adapter_close x i w)"
| "adapter_do x Reset w = reset_bus_adapters x w"

lemma step_ok_get: "world_ok w \<Longrightarrow> step_ok w (snd (get_bus_adapter f r w))"
proof -
  assume w: "world_ok w"
  obtain a w' where g: "get_bus_adapter f r w = (a, w')" by (rule prod.exhaust)
  show ?thesis
  proof (cases a)
    case (Inl e)
    then have "w' = w" using g by (auto simp: get_bus_adapter_def Let_def split: option.splits prod.splits)
    then show ?thesis by (simp add: g)
  qed (use g get_bus_adapter_cases [OF _ w] in auto)
qed

lemma step_ok_set_callback: "step_ok w (snd (set_receive_callback x i c w))"
  using step_ok_update [OF keeps_callback]
  by (auto simp: set_receive_callback_def Let_def snd_call_driver split: kind.splits option.splits prod.splits)
    (metis snd_call_driver snd_conv step_ok_fields(3))+

lemma step_ok_open_close: "step_ok w (snd (adapter_open x i w))" "step_ok w (snd (adapter_close x i w))"
  by (auto simp: adapter_open_def adapter_close_def call_driver_def split: kind.splits option.splits)

text \<open>A driver is registered on a hardware adapter only, which stays one.\<close>

lemma step_ok_register_driver:
  assumes "ad_kind (w_objects w ! i) = Hardware h" "i < length (w_objects w)"
  shows "step_ok w (snd (register_driver x i d w))"
proof -
  let ?f = "\<lambda>a. a\<lparr>ad_kind := Hardware (Some d)\<rparr>"
  let ?g = "\<lambda>a. if ad_kind a = Hardware h then ?f a else a"
  have g: "keeps_class ?g" by (auto simp: keeps_class_def adapter_ok_def is_loopback_def)
  have "update_object i ?f w = update_object i ?g w" using assms by (simp add: update_object_def)
  then have "step_ok w (update_object i ?f w)" using step_ok_update [OF g, of w i] by simp
  then show ?thesis by (simp add: register_driver_def Let_def call_driver_def split: option.split)
qed

lemma step_ok_register:
  assumes "world_ok w" shows "step_ok w (snd (register_hardware_driver x f r d w))"
proof -
  obtain a w' where g: "get_bus_adapter f r w = (a, w')" by (rule prod.exhaust)
  have s: "step_ok w w'" using step_ok_get [OF assms, of f r] g by simp
  show ?thesis
  proof (cases a)
    case (Inl e)
    then show ?thesis using s g by (simp add: register_hardware_driver_def)
  next
    case (Inr i)
    then have "i < length (w_objects w')" using get_bus_adapter_cases [OF _ assms] g by blast
    then show ?thesis
      using s g Inr step_ok_trans [OF s] step_ok_register_driver
      by (auto simp: register_hardware_driver_def split: kind.split)
  qed
qed

lemma step_ok_do: "world_ok w \<Longrightarrow> op \<noteq> Reset \<Longrightarrow> step_ok w (adapter_do x op w)"
proof (cases op)
  case (New_Loopback r)
  then show ?thesis using step_ok_new_adapter [of r "Loopback []" w] by (cases "new_adapter r (Loopback []) w") auto
qed (simp_all add: step_ok_get step_ok_transmit step_ok_set_callback step_ok_register step_ok_open_close)

lemma reset_objects:
  "w_objects (reset_bus_adapters x w) = w_objects w" "w_adapters (reset_bus_adapters x w) = []" "w_peers (reset_bus_adapters x w) = []"
proof -
  have "w_objects (fold (\<lambda>(_, i) w. snd (adapter_close x i w)) es w) = w_objects w" for es
    by (induction es arbitrary: w) (auto simp: adapter_close_def call_driver_def split: kind.split option.split)
  then show "w_objects (reset_bus_adapters x w) = w_objects w" by (simp add: reset_bus_adapters_def)
qed (simp_all add: reset_bus_adapters_def)

lemma world_ok_do: "world_ok w \<Longrightarrow> world_ok (adapter_do x op w)"
proof (cases "op = Reset")
  case True
  then show "world_ok w \<Longrightarrow> ?thesis" by (simp add: world_ok_def reset_objects)
qed (use step_ok_do in \<open>auto simp: step_ok_def\<close>)

lemma step_ok_run:
  "world_ok w \<Longrightarrow> Reset \<notin> set ops \<Longrightarrow> step_ok w (fold (adapter_do x) ops w)"
proof (induction ops arbitrary: w)
  case (Cons op ops)
  then show ?case
    using step_ok_trans [OF step_ok_do [of w op x] Cons.IH] world_ok_do by auto
qed simp

section \<open>Properties\<close>

lemma run_world_ok: "world_ok (fold (adapter_do x) ops new_world)"
proof -
  have "world_ok w \<Longrightarrow> world_ok (fold (adapter_do x) ops w)" for w
    by (induction ops arbitrary: w) (simp_all add: world_ok_do)
  then show ?thesis by (simp add: world_ok_def new_world_def)
qed

text \<open>
  One adapter for each role: whatever is transmitted, registered, opened or closed, the factory answers with the
  adapter it created first, for the role it was asked for, until it is reset, whatever the configuration file says by
  then; and no queue of a loopback adapter holds more than 256 payloads.
\<close>

theorem adapter_kept_until_reset:
  assumes "get_bus_adapter f r (fold (adapter_do x) ops0 new_world) = (Inr i, w)" "Reset \<notin> set ops"
  shows "get_bus_adapter f' r (fold (adapter_do x) ops w) = (Inr i, fold (adapter_do x) ops w) \<and>
    ad_role (w_objects (fold (adapter_do x) ops w) ! i) = r \<and>
    list_all adapter_ok (w_objects (fold (adapter_do x) ops w))"
proof -
  note g = get_bus_adapter_cases [OF assms(1) run_world_ok]
  then have w: "world_ok w" using run_world_ok by (simp add: step_ok_def)
  note s = step_ok_run [OF w assms(2), of x]
  then have "map_of (w_adapters (fold (adapter_do x) ops w)) r = Some i" using g by (simp add: step_ok_def extends_def)
  moreover obtain d where "map_of ROLE_DEFAULTS r = Some d" using assms(1) by (auto simp: get_bus_adapter_def split: option.splits)
  ultimately show ?thesis using s g w by (simp add: get_bus_adapter_def step_ok_def extends_def world_ok_def)
qed

text \<open>A listener: what its address can be.\<close>

lemma resolve_listen_host_cases:
  "resolve_listen_host h d = (host, n) \<Longrightarrow>
   (case n of
      Silent \<Rightarrow> lower host \<in> set LOOPBACK_HOSTS | Refused_Host \<Rightarrow> host = d \<and> \<not> ip_address (strip h)
    | All_Interfaces \<Rightarrow> host \<in> set ALL_INTERFACES_HOSTS | Not_Loopback \<Rightarrow> ip_address host \<and> lower host \<notin> set LOOPBACK_HOSTS)"
  by (auto simp: resolve_listen_host_def Let_def split: if_splits)

lemma default_hosts: "map_of ROLE_DEFAULTS r = Some d \<Longrightarrow> rd_listen_host d = ''127.0.0.1''"
  by (auto simp: ROLE_DEFAULTS_def split: if_splits)

lemma lower_loopback: "lower ''127.0.0.1'' = ''127.0.0.1''"
  by code_simp

text \<open>
  The address a listener binds is a name of the loopback interface or the empty text, or a warning was logged and
  it is a name of all interfaces or another IP address; a text that is neither gives the default, and the port is the
  one of the environment, of the file or the default, in this order.
\<close>

theorem listen_endpoint_sound:
  assumes "get_listen_endpoint env f role = Inr (host, port, n)"
  shows "(lower host \<in> {''127.0.0.1'', ''localhost'', ''::1'', []} \<and> n \<in> {Silent, Refused_Host} \<or>
      host \<in> {''0.0.0.0'', ''::'', ''*''} \<and> n = All_Interfaces \<or> ip_address host \<and> n = Not_Loopback) \<and>
    (\<forall>v p. env (''FMOFP_'' @ upper (lower (strip role)) @ ''_LISTEN_PORT'') = Some v \<and> py_int 10 v = Inr p \<longrightarrow> port = p)"
proof -
  let ?r = "lower (strip role)"
  obtain d where d: "map_of ROLE_DEFAULTS ?r = Some d"
    using assms by (auto simp: get_listen_endpoint_def Let_def split: option.splits)
  obtain h where h: "resolve_listen_host h ''127.0.0.1'' = (host, n)"
    using assms default_hosts [OF d] by (auto simp: get_listen_endpoint_def Let_def d split: prod.splits)
  have "port = p" if "env (''FMOFP_'' @ upper ?r @ ''_LISTEN_PORT'') = Some v" "py_int 10 v = Inr p" for v p
  proof -
    have "v \<noteq> []" using that(2) by (auto simp: py_int_def strip_with_def drop_prefix_def Let_def)
    then show ?thesis using assms that by (simp add: get_listen_endpoint_def Let_def d py_except_def split: prod.splits)
  qed
  then show ?thesis
    using resolve_listen_host_cases [OF h] lower_loopback by (cases n) (auto simp: LOOPBACK_HOSTS_def ALL_INTERFACES_HOSTS_def)
qed

lemma strip_blank: "list_all py_ws b \<Longrightarrow> strip b = []"
  by (auto simp: strip_def strip_with_def list_all_iff dest: set_dropWhileD)

text \<open>
  A blank address binds every interface in silence: when the environment gives blanks as the host, the listener is
  given the empty text, which the socket library binds on all interfaces, and nothing is logged, because the empty text
  is listed among the loopback hosts.
\<close>

theorem blank_host_binds_everywhere:
  assumes "role \<in> {''bc'', ''rt''}" "list_all py_ws b" "b \<noteq> []" "env (''FMOFP_'' @ upper role @ ''_LISTEN_HOST'') = Some b"
  shows "\<exists>port. get_listen_endpoint env f role = Inr ([], port, Silent)"
proof -
  have r: "lower (strip role) = role" using assms(1) by (elim insertE) (simp_all, code_simp+)
  obtain d where d: "map_of ROLE_DEFAULTS role = Some d" using assms(1) by (auto simp: ROLE_DEFAULTS_def)
  have "resolve_listen_host [] e = ([], Silent)" for e
    by (simp add: resolve_listen_host_def Let_def LOOPBACK_HOSTS_def strip_def strip_with_def lower_def)
  then show ?thesis
    using assms(3,4) strip_blank [OF assms(2)] by (simp add: get_listen_endpoint_def Let_def r d or_else_def)
qed

text \<open>A run of transmissions on one loopback adapter whose peer has no callback.\<close>

lemma transmit_loopback:
  assumes "i < length (w_objects w)" "is_loopback (w_objects w ! i)" "map_of (w_peers w) (peer_role (ad_role (w_objects w ! i))) = Some j"
    "j < length (w_objects w)" "ad_callback (w_objects w ! j) = None"
  shows "transmit x (Suc n) i p w = (Inr True, update_object j (queue_payload p) w)"
proof -
  have "ad_callback (queue_payload p a) = ad_callback a" for a by (simp add: queue_payload_def split: kind.split)
  then show ?thesis using assms by (simp add: Let_def is_loopback_def objects_update_object split: kind.splits)
qed

lemma queue_all:
  "ad_kind a = Loopback q \<Longrightarrow> length q \<le> 256 \<Longrightarrow>
   ad_kind (fold queue_payload ps a) = Loopback (drop (length q + length ps - 256) (q @ ps))"
proof (induction ps arbitrary: a q)
  case (Cons p ps)
  let ?q = "drop (length q + 1 - 256) (q @ [p])"
  have "ad_kind (queue_payload p a) = Loopback ?q" using Cons.prems(1) by (simp add: queue_payload_def Let_def)
  from Cons.IH [OF this] Cons.prems(2)
  have "ad_kind (fold queue_payload (p # ps) a) = Loopback (drop (length ?q + length ps - 256) (?q @ ps))" by simp
  moreover have "drop (length ?q + length ps - 256) (?q @ ps) = drop (length q + length (p # ps) - 256) (q @ p # ps)"
    using Cons.prems(2) by (cases "length q = 256") (simp_all add: drop_Cons')
  ultimately show ?case by simp
qed simp

lemma loopback_run:
  assumes "i < length (w_objects w)" "is_loopback (w_objects w ! i)" "map_of (w_peers w) (peer_role (ad_role (w_objects w ! i))) = Some j"
    "j < length (w_objects w)" "ad_callback (w_objects w ! j) = None"
  shows "transmit_all x (Suc n) (map (Pair i) ps) w = (Inr (), fold (\<lambda>p. update_object j (queue_payload p)) ps w)"
  using assms
proof (induction ps arbitrary: w)
  case (Cons p ps)
  let ?w = "update_object j (queue_payload p) w"
  have "ad_role (queue_payload p a) = ad_role a" "is_loopback (queue_payload p a) = is_loopback a"
    "ad_callback (queue_payload p a) = ad_callback a" for a
    by (simp_all add: queue_payload_def is_loopback_def split: kind.split)
  then have "transmit_all x (Suc n) (map (Pair i) ps) ?w = (Inr (), fold (\<lambda>p. update_object j (queue_payload p)) ps ?w)"
    using Cons.prems by (intro Cons.IH) (simp_all add: objects_update_object)
  then show ?case using transmit_loopback [OF Cons.prems] by (simp del: transmit.simps)
qed simp

lemma fold_update_object:
  "j < length (w_objects w) \<Longrightarrow>
   w_objects (fold (\<lambda>p. update_object j (f p)) ps w) ! j = fold f ps (w_objects w ! j)"
  by (induction ps arbitrary: w) (simp_all add: objects_update_object)

text \<open>
  The loopback transport delivers in order and forgets without notice: payloads sent to a peer without a callback
  are all reported as sent, and the peer holds the newest 256 of them in the order they were sent.
\<close>

theorem loopback_keeps_newest:
  assumes "i < length (w_objects w)" "ad_kind (w_objects w ! i) = Loopback q0"
    "map_of (w_peers w) (peer_role (ad_role (w_objects w ! i))) = Some j" "j < length (w_objects w)"
    "ad_callback (w_objects w ! j) = None" "ad_kind (w_objects w ! j) = Loopback q" "length q \<le> 256"
  shows "fst (transmit_all x (Suc n) (map (Pair i) ps) w) = Inr () \<and>
    ad_kind (w_objects (snd (transmit_all x (Suc n) (map (Pair i) ps) w)) ! j) =
      Loopback (drop (length q + length ps - 256) (q @ ps))"
proof -
  have "is_loopback (w_objects w ! i)" using assms(2) by (simp add: is_loopback_def)
  from loopback_run [OF assms(1) this assms(3-5), of x n ps] show ?thesis
    by (simp add: fold_update_object [OF assms(4)] queue_all [OF assms(6,7)])
qed

section \<open>Answering at once\<close>

text \<open>Two loopback adapters whose callbacks send every payload straight back.\<close>

definition answers :: "bus_world \<Rightarrow> nat \<Rightarrow> nat \<Rightarrow> bool" where
  "answers w i j \<longleftrightarrow> i < length (w_objects w) \<and> is_loopback (w_objects w ! i) \<and> ad_callback (w_objects w ! i) = Some i \<and>
     map_of (w_peers w) (peer_role (ad_role (w_objects w ! i))) = Some j"

definition echo :: outside where
  "echo = \<lparr>x_net = \<lambda>_ _. Failed, x_callback = \<lambda>_ (c, p). ([(c, p)], False), x_method = \<lambda>_ _. False, x_driver = \<lambda>_ _. Inl RuntimeError\<rparr>"

lemma answers_update:
  "answers w i j \<Longrightarrow> answers ((update_object k (queue_payload p) w)\<lparr>w_delivered := ds\<rparr>) i j"
  by (auto simp: answers_def objects_update_object queue_payload_def is_loopback_def split: kind.split)

lemma echo_step:
  assumes "answers w i j" "answers w j i"
  shows "transmit echo (Suc n) i p w =
    (let w = (update_object j (queue_payload p) w)\<lparr>w_delivered := w_delivered w @ [(j, p)]\<rparr>;
         r = transmit echo n j p w in (Inr (is_ok (fst r)), snd r))"
proof -
  let ?w = "update_object j (queue_payload p) w"
  have "ad_callback (w_objects ?w ! j) = Some j"
    using assms(2) by (simp add: answers_def objects_update_object queue_payload_def split: kind.split)
  moreover have "x_callback echo k (j, p) = ([(j, p)], False)" for k by (simp add: echo_def)
  ultimately show ?thesis
    using assms by (auto simp: answers_def is_loopback_def Let_def is_ok_def split: kind.splits prod.split sum.split)
qed

text \<open>
  Callbacks that answer at once never come to rest: a transmission between them ends when the stack is used up,
  after one delivery for each level, and the error is swallowed one level above, so the transmission still reports
  success.
\<close>

theorem echoes_until_stack_ends:
  assumes "answers w i j" "answers w j i"
  shows "fst (transmit echo (Suc (Suc n)) i p w) = Inr True \<and>
    length (w_delivered (snd (transmit echo (Suc (Suc n)) i p w))) = length (w_delivered w) + Suc (Suc n)"
proof -
  have "answers w i j \<Longrightarrow> answers w j i \<Longrightarrow>
      (fst (transmit echo n i p w) = (if n = 0 then Inl RuntimeError else Inr (1 < n))) \<and>
      length (w_delivered (snd (transmit echo n i p w))) = length (w_delivered w) + n" for n w i j
  proof (induction n arbitrary: w i j)
    case (Suc n)
    let ?w = "(update_object j (queue_payload p) w)\<lparr>w_delivered := w_delivered w @ [(j, p)]\<rparr>"
    have "answers ?w j i" "answers ?w i j" using Suc.prems by (simp_all add: answers_update)
    from Suc.IH [OF this] show ?case unfolding echo_step [OF Suc.prems] by (auto simp: Let_def is_ok_def split: if_splits)
  qed simp
  from this [OF assms, of "Suc (Suc n)"] show ?thesis by simp
qed

section \<open>Witnesses\<close>

definition no_env :: "string \<Rightarrow> string option" where "no_env k = None"

definition both_loopback :: config_file where
  "both_loopback = Adapters [[(''role'', ''BC ''), (''type'', ''loopback'')], [(''role'', ''rt''), (''type'', ''loopback'')]]"

lemma default_endpoint: "get_listen_endpoint no_env Missing ''bc'' = Inr (''127.0.0.1'', 5000, Silent)"
  by code_simp

lemma first_adapter: "fst (get_bus_adapter both_loopback ''bc'' new_world) = Inr 0"
  by code_simp

theorem adapter_kept_until_reset_witness:
  "fst (get_bus_adapter Missing ''bc'' (fold (adapter_do echo) [Send 5 0 ''x''] (snd (get_bus_adapter both_loopback ''bc'' new_world)))) = Inr 0"
  using adapter_kept_until_reset [of both_loopback "''bc''" echo "[]" 0 "snd (get_bus_adapter both_loopback ''bc'' new_world)"
      "[Send 5 0 ''x'']" Missing] first_adapter
  by (simp add: prod_eq_iff)

theorem listen_endpoint_sound_witness:
  "lower ''127.0.0.1'' \<in> {''127.0.0.1'', ''localhost'', ''::1'', []} \<or> ip_address ''127.0.0.1''"
  using listen_endpoint_sound [OF default_endpoint] by blast

theorem blank_host_binds_everywhere_witness:
  "\<exists>port. get_listen_endpoint [''FMOFP_BC_LISTEN_HOST'' \<mapsto> '' ''] Missing ''bc'' = Inr ([], port, Silent)"
proof -
  have "upper ''bc'' = ''BC''" "py_ws (CHR '' '')" by code_simp+
  then show ?thesis using blank_host_binds_everywhere [of "''bc''" "'' ''" "[''FMOFP_BC_LISTEN_HOST'' \<mapsto> '' '']" Missing] by simp
qed

definition two_loopbacks :: bus_world where
  "two_loopbacks = adapter_do echo (Get both_loopback ''rt'') (adapter_do echo (Get both_loopback ''bc'') new_world)"

lemma two_loopbacks_eq:
  "w_objects two_loopbacks = [\<lparr>ad_role = ''bc'', ad_callback = None, ad_kind = Loopback []\<rparr>, \<lparr>ad_role = ''rt'', ad_callback = None, ad_kind = Loopback []\<rparr>]"
  "w_peers two_loopbacks = [(''bc'', 0), (''rt'', 1)]"
  by code_simp+

theorem loopback_keeps_newest_witness:
  "ad_kind (w_objects (snd (transmit_all echo 1 [(0, ''a''), (0, ''b'')] two_loopbacks)) ! 1) = Loopback [''a'', ''b'']"
  using loopback_keeps_newest [of 0 two_loopbacks "[]" 1 "[]" echo 0 "[''a'', ''b'']"]
  by (simp add: two_loopbacks_eq peer_role_def)

definition two_echoes :: bus_world where
  "two_echoes = adapter_do echo (Set_Callback 0 (Some 0)) (adapter_do echo (Set_Callback 1 (Some 1)) two_loopbacks)"

theorem echoes_until_stack_ends_witness:
  "fst (transmit echo 100 0 ''x'' two_echoes) = Inr True"
proof -
  have "answers two_echoes 0 1 \<and> answers two_echoes 1 0" by code_simp
  then show ?thesis using echoes_until_stack_ends [of two_echoes 0 1 98 "''x''"] by (simp del: transmit.simps)
qed

end
