(* ===== verification/Bus_Frame.thy ===== *)
theory Bus_Frame
  imports Word_Codec
begin

text \<open>
  The message class of the bus (\<^verbatim>\<open>mil_std_1553B.py\<close>): construction with its checks, the binary form with its
  optional block status word, and the dictionary form. The constructor's arguments are values of any kind.
\<close>

section \<open>The message\<close>

record frame_message =
  fm_rt :: pyval
  fm_sa :: pyval
  fm_data :: string
  fm_type :: pyval
  fm_original :: pyval
  fm_command_type :: pyval
  fm_command_name :: pyval
  fm_count :: pyval
  fm_direction :: pyval
  fm_transfer :: pyval
  fm_metadata :: pydict

text \<open>\<^verbatim>\<open>format(v, '0wb')\<close> and \<^verbatim>\<open>v == n\<close>\<close>

definition py_format_b :: "nat \<Rightarrow> pyval \<Rightarrow> string pyres" where
  "py_format_b w v = (case as_int v of
     Some n \<Rightarrow> Inr (fmt_bin w n)
   | None \<Rightarrow> (case v of PStr _ \<Rightarrow> Inl ValueError | PFloat _ \<Rightarrow> Inl ValueError | _ \<Rightarrow> Inl TypeError))"

definition py_eq_int :: "pyval \<Rightarrow> int \<Rightarrow> bool" where
  "py_eq_int v n = (case v of PFloat q \<Rightarrow> q = of_int n | _ \<Rightarrow> as_int v = Some n)"

definition five_bit :: "pyval \<Rightarrow> bool" where
  "five_bit v = (case as_int v of Some n \<Rightarrow> 0 \<le> n \<and> n \<le> 31 | None \<Rightarrow> False)"

definition set_absent :: "bool \<Rightarrow> string \<Rightarrow> pyval \<Rightarrow> pydict \<Rightarrow> pydict" where
  "set_absent c k v d = (if c \<and> \<not> has_key d k then dict_set k v d else d)"

fun join_words :: "pyval list \<Rightarrow> string pyres" where
  "join_words [] = Inr []"
| "join_words (w # ws) = py_bind (py_format_b 16 w) (\<lambda>s. py_bind (join_words ws) (\<lambda>t. Inr (s @ t)))"

definition message_data :: "pyval \<Rightarrow> string pyres" where
  "message_data data = (case data of
     PStr s \<Rightarrow> if 32 * 16 < length s then Inl ValueError else Inr s
   | PList ws \<Rightarrow> if 32 < length ws then Inl ValueError else join_words ws
   | _ \<Rightarrow> Inl ValueError)"

definition core_metadata :: "pyval \<Rightarrow> pyval \<Rightarrow> pyval \<Rightarrow> pyval \<Rightarrow> pyval \<Rightarrow> pyval \<Rightarrow> pyval \<Rightarrow> pyval \<Rightarrow> pydict \<Rightarrow> pydict" where
  "core_metadata rt sa mt omt ct cn dir tt md =
     set_absent (tt \<noteq> PNone) ''transfer_type'' tt (set_absent (dir \<noteq> PNone) ''direction'' dir
      (set_absent True ''sub_address'' sa (set_absent True ''rt_address'' rt
        (set_absent (truthy omt) ''original_message_type'' omt (set_absent (truthy mt) ''message_type'' mt
          (set_absent (truthy cn) ''command_name'' cn (set_absent (truthy ct) ''command_type'' ct md)))))))"

definition new_message ::
  "pyval \<Rightarrow> pyval \<Rightarrow> pyval \<Rightarrow> pyval \<Rightarrow> pyval \<Rightarrow> pyval \<Rightarrow> pyval \<Rightarrow> pyval \<Rightarrow> pydict option \<Rightarrow> pyval \<Rightarrow> pyval \<Rightarrow> frame_message pyres" where
  "new_message rt sa data mt omt ct cn count md dir tt =
     (if \<not> five_bit rt then Inl ValueError
      else if \<not> five_bit sa then Inl ValueError
      else
        let metadata = core_metadata rt sa mt omt ct cn dir tt (case md of None \<Rightarrow> [] | Some d \<Rightarrow> d)
        in py_bind (message_data data) (\<lambda>s.
             let n = PInt (int (length s div 16)) in
             Inr \<lparr>fm_rt = rt, fm_sa = sa, fm_data = s, fm_type = mt, fm_original = omt, fm_command_type = ct,
                  fm_command_name = cn, fm_count = (if count = PNone then n else count), fm_direction = dir,
                  fm_transfer = tt,
                  fm_metadata = (if count = PNone then dict_set ''data_word_count'' n metadata else metadata)\<rparr>))"

section \<open>Binary form\<close>

definition to_binary :: "frame_message \<Rightarrow> string pyres" where
  "to_binary m =
     (let t_r_bit = (if py_eq_int (fm_direction m) 1 then ''1'' else ''0'') in
      py_bind (py_format_b 5 (fm_rt m)) (\<lambda>rt.
      py_bind (py_format_b 5 (fm_sa m)) (\<lambda>sa.
      py_bind (py_format_b 5 (fm_count m)) (\<lambda>n.
        let command_word = rt @ t_r_bit @ sa @ n
        in if py_eq_int (fm_transfer m) 0 then Inr (command_word @ fm_data m)
           else
             let status_word = rt @ ''00000'' @ ''1'' @ ''00000''
             in Inr (command_word @ status_word @ fm_data m)))))"

definition BLOCK_STATUS_FLAG_BIT :: nat where "BLOCK_STATUS_FLAG_BIT = 8"

definition from_binary :: "string \<Rightarrow> pyval \<Rightarrow> pydict option \<Rightarrow> frame_message pyres" where
  "from_binary binary mt md =
     (if length binary < 16 then Inl ValueError
      else
        let command_word = take 16 binary in
        py_bind (py_int 2 (slice 0 5 command_word)) (\<lambda>rt_address.
        py_bind (py_int 2 [command_word ! 5]) (\<lambda>t_r_bit.
        py_bind (py_int 2 (slice 6 11 command_word)) (\<lambda>sub_address.
        py_bind (py_int 2 (drop 11 command_word)) (\<lambda>word_count.
          let direction = PInt (if t_r_bit = 1 then 1 else 0);
              expected = 16 + word_count * 16;
              block = expected + 16 \<le> int (length binary) \<and> slice 16 32 binary ! BLOCK_STATUS_FLAG_BIT = CHR ''1'';
              transfer_type = PInt (if block then 1 else 0);
              expected_length = (if block then expected + 16 else expected);
              data_start = (if block then 32 else 16)
          in if int (length binary) \<noteq> expected_length then Inl ValueError
             else
               let metadata = dict_set ''data_word_count'' (PInt word_count) (dict_set ''transfer_type'' transfer_type
                     (dict_set ''direction'' direction (case md of None \<Rightarrow> [] | Some d \<Rightarrow> d)))
               in new_message (PInt rt_address) (PInt sub_address) (PStr (drop data_start binary)) mt PNone PNone PNone
                    (PInt word_count) (Some metadata) direction transfer_type)))))"

section \<open>Dictionary form\<close>

definition dict_update :: "pydict \<Rightarrow> pydict \<Rightarrow> pydict" where
  "dict_update new old = fold (\<lambda>(k, v). dict_set k v) new old"

definition update_from :: "pydict \<Rightarrow> string \<Rightarrow> pydict \<Rightarrow> pydict" where
  "update_from d k md = (case dict_get d k PNone of PDict new \<Rightarrow> dict_update new md | _ \<Rightarrow> md)"

definition from_dict :: "pydict \<Rightarrow> frame_message pyres" where
  "from_dict d =
     (if dict_get d ''rt_address'' PNone = PNone \<or> dict_get d ''sub_address'' PNone = PNone then Inl ValueError
      else
        new_message (dict_get d ''rt_address'' PNone) (dict_get d ''sub_address'' PNone) (dict_get d ''data'' (PStr []))
          (dict_get d ''message_type'' PNone) (dict_get d ''original_message_type'' PNone)
          (dict_get d ''command_type'' PNone) (dict_get d ''command_name'' PNone) (dict_get d ''data_word_count'' PNone)
          (Some (update_from d ''additional_info'' (update_from d ''metadata'' [])))
          (dict_get d ''direction'' (PInt 0)) (dict_get d ''transfer_type'' (PInt 0)))"

definition to_dict :: "frame_message \<Rightarrow> pydict" where
  "to_dict m =
     (let result = [(''rt_address'', fm_rt m), (''sub_address'', fm_sa m), (''data'', PStr (fm_data m)),
            (''message_type'', fm_type m), (''command_type'', fm_command_type m), (''command_name'', fm_command_name m),
            (''metadata'', PDict (fm_metadata m))];
          result = (if truthy (fm_original m) then result @ [(''original_message_type'', fm_original m)] else result);
          result = (if fm_count m \<noteq> PNone then result @ [(''data_word_count'', fm_count m)] else result)
      in result @ [(''direction'', fm_direction m), (''transfer_type'', fm_transfer m),
           (''additional_info'', PDict [(''message_type'', fm_type m), (''command_type'', fm_command_type m),
              (''command_name'', fm_command_name m), (''rt_address'', fm_rt m), (''sub_address'', fm_sa m)])])"

definition is_mode_code :: "frame_message \<Rightarrow> bool" where "is_mode_code m = py_eq_int (fm_sa m) 31"

definition is_block_transfer :: "frame_message \<Rightarrow> bool" where "is_block_transfer m = py_eq_int (fm_transfer m) 1"

section \<open>The command word of a frame\<close>

text \<open>A message with whole data words and at most as many as the count of the command word can say.\<close>

definition framable :: "frame_message \<Rightarrow> nat \<Rightarrow> nat \<Rightarrow> nat \<Rightarrow> bool" where
  "framable m rt sa n \<longleftrightarrow> fm_rt m = PInt (int rt) \<and> fm_sa m = PInt (int sa) \<and> rt \<le> 31 \<and> sa \<le> 31 \<and>
     fm_count m = PInt (int n) \<and> length (fm_data m) = 16 * n \<and> bits (fm_data m)"

lemma py_format_int: "py_format_b w (PInt n) = Inr (fmt_bin w n)"
  by (simp add: py_format_b_def)

lemma to_binary_framable:
  "framable m rt sa n \<Longrightarrow> to_binary m = Inr (fmt_bin 5 (int rt) @ (if py_eq_int (fm_direction m) 1 then ''1'' else ''0'') @
     fmt_bin 5 (int sa) @ fmt_bin 5 (int n) @
     (if py_eq_int (fm_transfer m) 0 then [] else fmt_bin 5 (int rt) @ ''00000100000'') @ fm_data m)"
  by (simp add: framable_def to_binary_def py_format_int Let_def)

text \<open>What the parser reads of a frame that starts with four fields.\<close>

lemma parsed_fields:
  assumes "length a = 5" "length b = 5" "length c = 5" "bits a" "bits b" "bits c" "is_bit t" "binary = a @ [t] @ b @ c @ rest"
  shows "\<not> length binary < 16" "py_int 2 (slice 0 5 (take 16 binary)) = Inr (int (bval a))"
    "py_int 2 [take 16 binary ! 5] = Inr (int (bit_nat t))"
    "py_int 2 (slice 6 11 (take 16 binary)) = Inr (int (bval b))" "py_int 2 (drop 11 (take 16 binary)) = Inr (int (bval c))"
proof -
  have t: "take 16 binary = a @ [t] @ b @ c" using assms by simp
  have "slice 0 5 (take 16 binary) = a" "take 16 binary ! 5 = t" "slice 6 11 (take 16 binary) = b" "drop 11 (take 16 binary) = c"
    unfolding t using assms(1-3) by (simp_all add: slice_def nth_append)
  moreover have "py_int 2 [t] = Inr (int (bit_nat t))"
    using py_int_bits [of "[t]"] bval_simps(2) [of "[]" t] assms(7) by simp
  moreover have "a \<noteq> []" "b \<noteq> []" "c \<noteq> []" using assms(1-3) by auto
  ultimately show "py_int 2 (slice 0 5 (take 16 binary)) = Inr (int (bval a))"
    "py_int 2 [take 16 binary ! 5] = Inr (int (bit_nat t))"
    "py_int 2 (slice 6 11 (take 16 binary)) = Inr (int (bval b))" "py_int 2 (drop 11 (take 16 binary)) = Inr (int (bval c))"
    using assms(4-6) by (simp_all add: py_int_bits)
  show "\<not> length binary < 16" using assms by simp
qed

lemma fmt5_bval: "n \<le> 31 \<Longrightarrow> length (fmt_bin 5 (int n)) = 5 \<and> bits (fmt_bin 5 (int n)) \<and> bval (fmt_bin 5 (int n)) = n"
  using fmt5 [of "int n"] by simp

lemma five_bit_int: "five_bit (PInt (int n)) \<longleftrightarrow> n \<le> 31"
  by (simp add: five_bit_def)

section \<open>Properties\<close>

text \<open>
  C31. A standard message with at most 31 whole data words is read back from its binary form with its addresses, its
  word count and its data. Its direction is one bit: a message to the bus controller (1) is read back as one, and every
  other direction as 0, which loses the terminal-to-terminal direction 2 that the class documents and accepts.
\<close>

theorem standard_frame_roundtrip:
  assumes "framable m rt sa n" "n \<le> 31" "fm_transfer m = PInt 0" "fm_direction m = PInt d"
  shows "\<exists>b m'. to_binary m = Inr b \<and> length b = 16 + 16 * n \<and> from_binary b mt md = Inr m' \<and> fm_rt m' = fm_rt m \<and>
    fm_sa m' = fm_sa m \<and> fm_data m' = fm_data m \<and> fm_count m' = fm_count m \<and>
    fm_direction m' = PInt (if d = 1 then 1 else 0) \<and> fm_transfer m' = fm_transfer m \<and> fm_type m' = mt"
proof -
  let ?t = "if d = 1 then CHR ''1'' else CHR ''0''"
  let ?b = "fmt_bin 5 (int rt) @ [?t] @ fmt_bin 5 (int sa) @ fmt_bin 5 (int n) @ fm_data m"
  have f: "fm_rt m = PInt (int rt)" "fm_sa m = PInt (int sa)" "rt \<le> 31" "sa \<le> 31" "fm_count m = PInt (int n)"
    "length (fm_data m) = 16 * n"
    using assms(1) by (simp_all add: framable_def)
  note l = fmt5_bval [OF f(3)] fmt5_bval [OF f(4)] fmt5_bval [OF assms(2)]
  have b: "to_binary m = Inr ?b" using to_binary_framable [OF assms(1)] assms(3,4) by (auto simp: py_eq_int_def)
  have "is_bit ?t" by simp
  note p = parsed_fields [of "fmt_bin 5 (int rt)" "fmt_bin 5 (int sa)" "fmt_bin 5 (int n)" ?t ?b "fm_data m", OF _ _ _ _ _ _ this]
  have len: "length ?b = 16 + 16 * n" using l f(6) by simp
  have d: "drop 16 ?b = fm_data m" using l by simp
  have "message_data (PStr (fm_data m)) = Inr (fm_data m)" using f(6) assms(2) by (simp add: message_data_def)
  then have "\<exists>m'. from_binary ?b mt md = Inr m' \<and> fm_rt m' = fm_rt m \<and>
    fm_sa m' = fm_sa m \<and> fm_data m' = fm_data m \<and> fm_count m' = fm_count m \<and>
    fm_direction m' = PInt (if d = 1 then 1 else 0) \<and> fm_transfer m' = fm_transfer m \<and> fm_type m' = mt"
    using p l len d f assms(3,4) unfolding from_binary_def by (auto simp: new_message_def five_bit_int Let_def)
  then show ?thesis using b len by blast
qed

text \<open>
  Two kinds of message that the class builds and writes are not read back: block transfers, whose status word
  carries the block flag in another place than the one the parser tests, and messages of 32 data words, whose count
  takes six bits of the command word.
\<close>

theorem frames_not_read_back:
  assumes "framable m rt sa n" "1 \<le> n" "n \<le> 31 \<and> fm_transfer m = PInt 1 \<or> n = 32 \<and> fm_transfer m = PInt 0"
  shows "\<exists>b. to_binary m = Inr b \<and> from_binary b mt md = Inl ValueError"
proof -
  let ?t = "if py_eq_int (fm_direction m) 1 then CHR ''1'' else CHR ''0''"
  have f: "rt \<le> 31" "sa \<le> 31" "length (fm_data m) = 16 * n" using assms(1) by (simp_all add: framable_def)
  note l = fmt5_bval [OF f(1)] fmt5_bval [OF f(2)]
  have t: "is_bit ?t" by simp
  note p = parsed_fields [OF _ _ _ _ _ _ t refl, of "fmt_bin 5 (int rt)" "fmt_bin 5 (int sa)"]
  show ?thesis
  proof (cases "n = 32")
    case True
    let ?rest = "''0'' @ fm_data m"
    let ?b = "fmt_bin 5 (int rt) @ [?t] @ fmt_bin 5 (int sa) @ ''10000'' @ ?rest"
    have c: "fmt_bin 5 (int n) = ''10000'' @ ''0''" unfolding True by code_simp
    have b: "to_binary m = Inr ?b" using to_binary_framable [OF assms(1)] assms(3) True c by (simp add: py_eq_int_def)
    have v: "bval ''10000'' = 16" by code_simp
    have "length ?b = 529" using f(3) l True by simp
    then have "from_binary ?b mt md = Inl ValueError"
      using p [of "''10000''" ?rest] l v unfolding from_binary_def by (simp add: Let_def)
    then show ?thesis using b by blast
  next
    case False
    then have n: "n \<le> 31" "fm_transfer m = PInt 1" using assms(3) by auto
    let ?rest = "fmt_bin 5 (int rt) @ ''00000100000'' @ fm_data m"
    let ?b = "fmt_bin 5 (int rt) @ [?t] @ fmt_bin 5 (int sa) @ fmt_bin 5 (int n) @ ?rest"
    have b: "to_binary m = Inr ?b" using to_binary_framable [OF assms(1)] n by (simp add: py_eq_int_def)
    note ln = fmt5_bval [OF n(1)]
    have "length ?b = 32 + 16 * n" using f(3) l ln by simp
    moreover have "slice 16 32 ?b ! 8 = CHR ''0''" using l ln by (simp add: slice_def nth_append)
    ultimately have "from_binary ?b mt md = Inl ValueError"
      using p [of "fmt_bin 5 (int n)" ?rest] l ln unfolding from_binary_def BLOCK_STATUS_FLAG_BIT_def by (simp add: Let_def)
    then show ?thesis using b by blast
  qed
qed

section \<open>Through the dictionary\<close>

lemma map_of_dict_update:
  "distinct (map fst new) \<Longrightarrow> map_of (dict_update new old) k = (case map_of new k of None \<Rightarrow> map_of old k | Some v \<Rightarrow> Some v)"
proof (induction new arbitrary: old)
  case (Cons a new)
  obtain j v where a: "a = (j, v)" by (cases a)
  have "map_of new j = None" using Cons.prems a by (simp add: map_of_eq_None_iff)
  moreover have "map_of (dict_set j v old) k = (if j = k then Some v else map_of old k)"
    by (simp add: dict_set_def update_conv)
  ultimately show ?case using Cons a by (auto simp: dict_update_def split: option.split)
qed (simp add: dict_update_def)

definition orelse :: "'a option \<Rightarrow> 'a option \<Rightarrow> 'a option" where
  "orelse a b = (case a of None \<Rightarrow> b | Some v \<Rightarrow> Some v)"

lemma orelse_simps [simp]: "orelse None b = b" "orelse (Some v) b = Some v" "orelse a None = a"
  by (simp_all add: orelse_def split: option.split)

lemma map_of_set_absent: "map_of (set_absent c j v d) k = orelse (map_of d k) (if c \<and> k = j then Some v else None)"
  by (auto simp: set_absent_def has_key_def dict_set_def update_conv orelse_def split: option.split)

definition core_field :: "frame_message \<Rightarrow> string \<Rightarrow> pyval option" where
  "core_field m = map_of [(''message_type'', fm_type m), (''command_type'', fm_command_type m),
     (''command_name'', fm_command_name m), (''rt_address'', fm_rt m), (''sub_address'', fm_sa m)]"

text \<open>What the constructor puts into the metadata is there.\<close>

lemma core_metadata_present:
  "truthy omt \<Longrightarrow> map_of (core_metadata rt sa mt omt ct cn dir tt md) ''original_message_type'' \<noteq> None"
  "dir \<noteq> PNone \<Longrightarrow> map_of (core_metadata rt sa mt omt ct cn dir tt md) ''direction'' \<noteq> None"
  "tt \<noteq> PNone \<Longrightarrow> map_of (core_metadata rt sa mt omt ct cn dir tt md) ''transfer_type'' \<noteq> None"
  by (simp_all add: core_metadata_def map_of_set_absent orelse_def split: option.split)

lemma core_metadata_kept:
  assumes "map_of md k = None \<Longrightarrow> k \<notin> {''command_type'', ''command_name'', ''message_type'', ''rt_address'', ''sub_address''} \<and>
    (k = ''original_message_type'' \<longrightarrow> \<not> truthy omt) \<and> (k = ''direction'' \<longrightarrow> dir = PNone) \<and> (k = ''transfer_type'' \<longrightarrow> tt = PNone)"
  shows "map_of (core_metadata rt sa mt omt ct cn dir tt md) k = map_of md k"
proof (cases "map_of md k")
  case None
  then show ?thesis using assms by (auto simp: core_metadata_def map_of_set_absent)
qed (simp add: core_metadata_def map_of_set_absent)

text \<open>
  A message comes back from its dictionary form with every field as it was, except that five entries of the
  metadata are overwritten by the fields of the same name: a message type known only to the metadata is lost.
\<close>

theorem dictionary_roundtrip:
  assumes "new_message rt sa data mt omt ct cn count md dir tt = Inr m" "length (fm_data m) \<le> 512"
    "truthy omt \<or> omt = PNone" "distinct (map fst (fm_metadata m))"
  shows "\<exists>m'. from_dict (to_dict m) = Inr m' \<and> m' = m\<lparr>fm_metadata := fm_metadata m'\<rparr> \<and>
    (\<forall>k. map_of (fm_metadata m') k = (case core_field m k of Some v \<Rightarrow> Some v | None \<Rightarrow> map_of (fm_metadata m) k))"
proof -
  have five: "five_bit rt" "five_bit sa" and m: "fm_rt m = rt" "fm_sa m = sa" "fm_type m = mt" "fm_original m = omt"
    "fm_command_type m = ct" "fm_command_name m = cn" "fm_direction m = dir" "fm_transfer m = tt" "fm_count m \<noteq> PNone"
    using assms(1) by (auto simp: new_message_def py_bind_eq_Inr Let_def split: if_splits)
  have some: "rt \<noteq> PNone" "sa \<noteq> PNone" using five by (auto simp: five_bit_def)
  have meta: "fm_metadata m = (let d = core_metadata rt sa mt omt ct cn dir tt (case md of None \<Rightarrow> [] | Some d \<Rightarrow> d)
      in if count = PNone then dict_set ''data_word_count'' (fm_count m) d else d)"
    using assms(1) by (auto simp: new_message_def py_bind_eq_Inr Let_def split: if_splits)
  have present: "truthy omt \<longrightarrow> map_of (fm_metadata m) ''original_message_type'' \<noteq> None"
    "dir \<noteq> PNone \<longrightarrow> map_of (fm_metadata m) ''direction'' \<noteq> None" "tt \<noteq> PNone \<longrightarrow> map_of (fm_metadata m) ''transfer_type'' \<noteq> None"
    using core_metadata_present unfolding meta Let_def by (simp_all add: dict_set_def update_conv)
  let ?md = "update_from (to_dict m) ''additional_info'' (update_from (to_dict m) ''metadata'' [])"
  have get: "dict_get (to_dict m) ''rt_address'' PNone = rt" "dict_get (to_dict m) ''sub_address'' PNone = sa"
    "dict_get (to_dict m) ''data'' (PStr []) = PStr (fm_data m)" "dict_get (to_dict m) ''message_type'' PNone = mt"
    "dict_get (to_dict m) ''original_message_type'' PNone = omt" "dict_get (to_dict m) ''command_type'' PNone = ct"
    "dict_get (to_dict m) ''command_name'' PNone = cn" "dict_get (to_dict m) ''data_word_count'' PNone = fm_count m"
    "dict_get (to_dict m) ''direction'' (PInt 0) = dir" "dict_get (to_dict m) ''transfer_type'' (PInt 0) = tt"
    "dict_get (to_dict m) ''metadata'' PNone = PDict (fm_metadata m)"
    "dict_get (to_dict m) ''additional_info'' PNone = PDict [(''message_type'', mt), (''command_type'', ct),
       (''command_name'', cn), (''rt_address'', rt), (''sub_address'', sa)]"
    using assms(3) m by (auto simp: to_dict_def dict_get_def Let_def)
  have md: "map_of ?md k = (case core_field m k of Some v \<Rightarrow> Some v | None \<Rightarrow> map_of (fm_metadata m) k)" for k
    using assms(4) by (simp add: update_from_def get core_field_def m map_of_dict_update split: option.split)
  have kept: "map_of (core_metadata rt sa mt omt ct cn dir tt ?md) k = map_of ?md k" for k
  proof (rule core_metadata_kept)
    assume n: "map_of ?md k = None"
    then have c: "core_field m k = None" and k: "map_of (fm_metadata m) k = None" by (simp_all add: md split: option.splits)
    from c have "k \<notin> {''command_type'', ''command_name'', ''message_type'', ''rt_address'', ''sub_address''}"
      by (simp add: core_field_def split: if_splits)
    moreover have "(k = ''original_message_type'' \<longrightarrow> \<not> truthy omt) \<and> (k = ''direction'' \<longrightarrow> dir = PNone) \<and> (k = ''transfer_type'' \<longrightarrow> tt = PNone)"
      using present k by blast
    ultimately show "k \<notin> {''command_type'', ''command_name'', ''message_type'', ''rt_address'', ''sub_address''} \<and>
      (k = ''original_message_type'' \<longrightarrow> \<not> truthy omt) \<and> (k = ''direction'' \<longrightarrow> dir = PNone) \<and> (k = ''transfer_type'' \<longrightarrow> tt = PNone)"
      by blast
  qed
  have "message_data (PStr (fm_data m)) = Inr (fm_data m)" using assms(2) by (simp add: message_data_def)
  then show ?thesis
    using five some m md kept by (simp add: from_dict_def get new_message_def Let_def)
qed

section \<open>Witnesses\<close>

definition two_words :: frame_message where
  "two_words = \<lparr>fm_rt = PInt 5, fm_sa = PInt 10, fm_data = replicate 32 (CHR ''0''), fm_type = PNone, fm_original = PNone,
     fm_command_type = PNone, fm_command_name = PNone, fm_count = PInt 2, fm_direction = PInt 1, fm_transfer = PInt 0,
     fm_metadata = [(''message_type'', PStr ''vil'')]\<rparr>"

theorem standard_frame_roundtrip_witness:
  "(\<exists>b m'. to_binary two_words = Inr b \<and> length b = 48 \<and> from_binary b PNone None = Inr m' \<and>
     fm_data m' = replicate 32 (CHR ''0'') \<and> fm_direction m' = PInt 1) \<and>
   (\<exists>b m'. to_binary (two_words\<lparr>fm_direction := PInt 2\<rparr>) = Inr b \<and> from_binary b PNone None = Inr m' \<and> fm_direction m' = PInt 0)"
proof (rule conjI)
  have f: "framable two_words 5 10 2" "framable (two_words\<lparr>fm_direction := PInt 2\<rparr>) 5 10 2"
    by (simp_all add: framable_def two_words_def)
  show "\<exists>b m'. to_binary two_words = Inr b \<and> length b = 48 \<and> from_binary b PNone None = Inr m' \<and>
     fm_data m' = replicate 32 (CHR ''0'') \<and> fm_direction m' = PInt 1"
    using standard_frame_roundtrip [OF f(1), of 1 PNone None] by (auto simp: two_words_def)
  show "\<exists>b m'. to_binary (two_words\<lparr>fm_direction := PInt 2\<rparr>) = Inr b \<and> from_binary b PNone None = Inr m' \<and> fm_direction m' = PInt 0"
    using standard_frame_roundtrip [OF f(2), of 2 PNone None] by (auto simp: two_words_def)
qed

theorem frames_not_read_back_witness:
  "\<exists>b. to_binary (two_words\<lparr>fm_transfer := PInt 1\<rparr>) = Inr b \<and> from_binary b PNone None = Inl ValueError"
proof -
  have "framable (two_words\<lparr>fm_transfer := PInt 1\<rparr>) 5 10 2" by (simp add: framable_def two_words_def)
  from frames_not_read_back [OF this, of PNone None] show ?thesis by (simp add: two_words_def)
qed

theorem dictionary_roundtrip_witness:
  "\<exists>m m'. new_message (PInt 5) (PInt 10) (PStr []) PNone PNone PNone PNone PNone (Some [(''message_type'', PStr ''vil'')])
     (PInt 0) (PInt 0) = Inr m \<and> map_of (fm_metadata m) ''message_type'' = Some (PStr ''vil'') \<and>
     from_dict (to_dict m) = Inr m' \<and> map_of (fm_metadata m') ''message_type'' = Some PNone"
proof -
  define m where "m = \<lparr>fm_rt = PInt 5, fm_sa = PInt 10, fm_data = [], fm_type = PNone, fm_original = PNone,
     fm_command_type = PNone, fm_command_name = PNone, fm_count = PInt 0, fm_direction = PInt 0, fm_transfer = PInt 0,
     fm_metadata = [(''message_type'', PStr ''vil''), (''rt_address'', PInt 5), (''sub_address'', PInt 10),
       (''direction'', PInt 0), (''transfer_type'', PInt 0), (''data_word_count'', PInt 0)]\<rparr>"
  then have m: "new_message (PInt 5) (PInt 10) (PStr []) PNone PNone PNone PNone PNone
      (Some [(''message_type'', PStr ''vil'')]) (PInt 0) (PInt 0) = Inr m"
    "fm_data m = []" "fm_type m = PNone" "map_of (fm_metadata m) ''message_type'' = Some (PStr ''vil'')"
    "distinct (map fst (fm_metadata m))"
    by (simp_all add: new_message_def five_bit_def message_data_def core_metadata_def set_absent_def has_key_def dict_set_def
      Let_def del: map_of_eq_Some_iff)
  from dictionary_roundtrip [OF m(1) _ _ m(5)] obtain m' where
    "from_dict (to_dict m) = Inr m'"
    "\<forall>k. map_of (fm_metadata m') k = (case core_field m k of Some v \<Rightarrow> Some v | None \<Rightarrow> map_of (fm_metadata m) k)"
    by (auto simp: m(2))
  then have "map_of (fm_metadata m') ''message_type'' = Some PNone" by (simp add: core_field_def m(3))
  with m show ?thesis using \<open>from_dict (to_dict m) = Inr m'\<close> by blast
qed

end
