(* ===== verification/Bus_Send.thy ===== *)
theory Bus_Send
  imports Bus_Message
begin

text \<open>
  Sending over the bus (\<^verbatim>\<open>MIL_STD_1553B/Messaging.py\<close>, classes \<open>BusControllerModule\<close> and
  \<open>send1553Msg\<close>): checking the command, framing every word with sync and parity, and the loop of at most three
  attempts around the bus controller's sender. The sender, the frames that arrive while the sender waits, the
  clock and the metadata encoder are arguments; what the module does to its surroundings (frames handed to the
  sender, status words published, received frames consumed, pauses, changes to the caller's metadata) is a state.
\<close>

section \<open>Words\<close>

definition bcm_calculate_parity :: "string \<Rightarrow> string" where
  "bcm_calculate_parity word = (if ones word mod 2 = 0 then ''1'' else ''0'')"

definition add_sync_and_parity :: "string \<Rightarrow> bool \<Rightarrow> string" where
  "add_sync_and_parity word is_command =
     (let sync = (if is_command then COMMAND_SYNC else DATA_SYNC);
          word_with_sync = sync @ word;
          parity = bcm_calculate_parity word_with_sync;
          result = word_with_sync @ parity;
          ones_count = ones result
      in if ones_count mod 2 \<noteq> 1
         then butlast result @ (if ones (butlast result) mod 2 = 1 then ''0'' else ''1'')
         else result)"

definition is_hex_char :: "char \<Rightarrow> bool" where
  "is_hex_char c = (hex_val c \<noteq> None)"

definition command_check :: "pyval \<Rightarrow> string pyres" where
  "command_check received0 =
     (let received = (case received0 of PDict d \<Rightarrow> dict_get d ''command_word'' (PStr []) | v \<Rightarrow> v);
          checked_length = (\<lambda>b. if length b \<noteq> 16 then Inl ValueError else Inr b)
      in case received of
           PStr s0 \<Rightarrow>
             if length s0 = 16 \<and> list_all is_bit s0 then Inr s0
             else
               let s = (if prefix ''0x'' s0 then drop 2 s0 else s0)
               in if list_all is_hex_char s
                  then py_bind (py_int 16 s) (\<lambda>n. checked_length (fmt_bin 16 n))
                  else Inl ValueError
         | _ \<Rightarrow> (case as_int received of
                   Some n \<Rightarrow> checked_length (fmt_bin 16 n)
                 | None \<Rightarrow> Inl ValueError))"

text \<open>The command is indexed at 5, which a command of 16 bits always has.\<close>

definition format_command :: "string \<Rightarrow> (string \<times> string \<times> string \<times> string) pyres" where
  "format_command command =
     (if length command \<le> 5 then Inl IndexError
      else Inr (take 5 command, [command ! 5], slice 6 11 command, drop 11 command))"

definition data_frame :: "pyval \<Rightarrow> string pyres" where
  "data_frame data_word =
     py_bind (case data_word of
        PStr s0 \<Rightarrow>
          let s = (if length s0 = 20 then slice 3 19 s0 else s0)
          in if length s \<noteq> 16 then py_bind (py_int 2 s) (\<lambda>n. Inr (fmt_bin 16 n)) else Inr s
      | v \<Rightarrow> (case as_int v of Some n \<Rightarrow> Inr (fmt_bin 16 n) | None \<Rightarrow> Inl TypeError))
     (\<lambda>s. Inr (add_sync_and_parity s False))"

fun data_frames :: "pyval list \<Rightarrow> string list pyres" where
  "data_frames [] = Inr []"
| "data_frames (d # ds) = py_bind (data_frame d) (\<lambda>f. py_bind (data_frames ds) (\<lambda>fs. Inr (f # fs)))"

section \<open>The attempts\<close>

text \<open>
  The state the module reads and changes: the listener's received messages, the status messages published, the
  messages handed to the sender, the number of pauses before a retry, and the caller's metadata.
\<close>

record bus_state =
  data_received :: "pyval list"
  published :: "pydict list"
  handed :: "(string list \<times> pyval \<times> pydict) list"
  pauses :: nat
  metadata :: pydict

text \<open>What the module calls: \<^verbatim>\<open>BC_send_message\<close> and the arrivals during an attempt, by attempt.\<close>

record bus_env =
  bc_send :: "nat \<Rightarrow> bool pyres"
  arrivals :: "nat \<Rightarrow> pyval list"
  encode_metadata :: "pydict \<Rightarrow> string list pyres"
  now :: "nat \<Rightarrow> rat"
  depth :: nat

text \<open>\<^verbatim>\<open>t in str(v)\<close> for a text of capital letters: strings are quoted inside a container.\<close>

fun text_in_str :: "string \<Rightarrow> pyval \<Rightarrow> bool" where
  "text_in_str t (PStr s) = sublist t s"
| "text_in_str t (PList xs) = list_ex (text_in_str t) xs"
| "text_in_str t (PDict d) = list_ex (\<lambda>(k, v). sublist t k \<or> text_in_str t v) d"
| "text_in_str t _ = False"

text \<open>The metadata block: the words encoded, and the metadata as the block leaves it.\<close>

definition encode_step :: "(pydict \<Rightarrow> string list pyres) \<Rightarrow> pydict \<Rightarrow> string list \<times> pydict" where
  "encode_step enc md =
     (if md = [] then ([], md)
      else if \<not> has_key md ''command_type'' then ([], md)
      else
        let md' = (if text_in_str ''PRECIP'' (dict_get md ''command_type'' PNone)
                   then dict_set ''command_type'' (PStr ''precipitation_data'')
                          (dict_set ''precipitation_message'' (PBool True) md)
                   else md)
        in (py_except (enc md') [], md'))"

definition status_message :: "pydict \<Rightarrow> pyval \<Rightarrow> string \<Rightarrow> rat \<Rightarrow> pydict" where
  "status_message status_word request_id first_frame t =
     [(''status_word'', PDict status_word), (''request_id'', request_id), (''timestamp'', PFloat t),
      (''command_type'', PStr ''mode_change''), (''radar_type'', PStr ''weather_radar''),
      (''status'', PStr ''acknowledged''),
      (''additional_info'', PDict
        [(''original_frame'', PStr first_frame),
         (''rt_address'', dict_get status_word ''rt_address'' PNone),
         (''dynamic_bus_control'', dict_get status_word ''dynamic_bus_control'' PNone),
         (''terminal_flag'', dict_get status_word ''terminal_flag'' PNone)])]"

text \<open>The response check: errors inside it are logged and dropped.\<close>

definition handle_response :: "bus_env \<Rightarrow> nat \<Rightarrow> pyval \<Rightarrow> bus_state \<Rightarrow> bus_state" where
  "handle_response env attempt request_id s =
     (case data_received s of
        [] \<Rightarrow> s
      | response # later \<Rightarrow>
          let s = s\<lparr>data_received := later\<rparr>
          in case response of
               PList (PStr first_frame # _) \<Rightarrow>
                 if prefix ''100'' first_frame then
                   (case deconstruct_status_word (depth env) (PStr first_frame) PNone of
                      Inl _ \<Rightarrow> s
                    | Inr status_word \<Rightarrow>
                        if status_word \<noteq> []
                        then s\<lparr>published := published s @ [status_message status_word request_id first_frame (now env attempt)]\<rparr>
                        else s)
                 else s
             | _ \<Rightarrow> s)"

text \<open>
  One pass of the loop body: \<open>Inr (Some frames)\<close> returns the frames, \<open>Inr None\<close> is the sender's
  refusal, \<open>Inl\<close> an exception that reaches the handler of the loop.
\<close>

definition send_attempt ::
  "bus_env \<Rightarrow> nat \<Rightarrow> pyval \<Rightarrow> pyval list \<Rightarrow> pyval \<Rightarrow> bus_state \<Rightarrow> (string list option) pyres \<times> bus_state" where
  "send_attempt env attempt command data request_id s =
     (case py_bind (command_check command) (\<lambda>c. py_bind (format_command c) (\<lambda>_. Inr c)) of
        Inl e \<Rightarrow> (Inl e, s)
      | Inr c \<Rightarrow>
          let command_frame = add_sync_and_parity c True;
              (metadata_data_words, md) = encode_step (encode_metadata env) (metadata s);
              s = s\<lparr>metadata := md\<rparr>
          in case data_frames (map PStr metadata_data_words @ data) of
               Inl e \<Rightarrow> (Inl e, s)
             | Inr fs \<Rightarrow>
                 let frames = command_frame # fs;
                     s = s\<lparr>handed := handed s @ [(frames, request_id, md)]\<rparr>
                 in case bc_send env attempt of
                      Inl e \<Rightarrow> (Inl e, s)
                    | Inr False \<Rightarrow> (Inr None, s)
                    | Inr True \<Rightarrow>
                        let s = s\<lparr>data_received := data_received s @ arrivals env attempt\<rparr>
                        in (Inr (Some frames), handle_response env attempt request_id s))"

text \<open>
  The command is the checked one from the second attempt on: \<^verbatim>\<open>command = self.commandCheck(command)\<close>
  rebinds the loop's variable, so a command that passed once is passed on as its 16 bits.
\<close>

definition rebound :: "pyval \<Rightarrow> pyval" where
  "rebound command = (case command_check command of Inl _ \<Rightarrow> command | Inr c \<Rightarrow> PStr c)"

fun send_loop ::
  "bus_env \<Rightarrow> nat \<Rightarrow> nat \<Rightarrow> pyval \<Rightarrow> pyval list \<Rightarrow> pyval \<Rightarrow> bus_state \<Rightarrow> (string list option) pyres \<times> bus_state" where
  "send_loop env 0 attempt command data request_id s = (Inr None, s)"
| "send_loop env (Suc left) attempt command data request_id s =
     (case send_attempt env attempt command data request_id s of
        (Inr (Some frames), s) \<Rightarrow> (Inr (Some frames), s)
      | (Inr None, s) \<Rightarrow> send_loop env left (attempt + 1) (rebound command) data request_id s
      | (Inl e, s) \<Rightarrow>
          if left \<noteq> 0
          then send_loop env left (attempt + 1) (rebound command) data request_id (s\<lparr>pauses := pauses s + 1\<rparr>)
          else (Inl e, s))"

definition max_retries :: nat where "max_retries = 3"

definition send_command_comms ::
  "bus_env \<Rightarrow> pyval \<Rightarrow> pyval list \<Rightarrow> pyval \<Rightarrow> bus_state \<Rightarrow> (string list option) pyres \<times> bus_state" where
  "send_command_comms env command data request_id s = send_loop env max_retries 0 command data request_id s"

text \<open>
  \<open>send1553Msg.send_message\<close>: a one-element list is unwrapped, other data is wrapped, missing metadata is an
  error; every error and every failure is \<^verbatim>\<open>None\<close>. The second component is the log of sent frames.
\<close>

definition send_message ::
  "bus_env \<Rightarrow> pyval \<Rightarrow> pyval \<Rightarrow> pyval \<Rightarrow> bus_state \<times> string list list \<Rightarrow> string list option \<times> bus_state \<times> string list list" where
  "send_message env command data request_id st =
     (let (s, sent_frames) = st;
          command = (case command of PList [c] \<Rightarrow> c | _ \<Rightarrow> command);
          data = (case data of PList xs \<Rightarrow> xs | v \<Rightarrow> [v])
      in if metadata s = [] then (None, s, sent_frames)
         else case send_command_comms env command data request_id s of
                (Inr (Some sent_frame), s) \<Rightarrow>
                  if sent_frame \<noteq> [] then (Some sent_frame, s, sent_frames @ [sent_frame]) else (None, s, sent_frames)
              | (_, s) \<Rightarrow> (None, s, sent_frames))"

section \<open>Framing\<close>

lemma bcm_parity_eq: "bcm_calculate_parity = bc_calculate_parity"
  by (rule ext) (simp add: bcm_calculate_parity_def bc_calculate_parity_def)

text \<open>The repair branch is never taken.\<close>

lemma add_sync_eq:
  "add_sync_and_parity word c = with_parity ((if c then COMMAND_SYNC else DATA_SYNC) @ word)"
proof -
  let ?r = "(if c then COMMAND_SYNC else DATA_SYNC) @ word"
  have "ones (with_parity ?r) mod 2 = 1" using with_parity_odd [of ?r] by presburger
  then show ?thesis
    by (simp only: add_sync_and_parity_def Let_def bcm_parity_eq append.assoc with_parity_def [symmetric]) simp
qed

lemma framed_word:
  assumes "bits w" "length w = 16"
  shows "bc_check_word_format (add_sync_and_parity w True) ''command''"
    "bc_check_word_format (add_sync_and_parity w False) ''data''"
proof -
  have "word20 (with_parity (COMMAND_SYNC @ w))" "word20 (with_parity (DATA_SYNC @ w))"
    using assms by (auto simp: COMMAND_SYNC_def DATA_SYNC_def intro!: with_parity_word)
  then show "bc_check_word_format (add_sync_and_parity w True) ''command''"
    "bc_check_word_format (add_sync_and_parity w False) ''data''"
    by (simp_all add: add_sync_eq bc_check_eq_checked with_parity_odd bc_check_sync_bits_def word20_simps Let_def)
      (simp_all add: with_parity_def slice_def COMMAND_SYNC_def DATA_SYNC_def)
qed

text \<open>The data the callers are documented to send: 16-bit integers, words of 16 bits, framed words of 20.\<close>

definition sendable :: "pyval \<Rightarrow> bool" where
  "sendable d = (case d of PInt n \<Rightarrow> 0 \<le> n \<and> n \<le> 65535 | PStr s \<Rightarrow> bits s \<and> (length s = 16 \<or> length s = 20) | _ \<Rightarrow> False)"

text \<open>The number a sendable datum puts on the bus: the value of a text of 20 characters is that of its 16 data bits.\<close>

definition sendable_value :: "pyval \<Rightarrow> int" where
  "sendable_value d = (case d of
     PInt n \<Rightarrow> n
   | PStr s \<Rightarrow> int (bval (if length s = 20 then slice 3 19 s else s))
   | _ \<Rightarrow> 0)"

definition carries_sendable :: "pyval \<Rightarrow> string \<Rightarrow> bool" where
  "carries_sendable d w = (\<exists>p. rt_decode_data_word (RawStr w) =
     Inr \<lparr>dw_sync = ''001'', dw_data = sendable_value d, dw_parity = p\<rparr>)"

lemma framed_value:
  assumes "bits w" "length w = 16"
  shows "\<exists>p. rt_decode_data_word (RawStr (add_sync_and_parity w False)) =
    Inr \<lparr>dw_sync = ''001'', dw_data = int (bval w), dw_parity = p\<rparr>"
proof -
  have "fmt_bin 16 (int (bval w)) = w" "valid_data (int (bval w))"
    using fmt_bin_bval [of w] bval_bound [of w] assms by (cases "w = []"; auto simp: valid_data_def)+
  then have "bc_encode_data_word (int (bval w)) = Inr (add_sync_and_parity w False)"
    by (simp add: bc_encode_data_eq data_body_def add_sync_eq DATA_SYNC_def)
  from data_word_decodes [OF this, of "RawStr (add_sync_and_parity w False)"] show ?thesis by simp
qed

lemma framed_slices: "length c = 16 \<Longrightarrow>
    slice 0 3 (add_sync_and_parity c True) = ''100'' \<and> slice 3 19 (add_sync_and_parity c True) = c"
  by (simp add: add_sync_eq with_parity_def COMMAND_SYNC_def slice_def)

lemma sendable_frame:
  "sendable d \<Longrightarrow> \<exists>f. data_frame d = Inr f \<and> bc_check_word_format f ''data'' \<and> carries_sendable d f"
proof (cases d)
  case (PInt n)
  assume "sendable d"
  then have n: "0 \<le> n" "n \<le> 65535" by (simp_all add: PInt sendable_def)
  then have f: "bits (fmt_bin 16 n)" "length (fmt_bin 16 n) = 16" "int (bval (fmt_bin 16 n)) = n"
    using fmt16 [of n] by simp_all
  then show ?thesis
    using framed_value [OF f(1,2)]
    by (simp add: PInt data_frame_def framed_word carries_sendable_def sendable_value_def)
next
  case (PStr s)
  assume a: "sendable d"
  have "bits (slice 3 19 s) \<and> length (slice 3 19 s) = 16" if "bits s" "length s = 20"
    using slice_props [of s 3 19] that by (simp add: word20_def)
  then show ?thesis
    using a framed_value [of s] framed_value [of "slice 3 19 s"]
    by (auto simp: PStr sendable_def data_frame_def framed_word carries_sendable_def sendable_value_def)
qed (auto simp: sendable_def)

lemma sendable_frames:
  "list_all sendable ds \<Longrightarrow> \<exists>fs. data_frames ds = Inr fs \<and> list_all (\<lambda>f. bc_check_word_format f ''data'') fs \<and>
     list_all2 carries_sendable ds fs"
  by (induction ds) (auto dest: sendable_frame)

lemma data_frames_length: "data_frames ds = Inr fs \<Longrightarrow> length fs = length ds"
  by (induction ds arbitrary: fs) (auto simp: py_bind_eq_Inr)

section \<open>Attempts repeat the same message\<close>

lemma command_check_length: "command_check v = Inr c \<Longrightarrow> length c = 16"
  by (auto simp: command_check_def Let_def py_bind_eq_Inr split: pyval.splits option.splits if_splits)

lemma not_precip: "\<not> sublist ''PRECIP'' ''precipitation_data''"
proof
  assume "sublist ''PRECIP'' ''precipitation_data''"
  then have "set ''PRECIP'' \<subseteq> set ''precipitation_data''" by (rule set_mono_sublist)
  then show False by simp
qed

lemma encode_step_stable: "encode_step enc md = (ws, md') \<Longrightarrow> encode_step enc md' = (ws, md')"
  by (auto simp: encode_step_def Let_def not_precip split: if_splits)

lemma rebound_stable: "command_check command = Inr c \<Longrightarrow> bits c \<Longrightarrow> command_check (rebound command) = Inr c"
  using command_check_length [of command c]
  by (simp add: rebound_def command_check_def [of "PStr c"] bits_def [symmetric])

text \<open>
  What an attempt does, in three outcomes: it raises before anything is handed over, it hands over one message
  and fails, or it hands over one message and returns its frames. The framing part of an attempt, as a function
  of the command, the data and the metadata:
\<close>

definition attempt_message :: "bus_env \<Rightarrow> pyval \<Rightarrow> pyval list \<Rightarrow> pydict \<Rightarrow> (string list \<times> pydict) pyres" where
  "attempt_message env command data md =
     py_bind (command_check command) (\<lambda>c.
     py_bind (format_command c) (\<lambda>_.
     let (ws, md') = encode_step (encode_metadata env) md
     in py_bind (data_frames (map PStr ws @ data)) (\<lambda>fs. Inr (add_sync_and_parity c True # fs, md'))))"

lemma format_command_ok: "command_check command = Inr c \<Longrightarrow> is_ok (format_command c)"
  by (drule command_check_length) (simp add: format_command_def)

lemma attempt_message_eq:
  "command_check command = Inr c \<Longrightarrow> attempt_message env command data md =
     (let (ws, md') = encode_step (encode_metadata env) md
      in py_bind (data_frames (map PStr ws @ data)) (\<lambda>fs. Inr (add_sync_and_parity c True # fs, md')))"
  using format_command_ok [of command c] unfolding is_ok_iff by (auto simp: attempt_message_def)

lemma send_attempt_cases:
  assumes "send_attempt env i command data req s = (r, s')"
  shows "(\<exists>e. attempt_message env command data (metadata s) = Inl e \<and> r = Inl e \<and> handed s' = handed s) \<or>
    (\<exists>frames md. attempt_message env command data (metadata s) = Inr (frames, md) \<and>
       handed s' = handed s @ [(frames, req, md)] \<and> metadata s' = md \<and>
       r = (case bc_send env i of Inl e \<Rightarrow> Inl e | Inr ok \<Rightarrow> Inr (if ok then Some frames else None)))"
    "pauses s' = pauses s"
proof -
  have h: "handed (handle_response env i req t) = handed t" "metadata (handle_response env i req t) = metadata t"
    "pauses (handle_response env i req t) = pauses t" for t
    by (auto simp: handle_response_def Let_def split: list.split pyval.split sum.split)
  have p: "pauses s' = pauses s"
    using assms
    by (auto simp: send_attempt_def Let_def h split: sum.splits prod.splits bool.splits)
  show "pauses s' = pauses s" by (rule p)
  show "(\<exists>e. attempt_message env command data (metadata s) = Inl e \<and> r = Inl e \<and> handed s' = handed s) \<or>
    (\<exists>frames md. attempt_message env command data (metadata s) = Inr (frames, md) \<and>
       handed s' = handed s @ [(frames, req, md)] \<and> metadata s' = md \<and>
       r = (case bc_send env i of Inl e \<Rightarrow> Inl e | Inr ok \<Rightarrow> Inr (if ok then Some frames else None)))"
  proof (cases "command_check command")
    case (Inl e)
    then show ?thesis using assms by (auto simp: send_attempt_def attempt_message_def)
  next
    case (Inr c)
    then obtain x where "format_command c = Inr x" using format_command_ok [OF Inr] unfolding is_ok_iff by blast
    with Inr show ?thesis
      using assms
      by (auto simp: send_attempt_def attempt_message_def Let_def h split: sum.splits prod.splits bool.splits)
  qed
qed

lemma attempt_message_stable:
  assumes "attempt_message env command data md = Inr (frames, md')" "command_check command = Inr c" "bits c"
  shows "attempt_message env (rebound command) data md' = Inr (frames, md')"
proof -
  obtain ws md1 where e: "encode_step (encode_metadata env) md = (ws, md1)" by fastforce
  with assms have "md1 = md'" by (auto simp: attempt_message_eq Let_def py_bind_eq_Inr)
  with assms e encode_step_stable [OF e] rebound_stable [OF assms(2,3)] show ?thesis
    by (simp add: attempt_message_eq)
qed

text \<open>The first attempt, counted from \<open>i\<close>, at which the sender accepts.\<close>

definition first_accept :: "bus_env \<Rightarrow> nat \<Rightarrow> nat \<Rightarrow> nat option" where
  "first_accept env i n = List.find (\<lambda>j. bc_send env (i + j) = Inr True) [0..<n]"

lemma first_accept_Suc:
  "first_accept env i (Suc n) =
     (if bc_send env i = Inr True then Some 0 else map_option Suc (first_accept env (Suc i) n))"
proof -
  have "List.find P (map f xs) = map_option f (List.find (P \<circ> f) xs)" for P and f :: "nat \<Rightarrow> nat" and xs
    by (induction xs) auto
  moreover have "[0..<Suc n] = 0 # map Suc [0..<n]" by (metis map_Suc_upt upt_conv_Cons zero_less_Suc)
  ultimately show ?thesis by (simp add: first_accept_def comp_def del: upt_Suc)
qed

lemma first_accept_less: "first_accept env i n = Some j \<Longrightarrow> j < n"
  by (auto simp: first_accept_def find_Some_iff)

lemma send_loop_spec:
  assumes "attempt_message env command data (metadata s) = Inr (frames, md)"
    "command_check command = Inr c" "bits c" "send_loop env n i command data req s = (r, s')"
  shows "handed s' = handed s @ replicate (case first_accept env i n of Some j \<Rightarrow> Suc j | None \<Rightarrow> n) (frames, req, md)"
    "r = (case first_accept env i n of
            Some j \<Rightarrow> Inr (Some frames)
          | None \<Rightarrow> if n = 0 then Inr None
                    else (case bc_send env (i + n - 1) of Inl e \<Rightarrow> Inl e | Inr _ \<Rightarrow> Inr None))"
    "pauses s' \<le> pauses s + (n - 1)"
proof -
  have "handed s' = handed s @ replicate (case first_accept env i n of Some j \<Rightarrow> Suc j | None \<Rightarrow> n) (frames, req, md) \<and>
    r = (case first_accept env i n of
            Some j \<Rightarrow> Inr (Some frames)
          | None \<Rightarrow> if n = 0 then Inr None
                    else (case bc_send env (i + n - 1) of Inl e \<Rightarrow> Inl e | Inr _ \<Rightarrow> Inr None)) \<and>
    pauses s' \<le> pauses s + (n - 1)"
    using assms
  proof (induction n arbitrary: i command s)
    case 0
    then show ?case by (simp add: first_accept_def)
  next
    case (Suc n)
    obtain r1 s1 where a: "send_attempt env i command data req s = (r1, s1)" by fastforce
    from send_attempt_cases [OF a] Suc.prems(1) have
      h: "handed s1 = handed s @ [(frames, req, md)]" and m: "metadata s1 = md" and
      r1: "r1 = (case bc_send env i of Inl e \<Rightarrow> Inl e | Inr ok \<Rightarrow> Inr (if ok then Some frames else None))" and
      p: "pauses s1 = pauses s"
      by auto
    have st: "attempt_message env (rebound command) data md = Inr (frames, md)"
      by (rule attempt_message_stable [OF Suc.prems(1-3)])
    have cc: "command_check (rebound command) = Inr c"
      by (rule rebound_stable [OF Suc.prems(2,3)])
    show ?case
    proof (cases "bc_send env i = Inr True")
      case True
      then show ?thesis using Suc.prems(4) a r1 h p by (auto simp: first_accept_Suc)
    next
      case False
      then have ne: "r1 = Inr None \<or> (\<exists>e. r1 = Inl e \<and> bc_send env i = Inl e)"
        using r1 by (auto split: sum.splits if_splits)
      show ?thesis
      proof (cases "n = 0 \<and> (\<exists>e. r1 = Inl e)")
        case True
        then show ?thesis
          using Suc.prems(4) a ne h p False by (auto simp: first_accept_Suc first_accept_def)
      next
        case cont: False
        define s2 where "s2 = (if r1 = Inr None then s1 else s1\<lparr>pauses := pauses s1 + 1\<rparr>)"
        have l: "send_loop env n (Suc i) (rebound command) data req s2 = (r, s')"
          using Suc.prems(4) a ne cont by (auto simp: s2_def)
        have s2: "handed s2 = handed s1" "metadata s2 = md" "pauses s2 \<le> pauses s + 1" "n = 0 \<Longrightarrow> pauses s2 = pauses s"
          using m p cont ne by (auto simp: s2_def)
        have f: "first_accept env i (Suc n) = map_option Suc (first_accept env (Suc i) n)"
          using False by (simp add: first_accept_Suc)
        have sendi: "n = 0 \<Longrightarrow> \<exists>ok. bc_send env i = Inr ok"
          using r1 cont ne by (auto split: sum.splits)
        have "attempt_message env (rebound command) data (metadata s2) = Inr (frames, md)"
          using st s2(2) by simp
        from Suc.IH [OF this cc Suc.prems(3) l] show ?thesis
          using s2 h f sendi
          by (cases "first_accept env (Suc i) n"; cases n) auto
      qed
    qed
  qed
  then show "handed s' = handed s @ replicate (case first_accept env i n of Some j \<Rightarrow> Suc j | None \<Rightarrow> n) (frames, req, md)"
    "r = (case first_accept env i n of
            Some j \<Rightarrow> Inr (Some frames)
          | None \<Rightarrow> if n = 0 then Inr None
                    else (case bc_send env (i + n - 1) of Inl e \<Rightarrow> Inl e | Inr _ \<Rightarrow> Inr None))"
    "pauses s' \<le> pauses s + (n - 1)"
    by simp_all
qed

section \<open>Properties\<close>

text \<open>
  C7. The sending loop: as long as the command and the data can be framed, every attempt hands the same message
  to the sender, the loop stops at the first attempt the sender accepts and returns that message's frames, and
  after three attempts it returns nothing, or raises when the last attempt did; it pauses at most twice.
\<close>

theorem send_loop_outcome:
  assumes "attempt_message env command data (metadata s) = Inr (frames, md)"
    "command_check command = Inr c" "bits c"
    "send_command_comms env command data req s = (r, s')"
  shows "(case List.find (\<lambda>j. bc_send env j = Inr True) [0, 1, 2] of
      Some j \<Rightarrow> r = Inr (Some frames) \<and> handed s' = handed s @ replicate (Suc j) (frames, req, md)
    | None \<Rightarrow> r = (case bc_send env 2 of Inl e \<Rightarrow> Inl e | Inr _ \<Rightarrow> Inr None) \<and>
              handed s' = handed s @ replicate 3 (frames, req, md)) \<and>
    pauses s' \<le> pauses s + 2"
proof (rule conjI)
  have l: "send_loop env 3 0 command data req s = (r, s')"
    using assms(4) by (simp add: send_command_comms_def max_retries_def)
  have f: "first_accept env 0 3 = List.find (\<lambda>j. bc_send env j = Inr True) [0, 1, 2]"
  proof -
    have "[0..<3] = [0, 1, 2 :: nat]" by (simp add: upt_rec numeral_2_eq_2 numeral_3_eq_3)
    then show ?thesis by (simp only: first_accept_def add_0)
  qed
  show "case List.find (\<lambda>j. bc_send env j = Inr True) [0, 1, 2] of
      Some j \<Rightarrow> r = Inr (Some frames) \<and> handed s' = handed s @ replicate (Suc j) (frames, req, md)
    | None \<Rightarrow> r = (case bc_send env 2 of Inl e \<Rightarrow> Inl e | Inr _ \<Rightarrow> Inr None) \<and>
              handed s' = handed s @ replicate 3 (frames, req, md)"
    using send_loop_spec(1,2) [OF assms(1-3) l] unfolding f
    by (cases "List.find (\<lambda>j. bc_send env j = Inr True) [0, 1, 2]") simp_all
  show "pauses s' \<le> pauses s + 2" using send_loop_spec(3) [OF assms(1-3) l] by simp
qed

definition witness_env :: bus_env where
  "witness_env = \<lparr>bc_send = \<lambda>j. Inr (j = 1), arrivals = \<lambda>_. [], encode_metadata = \<lambda>_. Inr [''0000000000000001''],
     now = \<lambda>_. 0, depth = 1\<rparr>"

definition witness_state :: bus_state where
  "witness_state = \<lparr>data_received = [], published = [], handed = [], pauses = 0,
     metadata = [(''command_type'', PStr ''mode_change'')]\<rparr>"

lemma witness_message:
  "command_check (PStr ''0000100010000001'') = Inr ''0000100010000001''"
  "is_ok (attempt_message witness_env (PStr ''0000100010000001'') [PStr ''0000000000000101''] (metadata witness_state))"
proof -
  show c: "command_check (PStr ''0000100010000001'') = Inr ''0000100010000001''"
    by (simp add: command_check_def)
  have f: "data_frame (PStr w) = Inr (add_sync_and_parity w False)" if "length w = 16" for w
    using that by (simp add: data_frame_def)
  obtain ws md where e: "encode_step (encode_metadata witness_env) (metadata witness_state) = (ws, md)" by fastforce
  then have "ws = [''0000000000000001'']"
    by (auto simp: encode_step_def witness_env_def witness_state_def has_key_def Let_def)
  then show "is_ok (attempt_message witness_env (PStr ''0000100010000001'') [PStr ''0000000000000101''] (metadata witness_state))"
    by (simp add: attempt_message_eq [OF c] e f)
qed

theorem send_loop_outcome_witness:
  "\<exists>frames s'. send_command_comms witness_env (PStr ''0000100010000001'') [PStr ''0000000000000101''] PNone witness_state
     = (Inr (Some frames), s') \<and> length (handed s') = 2 \<and> pauses s' \<le> 2"
proof -
  obtain frames md where m: "attempt_message witness_env (PStr ''0000100010000001'') [PStr ''0000000000000101'']
      (metadata witness_state) = Inr (frames, md)"
    using witness_message(2) by (auto simp: is_ok_iff)
  obtain r s' where r: "send_command_comms witness_env (PStr ''0000100010000001'') [PStr ''0000000000000101''] PNone
      witness_state = (r, s')" by fastforce
  have b: "bits ''0000100010000001''" by simp
  show ?thesis
    using send_loop_outcome [OF m witness_message(1) b r] r
    by (simp add: witness_env_def witness_state_def)
qed

text \<open>
  C8. What a call of the module hands to the bus is well formed when the command is 16 bits and the data is what
  its interface documents: 16-bit integers, words of 16 bits or framed words of 20. Between one and three copies
  of one message are handed over, with the request's identifier and the metadata as completed: its frames pass
  the bus controller's frame check, the first is the command word with the command's 16 bits, and the rest are
  data words from which the terminal reads the metadata words followed by the data, in order and nothing else.
  The frames returned are those handed over.
\<close>

theorem sent_frames_wellformed:
  assumes "send_command_comms env command data req s = (r, s')"
    "command_check command = Inr c" "bits c" "list_all sendable data"
    "\<And>m ws. encode_metadata env m = Inr ws \<Longrightarrow> list_all (\<lambda>w. bits w \<and> length w = 16) ws"
    "encode_step (encode_metadata env) (metadata s) = (ws, md)"
  shows "\<exists>frames k. handed s' = handed s @ replicate k (frames, req, md) \<and> 0 < k \<and> k \<le> 3 \<and>
    bc_check_frame_format frames \<and> slice 0 3 (hd frames) = ''100'' \<and> slice 3 19 (hd frames) = c \<and>
    list_all2 (\<lambda>d word. \<exists>p. rt_decode_data_word (RawStr word) =
        Inr \<lparr>dw_sync = ''001'', dw_data = sendable_value d, dw_parity = p\<rparr>)
      (map PStr ws @ data) (tl frames) \<and>
    (\<forall>fs. r = Inr (Some fs) \<longrightarrow> fs = frames)"
proof -
  have "list_all (\<lambda>w. bits w \<and> length w = 16) ws"
    using assms(5,6) by (auto simp: encode_step_def Let_def py_except_def split: if_splits sum.splits)
  then have sendable: "list_all sendable (map PStr ws @ data)"
    using assms(4) by (auto simp: list_all_iff sendable_def)
  obtain fs where fs: "data_frames (map PStr ws @ data) = Inr fs"
    and ok: "list_all (\<lambda>f. bc_check_word_format f ''data'') fs"
    and carry: "list_all2 carries_sendable (map PStr ws @ data) fs"
    using sendable_frames [OF sendable] by blast
  let ?frames = "add_sync_and_parity c True # fs"
  have m: "attempt_message env command data (metadata s) = Inr (?frames, md)"
    using assms(6) by (simp add: attempt_message_eq [OF assms(2)] fs)
  have l: "send_loop env 3 0 command data req s = (r, s')"
    using assms(1) by (simp add: send_command_comms_def max_retries_def)
  let ?k = "case first_accept env 0 3 of Some j \<Rightarrow> Suc j | None \<Rightarrow> 3"
  have k: "handed s' = handed s @ replicate ?k (?frames, req, md)" "0 < ?k" "?k \<le> 3"
    using send_loop_spec(1) [OF m assms(2,3) l] first_accept_less [of env 0 3]
    by (fastforce split: option.split)+
  have r: "\<forall>fs'. r = Inr (Some fs') \<longrightarrow> fs' = ?frames"
    using send_loop_spec(2) [OF m assms(2,3) l] by (auto split: option.splits sum.splits)
  have "bc_check_frame_format ?frames"
    using ok framed_word(1) [OF assms(3) command_check_length [OF assms(2)]] by (simp add: bc_check_frame_format_def)
  then show ?thesis
    using k r carry framed_slices [OF command_check_length [OF assms(2)]]
    by (intro exI [of _ ?frames] exI [of _ ?k]) (simp add: carries_sendable_def [abs_def])
qed

theorem sent_frames_wellformed_witness:
  "\<exists>r s' frames k. send_command_comms witness_env (PStr ''0000100010000001'') [PStr ''0000000000000101'', PInt 9] PNone witness_state
       = (r, s') \<and> handed s' = replicate k (frames, PNone, metadata witness_state) \<and> 0 < k \<and>
     bc_check_frame_format frames \<and> length frames = 4 \<and> map_ok dw_data (rt_decode_data_word (RawStr (last frames))) = Inr 9"
proof -
  obtain r s' where r: "send_command_comms witness_env (PStr ''0000100010000001'') [PStr ''0000000000000101'', PInt 9] PNone
      witness_state = (r, s')" by fastforce
  have e: "encode_step (encode_metadata witness_env) (metadata witness_state) = ([''0000000000000001''], metadata witness_state)"
  proof -
    have "\<not> set ''PRECIP'' \<subseteq> set ''mode_change''" by simp
    then have "\<not> sublist ''PRECIP'' ''mode_change''" by (rule contrapos_nn) (rule set_mono_sublist)
    then show ?thesis by (simp add: encode_step_def witness_env_def witness_state_def has_key_def dict_get_def)
  qed
  have b: "bits ''0000100010000001''" by simp
  have d: "list_all sendable [PStr ''0000000000000101'', PInt 9]" by (simp add: sendable_def)
  obtain frames k where f: "handed s' = handed witness_state @ replicate k (frames, PNone, metadata witness_state)" "0 < k"
    "bc_check_frame_format frames"
    "list_all2 (\<lambda>d word. \<exists>p. rt_decode_data_word (RawStr word) =
        Inr \<lparr>dw_sync = ''001'', dw_data = sendable_value d, dw_parity = p\<rparr>)
      (map PStr [''0000000000000001''] @ [PStr ''0000000000000101'', PInt 9]) (tl frames)"
    using sent_frames_wellformed [OF r witness_message(1) b d _ e] by (auto simp: witness_env_def)
  from f(4) obtain x y z where "tl frames = [x, y, z]" and z: "map_ok dw_data (rt_decode_data_word (RawStr z)) = Inr 9"
    by (auto simp: list_all2_Cons1 sendable_value_def map_ok_def)
  then have "length frames = 4 \<and> last frames = z" by (cases frames) auto
  with f r z show ?thesis by (intro exI [of _ r] exI [of _ s'] exI [of _ frames] exI [of _ k]) (simp add: witness_state_def)
qed

text \<open>
  Data outside 16 bits is not refused: an integer above 65535 is framed as a word of more than 20
  characters, which no receiver accepts.
\<close>

theorem oversized_data_framed:
  assumes "65535 < n"
  shows "\<exists>f. data_frame (PInt n) = Inr f \<and> 20 < length f \<and> \<not> bc_check_word_format f t \<and>
     \<not> is_ok (rt_decode_data_word (RawStr f))"
proof -
  let ?f = "add_sync_and_parity (fmt_bin 16 n) False"
  have "\<not> length (bin_str (nat n)) \<le> 16" using length_bin_str_iff [of 16 "nat n"] assms by simp
  then have l: "20 < length ?f"
    using assms by (simp add: add_sync_eq with_parity_def fmt_bin_def zfill_def DATA_SYNC_def)
  have "bits ?f" using assms by (simp add: add_sync_eq with_parity_def bits_fmt_bin DATA_SYNC_def)
  then have "\<not> is_ok (rt_decode_data_word (RawStr ?f))"
    using l by (simp add: rt_decode_data_word_def strip_bits Let_def)
  with l show ?thesis by (simp add: data_frame_def bc_check_word_format_def)
qed

theorem oversized_data_framed_witness:
  "\<exists>f. data_frame (PInt 70000) = Inr f \<and> 20 < length f \<and> \<not> bc_check_word_format f ''data'' \<and>
     \<not> is_ok (rt_decode_data_word (RawStr f))"
  by (rule oversized_data_framed) simp

end
