(* ===== verification/Precip_Scale.thy ===== *)
theory Precip_Scale
  imports Py_Float
begin

text \<open>
  The wire encoding of precipitation returns (\<^verbatim>\<open>Utils/common/precipitation_scale.py\<close>) and the encoder of the radar's
  data responses that writes it (\<^verbatim>\<open>data_response_sender.py\<close>, \<^verbatim>\<open>_encode_complex_objects\<close>). Python's integers are
  integers, floats the binary64 values of \<^theory_text>\<open>Py_Float\<close>.
\<close>

unbundle bit_operations_syntax

section \<open>The format\<close>

definition RATE_SCALE :: rat where "RATE_SCALE = 2"
definition INTENSITY_SCALE :: rat where "INTENSITY_SCALE = 63"
definition TYPE_SHIFT :: nat where "TYPE_SHIFT = 12"
definition TYPE_MASK :: int where "TYPE_MASK = 15"
definition RATE_SHIFT :: nat where "RATE_SHIFT = 6"
definition RATE_MASK :: int where "RATE_MASK = 63"
definition INTENSITY_SHIFT :: nat where "INTENSITY_SHIFT = 0"
definition INTENSITY_MASK :: int where "INTENSITY_MASK = 63"
definition MAX_CODE :: int where "MAX_CODE = 63"
definition POSITION_OFFSET :: int where "POSITION_OFFSET = 128"

lemmas format_defs = RATE_SCALE_def INTENSITY_SCALE_def TYPE_SHIFT_def TYPE_MASK_def RATE_SHIFT_def RATE_MASK_def
  INTENSITY_SHIFT_def INTENSITY_MASK_def MAX_CODE_def POSITION_OFFSET_def

definition TYPE_NAME_TO_CODE :: "(string \<times> int) list" where
  "TYPE_NAME_TO_CODE = [(''rain'', 0), (''snow'', 1), (''sleet'', 2), (''hail'', 3), (''mixed'', 4)]"

definition TYPE_CODE_TO_NAME :: "(int \<times> string) list" where
  "TYPE_CODE_TO_NAME = map (\<lambda>(name, code). (code, name)) TYPE_NAME_TO_CODE"

definition DEFAULT_TYPE :: string where "DEFAULT_TYPE = ''rain''"

section \<open>Attribute and position words\<close>

definition type_code :: "string \<Rightarrow> int" where
  "type_code precip_type = (case map_of TYPE_NAME_TO_CODE precip_type of
     Some c \<Rightarrow> c | None \<Rightarrow> the (map_of TYPE_NAME_TO_CODE DEFAULT_TYPE))"

definition clamp_code :: "int \<Rightarrow> int \<Rightarrow> int" where "clamp_code m n = max 0 (min m n)"

definition encode_attribute_word :: "string \<Rightarrow> rat \<Rightarrow> rat \<Rightarrow> int" where
  "encode_attribute_word precip_type rate intensity =
     (let rate_code = clamp_code MAX_CODE (py_trunc (fmul rate RATE_SCALE));
          intensity_code = clamp_code MAX_CODE (py_trunc (fmul intensity INTENSITY_SCALE))
      in push_bit TYPE_SHIFT (type_code precip_type AND TYPE_MASK) OR push_bit RATE_SHIFT rate_code OR intensity_code)"

definition decode_attribute_word :: "int \<Rightarrow> string \<times> rat \<times> rat" where
  "decode_attribute_word attr_word =
     (let code = drop_bit TYPE_SHIFT attr_word AND TYPE_MASK;
          rate_code = drop_bit RATE_SHIFT attr_word AND RATE_MASK;
          intensity_code = drop_bit INTENSITY_SHIFT attr_word AND INTENSITY_MASK
      in (case map_of TYPE_CODE_TO_NAME code of Some n \<Rightarrow> n | None \<Rightarrow> DEFAULT_TYPE,
          fdiv (of_int rate_code) RATE_SCALE, fdiv (of_int intensity_code) INTENSITY_SCALE))"

definition encode_position_word :: "rat \<Rightarrow> rat \<Rightarrow> int" where
  "encode_position_word x y =
     (let x_byte = clamp_code 255 (py_round x + POSITION_OFFSET);
          y_byte = clamp_code 255 (py_round y + POSITION_OFFSET)
      in push_bit 8 x_byte OR y_byte)"

definition decode_position_word :: "int \<Rightarrow> rat \<times> rat" where
  "decode_position_word pos_word =
     (fsub (of_int (drop_bit 8 pos_word AND 255)) (of_int POSITION_OFFSET),
      fsub (of_int (pos_word AND 255)) (of_int POSITION_OFFSET))"

section \<open>The encoder of the data responses\<close>

text \<open>
  A weather object: its position and the attributes it may have. Precipitation has a type and a rate, vertically
  integrated liquid has a value and a count of layers.
\<close>

record weather_object =
  wo_position :: "rat \<times> rat"
  wo_type :: "string option"
  wo_rate :: "rat option"
  wo_intensity :: "rat option"
  wo_value :: "rat option"
  wo_layer_count :: "rat option"
  wo_show_values :: "bool option"

definition attr :: "'a option \<Rightarrow> 'a \<Rightarrow> 'a" where
  "attr v d = (case v of None \<Rightarrow> d | Some x \<Rightarrow> x)"

definition is_vil_object :: "weather_object \<Rightarrow> bool" where
  "is_vil_object ob \<longleftrightarrow> wo_value ob \<noteq> None \<and> wo_layer_count ob \<noteq> None \<and> wo_type ob = None"

definition object_position_word :: "weather_object \<Rightarrow> int" where
  "object_position_word ob =
     (case wo_position ob of
        (x, y) \<Rightarrow> push_bit 8 (clamp_code 255 (py_trunc (fadd x 128))) OR clamp_code 255 (py_trunc (fadd y 128)))"

text \<open>
  The attribute word. The log line behind the word of a VIL object reads the object's intensity without a default:
  without one it raises, and the handler of the loop drops the word that was already computed.
\<close>

definition object_attribute_word :: "weather_object \<Rightarrow> int pyres" where
  "object_attribute_word ob =
     (if is_vil_object ob then
        let value_code = clamp_code 127 (py_round (fmul (attr (wo_value ob) 0) 2));
            layer_code = clamp_code 15 (py_trunc (attr (wo_layer_count ob) 0));
            intensity_code = clamp_code 15 (py_round (fmul (attr (wo_intensity ob) 0) 15));
            show_bit = (if attr (wo_show_values ob) True then 1 else 0);
            attr_word = push_bit 9 value_code OR push_bit 5 layer_code OR push_bit 1 intensity_code OR show_bit
        in if wo_intensity ob = None then Inl AttributeError else Inr attr_word
      else
        let rate_code = clamp_code 63 (py_trunc (fmul (attr (wo_rate ob) 0) RATE_SCALE));
            intensity_code = clamp_code 63 (py_trunc (fmul (attr (wo_intensity ob) (1 / 2)) INTENSITY_SCALE))
        in Inr (push_bit 12 (type_code (attr (wo_type ob) DEFAULT_TYPE)) OR push_bit 6 rate_code OR intensity_code))"

text \<open>What the loop appends for an object: its position word, and its attribute word when that did not raise.\<close>

definition appended_words :: "weather_object \<Rightarrow> int list" where
  "appended_words ob =
     object_position_word ob # (case object_attribute_word ob of Inl _ \<Rightarrow> [] | Inr attr_word \<Rightarrow> [attr_word])"

text \<open>The scale word holds 16 times the binary logarithms of the two scales, truncated: 16 and 95.\<close>

definition SCALE_WORD :: int where "SCALE_WORD = push_bit 8 16 OR 95"

definition encode_complex_objects :: "weather_object list \<Rightarrow> int list" where
  "encode_complex_objects obs =
     [int (length obs), SCALE_WORD] @ concat (map appended_words obs)"

section \<open>Fields of a word\<close>

lemma or_push: "0 \<le> a \<Longrightarrow> a < 2 ^ n \<Longrightarrow> push_bit n b OR a = b * 2 ^ n + (a :: int)"
proof -
  assume a: "0 \<le> a" "a < 2 ^ n"
  then have "take_bit n a = a" by (simp add: take_bit_int_eq_self)
  then have "push_bit n b + a = push_bit n b OR a"
    by (intro disjunctive_add) (metis bit_push_bit_iff bit_take_bit_iff not_le)
  then show ?thesis by (simp add: push_bit_eq_mult)
qed

lemma mask_mod: "x AND 15 = x mod 16" "x AND 63 = x mod 64" "x AND 255 = x mod (256 :: int)"
  using take_bit_eq_mask [of 4 x] take_bit_eq_mask [of 6 x] take_bit_eq_mask [of 8 x]
  by (simp_all add: take_bit_eq_mod mask_eq_exp_minus_1 and.commute)

lemma clamp_range: "0 \<le> m \<Longrightarrow> 0 \<le> clamp_code m n \<and> clamp_code m n \<le> m"
  by (simp add: clamp_code_def)

lemma clamp_id: "0 \<le> n \<Longrightarrow> n \<le> m \<Longrightarrow> clamp_code m n = n"
  by (simp add: clamp_code_def)

lemma type_code_range: "0 \<le> type_code s \<and> type_code s \<le> 4"
  by (auto simp: type_code_def TYPE_NAME_TO_CODE_def DEFAULT_TYPE_def split: option.split)

text \<open>A word from its three fields, and the fields of a word.\<close>

definition attribute_word :: "int \<Rightarrow> int \<Rightarrow> int \<Rightarrow> int" where "attribute_word t r i = t * 4096 + r * 64 + i"

lemma attribute_word_or:
  assumes "0 \<le> r" "r \<le> 63" "0 \<le> i" "i \<le> 63"
  shows "push_bit 12 t OR push_bit 6 r OR i = attribute_word t r i"
proof -
  have "push_bit 6 r OR i = r * 64 + i" using or_push [of i 6 r] assms by simp
  moreover have "push_bit 12 t OR (r * 64 + i) = t * 4096 + (r * 64 + i)" using or_push [of "r * 64 + i" 12 t] assms by simp
  ultimately show ?thesis by (simp add: attribute_word_def or.assoc)
qed

lemma attribute_fields:
  assumes "0 \<le> t" "t \<le> 15" "0 \<le> r" "r \<le> 63" "0 \<le> i" "i \<le> 63"
  shows "drop_bit 12 (attribute_word t r i) AND 15 = t" "drop_bit 6 (attribute_word t r i) AND 63 = r"
    "attribute_word t r i AND 63 = i" "0 \<le> attribute_word t r i" "attribute_word t r i < 65536"
proof -
  have w: "attribute_word t r i = i + 64 * (r + 64 * t)" by (simp add: attribute_word_def)
  have 1: "attribute_word t r i mod 64 = i" "attribute_word t r i div 64 = r + 64 * t"
    unfolding w using assms by (subst mod_mult_self2, simp, subst div_mult_self2, simp_all)
  have "attribute_word t r i div 4096 = attribute_word t r i div 64 div 64" by (simp add: zdiv_zmult2_eq [symmetric])
  then have 2: "attribute_word t r i div 4096 = t" using assms by (simp add: 1)
  show "drop_bit 12 (attribute_word t r i) AND 15 = t" using assms 2 by (simp add: mask_mod drop_bit_eq_div)
  show "drop_bit 6 (attribute_word t r i) AND 63 = r" using assms 1 by (simp add: mask_mod drop_bit_eq_div)
  show "attribute_word t r i AND 63 = i" using 1 by (simp add: mask_mod)
  show "0 \<le> attribute_word t r i" "attribute_word t r i < 65536" using assms by (simp_all add: w)
qed

lemma decode_attribute:
  assumes "0 \<le> t" "t \<le> 15" "0 \<le> r" "r \<le> 63" "0 \<le> i" "i \<le> 63"
  shows "decode_attribute_word (attribute_word t r i) =
    (case map_of TYPE_CODE_TO_NAME t of Some n \<Rightarrow> n | None \<Rightarrow> DEFAULT_TYPE, fl (of_int r / 2), fl (of_int i / 63))"
  using attribute_fields [OF assms] by (simp add: decode_attribute_word_def format_defs Let_def fdiv_def)

lemma encode_attribute:
  "encode_attribute_word s rate intensity =
     attribute_word (type_code s) (clamp_code 63 (py_trunc (fmul rate 2))) (clamp_code 63 (py_trunc (fmul intensity 63)))"
  using type_code_range [of s] clamp_range [of 63]
  by (simp add: encode_attribute_word_def format_defs Let_def mask_mod attribute_word_or)

text \<open>The words of an object are 16-bit numbers, and those of a precipitation object are the encoded attributes.\<close>

lemma object_position_range: "0 \<le> object_position_word ob \<and> object_position_word ob < 65536"
proof -
  obtain x y where xy: "wo_position ob = (x, y)" by (rule prod.exhaust)
  have c: "0 \<le> clamp_code 255 n" "clamp_code 255 n \<le> 255" for n using clamp_range [of 255] by simp_all
  have "object_position_word ob = clamp_code 255 (py_trunc (fadd x 128)) * 2 ^ 8 + clamp_code 255 (py_trunc (fadd y 128))"
    unfolding object_position_word_def xy prod.case
    by (rule or_push) (use c [of "py_trunc (fadd y 128)"] in simp_all)
  then show ?thesis using c [of "py_trunc (fadd x 128)"] c [of "py_trunc (fadd y 128)"] by simp
qed

lemma object_attribute_precip:
  "\<not> is_vil_object ob \<Longrightarrow>
   object_attribute_word ob = Inr (encode_attribute_word (attr (wo_type ob) DEFAULT_TYPE) (attr (wo_rate ob) 0) (attr (wo_intensity ob) (1 / 2)))"
  using type_code_range clamp_range [of 63]
  by (simp add: object_attribute_word_def encode_attribute Let_def attribute_word_or RATE_SCALE_def INTENSITY_SCALE_def)

lemma object_attribute_ok: "is_ok (object_attribute_word ob) \<longleftrightarrow> \<not> is_vil_object ob \<or> wo_intensity ob \<noteq> None"
  by (simp add: object_attribute_word_def Let_def)

lemma object_attribute_range: "object_attribute_word ob = Inr w \<Longrightarrow> 0 \<le> w \<and> w < 65536"
proof (cases "is_vil_object ob")
  case True
  assume w: "object_attribute_word ob = Inr w"
  have n: "0 \<le> clamp_code m n" "clamp_code m n \<le> m" if "0 \<le> m" for m n using clamp_range [OF that] by simp_all
  have v: "0 \<le> push_bit 9 a OR push_bit 5 b OR push_bit 1 c OR e \<and> push_bit 9 a OR push_bit 5 b OR push_bit 1 c OR e < 65536"
    if "0 \<le> a" "a \<le> 127" "0 \<le> b" "b \<le> 15" "0 \<le> c" "c \<le> 15" "0 \<le> e" "e \<le> 1" for a b c e :: int
  proof -
    have 1: "push_bit 1 c OR e = c * 2 + e" using or_push [of e 1 c] that by simp
    have 2: "push_bit 5 b OR (c * 2 + e) = b * 32 + (c * 2 + e)" using or_push [of "c * 2 + e" 5 b] that by simp
    have 3: "push_bit 9 a OR (b * 32 + (c * 2 + e)) = a * 512 + (b * 32 + (c * 2 + e))"
      using or_push [of "b * 32 + (c * 2 + e)" 9 a] that by simp
    have "push_bit 9 a OR push_bit 5 b OR push_bit 1 c OR e = a * 512 + (b * 32 + (c * 2 + e))" by (simp only: or.assoc 1 2 3)
    then show ?thesis using that by simp
  qed
  have "w = push_bit 9 (clamp_code 127 (py_round (fmul (attr (wo_value ob) 0) 2))) OR
      push_bit 5 (clamp_code 15 (py_trunc (attr (wo_layer_count ob) 0))) OR
      push_bit 1 (clamp_code 15 (py_round (fmul (attr (wo_intensity ob) 0) 15))) OR (if attr (wo_show_values ob) True then 1 else 0)"
    using w True by (simp only: object_attribute_word_def Let_def if_True split: if_splits) simp_all
  then show ?thesis by (simp only:) (rule v; simp add: n)
next
  case False
  assume w: "object_attribute_word ob = Inr w"
  have t: "type_code s \<le> 15" "0 \<le> type_code s" for s using type_code_range [of s] by simp_all
  have c: "0 \<le> clamp_code 63 n" "clamp_code 63 n \<le> 63" for n using clamp_range [of 63] by simp_all
  have "w = encode_attribute_word (attr (wo_type ob) DEFAULT_TYPE) (attr (wo_rate ob) 0) (attr (wo_intensity ob) (1 / 2))"
    using w by (simp add: object_attribute_precip [OF False])
  then show ?thesis unfolding encode_attribute by (simp only:) (intro conjI attribute_fields(4,5) t c)
qed

lemma appended_words_range: "w \<in> set (appended_words ob) \<Longrightarrow> 0 \<le> w \<and> w < 65536"
  using object_position_range [of ob] object_attribute_range [of ob] by (auto simp: appended_words_def split: sum.splits)

lemma appended_words_length: "length (appended_words ob) = 1 + of_bool (is_ok (object_attribute_word ob))"
  by (simp add: appended_words_def split: sum.split)

section \<open>Quantisation\<close>

text \<open>A scaled value in range keeps to within one step, and a little for the rounding of the product.\<close>

lemma code_near:
  assumes "0 \<le> x" "x \<le> 63"
  shows "\<bar>of_int (clamp_code 63 (py_trunc (fl x))) - x\<bar> \<le> 1 + 1 / 2 ^ 40" "0 \<le> clamp_code 63 (py_trunc (fl x))"
    "clamp_code 63 (py_trunc (fl x)) \<le> 63"
proof -
  have f: "0 \<le> fl x" "fl x \<le> 63" using fl_nonneg [OF assms(1)] fl_mono [OF assms(2)] fl_of_int [of 63] by simp_all
  then have t: "py_trunc (fl x) = \<lfloor>fl x\<rfloor>" "0 \<le> \<lfloor>fl x\<rfloor>" "\<lfloor>fl x\<rfloor> \<le> 63" by (simp_all add: py_trunc_def floor_le_iff)
  then have c: "clamp_code 63 (py_trunc (fl x)) = \<lfloor>fl x\<rfloor>" by (simp add: clamp_code_def)
  have "\<bar>fl x - x\<bar> \<le> \<bar>x\<bar> / 2 ^ 53" by (rule fl_err)
  also have "\<dots> \<le> 63 / 2 ^ 53" using assms by (intro divide_right_mono) simp_all
  finally have "\<bar>fl x - x\<bar> \<le> 1 / 2 ^ 40" by simp
  moreover have "of_int \<lfloor>fl x\<rfloor> \<le> fl x" "fl x < of_int \<lfloor>fl x\<rfloor> + 1" by linarith+
  ultimately show "\<bar>of_int (clamp_code 63 (py_trunc (fl x))) - x\<bar> \<le> 1 + 1 / 2 ^ 40" unfolding c by linarith
  show "0 \<le> clamp_code 63 (py_trunc (fl x))" "clamp_code 63 (py_trunc (fl x)) \<le> 63" using c t by simp_all
qed

lemma fl_half: "0 \<le> n \<Longrightarrow> n \<le> 63 \<Longrightarrow> fl (of_int n / 2) = of_int n / 2"
  by (rule fl_exact [where m = n and k = "- 1"]) (simp_all add: power_int_def)

section \<open>Properties\<close>

text \<open>
  Encoding and decoding an attribute word loses at most one step of each scale: a known type comes back as it is, a
  rate of at most 31.5 mm/h within 0.51 and an intensity between 0 and 1 within a sixtieth, and the word always fits
  the 16 bits of a data word.
\<close>

theorem attribute_word_quantised:
  assumes "map_of TYPE_NAME_TO_CODE name \<noteq> None" "0 \<le> rate" "rate \<le> 63 / 2" "0 \<le> intensity" "intensity \<le> 1"
  shows "\<exists>r i. decode_attribute_word (encode_attribute_word name rate intensity) = (name, r, i) \<and>
    \<bar>r - rate\<bar> < 51 / 100 \<and> \<bar>i - intensity\<bar> < 1 / 60 \<and>
    0 \<le> encode_attribute_word name rate intensity \<and> encode_attribute_word name rate intensity < 2 ^ 16"
proof -
  let ?r = "clamp_code 63 (py_trunc (fl (rate * 2)))" and ?i = "clamp_code 63 (py_trunc (fl (intensity * 63)))"
  have r: "\<bar>of_int ?r - rate * 2\<bar> \<le> 1 + 1 / 2 ^ 40" "0 \<le> ?r" "?r \<le> 63" using code_near [of "rate * 2"] assms(2,3) by simp_all
  have i: "\<bar>of_int ?i - intensity * 63\<bar> \<le> 1 + 1 / 2 ^ 40" "0 \<le> ?i" "?i \<le> 63"
    using code_near [of "intensity * 63"] assms(4,5) by simp_all
  have t: "0 \<le> type_code name" "type_code name \<le> 15" using type_code_range [of name] by simp_all
  have name: "map_of TYPE_CODE_TO_NAME (type_code name) = Some name"
    using assms(1) by (auto simp: type_code_def TYPE_NAME_TO_CODE_def TYPE_CODE_TO_NAME_def split: if_splits)
  have w: "encode_attribute_word name rate intensity = attribute_word (type_code name) ?r ?i"
    by (simp add: encode_attribute fmul_def)
  have d: "decode_attribute_word (encode_attribute_word name rate intensity) = (name, of_int ?r / 2, fl (of_int ?i / 63))"
    unfolding w using decode_attribute [OF t r(2,3) i(2,3)] name fl_half [OF r(2,3)] by simp
  have "\<bar>of_int ?r - rate * 2\<bar> \<le> 101 / 100" by (rule order_trans [OF r(1)]) simp
  then have "\<bar>of_int ?r / 2 - rate\<bar> < 51 / 100" by linarith
  moreover have "\<bar>fl (of_int ?i / 63) - intensity\<bar> < 1 / 60"
  proof -
    have "\<bar>fl (of_int ?i / 63) - of_int ?i / 63\<bar> \<le> \<bar>of_int ?i / 63\<bar> / 2 ^ 53" by (rule fl_err)
    also have "\<dots> \<le> 1 / 2 ^ 53" using i by (intro divide_right_mono) simp_all
    finally have "\<bar>fl (of_int ?i / 63) - of_int ?i / 63\<bar> \<le> 1 / 2 ^ 53" .
    moreover have "\<bar>of_int ?i / 63 - intensity\<bar> \<le> (1 + 1 / 2 ^ 40) / 63" using i(1) by (simp add: abs_le_iff field_simps)
    moreover have "1 / 2 ^ 53 + (1 + 1 / 2 ^ 40) / 63 < (1 / 60 :: rat)" by simp
    ultimately show ?thesis by linarith
  qed
  moreover have "0 \<le> encode_attribute_word name rate intensity" "encode_attribute_word name rate intensity < 2 ^ 16"
    unfolding w using attribute_fields(4,5) [OF t r(2,3) i(2,3)] by simp_all
  ultimately show ?thesis using d by blast
qed

text \<open>
  Positions travel as two bytes: any position is decoded to its rounded coordinates, clamped to what the bytes can
  carry, so it never changes sign or wraps.
\<close>

theorem position_word_clamps:
  "decode_position_word (encode_position_word x y) =
     (of_int (max (- 128) (min 127 (py_round x))), of_int (max (- 128) (min 127 (py_round y))))"
proof -
  let ?x = "clamp_code 255 (py_round x + 128)" and ?y = "clamp_code 255 (py_round y + 128)"
  have b: "0 \<le> ?x" "?x \<le> 255" "0 \<le> ?y" "?y \<le> 255" using clamp_range [of 255] by simp_all
  have w: "encode_position_word x y = ?y + 256 * ?x"
    using or_push [of ?y 8 ?x] b by (simp add: encode_position_word_def POSITION_OFFSET_def Let_def)
  have d: "drop_bit 8 (?y + 256 * ?x) AND 255 = ?x" "(?y + 256 * ?x) AND 255 = ?y"
    using b by (simp_all add: mask_mod drop_bit_eq_div)
  have "fsub (of_int n) 128 = of_int (n - 128)" if "0 \<le> n" "n \<le> 255" for n
    using fl_of_int [of "n - 128"] that by (simp add: fsub_def)
  then have "decode_position_word (encode_position_word x y) = (of_int (?x - 128), of_int (?y - 128))"
    using b unfolding decode_position_word_def w d by (simp add: POSITION_OFFSET_def)
  moreover have "clamp_code 255 (n + 128) - 128 = max (- 128) (min 127 n)" for n by (simp add: clamp_code_def min_def max_def)
  ultimately show ?thesis by simp
qed

text \<open>
  The encoder of the data responses writes words that fit: for at most 65535 objects every word is a 16-bit number,
  the first is the number of objects, and the scale word is followed by two words for each object, but only one for a
  VIL object without an intensity: its attribute word is lost, although the object is counted.
\<close>

theorem encoded_objects_fit:
  assumes "length obs \<le> 65535"
  shows "length (encode_complex_objects obs) =
      2 + length obs + length (filter (\<lambda>ob. \<not> is_vil_object ob \<or> wo_intensity ob \<noteq> None) obs) \<and>
    hd (encode_complex_objects obs) = int (length obs) \<and>
    (\<forall>w\<in>set (encode_complex_objects obs). 0 \<le> w \<and> w < 2 ^ 16)"
proof (intro conjI ballI)
  show "length (encode_complex_objects obs) =
      2 + length obs + length (filter (\<lambda>ob. \<not> is_vil_object ob \<or> wo_intensity ob \<noteq> None) obs)"
    by (induction obs) (auto simp: encode_complex_objects_def appended_words_length object_attribute_ok)
  show "hd (encode_complex_objects obs) = int (length obs)" by (simp add: encode_complex_objects_def)
next
  fix w assume "w \<in> set (encode_complex_objects obs)"
  then consider "w = int (length obs)" | "w = SCALE_WORD" | ob where "w \<in> set (appended_words ob)"
    by (auto simp: encode_complex_objects_def)
  then have "0 \<le> w \<and> w < 65536"
  proof cases
    case 1
    then show ?thesis using assms by simp
  next
    case 2
    then show ?thesis using or_push [of 95 8 16] by (simp add: SCALE_WORD_def)
  next
    case 3
    then show ?thesis by (rule appended_words_range)
  qed
  then show "0 \<le> w" "w < 2 ^ 16" by simp_all
qed

section \<open>Witnesses\<close>

theorem attribute_word_quantised_witness:
  "\<exists>r i. decode_attribute_word (encode_attribute_word ''hail'' 25 (9 / 10)) = (''hail'', r, i) \<and> \<bar>r - 25\<bar> < 51 / 100 \<and> \<bar>i - 9 / 10\<bar> < 1 / 60"
  using attribute_word_quantised [of "''hail''" 25 "9 / 10"] by (auto simp: TYPE_NAME_TO_CODE_def)

definition sample_cell :: weather_object where
  "sample_cell = \<lparr>wo_position = (3, -4), wo_type = Some ''hail'', wo_rate = Some 25, wo_intensity = Some (9 / 10), wo_value = None,
     wo_layer_count = None, wo_show_values = None\<rparr>"

definition silent_vil :: weather_object where
  "silent_vil = \<lparr>wo_position = (3, -4), wo_type = None, wo_rate = None, wo_intensity = None, wo_value = Some 20,
     wo_layer_count = Some 3, wo_show_values = None\<rparr>"

theorem encoded_objects_fit_witness:
  "length (encode_complex_objects [sample_cell, silent_vil]) = 5 \<and>
   (\<forall>w\<in>set (encode_complex_objects [sample_cell, silent_vil]). 0 \<le> w \<and> w < 2 ^ 16)"
  using encoded_objects_fit [of "[sample_cell, silent_vil]"] by (simp add: sample_cell_def silent_vil_def is_vil_object_def)

end
