(* ===== verification/Json_Text.thy ===== *)
theory Json_Text
  imports Py_Json
begin

text \<open>
  \<^verbatim>\<open>json.dumps\<close> of the standard library, with its default settings, for values without decimal numbers, and
  two facts the transport rests on: \<^verbatim>\<open>json.loads\<close> reads back what \<^verbatim>\<open>json.dumps\<close> wrote, and no proper prefix of such
  a text of an object or an array is read as a value, so a receiver can tell from the text alone when it is complete.
\<close>

section \<open>Writing\<close>

definition hex_digit :: "nat \<Rightarrow> char" where
  "hex_digit n = (if n < 10 then char_of (48 + n) else char_of (87 + n))"

text \<open>Everything but printable ASCII is escaped; a character here is a code point below 256.\<close>

definition text_char :: "char \<Rightarrow> string" where
  "text_char c =
     (case map_of [(CHR 0x22, CHR 0x22), (CHR 0x5C, CHR 0x5C), (CHR 0x08, CHR ''b''), (CHR 0x0C, CHR ''f''),
        (CHR 0x0A, CHR ''n''), (CHR 0x0D, CHR ''r''), (CHR 0x09, CHR ''t'')] c of
        Some e \<Rightarrow> [CHR 0x5C, e]
      | None \<Rightarrow>
          (let n = of_char c in
           if 32 \<le> n \<and> n \<le> 126 then [c]
           else [CHR 0x5C, CHR ''u'', CHR ''0'', CHR ''0'', hex_digit (n div 16), hex_digit (n mod 16)]))"

definition text_string :: "string \<Rightarrow> string" where
  "text_string w = CHR 0x22 # concat (map text_char w) @ [CHR 0x22]"

fun json_text :: "pyval \<Rightarrow> string"
  and text_items :: "pyval list \<Rightarrow> string"
  and text_members :: "pydict \<Rightarrow> string" where
  "json_text PNone = ''null''"
| "json_text (PBool b) = (if b then ''true'' else ''false'')"
| "json_text (PInt n) = py_str_int n"
| "json_text (PFloat q) = []"
| "json_text (PStr w) = text_string w"
| "json_text (PList vs) = CHR ''['' # text_items vs @ '']''"
| "json_text (PDict d) = CHR ''{'' # text_members d @ ''}''"
| "text_items [] = []"
| "text_items [v] = json_text v"
| "text_items (v # w # vs) = json_text v @ '', '' @ text_items (w # vs)"
| "text_members [] = []"
| "text_members [(k, v)] = text_string k @ '': '' @ json_text v"
| "text_members ((k, v) # m # d) = text_string k @ '': '' @ json_text v @ '', '' @ text_members (m # d)"

text \<open>The values without decimal numbers; the keys of a dictionary are distinct.\<close>

fun plain_value :: "pyval \<Rightarrow> bool"
  and plain_items :: "pyval list \<Rightarrow> bool"
  and plain_members :: "pydict \<Rightarrow> bool" where
  "plain_value (PFloat q) = False"
| "plain_value (PList vs) = plain_items vs"
| "plain_value (PDict d) = (distinct (map fst d) \<and> plain_members d)"
| "plain_value _ = True"
| "plain_items [] = True"
| "plain_items (v # vs) = (plain_value v \<and> plain_items vs)"
| "plain_members [] = True"
| "plain_members ((k, v) # d) = (plain_value v \<and> plain_members d)"

definition json_dumps :: "pyval \<Rightarrow> string pyres" where
  "json_dumps v = (if plain_value v then Inr (json_text v) else Inl Unmodelled)"

section \<open>Reading back\<close>

lemma plain_items_iff: "plain_items vs \<longleftrightarrow> list_all plain_value vs"
  by (induction vs) auto

lemma plain_members_iff: "plain_members d \<longleftrightarrow> list_all (\<lambda>m. plain_value (snd m)) d"
  by (induction d) auto

lemma digit_val_hex: "n < 16 \<Longrightarrow> digit_val (hex_digit n) = Some n"
  by (simp add: hex_digit_def digit_val_def Let_def)

lemma hex4_char:
  "n < 256 \<Longrightarrow> json_hex4 [CHR ''0'', CHR ''0'', hex_digit (n div 16), hex_digit (n mod 16)] = Some n"
  by (simp add: json_hex4_def hex_val_def digit_val_hex div_less_iff_less_mult) (simp add: digit_val_def)

lemma json_string_char: "json_string acc (text_char c @ s) = json_string (c # acc) s"
proof (cases "map_of [(CHR 0x22, CHR 0x22), (CHR 0x5C, CHR 0x5C), (CHR 0x08, CHR ''b''), (CHR 0x0C, CHR ''f''),
        (CHR 0x0A, CHR ''n''), (CHR 0x0D, CHR ''r''), (CHR 0x09, CHR ''t'')] c")
  case None
  then have c: "c \<noteq> CHR 0x22" "c \<noteq> CHR 0x5C" by (auto split: if_splits)
  have "of_char c < (256 :: nat)" by (rule nat_of_char_less_256)
  then show ?thesis
    unfolding text_char_def None option.case Let_def using c hex4_char by (simp add: not_le)
next
  case (Some e)
  then have "json_escape e = Some c \<and> e \<noteq> CHR ''u''" by (auto simp: json_escape_def split: if_splits)
  then show ?thesis unfolding text_char_def Some by simp
qed

lemma json_string_text: "json_string acc (concat (map text_char w) @ CHR 0x22 # r) = Inr (rev acc @ w, r)"
  by (induction w arbitrary: acc) (simp_all add: json_string_char del: json_string.simps, simp)

lemma digit_char: "is_digit (char_of (48 + n)) \<and> of_char (char_of (48 + n) :: char) - 48 = n" if "n < 10" for n :: nat
  using that by (simp add: is_digit_def)

lemma dec_str_facts: "dec_str n \<noteq> [] \<and> list_all is_digit (dec_str n) \<and> digits_nat (dec_str n) = n \<and>
   (10 \<le> n \<longrightarrow> hd (dec_str n) \<noteq> CHR ''0'') \<and> (0 < n \<longrightarrow> hd (dec_str n) \<noteq> CHR ''0'')"
proof (induction n rule: dec_str.induct)
  case (1 n)
  show ?case
  proof (cases "n < 10")
    case True
    have "char_of (48 + n) = CHR ''0'' \<Longrightarrow> n = 0"
      using digit_char [OF True] by simp
    then show ?thesis using True digit_char [OF True] by (auto simp: dec_str_digit digits_nat_def)
  next
    case False
    have d: "dec_str n = dec_str (n div 10) @ [char_of (48 + n mod 10)]" using False by (subst dec_str.simps) simp
    have "n mod 10 < 10" by simp
    note c = digit_char [OF this]
    have "digits_nat (dec_str n) = 10 * digits_nat (dec_str (n div 10)) + n mod 10" using c by (simp add: d digits_nat_def)
    then show ?thesis using 1 [OF False] False c by (auto simp: d hd_append)
  qed
qed

text \<open>What may follow a value inside a text.\<close>

definition follows :: "string \<Rightarrow> bool" where
  "follows r \<longleftrightarrow> r = [] \<or> hd r \<in> {CHR '','', CHR '']'', CHR ''}''}"

lemma follows_cases:
  assumes "follows r"
  obtains "r = []" | c s where "r = c # s" "\<not> is_digit c" "c \<noteq> CHR ''.''" "c \<noteq> CHR ''e''" "c \<noteq> CHR ''E''"
  using assms by (cases r) (auto simp: follows_def is_digit_def)

lemma num_int_dec: "follows r \<Longrightarrow> num_int (dec_str n @ r) = (dec_str n, r)"
proof -
  assume f: "follows r"
  have tw: "takeWhile is_digit (dec_str n @ r) = dec_str n \<and> dropWhile is_digit (dec_str n @ r) = r"
    using f dec_str_facts [of n] by (elim follows_cases) (simp_all add: list_all_iff takeWhile_append2 dropWhile_append2)
  obtain c cs where d: "dec_str n = c # cs" using dec_str_facts [of n] by (cases "dec_str n") auto
  show ?thesis
  proof (cases "c = CHR ''0''")
    case True
    then have "n = 0" using dec_str_facts [of n] d by auto
    then show ?thesis by (simp add: num_int_def dec_str_digit char_of_01)
  next
    case False
    then show ?thesis using tw by (simp add: num_int_def d)
  qed
qed

lemma num_tail: "follows r \<Longrightarrow> num_frac r = ([], r) \<and> num_exp r = (None, r)"
  by (elim follows_cases) (simp_all add: num_frac_def num_exp_def)

lemma json_number_text:
  assumes "follows r" shows "json_number (py_str_int n @ r) = Some (PInt n, r)"
proof -
  note d = dec_str_facts
  have g: "is_digit c \<Longrightarrow> c \<noteq> CHR ''-''" for c by (auto simp: is_digit_def)
  have s: "num_sign (dec_str m @ r) = (1, dec_str m @ r)" for m
    using d [of m] g by (cases "dec_str m") (auto simp: num_sign_def)
  show ?thesis
    using num_tail [OF assms] num_int_dec [OF assms] d [of "nat n"] d [of "nat (- n)"]
    by (cases "n < 0") (simp_all add: json_number_def py_str_int_def s num_sign_def [of "_ # _"])
qed

lemma int_text_head: "\<exists>c s. py_str_int n = c # s \<and> (c = CHR ''-'' \<or> is_digit c)"
proof (cases "n < 0")
  case False
  then show ?thesis using dec_str_facts [of "nat n"] by (cases "dec_str (nat n)") (simp_all add: py_str_int_def)
qed (simp add: py_str_int_def)

lemma skip_ws_other: "\<not> json_ws c \<Longrightarrow> skip_ws (c # s) = c # s"
  by (simp add: skip_ws_def)

lemma text_head: "plain_value v \<Longrightarrow> \<exists>c s. json_text v = c # s \<and> \<not> json_ws c \<and> c \<noteq> CHR '']''"
proof (cases v)
  case (PInt n)
  have "c = CHR ''-'' \<or> is_digit c \<Longrightarrow> \<not> json_ws c \<and> c \<noteq> CHR '']''" for c by (auto simp: is_digit_def json_ws_def)
  then show ?thesis using int_text_head [of n] PInt by auto
qed (auto simp: text_string_def json_ws_def)

lemma json_value_literal:
  "json_value (Suc n) (''null'' @ r) = Inr (PNone, r)" "json_value (Suc n) (''true'' @ r) = Inr (PBool True, r)"
  "json_value (Suc n) (''false'' @ r) = Inr (PBool False, r)"
  by (simp_all add: json_atom_def json_number_def num_sign_def num_int_def num_frac_def num_exp_def is_digit_def json_literals_def)

lemma json_value_int: "follows r \<Longrightarrow> json_value (Suc n) (py_str_int k @ r) = Inr (PInt k, r)"
proof -
  assume f: "follows r"
  have "c = CHR ''-'' \<or> is_digit c \<Longrightarrow> c \<noteq> CHR 0x22 \<and> c \<noteq> CHR ''['' \<and> c \<noteq> CHR ''{''" for c by (auto simp: is_digit_def)
  moreover obtain c s where "py_str_int k = c # s" "c = CHR ''-'' \<or> is_digit c" using int_text_head by blast
  ultimately have "json_value (Suc n) (py_str_int k @ r) = json_atom (py_str_int k @ r)" by simp
  then show ?thesis by (simp add: json_atom_def json_number_text [OF f])
qed

lemma json_value_string: "json_value (Suc n) (text_string w @ r) = Inr (PStr w, r)"
  by (simp add: text_string_def json_string_text)

lemma follows_delim [simp]: "follows (CHR '','' # s)" "follows (CHR '']'' # s)" "follows (CHR ''}'' # s)" "follows []"
  by (simp_all add: follows_def)

lemma skip_ws_text: "plain_value v \<Longrightarrow> skip_ws (json_text v @ r) = json_text v @ r"
  using text_head [of v] by (auto simp: skip_ws_other)

lemma text_items_head: "plain_items vs \<Longrightarrow> vs \<noteq> [] \<Longrightarrow> \<exists>c s. text_items vs = c # s \<and> \<not> json_ws c \<and> c \<noteq> CHR '']''"
  using text_head [of "hd vs"] by (cases vs rule: text_items.cases) auto

lemma text_members_head: "m \<noteq> [] \<Longrightarrow> \<exists>s. text_members m = CHR 0x22 # s"
  by (cases m rule: text_members.cases) (auto simp: text_string_def)

lemma skip_ws_space [simp]: "skip_ws (CHR '' '' # s) = skip_ws s" "skip_ws (CHR '':'' # s) = CHR '':'' # s"
  "skip_ws (CHR ''}'' # s) = CHR ''}'' # s"
  by (simp_all add: skip_ws_def json_ws_def)

lemma scan_text:
  "plain_value v \<Longrightarrow> 2 * length (json_text v) + 1 \<le> n \<Longrightarrow> follows r \<Longrightarrow> json_value n (json_text v @ r) = Inr (v, r)"
  "plain_items vs \<Longrightarrow> vs \<noteq> [] \<Longrightarrow> 2 * length (text_items vs) + 2 \<le> n \<Longrightarrow>
     json_array n acc (text_items vs @ CHR '']'' # r) = Inr (PList (rev acc @ vs), r)"
  "plain_members d \<Longrightarrow> d \<noteq> [] \<Longrightarrow> distinct (map fst (acc' @ d)) \<Longrightarrow> 2 * length (text_members d) + 2 \<le> n \<Longrightarrow>
     json_object n acc' (text_members d @ CHR ''}'' # r) = Inr (PDict (acc' @ d), r)"
proof (induction v and vs and d arbitrary: n r and n r acc and n r acc' rule: json_text_text_items_text_members.induct)
  case 1
  then obtain m where "n = Suc m" by (cases n) simp_all
  then show ?case using json_value_literal(1) [of m r] by (simp del: json_value.simps)
next
  case (2 b)
  then obtain m where "n = Suc m" by (cases n) simp_all
  then show ?case using json_value_literal(2,3) [of m r] by (simp del: json_value.simps)
next
  case (3 k)
  then show ?case using json_value_int by (cases n) simp_all
next
  case (5 w)
  then obtain m where "n = Suc m" by (cases n) simp_all
  then show ?case using json_value_string by (simp del: json_value.simps)
next
  case (6 vs)
  then obtain m where n: "n = Suc m" by (cases n) simp_all
  show ?case
  proof (cases "vs = []")
    case False
    then obtain c s where c: "text_items vs = c # s" "\<not> json_ws c" "c \<noteq> CHR '']''"
      using text_items_head [of vs] "6.prems" False by auto
    have "json_array m [] (text_items vs @ CHR '']'' # r) = Inr (PList (rev [] @ vs), r)"
      using "6.prems" False by (intro "6.IH") (simp_all add: n)
    then show ?thesis using c by (simp add: n skip_ws_other)
  qed (simp add: n)
next
  case (7 d)
  then obtain m where n: "n = Suc m" by (cases n) simp_all
  show ?case
  proof (cases "d = []")
    case False
    then obtain s where c: "text_members d = CHR 0x22 # s" using text_members_head by blast
    have "json_object m [] (text_members d @ CHR ''}'' # r) = Inr (PDict ([] @ d), r)"
      using "7.prems" False by (intro "7.IH") (simp_all add: n)
    then show ?thesis using c by (simp add: n)
  qed (simp add: n)
next
  case (9 v)
  then obtain m where n: "n = Suc m" by (cases n) simp_all
  have "json_value m (json_text v @ CHR '']'' # r) = Inr (v, CHR '']'' # r)"
    using "9.prems" by (intro "9.IH") (simp_all add: n)
  then show ?case by (simp add: n)
next
  case (10 v w vs)
  then obtain m where n: "n = Suc m" by (cases n) simp_all
  have v: "json_value m (json_text v @ '', '' @ text_items (w # vs) @ CHR '']'' # r) =
      Inr (v, '', '' @ text_items (w # vs) @ CHR '']'' # r)"
    using "10.prems" by (intro "10.IH") (simp_all add: n)
  obtain c s where c: "text_items (w # vs) = c # s" "\<not> json_ws c" using text_items_head [of "w # vs"] "10.prems" by auto
  have "json_array m (v # acc) (text_items (w # vs) @ CHR '']'' # r) = Inr (PList (rev (v # acc) @ w # vs), r)"
    using "10.prems" by (intro "10.IH") (simp_all add: n)
  then show ?case using v c by (simp add: n skip_ws_other del: text_items.simps(3))  (simp add: skip_ws_other)
next
  case (12 k v)
  then obtain m where n: "n = Suc m" by (cases n) simp_all
  have "json_value m (json_text v @ CHR ''}'' # r) = Inr (v, CHR ''}'' # r)"
    using "12.prems" by (intro "12.IH") (simp_all add: n)
  then show ?case
    using "12.prems" skip_ws_text by (simp add: n text_string_def json_string_text dict_set_new)
next
  case (13 k v e d)
  then obtain m where n: "n = Suc m" by (cases n) simp_all
  let ?t = "text_members (e # d) @ CHR ''}'' # r"
  have v: "json_value m (json_text v @ '', '' @ ?t) = Inr (v, '', '' @ ?t)"
    using "13.prems" by (intro "13.IH") (simp_all add: n)
  obtain s where c: "text_members (e # d) = CHR 0x22 # s" using text_members_head by blast
  have "json_object m (acc' @ [(k, v)]) ?t = Inr (PDict ((acc' @ [(k, v)]) @ e # d), r)"
    using "13.prems" by (intro "13.IH") (simp_all add: n)
  moreover have "plain_value v" "k \<notin> set (map fst acc')" using "13.prems" by auto
  ultimately show ?case
    using v c skip_ws_text [of v] by (simp add: n text_string_def json_string_text dict_set_new)
qed simp_all

theorem json_loads_text:
  assumes "plain_value v" shows "json_loads (json_text v) = Inr v"
proof -
  have "json_value (2 * length (json_text v) + 1) (json_text v @ []) = Inr (v, [])"
    using assms by (intro scan_text) simp_all
  then show ?thesis using skip_ws_text [OF assms, of "[]"] by (simp add: json_loads_def del: json_value.simps)
qed

section \<open>Prefixes\<close>

text \<open>A text that goes on: where a scan stopped before the end, it stops at the same place.\<close>

definition stops :: "string \<Rightarrow> bool" where
  "stops r \<longleftrightarrow> r \<noteq> [] \<and> \<not> is_digit (hd r) \<and> hd r \<notin> {CHR ''.'', CHR ''e'', CHR ''E''}"

lemma while_append:
  "dropWhile p s \<noteq> [] \<Longrightarrow> takeWhile p (s @ x) = takeWhile p s \<and> dropWhile p (s @ x) = dropWhile p s @ x"
  by (induction s) auto

lemma num_int_append: "num_int s = (ip, r) \<Longrightarrow> r \<noteq> [] \<Longrightarrow> num_int (s @ x) = (ip, r @ x)"
  using while_append [of is_digit s x] by (cases s) (auto simp: num_int_def split: if_splits)

lemma num_frac_append:
  "num_frac s = (fp, r) \<Longrightarrow> r \<noteq> [] \<Longrightarrow> hd r \<noteq> CHR ''.'' \<Longrightarrow> num_frac (s @ x) = (fp, r @ x)"
proof (cases s)
  case (Cons c cs)
  then show "num_frac s = (fp, r) \<Longrightarrow> r \<noteq> [] \<Longrightarrow> hd r \<noteq> CHR ''.'' \<Longrightarrow> ?thesis"
    using while_append [of is_digit cs x] by (auto simp: num_frac_def split: if_splits)
qed (simp add: num_frac_def)

lemma num_exp_append:
  "num_exp s = (e, r) \<Longrightarrow> r \<noteq> [] \<Longrightarrow> hd r \<notin> {CHR ''e'', CHR ''E''} \<Longrightarrow> num_exp (s @ x) = (e, r @ x)"
proof (cases s)
  case (Cons c cs)
  assume a: "num_exp s = (e, r)" "r \<noteq> []" "hd r \<notin> {CHR ''e'', CHR ''E''}"
  show ?thesis
  proof (cases "c \<in> {CHR ''e'', CHR ''E''}")
    case True
    then obtain d ds where d: "cs = d # ds" using a Cons by (cases cs) (auto simp: num_exp_def)
    show ?thesis
      using a True while_append [of is_digit ds x] while_append [of is_digit cs x]
      by (auto simp: Cons d num_exp_def Let_def split: if_splits)
  qed (use a Cons in \<open>auto simp: num_exp_def\<close>)
qed (simp add: num_exp_def)

lemma num_exp_head: "num_exp s = (e, r) \<Longrightarrow> s \<noteq> [] \<Longrightarrow> hd s = CHR ''.'' \<Longrightarrow> r = s"
  by (cases s) (auto simp: num_exp_def)

lemma json_number_append:
  assumes "json_number s = Some (v, r)" "stops r"
  shows "json_number (s @ x) = Some (v, r @ x)"
proof -
  obtain g s1 where 1: "num_sign s = (g, s1)" by (cases "num_sign s")
  obtain i s2 where 2: "num_int s1 = (i, s2)" by (cases "num_int s1")
  obtain f s3 where 3: "num_frac s2 = (f, s3)" by (cases "num_frac s2")
  obtain e s4 where 4: "num_exp s3 = (e, s4)" by (cases "num_exp s3")
  have r: "s4 = r" "i \<noteq> []" using assms(1) by (auto simp: json_number_def 1 2 3 4 split: if_splits)
  have rn: "r \<noteq> []" "hd r \<notin> {CHR ''e'', CHR ''E''}" "hd r \<noteq> CHR ''.''" using assms(2) by (simp_all add: stops_def)
  have ne3: "s3 \<noteq> []" using 4 r(1) rn(1) by (auto simp: num_exp_def)
  then have ne2: "s2 \<noteq> []" using 3 by (auto simp: num_frac_def)
  have "hd s3 \<noteq> CHR ''.''" using num_exp_head [OF 4 ne3] r(1) rn(3) by auto
  then have "num_frac (s2 @ x) = (f, s3 @ x)" by (rule num_frac_append [OF 3 ne3])
  moreover have "num_exp (s3 @ x) = (e, r @ x)" using num_exp_append [OF 4 _ _] r(1) rn by blast
  moreover have "num_int (s1 @ x) = (i, s2 @ x)" by (rule num_int_append [OF 2 ne2])
  moreover have "num_sign (s @ x) = (g, s1 @ x)"
    using 1 2 ne2 by (cases s) (auto simp: num_sign_def num_int_def split: if_splits)
  ultimately show ?thesis using assms(1) by (auto simp: json_number_def 1 2 3 4 r(1) split: if_splits)
qed

lemma json_number_none_append: "json_number s = None \<Longrightarrow> s \<noteq> [] \<Longrightarrow> s \<noteq> ''-'' \<Longrightarrow> json_number (s @ x) = None"
proof -
  assume a: "json_number s = None" "s \<noteq> []" "s \<noteq> ''-''"
  obtain g s1 where 1: "num_sign s = (g, s1)" by (cases "num_sign s")
  then have s1: "s1 \<noteq> []" using a(2,3) by (cases s) (auto simp: num_sign_def split: if_splits)
  then obtain c cs where c: "s1 = c # cs" by (cases s1) auto
  have "fst (num_int s1) = []" using a(1) by (auto simp: json_number_def 1 split: prod.splits if_splits)
  then have "\<not> is_digit c" "c \<noteq> CHR ''0''" by (auto simp: c num_int_def split: if_splits)
  then have "fst (num_int (s1 @ x)) = []" by (simp add: c num_int_def)
  moreover have "num_sign (s @ x) = (g, s1 @ x)"
    using 1 a(2) by (cases s) (auto simp: num_sign_def split: if_splits)
  ultimately show ?thesis by (auto simp: json_number_def split: prod.splits)
qed

lemma found: "List.find p xs = Some y \<Longrightarrow> y \<in> set xs \<and> p y"
  by (induction xs) (auto split: if_splits)

lemma find_literal_append:
  assumes "List.find (\<lambda>(l, _). take (length l) s = l) json_literals = Some (l, v)"
  shows "List.find (\<lambda>(l, _). take (length l) (s @ x) = l) json_literals = Some (l, v) \<and> length l \<le> length s"
proof -
  have "(l, v) \<in> set json_literals" "take (length l) s = l"
    using found [OF assms] by simp_all
  then obtain t where "s = l @ t" by (metis append_take_drop_id)
  moreover have "(l, v) \<in> set json_literals" using found [OF assms] by simp
  ultimately show ?thesis
    unfolding json_literals_def by (simp, elim disjE conjE) simp_all
qed

lemma json_atom_append:
  assumes "json_atom s = Inr (v, r)" "stops r"
  shows "json_atom (s @ x) = Inr (v, r @ x)"
proof (cases "json_number s")
  case None
  then obtain l w where f: "List.find (\<lambda>(l, _). take (length l) s = l) json_literals = Some (l, w)"
    and w: "w = Inr v" "r = drop (length l) s"
    using assms(1) by (auto simp: json_atom_def py_bind_eq_Inr split: option.splits prod.splits)
  have "s \<noteq> []" "s \<noteq> ''-''" using assms(1) None by (auto simp: json_atom_def json_literals_def)
  then show ?thesis
    using json_number_none_append [OF None] find_literal_append [OF f, of x] w by (simp add: json_atom_def)
next
  case (Some a)
  then show ?thesis using assms json_number_append by (auto simp: json_atom_def)
qed

lemma take4_append: "json_hex4 (take 4 s) = Some n \<Longrightarrow> take 4 (s @ x) = take 4 s \<and> drop 4 (s @ x) = drop 4 s @ x"
proof -
  assume "json_hex4 (take 4 s) = Some n"
  then have "length (take 4 s) = 4" by (auto simp: json_hex4_def split: list.splits option.splits dest!: arg_cong [of _ _ length])
  then show ?thesis by simp
qed

lemma json_string_append: "json_string acc s = Inr (t, r) \<Longrightarrow> json_string acc (s @ x) = Inr (t, r @ x)"
proof (induction acc s rule: json_string.induct)
  case (2 acc c s)
  show ?case
  proof (cases "c = CHR 0x5C")
    case True
    with "2.prems" obtain e s' where s: "s = e # s'" by (cases s) auto
    show ?thesis
    proof (cases "e = CHR ''u''")
      case True
      with "2.prems" \<open>c = _\<close> obtain n where n: "json_hex4 (take 4 s') = Some n" "n < 256"
        by (auto simp: s split: option.splits if_splits)
      show ?thesis
        using "2.prems" "2.IH"(1) [OF _ \<open>c = _\<close> s True n] \<open>c = _\<close> True n take4_append [OF n(1), of x]
        by (simp add: s del: take_append drop_append)
    next
      case False
      with "2.prems" \<open>c = _\<close> obtain d where d: "json_escape e = Some d" by (auto simp: s split: option.splits)
      show ?thesis using "2.prems" "2.IH"(2) [OF _ \<open>c = _\<close> s False d] \<open>c = _\<close> False d by (simp add: s)
    qed
  qed (use "2.prems" "2.IH"(3) in \<open>auto split: if_splits\<close>)
qed simp

text \<open>A delimiter, after blanks perhaps, is where a number stops.\<close>

lemma skip_ws_append: "skip_ws r = c # s \<Longrightarrow> skip_ws (r @ x) = c # s @ x"
  by (induction r) (auto simp: skip_ws_def split: if_splits)

lemma stops_delim: "skip_ws r = c # s \<Longrightarrow> c \<in> {CHR '','', CHR '']'', CHR ''}''} \<Longrightarrow> stops r"
proof (cases r)
  case (Cons d t)
  assume a: "skip_ws r = c # s" "c \<in> {CHR '','', CHR '']'', CHR ''}''}"
  show ?thesis
  proof (cases "json_ws d")
    case True
    then have "(of_char d :: nat) \<in> {32, 9, 10, 13}" by (simp add: json_ws_def)
    then show ?thesis by (auto simp: stops_def Cons is_digit_def)
  next
    case False
    then have "d = c" using a by (simp add: Cons skip_ws_def)
    then show ?thesis using a by (auto simp: stops_def Cons is_digit_def)
  qed
qed (simp add: skip_ws_def)

text \<open>The head of a text that is read to a known end whatever follows: a string, an array or an object.\<close>

definition closed_head :: "string \<Rightarrow> bool" where
  "closed_head s \<longleftrightarrow> (case s of c # _ \<Rightarrow> c \<in> {CHR 0x22, CHR ''['', CHR ''{''} | [] \<Rightarrow> False)"

lemma scan_nil [simp]: "json_value n [] \<noteq> Inr y" "json_array n acc [] \<noteq> Inr y" "json_object n acc' [] \<noteq> Inr y"
proof -
  show v: "json_value n [] \<noteq> Inr y" for n y by (cases n) simp_all
  show "json_array n acc [] \<noteq> Inr y" using v by (cases n) (auto simp: py_bind_eq_Inr)
  show "json_object n acc' [] \<noteq> Inr y" by (cases n) simp_all
qed

lemma scan_append:
  "json_value n s = Inr (v, r) \<Longrightarrow> n \<le> m \<Longrightarrow> closed_head s \<or> stops r \<Longrightarrow> json_value m (s @ x) = Inr (v, r @ x)"
  "json_array n acc s = Inr (v, r) \<Longrightarrow> n \<le> m \<Longrightarrow> json_array m acc (s @ x) = Inr (v, r @ x)"
  "json_object n acc' s = Inr (v, r) \<Longrightarrow> n \<le> m \<Longrightarrow> json_object m acc' (s @ x) = Inr (v, r @ x)"
proof (induction n s and n acc s and n acc' s arbitrary: m v r and m v r and m v r
    rule: json_value_json_array_json_object.induct)
  case (2 n s)
  then obtain k where m: "m = Suc k" "n \<le> k" by (cases m) simp_all
  obtain c s' where s: "s = c # s'" using "2.prems"(1) by (cases s) simp_all
  consider "c = CHR 0x22" | "c = CHR ''[''" | "c = CHR ''{''" | "c \<noteq> CHR 0x22" "c \<noteq> CHR ''[''" "c \<noteq> CHR ''{''" by blast
  then show ?case
  proof cases
    case 1
    then show ?thesis using "2.prems"(1) json_string_append by (auto simp: s m py_bind_eq_Inr)
  next
    case 2
    then obtain d t where t: "skip_ws s' = d # t"
      using "2.prems"(1) by (cases "skip_ws s'") (simp_all add: s)
    note u = skip_ws_append [OF t, of x]
    show ?thesis
    proof (cases "d = CHR '']''")
      case False
      then have "json_array n [] (d # t) = Inr (v, r)" using "2.prems"(1) 2 t by (simp add: s)
      then have "json_array k [] ((d # t) @ x) = Inr (v, r @ x)" using "2.IH"(2) [OF s _ _ t False] 2 m(2) by simp
      then show ?thesis using 2 u False by (simp add: s m)
    qed (use "2.prems"(1) 2 t u in \<open>simp add: s m\<close>)
  next
    case 3
    then obtain d t where t: "skip_ws s' = d # t"
      using "2.prems"(1) by (cases "skip_ws s'") (simp_all add: s)
    note u = skip_ws_append [OF t, of x]
    show ?thesis
    proof (cases "d = CHR ''}''")
      case False
      then have "json_object n [] (d # t) = Inr (v, r)" using "2.prems"(1) 3 t by (simp add: s)
      then have "json_object k [] ((d # t) @ x) = Inr (v, r @ x)" using "2.IH"(4) [OF s _ _ _ t False] 3 m(2) by simp
      then show ?thesis using 3 u False by (simp add: s m)
    qed (use "2.prems"(1) 3 t u in \<open>simp add: s m\<close>)
  next
    case 4
    then have "json_atom s = Inr (v, r)" "stops r" using "2.prems" by (simp_all add: s closed_head_def)
    then show ?thesis using json_atom_append [of s v r x] 4 by (simp add: s m)
  qed
next
  case (4 n acc s)
  then obtain k where m: "m = Suc k" "n \<le> k" by (cases m) simp_all
  obtain w t where wt: "json_value n s = Inr (w, t)" using "4.prems"(1) by (cases "json_value n s") auto
  obtain c u where cu: "skip_ws t = c # u" using "4.prems"(1) by (cases "skip_ws t") (simp_all add: wt)
  note w = wt cu
  have c: "c = CHR '']'' \<and> v = PList (rev (w # acc)) \<and> r = u \<or> c = CHR '','' \<and> json_array n (w # acc) (skip_ws u) = Inr (v, r)"
    using "4.prems"(1) by (simp add: w split: if_splits)
  have "stops t" using w(2) c by (intro stops_delim) auto
  then have v: "json_value k (s @ x) = Inr (w, t @ x)" using "4.IH"(1) w(1) m(2) by blast
  note sk = skip_ws_append [OF w(2), of x]
  from c show ?case
  proof
    assume a: "c = CHR '','' \<and> json_array n (w # acc) (skip_ws u) = Inr (v, r)"
    then obtain d y where d: "skip_ws u = d # y" by (cases "skip_ws u") simp_all
    have "json_array k (w # acc) (skip_ws u @ x) = Inr (v, r @ x)"
      using "4.IH"(2) [OF w(2)] a m(2) by simp
    then show ?thesis using v sk a skip_ws_append [OF d, of x] d by (simp add: m)
  qed (use v sk in \<open>simp add: m\<close>)
next
  case (6 n acc s)
  then obtain k where m: "m = Suc k" "n \<le> k" by (cases m) simp_all
  obtain s' where s': "s = CHR 0x22 # s'" using "6.prems"(1) by (cases s) (simp_all split: if_splits)
  obtain key t where kt: "json_string [] s' = Inr (key, t)"
    using "6.prems"(1) by (cases "json_string [] s'") (auto simp: s')
  obtain u where u: "skip_ws t = CHR '':'' # u"
    using "6.prems"(1) by (cases "skip_ws t") (simp_all add: s' kt split: if_splits)
  obtain w y where wy: "json_value n (skip_ws u) = Inr (w, y)"
    using "6.prems"(1) by (cases "json_value n (skip_ws u)") (auto simp: s' kt u)
  obtain d z where dz: "skip_ws y = d # z"
    using "6.prems"(1) by (cases "skip_ws y") (simp_all add: s' kt u wy)
  note s = s' kt u wy dz
  have d: "d = CHR ''}'' \<and> v = PDict (dict_set key w acc) \<and> r = z \<or>
      d = CHR '','' \<and> json_object n (dict_set key w acc) (skip_ws z) = Inr (v, r)"
    using "6.prems"(1) by (simp add: s split: if_splits)
  obtain e q where e: "skip_ws u = e # q" using s(4) by (cases "skip_ws u") simp_all
  have "stops y" using s(5) d by (intro stops_delim) auto
  then have v: "json_value k (skip_ws u @ x) = Inr (w, y @ x)"
    using "6.IH"(1) [OF s' _ u] wy m(2) by simp
  note sk = json_string_append [OF s(2), of x] skip_ws_append [OF s(3), of x] skip_ws_append [OF s(5), of x]
    skip_ws_append [OF e, of x]
  from d show ?case
  proof
    assume a: "d = CHR '','' \<and> json_object n (dict_set key w acc) (skip_ws z) = Inr (v, r)"
    then obtain b f where b: "skip_ws z = b # f" by (cases "skip_ws z") simp_all
    have "json_object k (dict_set key w acc) (skip_ws z @ x) = Inr (v, r @ x)"
      using "6.IH"(2) [OF s' _ u _ dz] a m(2) by simp
    then show ?thesis using v sk a e skip_ws_append [OF b, of x] b by (simp add: m s(1))
  qed (use v sk e in \<open>simp add: m s(1)\<close>)
qed simp_all

text \<open>A text on which the model makes no claim stays one when it goes on.\<close>

lemma json_string_unmodelled: "json_string acc s = Inl Unmodelled \<Longrightarrow> json_string acc (s @ x) = Inl Unmodelled"
proof (induction acc s rule: json_string.induct)
  case (2 acc c s)
  show ?case
  proof (cases "c = CHR 0x5C")
    case True
    with "2.prems" obtain e s' where s: "s = e # s'" by (cases s) auto
    show ?thesis
    proof (cases "e = CHR ''u''")
      case True
      with "2.prems" \<open>c = _\<close> obtain n where n: "json_hex4 (take 4 s') = Some n"
        by (auto simp: s split: option.splits if_splits)
      note t = take4_append [OF n, of x]
      show ?thesis
        using "2.prems" "2.IH"(1) [OF _ \<open>c = _\<close> s True n] \<open>c = _\<close> True n t
        by (cases "n < 256") (simp_all add: s del: take_append drop_append)
    next
      case False
      with "2.prems" \<open>c = _\<close> obtain d where d: "json_escape e = Some d" by (auto simp: s split: option.splits)
      show ?thesis using "2.prems" "2.IH"(2) [OF _ \<open>c = _\<close> s False d] \<open>c = _\<close> False d by (simp add: s)
    qed
  qed (use "2.prems" "2.IH"(3) in \<open>auto split: if_splits\<close>)
qed simp

lemma json_atom_unmodelled: "json_atom s = Inl Unmodelled \<Longrightarrow> json_atom (s @ x) = Inl Unmodelled"
proof -
  assume a: "json_atom s = Inl Unmodelled"
  then have n: "json_number s = None" by (auto simp: json_atom_def split: option.splits)
  obtain l where f: "List.find (\<lambda>(l, _). take (length l) s = l) json_literals = Some (l, Inl Unmodelled)"
    using a n by (auto simp: json_atom_def py_bind_def split: option.splits prod.splits sum.splits)
  have "s \<noteq> []" "s \<noteq> ''-''" using a n by (auto simp: json_atom_def json_literals_def)
  then show ?thesis using json_number_none_append [OF n] find_literal_append [OF f, of x] by (simp add: json_atom_def)
qed

lemma py_bind_eq_Inl: "py_bind m f = Inl e \<longleftrightarrow> m = Inl e \<or> (\<exists>v. m = Inr v \<and> f v = Inl e)"
  by (cases m) auto

lemma scan_nil_error [simp]: "json_value n [] \<noteq> Inl Unmodelled" "json_array n acc [] \<noteq> Inl Unmodelled" "json_object n acc' [] \<noteq> Inl Unmodelled"
proof -
  show v: "json_value n [] \<noteq> Inl Unmodelled" for n by (cases n) simp_all
  show "json_array n acc [] \<noteq> Inl Unmodelled" using v by (cases n) (auto simp: py_bind_eq_Inl)
  show "json_object n acc' [] \<noteq> Inl Unmodelled" by (cases n) simp_all
qed

lemma scan_unmodelled:
  "json_value n s = Inl Unmodelled \<Longrightarrow> n \<le> m \<Longrightarrow> json_value m (s @ x) = Inl Unmodelled"
  "json_array n acc s = Inl Unmodelled \<Longrightarrow> n \<le> m \<Longrightarrow> json_array m acc (s @ x) = Inl Unmodelled"
  "json_object n acc' s = Inl Unmodelled \<Longrightarrow> n \<le> m \<Longrightarrow> json_object m acc' (s @ x) = Inl Unmodelled"
proof (induction n s and n acc s and n acc' s arbitrary: m and m and m rule: json_value_json_array_json_object.induct)
  case (2 n s)
  then obtain k where m: "m = Suc k" "n \<le> k" by (cases m) simp_all
  obtain c s' where s: "s = c # s'" using "2.prems"(1) by (cases s) simp_all
  consider "c = CHR 0x22" | "c = CHR ''[''" | "c = CHR ''{''" | "c \<noteq> CHR 0x22" "c \<noteq> CHR ''[''" "c \<noteq> CHR ''{''" by blast
  then show ?case
  proof cases
    case 1
    then show ?thesis using "2.prems"(1) json_string_unmodelled by (auto simp: s m py_bind_eq_Inl)
  next
    case 2
    then obtain d t where t: "skip_ws s' = d # t" using "2.prems"(1) by (cases "skip_ws s'") (simp_all add: s)
    have d: "d \<noteq> CHR '']''" using "2.prems"(1) 2 t by (auto simp: s)
    then have "json_array k [] ((d # t) @ x) = Inl Unmodelled" using "2.IH"(2) [OF s _ _ t d] "2.prems"(1) 2 t m(2) by (simp add: s)
    then show ?thesis using 2 skip_ws_append [OF t, of x] d by (simp add: s m)
  next
    case 3
    then obtain d t where t: "skip_ws s' = d # t" using "2.prems"(1) by (cases "skip_ws s'") (simp_all add: s)
    have d: "d \<noteq> CHR ''}''" using "2.prems"(1) 3 t by (auto simp: s)
    then have "json_object k [] ((d # t) @ x) = Inl Unmodelled" using "2.IH"(4) [OF s _ _ _ t d] "2.prems"(1) 3 t m(2) by (simp add: s)
    then show ?thesis using 3 skip_ws_append [OF t, of x] d by (simp add: s m)
  next
    case 4
    then show ?thesis using "2.prems" json_atom_unmodelled [of s x] by (simp add: s m)
  qed
next
  case (4 n acc s)
  then obtain k where m: "m = Suc k" "n \<le> k" by (cases m) simp_all
  show ?case
  proof (cases "json_value n s")
    case (Inl e)
    then show ?thesis using "4.prems"(1) "4.IH"(1) m by simp
  next
    case (Inr wt)
    then obtain w t where wt: "json_value n s = Inr (w, t)" by (cases wt) simp
    obtain c u where cu: "skip_ws t = c # u" using "4.prems"(1) by (cases "skip_ws t") (simp_all add: wt)
    have c: "c = CHR '',''" "json_array n (w # acc) (skip_ws u) = Inl Unmodelled"
      using "4.prems"(1) by (simp_all add: wt cu split: if_splits)
    then obtain d y where d: "skip_ws u = d # y" by (cases "skip_ws u") simp_all
    have "stops t" using cu c(1) by (intro stops_delim) auto
    then have "json_value k (s @ x) = Inr (w, t @ x)" using scan_append(1) [OF wt m(2)] by simp
    moreover have "json_array k (w # acc) (skip_ws u @ x) = Inl Unmodelled" using "4.IH"(2) [OF cu] c m(2) by simp
    ultimately show ?thesis using skip_ws_append [OF cu, of x] skip_ws_append [OF d, of x] c(1) d by (simp add: m)
  qed
next
  case (6 n acc s)
  then obtain k where m: "m = Suc k" "n \<le> k" by (cases m) simp_all
  obtain s' where s': "s = CHR 0x22 # s'" using "6.prems"(1) by (cases s) (simp_all split: if_splits)
  show ?case
  proof (cases "json_string [] s'")
    case (Inl e)
    then show ?thesis using "6.prems"(1) json_string_unmodelled by (simp add: s' m)
  next
    case (Inr kt)
    then obtain key t where kt: "json_string [] s' = Inr (key, t)" by (cases kt) simp
    obtain u where u: "skip_ws t = CHR '':'' # u"
      using "6.prems"(1) by (cases "skip_ws t") (simp_all add: s' kt split: if_splits)
    obtain e q where e: "skip_ws u = e # q" using "6.prems"(1) by (cases "skip_ws u") (auto simp: s' kt u py_bind_eq_Inl)
    note sk = json_string_append [OF kt, of x] skip_ws_append [OF u, of x] skip_ws_append [OF e, of x]
    show ?thesis
    proof (cases "json_value n (skip_ws u)")
      case (Inl f)
      then have "json_value k (skip_ws u @ x) = Inl Unmodelled"
        using "6.IH"(1) [OF s' _ u] "6.prems"(1) m(2) by (simp add: s' kt u)
      then show ?thesis using sk e by (simp add: s' m)
    next
      case (Inr wy)
      then obtain w y where wy: "json_value n (skip_ws u) = Inr (w, y)" by (cases wy) simp
      obtain d z where dz: "skip_ws y = d # z" using "6.prems"(1) by (cases "skip_ws y") (simp_all add: s' kt u wy)
      have d: "d = CHR '',''" "json_object n (dict_set key w acc) (skip_ws z) = Inl Unmodelled"
        using "6.prems"(1) by (simp_all add: s' kt u wy dz split: if_splits)
      then obtain b f where b: "skip_ws z = b # f" by (cases "skip_ws z") simp_all
      have "stops y" using dz d(1) by (intro stops_delim) auto
      then have "json_value k (skip_ws u @ x) = Inr (w, y @ x)" using scan_append(1) [OF wy m(2)] by simp
      moreover have "json_object k (dict_set key w acc) (skip_ws z @ x) = Inl Unmodelled"
        using "6.IH"(2) [OF s' _ u _ dz] d m(2) by simp
      ultimately show ?thesis
        using sk e d(1) skip_ws_append [OF dz, of x] skip_ws_append [OF b, of x] b by (simp add: s' m)
    qed
  qed
qed simp_all

lemma skip_ws_closed: "closed_head p \<Longrightarrow> skip_ws (p @ x) = p @ x"
  by (auto simp: closed_head_def skip_ws_def json_ws_def split: list.splits)

lemma skip_ws_nil_iff: "skip_ws s = [] \<longleftrightarrow> list_all json_ws s"
  by (simp add: skip_ws_def list_all_iff)

text \<open>The errors of the scanner.\<close>

definition scan_error :: "('a \<times> string) pyres \<Rightarrow> bool" where
  "scan_error res = (case res of Inl e \<Rightarrow> e \<in> {ValueError, Unmodelled, RuntimeError} | Inr _ \<Rightarrow> True)"

lemma scan_error_simps [simp]:
  "scan_error (Inl e) \<longleftrightarrow> e \<in> {ValueError, Unmodelled, RuntimeError}" "scan_error (Inr y)"
  by (simp_all add: scan_error_def)

lemma scan_error_bind: "scan_error m \<Longrightarrow> (\<And>v r. m = Inr (v, r) \<Longrightarrow> scan_error (f (v, r))) \<Longrightarrow> scan_error (py_bind m f)"
  by (cases m) auto

lemma scan_error_string: "scan_error (json_string acc s)"
  by (induction acc s rule: json_string.induct) (auto split: list.split option.split)

lemma scan_error_atom: "scan_error (json_atom s)"
proof (cases "List.find (\<lambda>(l, _). take (length l) s = l) json_literals")
  case (Some a)
  then show ?thesis using found [OF Some] by (auto simp: json_atom_def json_literals_def split: option.split)
qed (simp add: json_atom_def split: option.split)

lemma scan_errors:
  "scan_error (json_value n s)" "scan_error (json_array n acc s)" "scan_error (json_object n acc' s)"
proof (induction n s and n acc s and n acc' s rule: json_value_json_array_json_object.induct)
  case (2 n s)
  have "scan_error (py_bind (json_string [] t) (\<lambda>(t, r). Inr (PStr t, r)))" for t
    by (rule scan_error_bind [OF scan_error_string]) simp
  then show ?case using 2 scan_error_atom by (auto split: list.split)
next
  case (4 n acc s)
  show ?case unfolding json_array.simps by (rule scan_error_bind [OF 4(1)]) (use 4(2) in \<open>simp split: list.split\<close>)
next
  case (6 n acc s)
  show ?case
  proof (cases s)
    case (Cons q t)
    show ?thesis
    proof (cases "q = CHR 0x22")
      case True
      show ?thesis unfolding json_object.simps Cons list.case True not_not if_False simp_thms
        by (rule scan_error_bind [OF scan_error_string])
           (use 6 Cons True in \<open>auto split: list.split intro!: scan_error_bind\<close>)
    qed (simp add: Cons)
  qed simp
qed simp_all

lemma json_loads_errors: "json_loads s = Inl e \<Longrightarrow> e \<in> {ValueError, Unmodelled, RuntimeError}"
  using scan_errors(1) [of "2 * length s + 1" "skip_ws s"]
  unfolding json_loads_def by (cases "json_value (2 * length s + 1) (skip_ws s)") (auto split: if_splits)

text \<open>No proper prefix of a text of an object or an array is a text: it raises \<^verbatim>\<open>JSONDecodeError\<close>.\<close>

lemma json_prefix_fails:
  assumes "json_loads (p @ x) = Inr v" "closed_head p" "\<not> list_all json_ws x"
  shows "json_loads p = Inl ValueError"
proof -
  have sp: "skip_ws p = p" "skip_ws (p @ x) = p @ x" using skip_ws_closed [OF assms(2), of "[]"] skip_ws_closed [OF assms(2)] by simp_all
  have le: "2 * length p + 1 \<le> 2 * length (p @ x) + 1" by simp
  let ?m = "2 * length (p @ x) + 1"
  obtain r' where full: "json_value ?m (p @ x) = Inr (v, r')" "skip_ws r' = []"
    using assms(1) unfolding json_loads_def sp py_bind_eq_Inr by (auto split: if_splits)
  show ?thesis
  proof (cases "json_value (2 * length p + 1) p")
    case (Inl e)
    have "json_loads p = Inl e" unfolding json_loads_def sp Inl by simp
    moreover have "e \<noteq> Unmodelled" using scan_unmodelled(1) [OF _ le, of p x] Inl full by auto
    moreover have "e \<noteq> RuntimeError" using calculation(1) json_fuel_enough [of p] by auto
    ultimately show ?thesis using json_loads_errors [of p] by auto
  next
    case (Inr wr)
    then obtain w r where wr: "json_value (2 * length p + 1) p = Inr (w, r)" by (cases wr) simp
    from scan_append(1) [OF this le] assms(2) have "json_value ?m (p @ x) = Inr (w, r @ x)" by blast
    then have "r' = r @ x" using full(1) by simp
    then have "skip_ws (r @ x) = []" using full(2) by simp
    then show ?thesis using assms(3) by (simp add: skip_ws_nil_iff)
  qed
qed

end
