(* ===== verification/Bus_Receive.thy ===== *)
theory Bus_Receive
  imports Json_Text
begin

text \<open>
  The receiving side of the bus sockets (\<^verbatim>\<open>BC_socket.py\<close> and \<^verbatim>\<open>RT_socket.py\<close>, \<^verbatim>\<open>handle_connection\<close>): the bytes of a
  connection arrive in pieces, are collected until they form a message, and the message is checked and queued. The
  bytes are characters; the model makes no claim on bytes above 127, which the senders never write. Nesting deeper
  than the recursion limit of the interpreter is not modelled either. The metadata codec of the remote terminal is an
  argument: what it decodes from the words of 20 characters found in the data, the empty dictionary when it finds or
  decodes nothing.
\<close>

section \<open>Collecting a message\<close>

definition MAX_RECV_BUFFER_BYTES :: nat where "MAX_RECV_BUFFER_BYTES = 10 * 1024 * 1024"

definition looks_json :: "string \<Rightarrow> bool" where
  "looks_json s \<longleftrightarrow> (case s of c # _ \<Rightarrow> c = CHR ''{'' \<or> c = CHR ''['' | [] \<Rightarrow> False)"

text \<open>A piece that arrives: the buffer that is kept, and the text to be processed when there is one.\<close>

definition receive :: "string \<Rightarrow> string \<Rightarrow> (string \<times> string option) pyres" where
  "receive recv_buffer data =
     (let b = recv_buffer @ data in
      if MAX_RECV_BUFFER_BYTES < length b then Inr ([], None)
      else if \<not> list_all (\<lambda>c. (of_char c :: nat) < 128) b then Inl Unmodelled
      else if looks_json b then
        (case json_loads b of
           Inl Unmodelled \<Rightarrow> Inl Unmodelled
         | Inl _ \<Rightarrow> Inr (b, None)
         | Inr _ \<Rightarrow> Inr ([], Some b))
      else Inr ([], Some b))"

section \<open>Frames\<close>

text \<open>\<^verbatim>\<open>len(frame)\<close> and the test of the sync bits, for whatever the message holds in place of a frame.\<close>

definition item_length :: "pyval \<Rightarrow> nat pyres" where
  "item_length v = (case v of
     PStr s \<Rightarrow> Inr (length s) | PList vs \<Rightarrow> Inr (length vs) | PDict d \<Rightarrow> Inr (length d) | _ \<Rightarrow> Inl TypeError)"

definition valid_frame :: "pyval \<Rightarrow> bool pyres" where
  "valid_frame frame =
     py_bind (item_length frame) (\<lambda>n.
       if n \<noteq> 20 then Inr False
       else case frame of
              PStr s \<Rightarrow> Inr (take 3 s \<in> {''100'', ''001''}) | PList _ \<Rightarrow> Inr False | _ \<Rightarrow> Inl TypeError)"

fun valid_frames :: "pyval list \<Rightarrow> pyval list pyres" where
  "valid_frames [] = Inr []"
| "valid_frames (f # fs) =
     py_bind (valid_frame f) (\<lambda>b. py_bind (valid_frames fs) (\<lambda>vs. Inr (if b then f # vs else vs)))"

definition iterate :: "pyval \<Rightarrow> pyval list pyres" where
  "iterate v = (case v of
     PList vs \<Rightarrow> Inr vs | PStr s \<Rightarrow> Inr (map (\<lambda>c. PStr [c]) s) | PDict d \<Rightarrow> Inr (map (PStr \<circ> fst) d) | _ \<Rightarrow> Inl TypeError)"

section \<open>What is queued\<close>

definition copy_key :: "string \<Rightarrow> pydict \<Rightarrow> pydict \<Rightarrow> pydict" where
  "copy_key k d m = (case map_of d k of Some v \<Rightarrow> dict_set k v m | None \<Rightarrow> m)"

definition TRANSFER_FLAGS :: "string list" where
  "TRANSFER_FLAGS = [''is_transfer_init'', ''is_transfer_data'', ''is_transfer_complete'']"

definition frame_message :: "pyval list \<Rightarrow> pyval \<Rightarrow> pydict" where
  "frame_message frames request_id = [(''frames'', PList frames), (''request_id'', request_id)]"

definition bc_message :: "pydict \<Rightarrow> pyval list \<Rightarrow> pyval \<Rightarrow> pydict" where
  "bc_message d frames request_id =
     (let m = copy_key ''command_name'' d (frame_message frames request_id);
          m = fold (\<lambda>flag. copy_key flag d) TRANSFER_FLAGS m;
          m = copy_key ''metadata'' d m
      in case map_of d ''metadata'' of
           Some (PDict md) \<Rightarrow> fold (\<lambda>flag m. if has_key m flag then m else copy_key flag md m) TRANSFER_FLAGS m
         | _ \<Rightarrow> m)"

definition rt_message :: "pydict \<Rightarrow> pyval list \<Rightarrow> pyval \<Rightarrow> pydict" where
  "rt_message d frames request_id =
     copy_key ''metadata'' d (copy_key ''command_name'' d (frame_message frames request_id))"

text \<open>
  The lines that only log may raise: the numbers of a data message are looked up in the metadata, which need not be a
  dictionary.
\<close>

definition transfer_flag :: "pydict \<Rightarrow> string \<Rightarrow> bool" where
  "transfer_flag d k \<longleftrightarrow> truthy (dict_get d k (PBool False)) \<or>
     (case dict_get d ''metadata'' (PDict []) of PDict m \<Rightarrow> truthy (dict_get m k (PBool False)) | _ \<Rightarrow> False)"

definition transfer_checks :: "pydict \<Rightarrow> unit pyres" where
  "transfer_checks d =
     (if \<not> transfer_flag d ''is_transfer_init'' \<and> transfer_flag d ''is_transfer_data'' \<and>
        \<not> (truthy (dict_get d ''sequence_number'' PNone) \<and> truthy (dict_get d ''total_sequences'' PNone)) \<and>
        (case dict_get d ''metadata'' (PDict []) of PDict _ \<Rightarrow> False | _ \<Rightarrow> True)
      then Inl AttributeError else Inr ())"

section \<open>Status words\<close>

definition TRANSFER_FIELDS :: "string list" where
  "TRANSFER_FIELDS = TRANSFER_FLAGS @ [''sequence_number'', ''total_sequences'', ''is_final'', ''data'']"

definition CRITICAL_FIELDS :: "string list" where
  "CRITICAL_FIELDS = [''sequence_number'', ''total_sequences'', ''is_final''] @ TRANSFER_FLAGS"

definition synchronise :: "string \<Rightarrow> pydict \<times> pydict \<Rightarrow> pydict \<times> pydict" where
  "synchronise k = (\<lambda>(m, md).
     case map_of md k of
       Some v \<Rightarrow> (dict_set k v m, md)
     | None \<Rightarrow> (case map_of m k of Some v \<Rightarrow> (m, dict_set k v md) | None \<Rightarrow> (m, md)))"

text \<open>
  The message of a status word; its metadata is a dictionary or false, other values are not modelled. The second
  component of the synchronisation is the metadata, which the message holds under its key.
\<close>

definition status_message :: "rat \<Rightarrow> pydict \<Rightarrow> string \<Rightarrow> pydict pyres" where
  "status_message t d status_word =
     (let metadata = dict_get d ''metadata'' PNone;
          m = [(''status_word'', PStr status_word), (''request_id'', dict_get d ''request_id'' PNone),
               (''timestamp'', dict_get d ''timestamp'' (PFloat t))]
      in case (truthy metadata, metadata) of
           (False, _) \<Rightarrow>
             Inr (fold (\<lambda>k. copy_key k d) [''command_type'', ''message_type'', ''command_name'']
               (fold (\<lambda>k. copy_key k d) TRANSFER_FIELDS m))
         | (True, PDict md) \<Rightarrow>
             (let m = fold (\<lambda>k m. if has_key d k then copy_key k d m else copy_key k md m) TRANSFER_FIELDS m;
                  m = fold (\<lambda>k. copy_key k d) [''command_type'', ''message_type'', ''command_name''] m;
                  (m, md) = fold synchronise CRITICAL_FIELDS (dict_set ''metadata'' metadata m, md)
              in Inr (dict_set ''metadata'' (PDict md) m))
         | _ \<Rightarrow> Inl Unmodelled)"

definition clean_status_word :: "pyval \<Rightarrow> string pyres" where
  "clean_status_word v = (case v of
     PStr s \<Rightarrow> Inr (filter is_bit s) | PList _ \<Rightarrow> Inl Unmodelled | PDict _ \<Rightarrow> Inl Unmodelled | _ \<Rightarrow> Inl TypeError)"

section \<open>Processing a text\<close>

record listener =
  l_received :: "pyval list"
  l_activity :: rat

definition enqueue :: "pyval \<Rightarrow> listener \<Rightarrow> listener" where
  "enqueue v l = l\<lparr>l_received := l_received l @ [v]\<rparr>"

text \<open>
  The common end: the frames are checked, and the valid ones are queued, as a message when there is a request
  identifier. An exception leaves the loop of the connection.
\<close>

definition process_frames ::
  "rat \<Rightarrow> (pyval list \<Rightarrow> pydict) \<Rightarrow> pyval \<Rightarrow> pyval \<Rightarrow> listener \<Rightarrow> unit pyres \<times> listener" where
  "process_frames t message frames request_id l =
     (case py_bind (iterate frames) valid_frames of
        Inl e \<Rightarrow> (Inl e, l)
      | Inr vs \<Rightarrow>
          (Inr (), (if vs = [] then l
                    else enqueue (if truthy request_id then PDict (message vs) else PList vs) l)\<lparr>l_activity := t\<rparr>))"

definition process_rest :: "rat \<Rightarrow> string \<Rightarrow> listener \<Rightarrow> unit pyres \<times> listener" where
  "process_rest t s l =
     (if looks_json s then
        (case json_loads s of
           Inr v \<Rightarrow> process_frames t (\<lambda>_. []) v PNone l
         | Inl e \<Rightarrow> (Inl e, l))
      else process_frames t (\<lambda>_. []) (PList [PStr s]) PNone l)"

definition bc_process :: "rat \<Rightarrow> string \<Rightarrow> listener \<Rightarrow> unit pyres \<times> listener" where
  "bc_process t s l =
     (case (looks_json s, json_loads s) of
        (True, Inr (PDict d)) \<Rightarrow>
          (case transfer_checks d of
             Inl e \<Rightarrow> (Inl e, l)
           | Inr _ \<Rightarrow>
               if has_key d ''status_word'' then
                 (case clean_status_word (dict_get d ''status_word'' PNone) of
                    Inl e \<Rightarrow> (Inl e, l)
                  | Inr w \<Rightarrow>
                      if length w \<noteq> 20 \<or> take 3 w \<noteq> ''100'' then (Inr (), l)
                      else case status_message t d w of
                             Inl e \<Rightarrow> (Inl e, l)
                           | Inr m \<Rightarrow> (Inr (), enqueue (PDict m) l))
               else
                 let request_id = dict_get d ''request_id'' PNone
                 in process_frames t (\<lambda>vs. bc_message d vs request_id) (dict_get d ''frames'' (PList [])) request_id l)
      | _ \<Rightarrow> process_rest t s l)"

definition potential_metadata :: "pydict \<Rightarrow> string list" where
  "potential_metadata d =
     (case map_of d ''data'' of
        Some (PList vs) \<Rightarrow> filter (\<lambda>s. length s = 20) (List.map_filter as_str vs)
      | _ \<Rightarrow> [])"

definition merge_metadata :: "(string list \<Rightarrow> pydict) \<Rightarrow> pydict \<Rightarrow> pydict" where
  "merge_metadata codec d =
     (let words = potential_metadata d;
          md = (if words = [] then [] else codec words)
      in if md = [] then d
         else case (truthy (dict_get d ''metadata'' PNone), dict_get d ''metadata'' PNone) of
                (False, _) \<Rightarrow> dict_set ''metadata'' (PDict (fold (\<lambda>(k, v). dict_set k v) md [])) d
              | (True, PDict old) \<Rightarrow> dict_set ''metadata'' (PDict (fold (\<lambda>(k, v). dict_set k v) md old)) d
              | _ \<Rightarrow> d)"

definition rt_process :: "(string list \<Rightarrow> pydict) \<Rightarrow> rat \<Rightarrow> string \<Rightarrow> listener \<Rightarrow> unit pyres \<times> listener" where
  "rt_process codec t s l =
     (case (looks_json s, json_loads s) of
        (True, Inr (PDict d0)) \<Rightarrow>
          (let d = merge_metadata codec d0 in
           case transfer_checks d of
             Inl e \<Rightarrow> (Inl e, l)
           | Inr _ \<Rightarrow>
               let request_id = dict_get d ''request_id'' PNone
               in process_frames t (\<lambda>vs. rt_message d vs request_id) (dict_get d ''frames'' (PList [])) request_id l)
      | _ \<Rightarrow> process_rest t s l)"

section \<open>A connection\<close>

definition CONNECTION_IDLE_TIMEOUT_S :: rat where "CONNECTION_IDLE_TIMEOUT_S = 30"

text \<open>
  What \<^verbatim>\<open>select\<close> and \<^verbatim>\<open>recv\<close> report at a time: a piece of data, the end of the stream, nothing within a second, or an
  error.
\<close>

datatype link_event = Piece string | End_Of_Stream | Nothing_Yet | Link_Error

record link =
  k_open :: bool
  k_buffer :: string
  k_last :: rat

definition new_link :: "rat \<Rightarrow> link" where
  "new_link t = \<lparr>k_open = True, k_buffer = [], k_last = t\<rparr>"

type_synonym processor = "rat \<Rightarrow> string \<Rightarrow> listener \<Rightarrow> unit pyres \<times> listener"

definition handle_event :: "processor \<Rightarrow> rat \<Rightarrow> link_event \<Rightarrow> link \<times> listener \<Rightarrow> (link \<times> listener) pyres" where
  "handle_event process t e = (\<lambda>(k, l).
     if \<not> k_open k then Inr (k, l)
     else case e of
       Nothing_Yet \<Rightarrow> Inr (if CONNECTION_IDLE_TIMEOUT_S \<le> fsub t (k_last k) then k\<lparr>k_open := False\<rparr> else k, l)
     | End_Of_Stream \<Rightarrow> Inr (k\<lparr>k_open := False, k_last := t\<rparr>, l)
     | Link_Error \<Rightarrow> Inr (k\<lparr>k_open := False\<rparr>, l)
     | Piece data \<Rightarrow>
         py_bind (receive (k_buffer k) data) (\<lambda>(b, complete).
           let k = k\<lparr>k_buffer := b, k_last := t\<rparr> in
           case complete of
             None \<Rightarrow> Inr (k, l)
           | Some s \<Rightarrow>
               (case process t s l of
                  (Inl Unmodelled, _) \<Rightarrow> Inl Unmodelled
                | (Inl _, l) \<Rightarrow> Inr (k\<lparr>k_open := False\<rparr>, l)
                | (Inr _, l) \<Rightarrow> Inr (k, l))))"

fun handle_events :: "processor \<Rightarrow> (rat \<times> link_event) list \<Rightarrow> link \<times> listener \<Rightarrow> (link \<times> listener) pyres" where
  "handle_events process [] s = Inr s"
| "handle_events process ((t, e) # es) s = py_bind (handle_event process t e s) (handle_events process es)"

section \<open>Reassembly\<close>

text \<open>What a reader makes of a series of pieces: the buffer that is left and the texts it completed.\<close>

fun collect :: "(string \<Rightarrow> string \<Rightarrow> (string \<times> string option) pyres) \<Rightarrow> string \<Rightarrow> string list \<Rightarrow> (string \<times> string list) pyres" where
  "collect rd b [] = Inr (b, [])"
| "collect rd b (d # ds) =
     py_bind (rd b d) (\<lambda>(b, c). py_bind (collect rd b ds) (\<lambda>(b, cs).
       Inr (b, (case c of None \<Rightarrow> cs | Some s \<Rightarrow> s # cs))))"

text \<open>
  A reader that recognises complete messages: the texts that may be sent are recognised whole, and no proper prefix of
  one is taken for a message.
\<close>

locale stream =
  fixes rd :: "string \<Rightarrow> string \<Rightarrow> (string \<times> string option) pyres"
    and sendable :: "string \<Rightarrow> bool"
  assumes rd_append: "rd b d = rd [] (b @ d)"
    and whole: "sendable s \<Longrightarrow> rd [] s = Inr ([], Some s)"
    and proper: "sendable (p @ x) \<Longrightarrow> p \<noteq> [] \<Longrightarrow> x \<noteq> [] \<Longrightarrow> rd [] p = Inr (p, None)"
begin

lemma collect_pieces:
  "sendable (b @ concat ps) \<Longrightarrow> ps \<noteq> [] \<Longrightarrow> [] \<notin> set ps \<Longrightarrow> collect rd b ps = Inr ([], [b @ concat ps])"
proof (induction ps arbitrary: b)
  case (Cons p ps)
  show ?case
  proof (cases "ps = []")
    case True
    then show ?thesis using Cons.prems rd_append [of b p] whole [of "b @ p"] by simp
  next
    case False
    then have "concat ps \<noteq> []" using Cons.prems(3) by (cases ps) auto
    moreover have "p \<noteq> []" using Cons.prems(3) by auto
    ultimately have "rd b p = Inr (b @ p, None)" using Cons.prems rd_append [of b p] proper [of "b @ p" "concat ps"] by simp
    moreover have "collect rd (b @ p) ps = Inr ([], [(b @ p) @ concat ps])" using Cons.prems False by (intro Cons.IH) simp_all
    ultimately show ?thesis by simp
  qed
qed simp

lemma last_piece:
  "sendable (b @ concat ps @ d) \<Longrightarrow> [] \<notin> set ps \<Longrightarrow> d \<noteq> [] \<Longrightarrow> collect rd b ps = Inr (b @ concat ps, [])"
proof (induction ps arbitrary: b)
  case (Cons p ps)
  then have "p \<noteq> []" by auto
  then have "rd b p = Inr (b @ p, None)" using Cons.prems rd_append [of b p] proper [of "b @ p" "concat ps @ d"] by simp
  moreover have "collect rd (b @ p) ps = Inr ((b @ p) @ concat ps, [])" using Cons.prems by (intro Cons.IH) simp_all
  ultimately show ?case by simp
qed simp

lemma collect_append:
  "collect rd b ps = Inr (b', cs) \<Longrightarrow> collect rd b (ps @ qs) = py_bind (collect rd b' qs) (\<lambda>(b, ds). Inr (b, cs @ ds))"
proof (induction ps arbitrary: b cs)
  case Nil
  then show ?case by (cases "collect rd b' qs") auto
next
  case (Cons p ps)
  then obtain b1 c where 1: "rd b p = Inr (b1, c)" by (cases "rd b p") auto
  then obtain ds where 2: "collect rd b1 ps = Inr (b', ds)" "cs = (case c of None \<Rightarrow> ds | Some s \<Rightarrow> s # ds)"
    using Cons.prems by (cases "collect rd b1 ps") auto
  show ?case using 1 2(2) Cons.IH [OF 2(1)] by (cases "collect rd b' qs") (auto split: option.split)
qed

lemma collect_messages:
  "\<forall>m\<in>set ms. sendable (concat m) \<and> m \<noteq> [] \<and> [] \<notin> set m \<Longrightarrow> collect rd [] (concat ms) = Inr ([], map concat ms)"
proof (induction ms)
  case (Cons m ms)
  then have "collect rd [] m = Inr ([], [concat m])" using collect_pieces [of "[]" m] by simp
  from collect_append [OF this, of "concat ms"] Cons show ?case by simp
qed simp

end

text \<open>The values a message may have: a list or a dictionary without decimal numbers whose text fits the buffer.\<close>

definition carriable :: "pyval \<Rightarrow> bool" where
  "carriable v \<longleftrightarrow> plain_value v \<and> (case v of PList _ \<Rightarrow> True | PDict _ \<Rightarrow> True | _ \<Rightarrow> False) \<and>
     length (json_text v) \<le> MAX_RECV_BUFFER_BYTES"

definition ascii :: "string \<Rightarrow> bool" where "ascii s \<longleftrightarrow> list_all (\<lambda>c. (of_char c :: nat) < 128) s"

lemma ascii_simps [simp]:
  "ascii []" "ascii (c # s) \<longleftrightarrow> (of_char c :: nat) < 128 \<and> ascii s" "ascii (s @ t) \<longleftrightarrow> ascii s \<and> ascii t"
  by (auto simp: ascii_def)

lemma ascii_char: "ascii (text_char c)"
proof -
  have d: "n < 16 \<Longrightarrow> (of_char (hex_digit n) :: nat) < 128" for n by (simp add: hex_digit_def)
  have h: "(of_char (hex_digit (n mod 16)) :: nat) < 128" "(of_char (hex_digit (of_char c div 16)) :: nat) < 128" for n
    using nat_of_char_less_256 [of c] by (intro d; simp add: div_less_iff_less_mult)+
  show ?thesis using h by (auto simp: text_char_def Let_def split: option.split if_splits)
qed

lemma ascii_string: "ascii (text_string w)"
proof -
  have "ascii (concat (map text_char w))" by (induction w) (simp_all add: ascii_char)
  then show ?thesis by (simp add: text_string_def)
qed

lemma ascii_int: "ascii (py_str_int n)"
proof -
  have "ascii (dec_str n)" for n
    using dec_str_facts [of n] by (auto simp: ascii_def list_all_iff is_digit_def)
  then show ?thesis by (simp add: py_str_int_def)
qed

lemma ascii_text: "ascii (json_text v)" "ascii (text_items vs)" "ascii (text_members d)"
  by (induction v and vs and d rule: json_text_text_items_text_members.induct) (simp_all add: ascii_string ascii_int)

lemma carriable_head: "carriable v \<Longrightarrow> looks_json (json_text v) \<and> closed_head (json_text v)"
  by (cases v) (simp_all add: carriable_def looks_json_def closed_head_def)

lemma carriable_suffix:
  assumes "carriable v" "json_text v = p @ x" "x \<noteq> []" shows "\<not> list_all json_ws x"
proof -
  have "last (json_text v) \<in> {CHR '']'', CHR ''}''}" using assms(1) by (cases v) (simp_all add: carriable_def)
  then have "last x \<in> {CHR '']'', CHR ''}''}" using assms(2,3) by simp
  then have "\<not> json_ws (last x)" by (auto simp: json_ws_def)
  then show ?thesis using last_in_set [OF assms(3)] by (auto simp: list_all_iff)
qed

lemma head_append: "looks_json (p @ x) \<Longrightarrow> p \<noteq> [] \<Longrightarrow> looks_json p \<and> closed_head p"
  by (cases p) (auto simp: looks_json_def closed_head_def)

interpretation json: stream receive "\<lambda>s. \<exists>v. carriable v \<and> s = json_text v"
proof
  show "receive b d = receive [] (b @ d)" for b d by (simp add: receive_def)
next
  fix s assume "\<exists>v. carriable v \<and> s = json_text v"
  then obtain v where v: "carriable v" "s = json_text v" by blast
  have "json_loads s = Inr v" using v json_loads_text by (simp add: carriable_def)
  then show "receive [] s = Inr ([], Some s)"
    using v carriable_head [OF v(1)] ascii_text(1) [of v] by (simp add: receive_def carriable_def ascii_def)
next
  fix p x :: string
  assume "\<exists>v. carriable v \<and> p @ x = json_text v" "p \<noteq> []" "x \<noteq> []"
  then obtain v where v: "carriable v" "json_text v = p @ x" by metis
  have h: "looks_json p" "closed_head p" using head_append [of p x] carriable_head [OF v(1)] v(2) \<open>p \<noteq> []\<close> by simp_all
  have "json_loads (p @ x) = Inr v" using v json_loads_text [of v] by (simp add: carriable_def)
  from json_prefix_fails [OF this h(2) carriable_suffix [OF v \<open>x \<noteq> []\<close>]] have "json_loads p = Inl ValueError" .
  moreover have "ascii p" using ascii_text(1) [of v] v(2) by simp
  ultimately show "receive [] p = Inr (p, None)"
    using h(1) v by (simp add: receive_def ascii_def carriable_def)
qed

text \<open>Events that keep a connection: pieces with content, and seconds without any within the time limit.\<close>

fun lively :: "rat \<Rightarrow> (rat \<times> link_event) list \<Rightarrow> bool" where
  "lively prev [] = True"
| "lively prev ((t, Piece d) # es) = (d \<noteq> [] \<and> lively t es)"
| "lively prev ((t, Nothing_Yet) # es) = (fsub t prev < CONNECTION_IDLE_TIMEOUT_S \<and> lively prev es)"
| "lively prev (_ # es) = False"

fun content :: "(rat \<times> link_event) list \<Rightarrow> string" where
  "content [] = []"
| "content ((t, Piece d) # es) = d @ content es"
| "content (_ # es) = content es"

lemma collecting:
  assumes "\<And>p. p \<noteq> [] \<Longrightarrow> (\<exists>q. p @ q = b @ content es) \<Longrightarrow> receive [] p = Inr (p, None)"
    "lively (k_last k) es" "k_open k" "k_buffer k = b"
  shows "\<exists>t. handle_events process es (k, l) = Inr (k\<lparr>k_buffer := b @ content es, k_last := t\<rparr>, l)"
  using assms
proof (induction es arbitrary: b k rule: content.induct)
  case (1 b k)
  then show ?case by (intro exI [of _ "k_last k"]) simp
next
  case (2 t d es b k)
  have r: "receive b d = Inr (b @ d, None)"
    using json.rd_append [of b d] "2.prems"(1) [of "b @ d"] "2.prems"(2) by auto
  have "\<exists>u. handle_events process es (k\<lparr>k_buffer := b @ d, k_last := t\<rparr>, l) =
      Inr ((k\<lparr>k_buffer := b @ d, k_last := t\<rparr>)\<lparr>k_buffer := (b @ d) @ content es, k_last := u\<rparr>, l)"
    using "2.prems" by (intro "2.IH") simp_all
  then show ?case using r "2.prems" by (simp add: handle_event_def)
qed (simp_all add: handle_event_def)

text \<open>
  C29. A message arrives whole however the stream is cut: when the pieces of a connection add up to the text of a list or
  a dictionary, with pauses below the idle limit between them, the listener processes that text once, at the last
  piece, and its buffer is empty.
\<close>

theorem fragments_reassembled:
  assumes "carriable v" "json_text v = content es @ q" "q \<noteq> []" "lively t0 es" "process t (json_text v) l = (Inr (), l')"
  shows "handle_events process (es @ [(t, Piece q)]) (new_link t0, l) =
    Inr (\<lparr>k_open = True, k_buffer = [], k_last = t\<rparr>, l')"
proof -
  have part: "receive [] p = Inr (p, None)" if "p \<noteq> []" "\<exists>x. p @ x = [] @ content es" for p
  proof -
    from that(2) obtain x where "p @ x = content es" by (elim exE) simp
    then have "p @ x @ q = json_text v" using assms(2) by simp
    then show ?thesis using json.proper [of p "x @ q"] that(1) assms(1,3) by blast
  qed
  obtain u where "handle_events process es (new_link t0, l) = Inr ((new_link t0)\<lparr>k_buffer := [] @ content es, k_last := u\<rparr>, l)"
    using collecting [of "[]" es "new_link t0" process l] part assms(4) by (auto simp: new_link_def)
  moreover have "receive (content es) q = Inr ([], Some (json_text v))"
    using json.rd_append [of "content es" q] json.whole [of "json_text v"] assms(1) by (auto simp: assms(2) [symmetric])
  moreover have "handle_events process (xs @ ys) s = py_bind (handle_events process xs s) (handle_events process ys)" for xs ys s
    by (induction xs arbitrary: s) (auto simp: py_bind_def split: sum.split)
  ultimately show ?thesis using assms(2,5) by (simp add: handle_event_def new_link_def)
qed

lemma text_and_more_fails: "carriable v \<Longrightarrow> \<not> list_all json_ws u \<Longrightarrow> json_loads (json_text v @ u) = Inl ValueError"
proof -
  assume a: "carriable v" "\<not> list_all json_ws u"
  let ?n = "2 * length (json_text v) + 1" and ?m = "2 * length (json_text v @ u) + 1"
  have "json_value ?n (json_text v @ []) = Inr (v, [])" using a(1) by (intro scan_text) (simp_all add: carriable_def)
  then have "json_value ?m (json_text v @ u) = Inr (v, [] @ u)"
    using carriable_head [OF a(1)] by (intro scan_append(1) [of ?n]) simp_all
  moreover have "skip_ws (json_text v @ u) = json_text v @ u" using skip_ws_closed carriable_head [OF a(1)] by blast
  ultimately show ?thesis
    using a(2) unfolding json_loads_def by (simp add: skip_ws_nil_iff del: json_value.simps)
qed

lemma text_and_more_kept:
  assumes "carriable v" "\<not> list_all json_ws u" "ascii u" "length (json_text v @ u) \<le> MAX_RECV_BUFFER_BYTES"
  shows "receive [] (json_text v @ u) = Inr (json_text v @ u, None)"
proof -
  have "looks_json (json_text v @ u)"
    using carriable_head [OF assms(1)] by (cases "json_text v") (simp_all add: looks_json_def)
  then show ?thesis
    using text_and_more_fails [OF assms(1,2)] ascii_text(1) [of v] assms(3,4) by (simp add: receive_def ascii_def)
qed

text \<open>
  Two messages in one piece are lost, and so is everything after them: when a piece holds a whole message and more
  than blanks after it, neither it nor anything that follows on the connection is processed until the buffer is full;
  the senders rely on one connection for each message.
\<close>

theorem glued_messages_lost:
  assumes "carriable v" "\<not> list_all json_ws y" "lively t es" "ascii (y @ content es)"
    "length (json_text v @ y @ content es) \<le> MAX_RECV_BUFFER_BYTES"
  shows "\<exists>k. handle_events process ((t, Piece (json_text v @ y)) # es) (new_link t0, l) = Inr (k, l) \<and>
    k_open k \<and> k_buffer k = json_text v @ y @ content es"
proof -
  let ?k = "\<lparr>k_open = True, k_buffer = json_text v @ y, k_last = t\<rparr>"
  have more: "receive [] (json_text v @ y @ z) = Inr (json_text v @ y @ z, None)" if "z @ w = content es" for z w
    using assms that [symmetric] by (intro text_and_more_kept) auto
  have first: "handle_event process t (Piece (json_text v @ y)) (new_link t0, l) = Inr (?k, l)"
    using more [of "[]"] by (simp add: handle_event_def new_link_def)
  have "\<exists>u. handle_events process es (?k, l) = Inr (?k\<lparr>k_buffer := (json_text v @ y) @ content es, k_last := u\<rparr>, l)"
  proof -
    have step: "lively (k_last k) es' \<Longrightarrow> z @ content es' = content es \<Longrightarrow> k_open k \<Longrightarrow> k_buffer k = json_text v @ y @ z \<Longrightarrow>
        \<exists>u. handle_events process es' (k, l) = Inr (k\<lparr>k_buffer := json_text v @ y @ content es, k_last := u\<rparr>, l)" for es' z k
    proof (induction es' arbitrary: z k rule: content.induct)
      case (1 z k)
      then show ?case by (intro exI [of _ "k_last k"]) simp
    next
      case (2 t' d es' z k)
      have r: "receive (k_buffer k) d = Inr (json_text v @ y @ z @ d, None)"
        using json.rd_append [of "k_buffer k" d] more [of "z @ d" "content es'"] "2.prems" by simp
      have "\<exists>u. handle_events process es' (k\<lparr>k_buffer := json_text v @ y @ z @ d, k_last := t'\<rparr>, l) =
          Inr ((k\<lparr>k_buffer := json_text v @ y @ z @ d, k_last := t'\<rparr>)\<lparr>k_buffer := json_text v @ y @ content es, k_last := u\<rparr>, l)"
        using "2.prems" by (intro "2.IH" [of _ "z @ d"]) simp_all
      then show ?case using r "2.prems" by (simp add: handle_event_def)
    qed (simp_all add: handle_event_def)
    show ?thesis using step [of ?k es "[]"] assms(3) by simp
  qed
  then show ?thesis using first by auto
qed

section \<open>What is in the queue\<close>

definition frame_ok :: "pyval \<Rightarrow> bool" where
  "frame_ok f \<longleftrightarrow> (case f of PStr s \<Rightarrow> length s = 20 \<and> take 3 s \<in> {''100'', ''001''} | _ \<Rightarrow> False)"

definition frames_ok :: "pyval \<Rightarrow> bool" where
  "frames_ok v \<longleftrightarrow> (case v of PList fs \<Rightarrow> fs \<noteq> [] \<and> list_all frame_ok fs | _ \<Rightarrow> False)"

text \<open>An entry of the queue: a list of frames, a message with frames, or a status word.\<close>

definition entry_ok :: "pyval \<Rightarrow> bool" where
  "entry_ok v \<longleftrightarrow> (case v of
     PDict d \<Rightarrow>
       (case map_of d ''status_word'' of
          Some w \<Rightarrow> (case w of PStr s \<Rightarrow> bits s \<and> length s = 20 \<and> take 3 s = ''100'' | _ \<Rightarrow> False)
        | None \<Rightarrow> frames_ok (dict_get d ''frames'' PNone) \<and> truthy (dict_get d ''request_id'' PNone))
   | _ \<Rightarrow> frames_ok v)"

definition queue_ok :: "listener \<Rightarrow> bool" where "queue_ok l \<longleftrightarrow> list_all entry_ok (l_received l)"

lemma valid_frame_ok: "valid_frame f = Inr True \<Longrightarrow> frame_ok f"
  by (auto simp: valid_frame_def item_length_def frame_ok_def py_bind_eq_Inr split: pyval.splits if_splits)

lemma valid_frames_ok: "valid_frames fs = Inr vs \<Longrightarrow> list_all frame_ok vs"
proof (induction fs arbitrary: vs)
  case (Cons f fs)
  then obtain b us where "valid_frame f = Inr b" "valid_frames fs = Inr us" "vs = (if b then f # us else us)"
    by (auto simp: py_bind_eq_Inr)
  then show ?case using Cons.IH [of us] valid_frame_ok [of f] by (cases b) simp_all
qed simp

lemma map_of_copy_key:
  "map_of (copy_key k d m) j = (if k = j \<and> map_of d k \<noteq> None then map_of d k else map_of m j)"
  by (auto simp: copy_key_def map_of_dict_set split: option.split)

lemma map_of_copy_keys:
  "j \<notin> set ks \<Longrightarrow> map_of (fold (\<lambda>k. copy_key k d) ks m) j = map_of m j"
  by (induction ks arbitrary: m) (auto simp: map_of_copy_key)

lemma map_of_copy_missing:
  "j \<notin> set ks \<Longrightarrow> map_of (fold (\<lambda>k m. if p k m then q k m else copy_key k d m) ks m) j = map_of m j"
  if "\<And>k m. j \<noteq> k \<Longrightarrow> map_of (q k m) j = map_of m j"
  using that by (induction ks arbitrary: m) (auto simp: map_of_copy_key)

lemmas copied_keys = map_of_copy_key map_of_copy_keys map_of_dict_set

lemma bc_message_keys:
  "j \<in> {''frames'', ''request_id'', ''status_word''} \<Longrightarrow> map_of (bc_message d vs rid) j = map_of (frame_message vs rid) j"
proof -
  assume "j \<in> {''frames'', ''request_id'', ''status_word''}"
  then have j: "j \<notin> set TRANSFER_FLAGS" "''command_name'' \<noteq> j" "''metadata'' \<noteq> j" by (auto simp: TRANSFER_FLAGS_def)
  have "map_of (fold (\<lambda>flag m. if has_key m flag then m else copy_key flag md m) TRANSFER_FLAGS m) j = map_of m j" for md m
    using j(1) by (rule map_of_copy_missing [rotated]) simp
  then show ?thesis using j by (simp add: bc_message_def Let_def copied_keys split: option.split pyval.split)
qed

lemma rt_message_keys:
  "j \<in> {''frames'', ''request_id'', ''status_word''} \<Longrightarrow> map_of (rt_message d vs rid) j = map_of (frame_message vs rid) j"
  by (auto simp: rt_message_def copied_keys)

lemma synchronise_keys:
  "fold synchronise ks (m, md) = (m', md') \<Longrightarrow> j \<notin> set ks \<Longrightarrow> map_of m' j = map_of m j"
proof (induction ks arbitrary: m md)
  case (Cons k ks)
  obtain m1 md1 where 1: "synchronise k (m, md) = (m1, md1)" by (rule prod.exhaust)
  then have "map_of m1 j = map_of m j"
    using Cons.prems(2) by (auto simp: synchronise_def map_of_dict_set split: option.splits)
  then show ?case using Cons 1 by simp
qed simp

lemma status_message_word: "status_message t d w = Inr m \<Longrightarrow> map_of m ''status_word'' = Some (PStr w)"
proof -
  assume a: "status_message t d w = Inr m"
  let ?m0 = "[(''status_word'', PStr w), (''request_id'', dict_get d ''request_id'' PNone),
               (''timestamp'', dict_get d ''timestamp'' (PFloat t))]"
  let ?ks = "[''command_type'', ''message_type'', ''command_name'']"
  show ?thesis
  proof (cases "truthy (dict_get d ''metadata'' PNone)")
    case False
    then have "m = fold (\<lambda>k. copy_key k d) ?ks (fold (\<lambda>k. copy_key k d) TRANSFER_FIELDS ?m0)"
      using a by (simp add: status_message_def Let_def)
    then show ?thesis by (simp only: map_of_copy_keys TRANSFER_FIELDS_def TRANSFER_FLAGS_def) (simp add: copied_keys)
  next
    case True
    then obtain md where md: "dict_get d ''metadata'' PNone = PDict md"
      using a by (auto simp: status_message_def Let_def split: pyval.splits)
    let ?m1 = "fold (\<lambda>k. copy_key k d) ?ks (fold (\<lambda>k m. if has_key d k then copy_key k d m else copy_key k md m) TRANSFER_FIELDS ?m0)"
    obtain m2 md2 where 2: "fold synchronise CRITICAL_FIELDS (dict_set ''metadata'' (PDict md) ?m1, md) = (m2, md2)"
      by (rule prod.exhaust)
    then have "m = dict_set ''metadata'' (PDict md2) m2" using a True md by (simp add: status_message_def Let_def)
    moreover have "map_of m2 ''status_word'' = map_of (dict_set ''metadata'' (PDict md) ?m1) ''status_word''"
      using 2 by (rule synchronise_keys) (simp add: CRITICAL_FIELDS_def TRANSFER_FLAGS_def)
    moreover have "map_of ?m1 ''status_word'' = Some (PStr w)"
      by (subst map_of_copy_keys, simp, subst map_of_copy_missing)
         (simp_all add: map_of_copy_key TRANSFER_FIELDS_def TRANSFER_FLAGS_def)
    ultimately show ?thesis by (simp add: map_of_dict_set)
  qed
qed

lemma process_frames_ok:
  assumes "process_frames t message frames rid l = (r, l')" "queue_ok l"
    "\<And>vs. truthy rid \<Longrightarrow> vs \<noteq> [] \<Longrightarrow> list_all frame_ok vs \<Longrightarrow> entry_ok (PDict (message vs))"
  shows "queue_ok l'"
  using assms valid_frames_ok
  by (auto simp: process_frames_def queue_ok_def enqueue_def entry_ok_def frames_ok_def py_bind_eq_Inr split: sum.splits if_splits)

lemma frame_message_ok:
  "(\<And>j. j \<in> {''frames'', ''request_id'', ''status_word''} \<Longrightarrow> map_of m j = map_of (frame_message vs rid) j) \<Longrightarrow>
   truthy rid \<Longrightarrow> vs \<noteq> [] \<Longrightarrow> list_all frame_ok vs \<Longrightarrow> entry_ok (PDict m)"
  by (simp add: entry_ok_def dict_get_def frame_message_def frames_ok_def)

lemma process_rest_ok: "process_rest t s l = (r, l') \<Longrightarrow> queue_ok l \<Longrightarrow> queue_ok l'"
  by (auto simp: process_rest_def split: if_splits sum.splits elim!: process_frames_ok)

lemma bc_process_ok: "bc_process t s l = (r, l') \<Longrightarrow> queue_ok l \<Longrightarrow> queue_ok l'"
proof -
  assume a: "bc_process t s l = (r, l')" "queue_ok l"
  show ?thesis
  proof (cases "\<exists>d. looks_json s \<and> json_loads s = Inr (PDict d)")
    case True
    then obtain d where d: "looks_json s" "json_loads s = Inr (PDict d)" by blast
    then have b: "bc_process t s l =
       (case transfer_checks d of
          Inl e \<Rightarrow> (Inl e, l)
        | Inr _ \<Rightarrow>
            if has_key d ''status_word'' then
              (case clean_status_word (dict_get d ''status_word'' PNone) of
                 Inl e \<Rightarrow> (Inl e, l)
               | Inr w \<Rightarrow>
                   if length w \<noteq> 20 \<or> take 3 w \<noteq> ''100'' then (Inr (), l)
                   else case status_message t d w of Inl e \<Rightarrow> (Inl e, l) | Inr m \<Rightarrow> (Inr (), enqueue (PDict m) l))
            else process_frames t (\<lambda>vs. bc_message d vs (dict_get d ''request_id'' PNone)) (dict_get d ''frames'' (PList []))
                   (dict_get d ''request_id'' PNone) l)"
      by (simp add: bc_process_def Let_def split: sum.split)
    show ?thesis
    proof (cases "has_key d ''status_word''")
      case True
      have word: "bits w" if "clean_status_word v = Inr w" for v w
        using that by (auto simp: clean_status_word_def bits_def list_all_iff split: pyval.splits)
      have stored: "queue_ok (enqueue (PDict m) l)" if "clean_status_word v = Inr w" "length w = 20" "take 3 w = ''100''"
        "status_message t d w = Inr m" for v w m
        using a(2) word [OF that(1)] that(2,3) status_message_word [OF that(4)]
        by (simp add: queue_ok_def enqueue_def entry_ok_def)
      then show ?thesis
        using a unfolding b by (simp add: True split: sum.splits if_splits) (blast+)?
    next
      case False
      then show ?thesis
        using a b
        by (auto split: sum.splits elim!: process_frames_ok intro!: frame_message_ok bc_message_keys)
    qed
  next
    case False
    then have "bc_process t s l = process_rest t s l"
      by (cases "looks_json s"; cases "json_loads s") (auto simp: bc_process_def split: pyval.split)
    then show ?thesis using a process_rest_ok by metis
  qed
qed

lemma rt_process_ok: "rt_process codec t s l = (r, l') \<Longrightarrow> queue_ok l \<Longrightarrow> queue_ok l'"
proof -
  assume a: "rt_process codec t s l = (r, l')" "queue_ok l"
  show ?thesis
  proof (cases "\<exists>d. looks_json s \<and> json_loads s = Inr (PDict d)")
    case True
    then obtain d where d: "looks_json s" "json_loads s = Inr (PDict d)" by blast
    let ?d = "merge_metadata codec d"
    from d have b: "rt_process codec t s l =
       (case transfer_checks ?d of
          Inl e \<Rightarrow> (Inl e, l)
        | Inr _ \<Rightarrow> process_frames t (\<lambda>vs. rt_message ?d vs (dict_get ?d ''request_id'' PNone)) (dict_get ?d ''frames'' (PList []))
                   (dict_get ?d ''request_id'' PNone) l)"
      by (simp add: rt_process_def Let_def split: sum.split)
    show ?thesis
      using a b by (auto split: sum.splits elim!: process_frames_ok intro!: frame_message_ok rt_message_keys)
  next
    case False
    then have "rt_process codec t s l = process_rest t s l"
      by (cases "looks_json s"; cases "json_loads s") (auto simp: rt_process_def split: pyval.split)
    then show ?thesis using a process_rest_ok by metis
  qed
qed

lemma handle_event_queue:
  "handle_event process t e (k, l) = Inr (k', l') \<Longrightarrow> l' = l \<or> (\<exists>s r. process t s l = (r, l'))"
proof (cases e)
  case (Piece data)
  assume a: "handle_event process t e (k, l) = Inr (k', l')"
  show ?thesis
  proof (cases "k_open k")
    case True
    then obtain b c where c: "receive (k_buffer k) data = Inr (b, c)"
      using a by (auto simp: handle_event_def Piece py_bind_eq_Inr)
    show ?thesis
    proof (cases c)
      case (Some s)
      obtain r l1 where p: "process t s l = (r, l1)" by (rule prod.exhaust)
      then have "l1 = l'" using a True c Some by (cases r) (auto simp: handle_event_def Piece Let_def split: pyerr.splits)
      then show ?thesis using p by blast
    qed (use a True c in \<open>simp add: handle_event_def Piece\<close>)
  qed (use a in \<open>simp add: handle_event_def\<close>)
qed (auto simp: handle_event_def split: if_splits)

text \<open>
  C17. Only well-formed entries reach the queues: whatever arrives on a connection, in whatever pieces, each entry a
  listener has queued is a list of frames of 20 characters with the sync bits of a word, a message of such frames with a
  request identifier, or a status word of 20 bits, so the consumers need not check again.
\<close>

theorem queues_wellformed:
  assumes "handle_events process es (k, l) = Inr (k', l')" "process \<in> {bc_process, rt_process codec}" "queue_ok l"
  shows "queue_ok l'"
proof -
  have p: "process t s l = (r, l') \<Longrightarrow> queue_ok l \<Longrightarrow> queue_ok l'" for t s l r l'
    using assms(2) bc_process_ok rt_process_ok by auto
  have one: "handle_event process t e (k, l) = Inr (k', l') \<Longrightarrow> queue_ok l \<Longrightarrow> queue_ok l'" for t e k l k' l'
    using handle_event_queue [of process t e k l k' l'] p by metis
  show ?thesis
    using assms(1,3)
  proof (induction es arbitrary: k l)
    case (Cons te es)
    obtain t e where te: "te = (t, e)" by (rule prod.exhaust)
    obtain k1 l1 where 1: "handle_event process t e (k, l) = Inr (k1, l1)" "handle_events process es (k1, l1) = Inr (k', l')"
      using Cons.prems(1) by (auto simp: te py_bind_eq_Inr)
    show ?case using Cons.IH [OF 1(2) one [OF 1(1) Cons.prems(2)]] .
  qed simp
qed

section \<open>Witnesses\<close>

definition sample_frame :: string where "sample_frame = ''10000100000000000001''"

definition sample :: pyval where "sample = PList [PStr sample_frame]"

lemma sample_text: "json_text sample = CHR ''['' # CHR 0x22 # sample_frame @ [CHR 0x22, CHR '']'']"
  by code_simp

lemma sample_carriable: "carriable sample"
  by (simp add: carriable_def sample_text) (simp add: sample_def MAX_RECV_BUFFER_BYTES_def sample_frame_def)

lemma sample_processed:
  "bc_process t (json_text sample) l = (Inr (), (enqueue sample l)\<lparr>l_activity := t\<rparr>)"
proof -
  have "json_loads (json_text sample) = Inr sample" "looks_json (json_text sample)"
    using json_loads_text sample_carriable carriable_head by (simp_all add: carriable_def)
  moreover have "valid_frames [PStr sample_frame] = Inr [PStr sample_frame]"
    by (simp add: valid_frame_def item_length_def sample_frame_def)
  ultimately show ?thesis
    by (simp add: bc_process_def process_rest_def process_frames_def iterate_def sample_def enqueue_def)
qed

definition silent_listener :: listener where "silent_listener = \<lparr>l_received = [], l_activity = 0\<rparr>"

theorem fragments_reassembled_witness:
  "handle_events bc_process ([(1, Piece (CHR ''['' # CHR 0x22 # sample_frame)), (2, Nothing_Yet)] @ [(3, Piece [CHR 0x22, CHR '']''])])
     (new_link 0, silent_listener) =
   Inr (\<lparr>k_open = True, k_buffer = [], k_last = 3\<rparr>, \<lparr>l_received = [sample], l_activity = 3\<rparr>)"
  using fragments_reassembled [OF sample_carriable, of "[(1, Piece (CHR ''['' # CHR 0x22 # sample_frame)), (2, Nothing_Yet)]"
      "[CHR 0x22, CHR '']'']" 0 bc_process 3 silent_listener] sample_processed
  by (simp add: sample_text CONNECTION_IDLE_TIMEOUT_S_def fsub_def fl_of_int [of 1, simplified] silent_listener_def enqueue_def)

theorem glued_messages_lost_witness:
  "\<exists>k. handle_events bc_process [(1, Piece (json_text sample @ json_text sample)), (1, Piece (json_text sample))] (new_link 0, silent_listener)
     = Inr (k, silent_listener)"
proof -
  have "\<not> list_all json_ws (json_text sample)" "json_text sample \<noteq> []"
    by (simp_all add: sample_text json_ws_def)
  moreover note ascii_text(1) [of sample]
  moreover have "length (json_text sample @ json_text sample @ json_text sample) \<le> MAX_RECV_BUFFER_BYTES"
    by (simp add: sample_text sample_frame_def MAX_RECV_BUFFER_BYTES_def)
  ultimately show ?thesis
    using glued_messages_lost [OF sample_carriable, of "json_text sample" 1 "[(1, Piece (json_text sample))]" bc_process 0 silent_listener]
    by auto
qed

theorem queues_wellformed_witness: "queue_ok \<lparr>l_received = [sample], l_activity = 3\<rparr>"
proof -
  have "receive [] (json_text sample) = Inr ([], Some (json_text sample))"
    using json.whole [of "json_text sample"] sample_carriable by blast
  then have "handle_events bc_process [(3, Piece (json_text sample))] (new_link 0, silent_listener) =
      Inr (\<lparr>k_open = True, k_buffer = [], k_last = 3\<rparr>, \<lparr>l_received = [sample], l_activity = 3\<rparr>)"
    using sample_processed [of 3 silent_listener] by (simp add: handle_event_def new_link_def enqueue_def silent_listener_def)
  from queues_wellformed [OF this, of "\<lambda>_. []"] show ?thesis by (simp add: queue_ok_def silent_listener_def)
qed

end
