(* ===== verification/Transfer_Aggregator.thy ===== *)
theory Transfer_Aggregator
  imports Precip_Scale Bus_Receive
begin

text \<open>
  The aggregator of the bus controller (\<^verbatim>\<open>BC_transfer_aggregator.py\<close>): it collects the messages of a block transfer
  under their request identifier and hands on one message with the data of all of them; for precipitation it decodes the
  data from the frames. The clock is an argument, read once for each call; request identifiers that are neither false
  nor text are not modelled. Messages are values: that the code writes into the metadata dictionary of the message
  it was given is not modelled. A tuple is written as a list.
\<close>

section \<open>Kinds of message\<close>

text \<open>Whether one of the texts occurs in the lower case of a value of type text.\<close>

definition text_mentions :: "string \<Rightarrow> pyval \<Rightarrow> bool" where
  "text_mentions t v = (case v of PStr s \<Rightarrow> sublist t (lower s) | _ \<Rightarrow> False)"

definition key_mentions :: "pydict \<Rightarrow> string \<Rightarrow> string \<Rightarrow> bool" where
  "key_mentions d k t = (case map_of d k of Some v \<Rightarrow> text_mentions t v | None \<Rightarrow> False)"

definition metadata_dict :: "pydict \<Rightarrow> pydict option" where
  "metadata_dict d = (case map_of d ''metadata'' of Some (PDict m) \<Rightarrow> Some m | _ \<Rightarrow> None)"

definition is_kind_message :: "string \<Rightarrow> string \<Rightarrow> pydict \<Rightarrow> bool" where
  "is_kind_message flag kind d \<longleftrightarrow>
     (case metadata_dict d of
        Some m \<Rightarrow> truthy (dict_get m flag PNone) \<or> dict_get m ''data_type'' PNone = PStr kind \<or> key_mentions m ''message_type'' kind
      | None \<Rightarrow> False) \<or>
     key_mentions d ''message_type'' kind \<or> key_mentions d ''command_type'' kind"

definition is_precipitation_message :: "pydict \<Rightarrow> bool" where
  "is_precipitation_message = is_kind_message ''precipitation_message'' ''precipitation''"

definition is_vil_message :: "pydict \<Rightarrow> bool" where
  "is_vil_message = is_kind_message ''vil_message'' ''vil''"

definition original_type :: "string \<Rightarrow> pyval \<Rightarrow> pyval \<Rightarrow> pyval \<Rightarrow> pydict \<Rightarrow> pyval" where
  "original_type k precipitation vil fallback d =
     (case Option.bind (metadata_dict d) (\<lambda>m. map_of m k) of
        Some v \<Rightarrow> v
      | None \<Rightarrow>
          (case map_of d k of
             Some v \<Rightarrow> v
           | None \<Rightarrow>
               if is_precipitation_message d then precipitation
               else if is_vil_message d then vil
               else fallback))"

definition extract_message_type :: "pydict \<Rightarrow> pyval" where
  "extract_message_type =
     original_type ''message_type'' (PStr ''weather_radarPrecipitationResponse'') (PStr ''weather_radarVILResponse'')
       (PStr ''binary_data_response'')"

definition extract_command_type :: "pydict \<Rightarrow> pyval" where
  "extract_command_type =
     original_type ''command_type'' (PStr ''precipitation_data'') (PStr ''vil_data'') (PStr ''binary_data'')"

definition extract_metadata :: "pydict \<Rightarrow> pydict" where
  "extract_metadata d =
     (let top = [''message_type'', ''command_type'', ''command_name'', ''source_system'', ''destination'', ''request_id''];
          md = (case metadata_dict d of
                  Some m \<Rightarrow> fold (\<lambda>k. copy_key k m) (top @ [''precipitation_message'', ''data_type'']) []
                | None \<Rightarrow> [])
      in fold (\<lambda>k. copy_key k d) top md)"

text \<open>\<^verbatim>\<open>len(message.get('frames', []))\<close> raises for a value without a length.\<close>

definition is_transfer_message :: "pyval \<Rightarrow> bool pyres" where
  "is_transfer_message v =
     (case v of
        PDict d \<Rightarrow>
          if list_ex (transfer_flag d) TRANSFER_FLAGS then Inr True
          else if has_key d ''frames'' then py_bind (item_length (dict_get d ''frames'' PNone)) (\<lambda>n. Inr (0 < n))
          else Inr False
      | _ \<Rightarrow> Inr False)"

section \<open>Binary data\<close>

definition frame_list :: "pydict \<Rightarrow> pyval list option" where
  "frame_list d = (case map_of d ''frames'' of Some (PList fs) \<Rightarrow> Some fs | _ \<Rightarrow> None)"

definition data_list :: "pydict \<Rightarrow> pyval list option" where
  "data_list d = (case map_of d ''data'' of Some (PList vs) \<Rightarrow> Some vs | _ \<Rightarrow> None)"

definition many_frames :: "pydict \<Rightarrow> bool" where
  "many_frames d \<longleftrightarrow> (case frame_list d of Some fs \<Rightarrow> 20 < length fs | None \<Rightarrow> False)"

text \<open>\<^verbatim>\<open>str(v).lower()\<close>: numbers contain none of the words that are looked for; lists and dictionaries are not modelled.\<close>

definition any_word :: "(string \<Rightarrow> string) \<Rightarrow> string list \<Rightarrow> pyval \<Rightarrow> bool pyres" where
  "any_word f ws v =
     (if \<not> truthy v then Inr False
      else case v of
        PStr s \<Rightarrow> Inr (list_ex (\<lambda>w. sublist w (f s)) ws)
      | PList _ \<Rightarrow> Inl Unmodelled | PDict _ \<Rightarrow> Inl Unmodelled
      | _ \<Rightarrow> Inr False)"

definition BINARY_FLAGS :: "string list" where
  "BINARY_FLAGS = [''binary_encoded'', ''binary_data'', ''precipitation_message'', ''vil_message'', ''is_transfer_data'',
     ''is_transfer_init'', ''is_block_transfer'']"

definition BINARY_WORDS :: "string list" where
  "BINARY_WORDS = [''precipitation'', ''vil'', ''binary'', ''block'', ''transfer'']"

definition is_binary_data_message :: "pyval \<Rightarrow> bool pyres" where
  "is_binary_data_message v =
     (case v of
        PDict d \<Rightarrow>
          if (case data_list d of Some vs \<Rightarrow> vs \<noteq> [] \<and> list_all (\<lambda>x. as_int x \<noteq> None) vs | None \<Rightarrow> False) then Inr True
          else if (case dict_get d ''metadata'' (PDict []) of
                     PDict m \<Rightarrow> list_ex (\<lambda>k. truthy (dict_get m k PNone)) BINARY_FLAGS \<or>
                       dict_get m ''data_type'' PNone \<in> PStr ` {''precipitation'', ''vil'', ''binary''}
                   | _ \<Rightarrow> False) then Inr True
          else py_bind (any_word lower BINARY_WORDS (dict_get d ''message_type'' (PStr []))) (\<lambda>t.
               py_bind (if t then Inr True else any_word lower BINARY_WORDS (dict_get d ''command_type'' (PStr []))) (\<lambda>c.
               py_bind (if c then Inr True
                        else any_word upper [''PRECIPITATION'', ''VIL'', ''BINARY'', ''TRANSFER''] (dict_get d ''command_name'' (PStr [])))
                 (\<lambda>n. Inr (n \<or> many_frames d))))
      | _ \<Rightarrow> Inr False)"

section \<open>Precipitation from frames\<close>

definition is_status_frame :: "pyval \<Rightarrow> bool" where
  "is_status_frame f = (case f of PStr s \<Rightarrow> take 3 s = ''100'' | _ \<Rightarrow> False)"

text \<open>The blocks begin at the status words; all but the first lose their status word and the two words after it.\<close>

definition block_ends :: "nat list \<Rightarrow> nat \<Rightarrow> nat list" where "block_ends idx n = tl idx @ [n]"

definition preprocess_frames_list :: "pyval list \<Rightarrow> pyval list" where
  "preprocess_frames_list fs =
     (let idx = filter (\<lambda>i. is_status_frame (fs ! i)) [0..<length fs] in
      if length idx \<le> 1 then fs
      else case zip idx (block_ends idx (length fs)) of
             [] \<Rightarrow> []
           | (s, e) # rest \<Rightarrow> slice s e fs @ concat (map (\<lambda>(s, e). slice (s + 3) e fs) rest))"

definition data_sync_frame :: "pyval \<Rightarrow> bool" where
  "data_sync_frame f = (case f of PStr s \<Rightarrow> take 3 s = ''001'' | _ \<Rightarrow> False)"

definition bound_to :: "rat \<Rightarrow> rat \<Rightarrow> rat" where "bound_to m x = max 0 (min m x)"

definition precip_object :: "int \<Rightarrow> int \<Rightarrow> pyval" where
  "precip_object position_value attribute_value =
     (let x = (drop_bit 8 position_value AND 255) - 128;
          y = (position_value AND 255) - 128;
          type_name = fst (decode_attribute_word attribute_value);
          rate_bits = min 63 (max 0 (drop_bit 6 attribute_value AND 63));
          intensity_bits = min 63 (max 0 (attribute_value AND 63));
          rate = bound_to (fdiv (of_int MAX_CODE) RATE_SCALE) (fdiv (of_int rate_bits) RATE_SCALE);
          intensity = bound_to 1 (fdiv (of_int intensity_bits) INTENSITY_SCALE)
      in PDict [(''position'', PList [PInt x, PInt y]), (''type'', PStr type_name), (''rate'', PFloat rate),
           (''intensity'', PFloat intensity), (''show_values'', PBool False)])"

definition word_value :: "pyval \<Rightarrow> int pyres" where
  "word_value f = (case f of PStr s \<Rightarrow> py_int 2 (slice 3 19 s) | _ \<Rightarrow> Inl TypeError)"

text \<open>One pair of frames: too short or undecodable pairs give nothing.\<close>

definition decode_pair :: "pyval \<Rightarrow> pyval \<Rightarrow> pyval list pyres" where
  "decode_pair position_frame attribute_frame =
     py_bind (item_length position_frame) (\<lambda>n.
       if n < 20 then Inr []
       else py_bind (item_length attribute_frame) (\<lambda>m.
         if m < 20 then Inr []
         else Inr (py_except (py_bind (word_value position_frame) (\<lambda>p.
                py_bind (word_value attribute_frame) (\<lambda>a. Inr [precip_object p a]))) [])))"

text \<open>
  The pairs from an index on, the first argument being the number still to be read. A pair with a wrong sync pattern is
  skipped, unless it is the last one to be read.
\<close>

fun decode_pairs :: "nat \<Rightarrow> pyval list \<Rightarrow> pyval list pyres" where
  "decode_pairs 0 fs = Inr []"
| "decode_pairs (Suc n) (p # a # fs) =
     (if \<not> (data_sync_frame p \<and> data_sync_frame a) \<and> 0 < n then decode_pairs n fs
      else py_bind (decode_pair p a) (\<lambda>xs. py_bind (decode_pairs n fs) (\<lambda>ys. Inr (xs @ ys))))"
| "decode_pairs (Suc n) fs = Inr []"

definition extract_precipitation_data_from_frames :: "pydict list \<Rightarrow> pyval list pyres" where
  "extract_precipitation_data_from_frames msgs =
     (let fs = preprocess_frames_list (concat (map (\<lambda>m. case frame_list m of Some fs \<Rightarrow> fs | None \<Rightarrow> []) msgs)) in
      if length fs < 4 then Inr []
      else py_bind (item_length (fs ! 3)) (\<lambda>n.
        if n < 20 then Inr []
        else case word_value (fs ! 3) of
               Inl ValueError \<Rightarrow> Inr []
             | Inl e \<Rightarrow> (case fs ! 3 of PDict _ \<Rightarrow> Inl Unmodelled | _ \<Rightarrow> Inl e)
             | Inr count \<Rightarrow> decode_pairs (min (nat count) ((length fs - 4) div 2)) (drop 4 fs)))"

definition extract_binary_data :: "pydict \<Rightarrow> pyval list option pyres" where
  "extract_binary_data d =
     (case data_list d of
        Some vs \<Rightarrow>
          if list_all (\<lambda>x. as_int x \<noteq> None) vs then Inr (Some vs)
          else if many_frames d \<and> is_precipitation_message d then
            py_bind (extract_precipitation_data_from_frames [d]) (\<lambda>xs. Inr (if xs = [] then None else Some xs))
          else Inr None
      | None \<Rightarrow>
          if many_frames d \<and> is_precipitation_message d then
            py_bind (extract_precipitation_data_from_frames [d]) (\<lambda>xs. Inr (if xs = [] then None else Some xs))
          else Inr None)"

definition restore_binary_data :: "pydict \<Rightarrow> pyval list option \<Rightarrow> pydict pyres" where
  "restore_binary_data d binary_data =
     (case binary_data of
        None \<Rightarrow> Inr d
      | Some [] \<Rightarrow> Inr d
      | Some (b # bs) \<Rightarrow>
          let d = dict_set ''data'' (PList (b # bs)) d;
              d = (if has_key d ''metadata'' then d else dict_set ''metadata'' (PDict []) d)
          in (case dict_get d ''metadata'' PNone of
                PDict m \<Rightarrow>
                  let m = dict_set ''binary_data_length'' (PInt (int (length (b # bs)))) (dict_set ''binary_data_preserved'' (PBool True) m);
                      m = (case b of
                             PDict o1 \<Rightarrow> if has_key o1 ''position''
                               then dict_set ''data_type'' (PStr ''precipitation'') (dict_set ''precipitation_message'' (PBool True) m) else m
                           | _ \<Rightarrow> m)
                  in Inr (dict_set ''metadata'' (PDict m) d)
              | _ \<Rightarrow> Inl TypeError))"

definition preserve_binary_data :: "pydict \<Rightarrow> pydict pyres" where
  "preserve_binary_data d =
     py_bind (is_binary_data_message (PDict d)) (\<lambda>b.
       if \<not> b then Inr d
       else py_bind (extract_binary_data d) (\<lambda>data.
         case data of Some (x # xs) \<Rightarrow> restore_binary_data d data | _ \<Rightarrow> Inr d))"

section \<open>Transfers\<close>

record collected =
  tf_init :: "pydict option"
  tf_data :: "pydict list"
  tf_complete :: "pydict option"
  tf_start :: rat
  tf_metadata :: pydict
  tf_type :: pyval
  tf_command :: pyval

record aggregator =
  ag_pending :: "(string \<times> collected) list"
  ag_timeouts :: "(string \<times> rat) list"
  ag_last_cleanup :: rat

definition new_aggregator :: "rat \<Rightarrow> aggregator" where
  "new_aggregator t = \<lparr>ag_pending = [], ag_timeouts = [], ag_last_cleanup = t\<rparr>"

definition TRANSFER_TIMEOUT :: rat where "TRANSFER_TIMEOUT = 5"

definition lower_text :: "pyval \<Rightarrow> string pyres" where
  "lower_text v = (case v of PStr s \<Rightarrow> Inr (lower s) | _ \<Rightarrow> Inl AttributeError)"

definition cleanup_expired_transfers :: "rat \<Rightarrow> aggregator \<Rightarrow> aggregator" where
  "cleanup_expired_transfers now g =
     (let expired = map fst (filter (\<lambda>(k, t). t < now) (ag_timeouts g))
      in g\<lparr>ag_pending := filter (\<lambda>(k, _). k \<notin> set expired) (ag_pending g),
           ag_timeouts := filter (\<lambda>(k, _). k \<notin> set expired) (ag_timeouts g)\<rparr>)"

definition precipitation_detected :: "collected \<Rightarrow> pydict \<Rightarrow> string \<Rightarrow> bool" where
  "precipitation_detected tr base t \<longleftrightarrow>
     sublist ''precipitation'' t \<or> is_precipitation_message base \<or> list_ex many_frames (tf_data tr)"

definition vil_detected :: "collected \<Rightarrow> pydict \<Rightarrow> string \<Rightarrow> bool" where
  "vil_detected tr base t \<longleftrightarrow>
     \<not> precipitation_detected tr base t \<and> (sublist ''vil'' t \<or> is_vil_message base \<or> list_ex many_frames (tf_data tr))"

definition command_name_of :: "pydict list \<Rightarrow> pyval option" where
  "command_name_of ds =
     (case filter (\<lambda>d. truthy (dict_get d ''command_name'' PNone)) ds of
        [] \<Rightarrow> None
      | d # _ \<Rightarrow> Some (dict_get d ''command_name'' PNone))"

definition all_data_of :: "pydict list \<Rightarrow> pyval list" where
  "all_data_of ds = concat (map (\<lambda>d. case data_list d of Some vs \<Rightarrow> vs | None \<Rightarrow> []) ds)"

definition set_all :: "pydict \<Rightarrow> pydict \<Rightarrow> pydict" where
  "set_all kvs d = fold (\<lambda>(k, v). dict_set k v) kvs d"

text \<open>The aggregated message of a transfer, from the message it is based on.\<close>

definition aggregate :: "rat \<Rightarrow> collected \<Rightarrow> pydict \<Rightarrow> pydict pyres" where
  "aggregate now tr base =
     py_bind (lower_text (tf_type tr)) (\<lambda>t.
       let precip = precipitation_detected tr base t;
           vil = vil_detected tr base t;
           mtype = (if precip then PStr ''weather_radarPrecipitationResponse''
                    else if vil then PStr ''weather_radarVILResponse'' else tf_type tr);
           ctype = (if precip then PStr ''precipitation_data'' else if vil then PStr ''vil_data'' else tf_command tr);
           found = command_name_of (base # tf_data tr @ (case tf_init tr of Some m \<Rightarrow> [m] | None \<Rightarrow> [])
                                     @ (case tf_complete tr of Some m \<Rightarrow> [m] | None \<Rightarrow> []));
           name = (if precip \<and> (found = None \<or> found = Some (PStr ''NONE'')) then Some (PStr ''DISPLAY_PRECIPITATION_DATA'')
                   else found);
           named = (case name of Some v \<Rightarrow> [(''command_name'', v)] | None \<Rightarrow> []);
           r = set_all ([(''message_type'', mtype), (''command_type'', ctype)] @ named) base;
           r = (if has_key r ''metadata'' then r else dict_set ''metadata'' (PDict []) r)
       in case dict_get r ''metadata'' PNone of
            PDict md \<Rightarrow>
              py_bind (if all_data_of (tf_data tr) = [] \<and> precip then extract_precipitation_data_from_frames (tf_data tr)
                       else Inr (all_data_of (tf_data tr))) (\<lambda>all_data.
                let flags = [(''aggregated_block_transfer'', PBool True), (''aggregation_timestamp'', PFloat now),
                      (''message_type'', mtype), (''command_type'', ctype)] @ named @
                      (if precip then [(''precipitation_message'', PBool True), (''precipitation_data'', PBool True),
                         (''data_type'', PStr ''precipitation''), (''precip_data_available'', PBool True)] else []) @
                      [(''data_size'', PInt (int (length all_data)))]
                in Inr (dict_set ''metadata'' (PDict (set_all (tf_metadata tr @ flags) md)) (dict_set ''data'' (PList all_data) r)))
          | _ \<Rightarrow> Inl AttributeError)"

definition finalize_transfer :: "rat \<Rightarrow> string \<Rightarrow> aggregator \<Rightarrow> pydict option pyres \<times> aggregator" where
  "finalize_transfer now rid g =
     (case map_of (ag_pending g) rid of
        None \<Rightarrow> (Inr None, g)
      | Some tr \<Rightarrow>
          (case (case tf_init tr of Some m \<Rightarrow> [m] | None \<Rightarrow> tf_data tr) of
             [] \<Rightarrow> (Inr None, g)
           | base # _ \<Rightarrow>
               (case aggregate now tr base of
                  Inl e \<Rightarrow> (Inl e, g)
                | Inr m \<Rightarrow> (Inr (Some m), g\<lparr>ag_pending := AList.delete rid (ag_pending g), ag_timeouts := AList.delete rid (ag_timeouts g)\<rparr>))))"

section \<open>Registering a message\<close>

definition new_collected :: "rat \<Rightarrow> pydict \<Rightarrow> pydict option \<Rightarrow> pydict list \<Rightarrow> pydict option \<Rightarrow> pyval \<Rightarrow> pyval \<Rightarrow> collected" where
  "new_collected now d init ds fin mtype ctype =
     \<lparr>tf_init = init, tf_data = ds, tf_complete = fin, tf_start = now, tf_metadata = extract_metadata d, tf_type = mtype,
      tf_command = ctype\<rparr>"

definition put_pending :: "string \<Rightarrow> collected \<Rightarrow> aggregator \<Rightarrow> aggregator" where
  "put_pending rid tr g = g\<lparr>ag_pending := dict_set rid tr (ag_pending g)\<rparr>"

definition put_timeout :: "rat \<Rightarrow> string \<Rightarrow> aggregator \<Rightarrow> aggregator" where
  "put_timeout now rid g = g\<lparr>ag_timeouts := dict_set rid (fadd now TRANSFER_TIMEOUT) (ag_timeouts g)\<rparr>"

definition add_data :: "string \<Rightarrow> pydict \<Rightarrow> aggregator \<Rightarrow> aggregator" where
  "add_data rid d g =
     (case map_of (ag_pending g) rid of
        None \<Rightarrow> g
      | Some tr \<Rightarrow> put_pending rid (tr\<lparr>tf_data := tf_data tr @ [d]\<rparr>) g)"

definition begin_transfer :: "rat \<Rightarrow> string \<Rightarrow> pydict \<Rightarrow> aggregator \<Rightarrow> aggregator" where
  "begin_transfer now rid d g =
     put_timeout now rid (put_pending rid
       (new_collected now d (Some d) [] None (extract_message_type d) (extract_command_type d)) g)"

text \<open>A transfer that begins with a data message; for precipitation the types are corrected.\<close>

definition corrected :: "bool \<Rightarrow> string \<Rightarrow> pyval \<Rightarrow> pyval pyres" where
  "corrected precip right v =
     (if precip then py_bind (lower_text v) (\<lambda>t. Inr (if sublist ''precipitation'' t then v else PStr right)) else Inr v)"

definition begin_with_data :: "rat \<Rightarrow> string \<Rightarrow> pydict \<Rightarrow> aggregator \<Rightarrow> aggregator pyres" where
  "begin_with_data now rid d g =
     py_bind (corrected (is_precipitation_message d) ''weather_radarPrecipitationResponse'' (extract_message_type d)) (\<lambda>mtype.
     py_bind (corrected (is_precipitation_message d) ''precipitation_data'' (extract_command_type d)) (\<lambda>ctype.
       Inr (put_timeout now rid (put_pending rid (new_collected now d None [] None mtype ctype) g))))"

definition number_of :: "pyval \<Rightarrow> rat option" where
  "number_of v = (case v of PFloat q \<Rightarrow> Some q | _ \<Rightarrow> map_option of_int (as_int v))"

definition from_metadata :: "pydict \<Rightarrow> pydict \<Rightarrow> string \<Rightarrow> pyval" where
  "from_metadata m d k = (let v = dict_get m k PNone in if truthy v then v else dict_get d k (PInt 0))"

definition is_final_block :: "pydict \<Rightarrow> bool pyres" where
  "is_final_block d =
     (case dict_get d ''metadata'' (PDict []) of
        PDict m \<Rightarrow>
          (case number_of (from_metadata m d ''total_sequences'') of
             None \<Rightarrow> Inl TypeError
           | Some n \<Rightarrow> Inr (truthy (dict_get d ''is_final'' (PBool False)) \<or> truthy (dict_get m ''is_final'' (PBool False)) \<or>
               (0 < n \<and> number_of (from_metadata m d ''sequence_number'') = Some n)))
      | _ \<Rightarrow> Inl AttributeError)"

definition register_data :: "rat \<Rightarrow> string \<Rightarrow> pydict \<Rightarrow> aggregator \<Rightarrow> pydict option pyres \<times> aggregator" where
  "register_data now rid d g =
     (case (if map_of (ag_pending g) rid \<noteq> None then Inr g else begin_with_data now rid d g) of
        Inl e \<Rightarrow> (Inl e, g)
      | Inr g \<Rightarrow>
          let g = put_timeout now rid (add_data rid d g) in
          (case is_final_block d of
             Inl e \<Rightarrow> (Inl e, g)
           | Inr b \<Rightarrow> if b then finalize_transfer now rid g else (Inr None, g)))"

definition register_complete :: "rat \<Rightarrow> string \<Rightarrow> pydict \<Rightarrow> aggregator \<Rightarrow> pydict option pyres \<times> aggregator" where
  "register_complete now rid d g =
     (case map_of (ag_pending g) rid of
        None \<Rightarrow>
          (case data_list d of
             Some (v # vs) \<Rightarrow>
               finalize_transfer now rid
                 (put_pending rid (new_collected now d None [d] (Some d) (extract_message_type d) (extract_command_type d)) g)
           | _ \<Rightarrow> (Inr (Some d), g))
      | Some tr \<Rightarrow> finalize_transfer now rid (put_pending rid (tr\<lparr>tf_complete := Some d\<rparr>) g))"

definition register_frames :: "rat \<Rightarrow> string \<Rightarrow> pydict \<Rightarrow> aggregator \<Rightarrow> pydict option pyres \<times> aggregator" where
  "register_frames now rid d g =
     (let g = (case map_of (ag_pending g) rid of
                 None \<Rightarrow> put_timeout now rid (put_pending rid
                           (new_collected now d None [d] None (extract_message_type d) (extract_command_type d)) g)
               | Some _ \<Rightarrow> add_data rid d g);
          ds = (case map_of (ag_pending g) rid of Some tr \<Rightarrow> tf_data tr | None \<Rightarrow> [])
      in if data_list d \<notin> {None, Some []} \<or> list_ex (\<lambda>m. data_list m \<notin> {None, Some []}) ds \<or> 1 < length ds
         then finalize_transfer now rid g else (Inr None, g))"

text \<open>\<open>None\<close> stands for a transfer in progress; otherwise the message to be processed.\<close>

definition register_message :: "rat \<Rightarrow> pydict \<Rightarrow> aggregator \<Rightarrow> pydict option pyres \<times> aggregator" where
  "register_message now d g =
     (let g = (if 10 < fsub now (ag_last_cleanup g) then (cleanup_expired_transfers now g)\<lparr>ag_last_cleanup := now\<rparr> else g);
          request_id = dict_get d ''request_id'' PNone
      in case (truthy request_id, request_id) of
           (False, _) \<Rightarrow> (Inr (Some d), g)
         | (True, PStr rid) \<Rightarrow>
             if transfer_flag d ''is_transfer_init'' then (Inr None, begin_transfer now rid d g)
             else if transfer_flag d ''is_transfer_data'' then register_data now rid d g
             else if transfer_flag d ''is_transfer_complete'' then register_complete now rid d g
             else if frame_list d \<noteq> None then register_frames now rid d g
             else (Inr (Some d), g)
         | _ \<Rightarrow> (Inl Unmodelled, g))"

fun register_all :: "(rat \<times> pydict) list \<Rightarrow> aggregator \<Rightarrow> pydict option pyres list \<times> aggregator" where
  "register_all [] g = ([], g)"
| "register_all ((t, d) # ms) g =
     (case register_message t d g of (r, g) \<Rightarrow> (case register_all ms g of (rs, g) \<Rightarrow> (r # rs, g)))"

section \<open>Invariant\<close>

text \<open>
  Every pending transfer has a time-out and at least one message.
\<close>

definition ag_ok :: "aggregator \<Rightarrow> bool" where
  "ag_ok g \<longleftrightarrow> distinct (map fst (ag_timeouts g)) \<and>
     (\<forall>k tr. map_of (ag_pending g) k = Some tr \<longrightarrow> map_of (ag_timeouts g) k \<noteq> None \<and> (tf_init tr \<noteq> None \<or> tf_data tr \<noteq> []))"

lemma map_of_filter_keys: "map_of (filter (\<lambda>(k, _). P k) xs) k = (if P k then map_of xs k else None)"
  by (induction xs) auto

lemma aggregator_simps [simp]:
  "ag_pending (put_pending k tr g) = dict_set k tr (ag_pending g)" "ag_timeouts (put_pending k tr g) = ag_timeouts g"
  "ag_pending (put_timeout t k g) = ag_pending g" "ag_timeouts (put_timeout t k g) = dict_set k (fadd t TRANSFER_TIMEOUT) (ag_timeouts g)"
  by (simp_all add: put_pending_def put_timeout_def)

lemma ag_ok_put:
  "ag_ok g \<Longrightarrow> tf_init tr \<noteq> None \<or> tf_data tr \<noteq> [] \<Longrightarrow> ag_ok (put_timeout t k (put_pending k tr g))"
  by (auto simp: ag_ok_def map_of_dict_set distinct_dict_set)

lemma ag_ok_put_pending:
  "ag_ok g \<Longrightarrow> map_of (ag_pending g) k \<noteq> None \<Longrightarrow> tf_init tr \<noteq> None \<or> tf_data tr \<noteq> [] \<Longrightarrow> ag_ok (put_pending k tr g)"
  by (auto simp: ag_ok_def map_of_dict_set)

lemma ag_ok_put_timeout: "ag_ok g \<Longrightarrow> ag_ok (put_timeout t k g)"
  by (auto simp: ag_ok_def map_of_dict_set distinct_dict_set)

lemma ag_ok_add_data: "ag_ok g \<Longrightarrow> ag_ok (add_data k d g)"
  by (auto simp: add_data_def intro!: ag_ok_put_pending split: option.split)

lemma ag_ok_cleanup: "ag_ok g \<Longrightarrow> ag_ok (cleanup_expired_transfers t g)"
  by (auto simp: ag_ok_def cleanup_expired_transfers_def Let_def map_of_filter_keys distinct_map_filter split: if_splits)

lemma ag_ok_delete:
  "ag_ok g \<Longrightarrow> ag_ok (g\<lparr>ag_pending := AList.delete k (ag_pending g), ag_timeouts := AList.delete k (ag_timeouts g)\<rparr>)"
  by (auto simp: ag_ok_def delete_conv' distinct_delete split: if_splits)

lemma ag_ok_last: "ag_ok (g\<lparr>ag_last_cleanup := t\<rparr>) = ag_ok g"
  by (simp add: ag_ok_def)

lemma finalize_cases:
  "finalize_transfer now rid g = (r, g') \<Longrightarrow>
   g' = g \<or> is_ok r \<and> g' = g\<lparr>ag_pending := AList.delete rid (ag_pending g), ag_timeouts := AList.delete rid (ag_timeouts g)\<rparr>"
  by (auto simp: finalize_transfer_def split: option.splits list.splits sum.splits)

lemma ag_ok_finalize: "ag_ok g \<Longrightarrow> finalize_transfer now rid g = (r, g') \<Longrightarrow> ag_ok g'"
  using finalize_cases [of now rid g r g'] ag_ok_delete by auto

lemma begin_with_data_ok: "ag_ok g \<Longrightarrow> begin_with_data now rid d g = Inr g1 \<Longrightarrow> ag_ok (put_timeout t rid (add_data rid d g1))"
proof -
  assume a: "ag_ok g" "begin_with_data now rid d g = Inr g1"
  then obtain tr where g1: "g1 = put_timeout now rid (put_pending rid tr g)"
    by (auto simp: begin_with_data_def py_bind_eq_Inr)
  have "put_timeout t rid (add_data rid d g1) =
      put_timeout t rid (put_pending rid (tr\<lparr>tf_data := tf_data tr @ [d]\<rparr>) (put_timeout now rid (put_pending rid tr g)))"
    by (simp add: g1 add_data_def map_of_dict_set)
  also have "ag_ok \<dots>"
    using a(1) by (auto simp: ag_ok_def map_of_dict_set distinct_dict_set)
  finally show ?thesis .
qed

lemma register_data_ok:
  assumes "ag_ok g" "register_data now rid d g = (r, g')" shows "ag_ok g'"
proof (cases "map_of (ag_pending g) rid")
  case None
  show ?thesis
  proof (cases "begin_with_data now rid d g")
    case (Inr g1)
    then have "ag_ok (put_timeout now rid (add_data rid d g1))" using begin_with_data_ok [OF assms(1)] by blast
    then show ?thesis
      using assms(2) None Inr ag_ok_finalize by (auto simp: register_data_def Let_def split: sum.splits if_splits)
  qed (use assms None in \<open>auto simp: register_data_def\<close>)
next
  case (Some tr)
  have "ag_ok (put_timeout now rid (add_data rid d g))" by (intro ag_ok_put_timeout ag_ok_add_data assms(1))
  then show ?thesis
    using assms(2) Some ag_ok_finalize by (auto simp: register_data_def Let_def split: sum.splits if_splits)
qed

lemma register_complete_ok:
  assumes "ag_ok g" "register_complete now rid d g = (Inr m, g')" shows "ag_ok g'"
proof (cases "map_of (ag_pending g) rid")
  case (Some tr)
  then have "ag_ok (put_pending rid (tr\<lparr>tf_complete := Some d\<rparr>) g)"
    using assms(1) by (intro ag_ok_put_pending) (auto simp: ag_ok_def)
  then show ?thesis using assms(2) Some ag_ok_finalize by (auto simp: register_complete_def)
next
  case None
  show ?thesis
  proof (cases "data_list d")
    case (Some vs)
    show ?thesis
    proof (cases vs)
      case (Cons x xs)
      let ?g = "put_pending rid (new_collected now d None [d] (Some d) (extract_message_type d) (extract_command_type d)) g"
      have "finalize_transfer now rid ?g = (Inr m, g')" using assms(2) None Some Cons by (simp add: register_complete_def)
      then have "g' = ?g\<lparr>ag_pending := AList.delete rid (ag_pending ?g), ag_timeouts := AList.delete rid (ag_timeouts ?g)\<rparr>"
        by (auto simp: finalize_transfer_def map_of_dict_set new_collected_def split: sum.splits)
      then show ?thesis
        using assms(1) by (auto simp: ag_ok_def delete_conv' map_of_dict_set distinct_delete split: if_splits)
    qed (use assms None Some in \<open>auto simp: register_complete_def\<close>)
  qed (use assms None in \<open>auto simp: register_complete_def\<close>)
qed

lemma register_frames_ok:
  assumes "ag_ok g" "register_frames now rid d g = (r, g')" shows "ag_ok g'"
proof -
  let ?g = "case map_of (ag_pending g) rid of
      None \<Rightarrow> put_timeout now rid (put_pending rid (new_collected now d None [d] None (extract_message_type d) (extract_command_type d)) g)
    | Some _ \<Rightarrow> add_data rid d g"
  have "ag_ok ?g" using assms(1) by (auto intro!: ag_ok_put ag_ok_add_data simp: new_collected_def split: option.split)
  then show ?thesis using assms(2) ag_ok_finalize by (auto simp: register_frames_def Let_def split: if_splits)
qed

lemma register_message_ok:
  assumes "ag_ok g" "register_message now d g = (Inr m, g')" shows "ag_ok g'"
proof -
  define g1 where "g1 = (if 10 < fsub now (ag_last_cleanup g) then (cleanup_expired_transfers now g)\<lparr>ag_last_cleanup := now\<rparr> else g)"
  have g1: "ag_ok g1" using assms(1) by (simp add: g1_def ag_ok_last ag_ok_cleanup)
  have "ag_ok (begin_transfer now rid d g1)" for rid
    unfolding begin_transfer_def by (rule ag_ok_put [OF g1]) (simp add: new_collected_def)
  then show ?thesis
    using assms(2) g1 register_data_ok [OF g1] register_complete_ok [OF g1] register_frames_ok [OF g1]
    unfolding register_message_def Let_def g1_def [symmetric]
    by (auto split: bool.splits pyval.splits if_splits)
qed

section \<open>A transfer in order\<close>

definition carries :: "string \<Rightarrow> pydict \<Rightarrow> bool" where
  "carries rid d \<longleftrightarrow> rid \<noteq> [] \<and> dict_get d ''request_id'' PNone = PStr rid"

definition opens :: "string \<Rightarrow> pydict \<Rightarrow> bool" where
  "opens rid d \<longleftrightarrow> carries rid d \<and> transfer_flag d ''is_transfer_init''"

definition continues :: "string \<Rightarrow> pydict \<Rightarrow> bool" where
  "continues rid d \<longleftrightarrow> carries rid d \<and> \<not> transfer_flag d ''is_transfer_init'' \<and> transfer_flag d ''is_transfer_data''"

text \<open>Each message comes before the time-out set by the one before it.\<close>

fun in_time :: "rat \<Rightarrow> rat list \<Rightarrow> bool" where
  "in_time t [] = True"
| "in_time t (u # us) = (u \<le> fadd t TRANSFER_TIMEOUT \<and> in_time u us)"

text \<open>The aggregator is collecting the transfer, which is what was stored and was last heard of at a time.\<close>

definition collecting_transfer :: "string \<Rightarrow> collected \<Rightarrow> rat \<Rightarrow> aggregator \<Rightarrow> bool" where
  "collecting_transfer rid tr t g \<longleftrightarrow> distinct (map fst (ag_timeouts g)) \<and> map_of (ag_pending g) rid = Some tr \<and>
     map_of (ag_timeouts g) rid = Some (fadd t TRANSFER_TIMEOUT)"

lemma collecting_cleanup:
  assumes "collecting_transfer rid tr t g" "u \<le> fadd t TRANSFER_TIMEOUT"
  shows "collecting_transfer rid tr t (cleanup_expired_transfers u g)"
proof -
  have "\<not> v < u" if "(rid, v) \<in> set (ag_timeouts g)" for v
    using that assms by (auto simp: collecting_transfer_def dest: map_of_is_SomeI)
  then have "rid \<notin> set (map fst (filter (\<lambda>(k, v). v < u) (ag_timeouts g)))" by auto
  then show ?thesis
    using assms(1)
    by (simp add: collecting_transfer_def cleanup_expired_transfers_def Let_def map_of_filter_keys distinct_map_filter)
qed

lemma before_register:
  assumes "collecting_transfer rid tr t g" "u \<le> fadd t TRANSFER_TIMEOUT"
  shows "collecting_transfer rid tr t
    (if 10 < fsub u (ag_last_cleanup g) then (cleanup_expired_transfers u g)\<lparr>ag_last_cleanup := u\<rparr> else g)"
  using collecting_cleanup [OF assms] assms(1) by (auto simp: collecting_transfer_def)

lemma register_opening:
  assumes "opens rid d" "distinct (map fst (ag_timeouts g))"
  shows "\<exists>g'. register_message t d g = (Inr None, g') \<and>
    collecting_transfer rid (new_collected t d (Some d) [] None (extract_message_type d) (extract_command_type d)) t g'"
proof -
  let ?g = "if 10 < fsub t (ag_last_cleanup g) then (cleanup_expired_transfers t g)\<lparr>ag_last_cleanup := t\<rparr> else g"
  have "register_message t d g = (Inr None, begin_transfer t rid d ?g)"
    using assms(1) by (simp add: register_message_def opens_def carries_def Let_def)
  moreover have "distinct (map fst (ag_timeouts ?g))"
    using assms(2) by (simp add: cleanup_expired_transfers_def Let_def distinct_map_filter)
  then have "collecting_transfer rid (new_collected t d (Some d) [] None (extract_message_type d) (extract_command_type d)) t
      (begin_transfer t rid d ?g)"
    unfolding collecting_transfer_def begin_transfer_def by (simp add: map_of_dict_set distinct_dict_set)
  ultimately show ?thesis by blast
qed

lemma register_continuing:
  assumes "continues rid d" "collecting_transfer rid tr t g" "u \<le> fadd t TRANSFER_TIMEOUT" "is_final_block d = Inr b"
  shows "\<exists>g'. collecting_transfer rid (tr\<lparr>tf_data := tf_data tr @ [d]\<rparr>) u g' \<and>
    register_message u d g = (if b then finalize_transfer u rid g' else (Inr None, g'))"
proof -
  let ?g = "if 10 < fsub u (ag_last_cleanup g) then (cleanup_expired_transfers u g)\<lparr>ag_last_cleanup := u\<rparr> else g"
  note c = before_register [OF assms(2,3)]
  let ?g' = "put_timeout u rid (add_data rid d ?g)"
  have r: "register_message u d g = register_data u rid d ?g"
    using assms(1) by (simp add: register_message_def continues_def carries_def Let_def)
  have p: "map_of (ag_pending ?g) rid = Some tr" using c unfolding collecting_transfer_def by blast
  have "collecting_transfer rid (tr\<lparr>tf_data := tf_data tr @ [d]\<rparr>) u ?g'"
    using c p unfolding collecting_transfer_def add_data_def p option.case
    by (simp add: map_of_dict_set distinct_dict_set)
  moreover have "register_data u rid d ?g = (if b then finalize_transfer u rid ?g' else (Inr None, ?g'))"
    unfolding register_data_def using p by (simp add: assms(4) Let_def)
  ultimately show ?thesis using r by metis
qed

lemma collect_blocks:
  assumes "\<forall>(u, d)\<in>set ps. continues rid d \<and> is_final_block d = Inr False" "collecting_transfer rid tr t g" "in_time t (map fst ps @ us)"
  shows "\<exists>g' t'. register_all ps g = (replicate (length ps) (Inr None), g') \<and>
    collecting_transfer rid (tr\<lparr>tf_data := tf_data tr @ map snd ps\<rparr>) t' g' \<and> in_time t' us"
  using assms
proof (induction ps arbitrary: tr t g)
  case Nil
  then show ?case by auto
next
  case (Cons p ps)
  obtain u d where p: "p = (u, d)" by (rule prod.exhaust)
  have u: "u \<le> fadd t TRANSFER_TIMEOUT" "in_time u (map fst ps @ us)" using Cons.prems(3) by (simp_all add: p)
  have d: "continues rid d" "is_final_block d = Inr False" using Cons.prems(1) by (auto simp: p)
  obtain g1 where 1: "collecting_transfer rid (tr\<lparr>tf_data := tf_data tr @ [d]\<rparr>) u g1" "register_message u d g = (Inr None, g1)"
    using register_continuing [OF d(1) Cons.prems(2) u(1) d(2)] by auto
  have "\<forall>(u, d)\<in>set ps. continues rid d \<and> is_final_block d = Inr False" using Cons.prems(1) by simp
  from Cons.IH [OF this 1(1) u(2)] show ?case by (auto simp: p 1(2))
qed

text \<open>The aggregated message exists and holds the data of all blocks.\<close>

definition has_metadata_dict :: "pydict \<Rightarrow> bool" where
  "has_metadata_dict d \<longleftrightarrow> (case map_of d ''metadata'' of None \<Rightarrow> True | Some v \<Rightarrow> as_dict v \<noteq> None)"

lemma map_of_set_all: "k \<notin> fst ` set kvs \<Longrightarrow> map_of (set_all kvs d) k = map_of d k"
  unfolding set_all_def by (induction kvs arbitrary: d) (auto simp: map_of_dict_set)

lemma set_all_Cons: "set_all ((k, v) # kvs) d = set_all kvs (dict_set k v d)"
  by (simp add: set_all_def)

lemma aggregate_data:
  assumes "tf_type tr = PStr s" "has_metadata_dict base"
    "(if all_data_of (tf_data tr) = [] \<and> precipitation_detected tr base (lower s)
      then extract_precipitation_data_from_frames (tf_data tr) else Inr (all_data_of (tf_data tr))) = Inr xs"
  shows "\<exists>m. aggregate now tr base = Inr m \<and> map_of m ''data'' = Some (PList xs) \<and>
    map_of m ''message_type'' = Some
      (if precipitation_detected tr base (lower s) then PStr ''weather_radarPrecipitationResponse''
       else if vil_detected tr base (lower s) then PStr ''weather_radarVILResponse'' else PStr s)"
proof -
  define mtype where "mtype = (if precipitation_detected tr base (lower s) then PStr ''weather_radarPrecipitationResponse''
       else if vil_detected tr base (lower s) then PStr ''weather_radarVILResponse'' else PStr s)"
  have r: "\<exists>md. dict_get (if has_key q ''metadata'' then q else dict_set ''metadata'' (PDict []) q) ''metadata'' PNone = PDict md"
    if q: "q = set_all ([(''message_type'', a), (''command_type'', b)] @ (case name of Some v \<Rightarrow> [(''command_name'', v)] | None \<Rightarrow> [])) base"
    for q a b name
  proof -
    have "map_of q ''metadata'' = map_of base ''metadata''" unfolding q by (rule map_of_set_all) (auto split: option.split)
    then show ?thesis
      using assms(2) by (cases "map_of base ''metadata''") (auto simp: has_metadata_dict_def has_key_def dict_get_def map_of_dict_set elim: as_dict.elims)
  qed
  have t: "map_of (set_all ([(''message_type'', a), (''command_type'', b)] @ (case name of Some v \<Rightarrow> [(''command_name'', v)] | None \<Rightarrow> [])) base)
      ''message_type'' = Some a" for a b name
    by (cases name) (simp_all add: set_all_def map_of_dict_set)
  define ctype where "ctype = (if precipitation_detected tr base (lower s) then PStr ''precipitation_data''
       else if vil_detected tr base (lower s) then PStr ''vil_data'' else tf_command tr)"
  define found where "found = command_name_of (base # tf_data tr @ (case tf_init tr of Some m \<Rightarrow> [m] | None \<Rightarrow> [])
                                     @ (case tf_complete tr of Some m \<Rightarrow> [m] | None \<Rightarrow> []))"
  define name where "name = (if precipitation_detected tr base (lower s) \<and> (found = None \<or> found = Some (PStr ''NONE''))
       then Some (PStr ''DISPLAY_PRECIPITATION_DATA'') else found)"
  define q where "q = set_all ([(''message_type'', mtype), (''command_type'', ctype)] @
       (case name of Some v \<Rightarrow> [(''command_name'', v)] | None \<Rightarrow> [])) base"
  define q' where "q' = (if has_key q ''metadata'' then q else dict_set ''metadata'' (PDict []) q)"
  obtain md where md: "dict_get q' ''metadata'' PNone = PDict md" using r [OF q_def] unfolding q'_def by blast
  have "\<exists>F. aggregate now tr base = Inr (dict_set ''metadata'' F (dict_set ''data'' (PList xs) q'))"
    unfolding aggregate_def lower_text_def assms(1) pyval.case py_bind_simps Let_def mtype_def [symmetric] ctype_def [symmetric]
      found_def [symmetric] name_def [symmetric] q_def [symmetric] q'_def [symmetric] md assms(3)
    by (simp del: split_paired_Ex split_paired_All) blast
  moreover have "map_of q' ''message_type'' = Some mtype"
    using t unfolding q'_def q_def by (simp add: map_of_dict_set)
  ultimately show ?thesis unfolding mtype_def [symmetric] by (auto simp: map_of_dict_set)
qed

lemma finalize_collected:
  assumes "collecting_transfer rid tr t g" "tf_init tr = Some d0" "aggregate u tr d0 = Inr m"
  shows "finalize_transfer u rid g = (Inr (Some m), g\<lparr>ag_pending := AList.delete rid (ag_pending g), ag_timeouts := AList.delete rid (ag_timeouts g)\<rparr>)"
  using assms by (simp add: finalize_transfer_def collecting_transfer_def)

lemma register_all_append:
  "register_all (ms @ ns) g = (case register_all ms g of (rs, g1) \<Rightarrow> (case register_all ns g1 of (qs, g2) \<Rightarrow> (rs @ qs, g2)))"
  by (induction ms g rule: register_all.induct) (auto split: prod.splits)

text \<open>The whole run: an opening message, blocks, and the block that is final.\<close>

definition final_collected :: "rat \<Rightarrow> pydict \<Rightarrow> pydict list \<Rightarrow> collected" where
  "final_collected t d0 ds = new_collected t d0 (Some d0) ds None (extract_message_type d0) (extract_command_type d0)"

lemma transfer_run:
  assumes "opens rid d0" "\<forall>(u, d)\<in>set ps. continues rid d \<and> is_final_block d = Inr False" "continues rid dl" "is_final_block dl = Inr True"
    "in_time t0 (map fst ps @ [te])" "distinct (map fst (ag_timeouts g))"
    "aggregate te (final_collected t0 d0 (map snd ps @ [dl])) d0 = Inr m"
  shows "\<exists>g'. register_all ((t0, d0) # ps @ [(te, dl)]) g = (replicate (length ps + 1) (Inr None) @ [Inr (Some m)], g') \<and>
    map_of (ag_pending g') rid = None"
proof -
  obtain g1 where 1: "register_message t0 d0 g = (Inr None, g1)"
      "collecting_transfer rid (final_collected t0 d0 []) t0 g1"
    using register_opening [OF assms(1,6)] by (auto simp: final_collected_def)
  obtain g2 t2 where 2: "register_all ps g1 = (replicate (length ps) (Inr None), g2)"
      "collecting_transfer rid ((final_collected t0 d0 [])\<lparr>tf_data := tf_data (final_collected t0 d0 []) @ map snd ps\<rparr>) t2 g2" "in_time t2 [te]"
    using collect_blocks [OF assms(2) 1(2) assms(5)] by blast
  have 3: "(final_collected t0 d0 [])\<lparr>tf_data := tf_data (final_collected t0 d0 []) @ ds\<rparr> = final_collected t0 d0 ds" for ds
    by (simp add: final_collected_def new_collected_def)
  have c: "collecting_transfer rid (final_collected t0 d0 (map snd ps)) t2 g2" using 2(2) unfolding 3 .
  obtain g3 where 4: "collecting_transfer rid ((final_collected t0 d0 (map snd ps))\<lparr>tf_data := tf_data (final_collected t0 d0 (map snd ps)) @ [dl]\<rparr>) te g3"
      "register_message te dl g2 = finalize_transfer te rid g3"
    using register_continuing [OF assms(3) c _ assms(4), of te] 2(3) by auto
  have 5: "(final_collected t0 d0 (map snd ps))\<lparr>tf_data := tf_data (final_collected t0 d0 (map snd ps)) @ [dl]\<rparr> =
      final_collected t0 d0 (map snd ps @ [dl])" by (simp add: final_collected_def new_collected_def)
  have "tf_init (final_collected t0 d0 (map snd ps @ [dl])) = Some d0" by (simp add: final_collected_def new_collected_def)
  from finalize_collected [OF 4(1) [unfolded 5] this assms(7)]
  obtain g4 where "register_message te dl g2 = (Inr (Some m), g4)" "map_of (ag_pending g4) rid = None"
    unfolding 4(2) by (auto simp: delete_conv')
  then show ?thesis using 1(1) 2(1) by (auto simp: register_all_append)
qed

section \<open>Properties\<close>

text \<open>
  As long as no registration raises, every pending transfer has a time-out, after which the clean-up removes it, and
  at least one message, from which its aggregated message can be made.
\<close>

theorem aggregator_state_sound:
  assumes "register_all ms (new_aggregator t) = (rs, g)" "list_all is_ok rs" "map_of (ag_pending g) k = Some tr"
  shows "map_of (ag_timeouts g) k \<noteq> None \<and> (tf_init tr \<noteq> None \<or> tf_data tr \<noteq> [])"
proof -
  have "ag_ok h \<Longrightarrow> register_all ms h = (rs, g) \<Longrightarrow> list_all is_ok rs \<Longrightarrow> ag_ok g" for h
  proof (induction ms arbitrary: h rs)
    case (Cons p ms)
    obtain u d where p: "p = (u, d)" by (rule prod.exhaust)
    obtain r h1 where 1: "register_message u d h = (r, h1)" by (rule prod.exhaust)
    obtain qs h2 where 2: "register_all ms h1 = (qs, h2)" by (rule prod.exhaust)
    from Cons.prems 1 2 have ok: "is_ok r" "list_all is_ok qs" "h2 = g" by (auto simp: p)
    moreover have "ag_ok h1" using ok(1) register_message_ok [OF Cons.prems(1)] 1 by (auto simp: is_ok_iff)
    ultimately show ?case using Cons.IH [of h1 qs] 2 by simp
  qed simp
  moreover have "ag_ok (new_aggregator t)" by (simp add: ag_ok_def new_aggregator_def)
  ultimately have "ag_ok g" using assms(1,2) by blast
  then show ?thesis using assms(3) unfolding ag_ok_def by blast
qed

text \<open>
  C22. A transfer whose messages arrive in order and in time is handed on once, at its final block, with the data of all
  its blocks in the order of arrival; until then nothing is handed on, and afterwards the transfer is forgotten.
\<close>

theorem transfer_aggregated:
  assumes "opens rid d0" "\<forall>(u, d)\<in>set ps. continues rid d \<and> is_final_block d = Inr False" "continues rid dl" "is_final_block dl = Inr True"
    "in_time t0 (map fst ps @ [te])" "distinct (map fst (ag_timeouts g))"
    "extract_message_type d0 = PStr s" "has_metadata_dict d0" "all_data_of (map snd ps @ [dl]) \<noteq> []"
  shows "\<exists>m g'. register_all ((t0, d0) # ps @ [(te, dl)]) g = (replicate (length ps + 1) (Inr None) @ [Inr (Some m)], g') \<and>
    map_of m ''data'' = Some (PList (all_data_of (map snd ps @ [dl]))) \<and> map_of (ag_pending g') rid = None"
proof -
  let ?tr = "final_collected t0 d0 (map snd ps @ [dl])"
  have tr: "tf_type ?tr = PStr s" "tf_data ?tr = map snd ps @ [dl]"
    using assms(7) by (simp_all add: final_collected_def new_collected_def)
  have "(if all_data_of (tf_data ?tr) = [] \<and> precipitation_detected ?tr d0 (lower s)
      then extract_precipitation_data_from_frames (tf_data ?tr) else Inr (all_data_of (tf_data ?tr))) =
      Inr (all_data_of (map snd ps @ [dl]))" using assms(9) by (simp add: tr(2))
  from aggregate_data [OF tr(1) assms(8) this, of te] obtain m where
    m: "aggregate te ?tr d0 = Inr m" "map_of m ''data'' = Some (PList (all_data_of (map snd ps @ [dl])))" by blast
  from transfer_run [OF assms(1-6) m(1)] show ?thesis using m(2) by blast
qed

lemma register_unknown_block:
  assumes "continues rid d" "map_of (ag_pending g) rid = None" "is_final_block d = Inr False"
    "as_str (extract_message_type d) \<noteq> None" "as_str (extract_command_type d) \<noteq> None"
  shows "\<exists>g' tr. register_message u d g = (Inr None, g') \<and> map_of (ag_pending g') rid = Some tr \<and> tf_init tr = None \<and> tf_data tr = [d]"
proof -
  let ?g = "if 10 < fsub u (ag_last_cleanup g) then (cleanup_expired_transfers u g)\<lparr>ag_last_cleanup := u\<rparr> else g"
  have p: "map_of (ag_pending ?g) rid = None"
    using assms(2) by (simp add: cleanup_expired_transfers_def Let_def map_of_filter_keys)
  have c: "is_ok (corrected precip right v)" if "as_str v \<noteq> None" for precip right v
    using that by (cases v) (simp_all add: corrected_def lower_text_def)
  obtain a b where "corrected (is_precipitation_message d) ''weather_radarPrecipitationResponse'' (extract_message_type d) = Inr a"
    "corrected (is_precipitation_message d) ''precipitation_data'' (extract_command_type d) = Inr b"
    using c [OF assms(4)] c [OF assms(5)] unfolding is_ok_iff by blast
  then have "begin_with_data u rid d ?g = Inr (put_timeout u rid (put_pending rid (new_collected u d None [] None a b) ?g))"
    by (simp add: begin_with_data_def)
  then have "register_data u rid d ?g = (Inr None, put_timeout u rid (add_data rid d
      (put_timeout u rid (put_pending rid (new_collected u d None [] None a b) ?g))))"
    using p assms(3) unfolding register_data_def Let_def p by simp
  moreover have "register_message u d g = register_data u rid d ?g"
    using assms(1) by (simp add: register_message_def continues_def carries_def Let_def)
  ultimately show ?thesis by (simp add: add_data_def map_of_dict_set new_collected_def)
qed

text \<open>
  A final block that overtakes another ends the transfer without it: the message handed on lacks the data of the late
  block, with no sign of it, and the late block begins a transfer of its own, which nothing completes.
\<close>

theorem early_final_block_truncates:
  assumes "opens rid d0" "\<forall>(u, d)\<in>set ps. continues rid d \<and> is_final_block d = Inr False" "continues rid dl" "is_final_block dl = Inr True"
    "in_time t0 (map fst ps @ [te])" "distinct (map fst (ag_timeouts g))"
    "extract_message_type d0 = PStr s" "has_metadata_dict d0" "all_data_of (map snd ps @ [dl]) \<noteq> []"
    "continues rid late" "is_final_block late = Inr False"
    "as_str (extract_message_type late) \<noteq> None" "as_str (extract_command_type late) \<noteq> None"
  shows "\<exists>m g' tr. register_all ((t0, d0) # ps @ [(te, dl), (tz, late)]) g =
      (replicate (length ps + 1) (Inr None) @ [Inr (Some m), Inr None], g') \<and>
    map_of m ''data'' = Some (PList (all_data_of (map snd ps @ [dl]))) \<and>
    map_of (ag_pending g') rid = Some tr \<and> tf_init tr = None \<and> tf_data tr = [late]"
proof -
  let ?tr = "final_collected t0 d0 (map snd ps @ [dl])"
  have tr: "tf_type ?tr = PStr s" "tf_data ?tr = map snd ps @ [dl]"
    using assms(7) by (simp_all add: final_collected_def new_collected_def)
  have "(if all_data_of (tf_data ?tr) = [] \<and> precipitation_detected ?tr d0 (lower s)
      then extract_precipitation_data_from_frames (tf_data ?tr) else Inr (all_data_of (tf_data ?tr))) =
      Inr (all_data_of (map snd ps @ [dl]))" using assms(9) by (simp add: tr(2))
  from aggregate_data [OF tr(1) assms(8) this, of te] obtain m where
    m: "aggregate te ?tr d0 = Inr m" "map_of m ''data'' = Some (PList (all_data_of (map snd ps @ [dl])))" by blast
  from transfer_run [OF assms(1-6) m(1)] obtain g1 where
    1: "register_all ((t0, d0) # ps @ [(te, dl)]) g = (replicate (length ps + 1) (Inr None) @ [Inr (Some m)], g1)"
      "map_of (ag_pending g1) rid = None" by blast
  obtain g2 tr2 where 2: "register_message tz late g1 = (Inr None, g2)" "map_of (ag_pending g2) rid = Some tr2" "tf_init tr2 = None"
      "tf_data tr2 = [late]"
    using register_unknown_block [OF assms(10) 1(2) assms(11-13)] by blast
  have "register_all (((t0, d0) # ps @ [(te, dl)]) @ [(tz, late)]) g =
      (replicate (length ps + 1) (Inr None) @ [Inr (Some m), Inr None], g2)"
    unfolding register_all_append 1(1) by (simp add: 2(1))
  then have "register_all ((t0, d0) # ps @ [(te, dl), (tz, late)]) g =
      (replicate (length ps + 1) (Inr None) @ [Inr (Some m), Inr None], g2)" by simp
  then show ?thesis using m(2) 2(2-4) by blast
qed

text \<open>
  Large blocks make every transfer precipitation: when some block has more than 20 frames the message handed on is
  typed as a precipitation response, whatever the radar sent, with what the decoder of precipitation makes of the frames.
\<close>

theorem large_blocks_taken_for_precipitation:
  assumes "opens rid d0" "\<forall>(u, d)\<in>set ps. continues rid d \<and> is_final_block d = Inr False" "continues rid dl" "is_final_block dl = Inr True"
    "in_time t0 (map fst ps @ [te])" "distinct (map fst (ag_timeouts g))"
    "extract_message_type d0 = PStr s" "has_metadata_dict d0" "list_ex many_frames (map snd ps @ [dl])"
    "all_data_of (map snd ps @ [dl]) = []" "extract_precipitation_data_from_frames (map snd ps @ [dl]) = Inr xs"
  shows "\<exists>m g'. register_all ((t0, d0) # ps @ [(te, dl)]) g = (replicate (length ps + 1) (Inr None) @ [Inr (Some m)], g') \<and>
    map_of m ''message_type'' = Some (PStr ''weather_radarPrecipitationResponse'') \<and> map_of m ''data'' = Some (PList xs)"
proof -
  let ?tr = "final_collected t0 d0 (map snd ps @ [dl])"
  have tr: "tf_type ?tr = PStr s" "tf_data ?tr = map snd ps @ [dl]"
    using assms(7) by (simp_all add: final_collected_def new_collected_def)
  have p: "precipitation_detected ?tr d0 (lower s)" unfolding precipitation_detected_def tr(2) using assms(9) by blast
  have "(if all_data_of (tf_data ?tr) = [] \<and> precipitation_detected ?tr d0 (lower s)
      then extract_precipitation_data_from_frames (tf_data ?tr) else Inr (all_data_of (tf_data ?tr))) = Inr xs"
    using p assms(10,11) by (simp add: tr(2))
  from aggregate_data [OF tr(1) assms(8) this, of te] p obtain m where
    m: "aggregate te ?tr d0 = Inr m" "map_of m ''data'' = Some (PList xs)"
      "map_of m ''message_type'' = Some (PStr ''weather_radarPrecipitationResponse'')" by auto
  from transfer_run [OF assms(1-6) m(1)] show ?thesis using m(2,3) by blast
qed

text \<open>
  A message that is complete in itself is withheld: a message with frames and without data that belongs to no
  transfer is taken for part of one, so nothing is handed on for it.
\<close>

theorem lone_message_withheld:
  assumes "carries rid d" "\<not> list_ex (transfer_flag d) TRANSFER_FLAGS" "frame_list d = Some fs" "fs \<noteq> []" "data_list d = None"
    "map_of (ag_pending g) rid = None"
  shows "is_transfer_message (PDict d) = Inr True \<and> fst (register_message t d g) = Inr None"
proof -
  have f: "map_of d ''frames'' = Some (PList fs)" using assms(3) by (auto simp: frame_list_def split: option.splits pyval.splits)
  have "is_transfer_message (PDict d) = Inr True"
    using assms(2,4) f by (simp add: is_transfer_message_def has_key_def dict_get_def item_length_def)
  moreover have "\<not> transfer_flag d k" if "k \<in> set TRANSFER_FLAGS" for k using assms(2) that by (auto simp: list_ex_iff)
  then have flags: "\<not> transfer_flag d ''is_transfer_init''" "\<not> transfer_flag d ''is_transfer_data''" "\<not> transfer_flag d ''is_transfer_complete''"
    by (simp_all add: TRANSFER_FLAGS_def)
  have "fst (register_message t d g) = Inr None"
    using assms(1,3,5,6) flags
    by (auto simp: register_message_def carries_def Let_def register_frames_def cleanup_expired_transfers_def map_of_filter_keys
        map_of_dict_set new_collected_def)
  ultimately show ?thesis by blast
qed

section \<open>Witnesses\<close>

definition sample_init :: pydict where
  "sample_init = [(''request_id'', PStr ''r1''), (''is_transfer_init'', PBool True), (''message_type'', PStr ''radar'')]"

definition sample_block :: "int \<Rightarrow> bool \<Rightarrow> pydict" where
  "sample_block n fin = [(''request_id'', PStr ''r1''), (''is_transfer_data'', PBool True), (''data'', PList [PInt n]), (''is_final'', PBool fin)]"

definition frame_block :: pydict where
  "frame_block = [(''request_id'', PStr ''r1''), (''is_transfer_data'', PBool True), (''frames'', PList (replicate 21 (PStr ''x''))),
     (''is_final'', PBool True)]"

lemma sample_opens: "opens ''r1'' sample_init" "extract_message_type sample_init = PStr ''radar''" "has_metadata_dict sample_init"
  by (simp_all add: opens_def carries_def sample_init_def transfer_flag_def dict_get_def extract_message_type_def original_type_def
      metadata_dict_def has_metadata_dict_def)

lemma sample_continues: "continues ''r1'' (sample_block n fin)" "is_final_block (sample_block n fin) = Inr fin"
  "data_list (sample_block n fin) = Some [PInt n]"
  by (simp_all add: continues_def carries_def sample_block_def transfer_flag_def dict_get_def is_final_block_def from_metadata_def
      number_of_def data_list_def)

lemma frame_block_continues: "continues ''r1'' frame_block" "is_final_block frame_block = Inr True" "many_frames frame_block"
  "data_list frame_block = None"
  by (simp_all add: continues_def carries_def frame_block_def transfer_flag_def dict_get_def is_final_block_def from_metadata_def
      number_of_def data_list_def many_frames_def frame_list_def)

lemma sample_times: "in_time 1 [2, 3]" "in_time 1 [2]"
proof -
  have "fadd 1 5 = 6" "fadd 2 5 = 7" using fl_of_int [of 6] fl_of_int [of 7] by (simp_all add: fadd_def)
  then show "in_time 1 [2, 3]" "in_time 1 [2]" by (simp_all add: TRANSFER_TIMEOUT_def)
qed

lemma no_timeouts: "distinct (map fst (ag_timeouts (new_aggregator t)))" "ag_pending (new_aggregator t) = []"
  by (simp_all add: new_aggregator_def)

theorem aggregator_state_sound_witness:
  "\<exists>g tr. register_all [(1, sample_init)] (new_aggregator 0) = ([Inr None], g) \<and> map_of (ag_pending g) ''r1'' = Some tr \<and>
     map_of (ag_timeouts g) ''r1'' \<noteq> None"
proof -
  obtain g where g: "register_message 1 sample_init (new_aggregator 0) = (Inr None, g)"
      "collecting_transfer ''r1'' (new_collected 1 sample_init (Some sample_init) [] None (extract_message_type sample_init)
         (extract_command_type sample_init)) 1 g"
    using register_opening [OF sample_opens(1) no_timeouts(1)] by blast
  then have r: "register_all [(1, sample_init)] (new_aggregator 0) = ([Inr None], g)" by simp
  from g(2) obtain tr where tr: "map_of (ag_pending g) ''r1'' = Some tr" by (auto simp: collecting_transfer_def)
  then show ?thesis using aggregator_state_sound [OF r _ tr] r by auto
qed

theorem transfer_aggregated_witness:
  "\<exists>m g. register_all [(1, sample_init), (2, sample_block 7 False), (3, sample_block 8 True)] (new_aggregator 0) =
     ([Inr None, Inr None, Inr (Some m)], g) \<and> map_of m ''data'' = Some (PList [PInt 7, PInt 8])"
  using transfer_aggregated [of "''r1''" sample_init "[(2, sample_block 7 False)]" "sample_block 8 True" 1 3 "new_aggregator 0" "''radar''"]
    sample_opens sample_continues sample_times no_timeouts by (auto simp: all_data_of_def)

theorem early_final_block_truncates_witness:
  "\<exists>m g. register_all [(1, sample_init), (2, sample_block 8 True), (3, sample_block 7 False)] (new_aggregator 0) =
     ([Inr None, Inr (Some m), Inr None], g) \<and> map_of m ''data'' = Some (PList [PInt 8])"
proof -
  have "as_str (extract_message_type (sample_block 7 False)) \<noteq> None" "as_str (extract_command_type (sample_block 7 False)) \<noteq> None"
    by (simp_all add: sample_block_def extract_message_type_def extract_command_type_def original_type_def metadata_dict_def)
  then show ?thesis
    using early_final_block_truncates [of "''r1''" sample_init "[]" "sample_block 8 True" 1 2 "new_aggregator 0" "''radar''" "sample_block 7 False" 3]
      sample_opens sample_continues sample_times no_timeouts by (auto simp: all_data_of_def)
qed

theorem large_blocks_taken_for_precipitation_witness:
  "\<exists>m g. register_all [(1, sample_init), (2, frame_block)] (new_aggregator 0) = ([Inr None, Inr (Some m)], g) \<and>
     map_of m ''message_type'' = Some (PStr ''weather_radarPrecipitationResponse'')"
proof -
  have "\<not> is_status_frame (PStr ''x'')" by (simp add: is_status_frame_def)
  then have "preprocess_frames_list (replicate 21 (PStr ''x'')) = replicate 21 (PStr ''x'')"
    by (simp add: preprocess_frames_list_def Let_def filter_False)
  then have "extract_precipitation_data_from_frames [frame_block] = Inr []"
    by (simp add: extract_precipitation_data_from_frames_def frame_list_def frame_block_def item_length_def Let_def)
  then show ?thesis
    using large_blocks_taken_for_precipitation [of "''r1''" sample_init "[]" frame_block 1 2 "new_aggregator 0" "''radar''" "[]"]
      sample_opens frame_block_continues sample_times no_timeouts by (auto simp: all_data_of_def)
qed

theorem lone_message_withheld_witness:
  "fst (register_message 1 [(''request_id'', PStr ''r1''), (''frames'', PList [PStr ''10000100000000000001''])] (new_aggregator 0)) = Inr None"
  using lone_message_withheld [of "''r1''" "[(''request_id'', PStr ''r1''), (''frames'', PList [PStr ''10000100000000000001''])]"
      "[PStr ''10000100000000000001'']" "new_aggregator 0" 1] no_timeouts
  by (simp add: carries_def dict_get_def frame_list_def data_list_def transfer_flag_def TRANSFER_FLAGS_def)

end
