(* ===== verification/Bus_Sender.thy ===== *)
theory Bus_Sender
  imports Bus_Message Bus_Adapter Transfer_Aggregator
begin

text \<open>
  The sender of the bus controller (\<^verbatim>\<open>BC_socket.py\<close>, class \<open>BC_sender\<close>): small messages are reduced to what the other side
  needs and put on the bus, messages of more than 33 frames are sent as a block transfer: an initialisation, chunks of at
  most 30 frames behind two header words, and a completion. What puts a payload on the bus is an argument, with the
  contract of the locale \<open>transport\<close>; so are the clock, the deadline and the queue of the listener. The thread pool
  around it, which only bounds the wait of the caller, is not modelled.
\<close>

section \<open>The transport\<close>

type_synonym 'w transmitter = "string \<Rightarrow> 'w \<Rightarrow> bool pyres \<times> 'w"

record 'w sender =
  sd_world :: 'w
  sd_ack :: "(pyval \<times> rat) list"
  sd_down :: bool
  sd_popped :: "(nat \<times> nat) list"

definition put_on_bus :: "'w transmitter \<Rightarrow> pyval \<Rightarrow> 'w sender \<Rightarrow> bool pyres \<times> 'w sender" where
  "put_on_bus tx v s =
     (case json_dumps v of
        Inl e \<Rightarrow> (Inl e, s)
      | Inr p \<Rightarrow> (case tx p (sd_world s) of (r, w) \<Rightarrow> (r, s\<lparr>sd_world := w\<rparr>)))"

text \<open>\<^verbatim>\<open>except Exception: return False\<close>\<close>

definition caught :: "bool pyres \<Rightarrow> bool pyres" where
  "caught r = (case r of Inl Unmodelled \<Rightarrow> r | Inl _ \<Rightarrow> Inr False | Inr _ \<Rightarrow> r)"

text \<open>
  What the senders ask around them: the time at the check of acknowledgements, the queue of the listener at each poll,
  and whether the deadline of the transfer has passed when a chunk is due.
\<close>

record surroundings =
  be_now :: rat
  be_queue :: "nat \<Rightarrow> pyval list"
  be_late :: "nat \<Rightarrow> bool"

section \<open>Small messages\<close>

definition MAX_FRAMES_PER_MESSAGE :: nat where "MAX_FRAMES_PER_MESSAGE = 33"
definition MAX_PAYLOAD_FRAMES_PER_CHUNK :: nat where "MAX_PAYLOAD_FRAMES_PER_CHUNK = 30"

definition essential_metadata :: "pydict \<Rightarrow> pyval \<Rightarrow> pydict" where
  "essential_metadata md request_id =
     map (\<lambda>k. (k, dict_get md k (PStr []))) [''message_type'', ''command_type'', ''command_name''] @
     map (\<lambda>k. (k, dict_get md k PNone)) [''mode'', ''mode_value'', ''old_mode'', ''new_mode''] @
     (if truthy request_id then [(''request_id'', request_id)] else [])"

text \<open>The value that is put on the bus; metadata that is neither a dictionary nor false is not modelled.\<close>

definition bc_outgoing :: "pyval \<Rightarrow> pyval pyres" where
  "bc_outgoing m =
     (case m of
        PDict d \<Rightarrow>
          (let md = dict_get d ''metadata'' PNone; request_id = dict_get d ''request_id'' PNone;
               base = [(''frames'', dict_get d ''frames'' PNone), (''request_id'', request_id)]
           in if truthy md \<and> as_dict md = None then Inl Unmodelled
              else if \<not> has_key d ''frames'' then Inr (PList [m])
              else Inr (PDict (case as_dict md of
                     Some mm \<Rightarrow> if mm = [] then base else base @ [(''metadata'', PDict (essential_metadata mm request_id))]
                   | None \<Rightarrow> base)))
      | PList _ \<Rightarrow> Inr m
      | _ \<Rightarrow> Inr (PList [m]))"

definition is_large :: "pyval \<Rightarrow> bool" where
  "is_large m \<longleftrightarrow> (case m of
     PDict d \<Rightarrow> (case frame_list d of Some fs \<Rightarrow> MAX_FRAMES_PER_MESSAGE < length fs | None \<Rightarrow> False) | _ \<Rightarrow> False)"

section \<open>Messages of a block transfer\<close>

definition data_word_of :: "nat \<Rightarrow> pyval" where
  "data_word_of n = (case construct_data_word (PInt (int n)) of Some w \<Rightarrow> PStr w | None \<Rightarrow> PNone)"

record block_plan =
  bp_command :: pyval
  bp_data :: "pyval list"
  bp_request :: pyval
  bp_metadata :: pydict
  bp_binary :: bool
  bp_content :: "pyval list option"
  bp_precip :: bool
  bp_vil :: bool

definition num_messages :: "block_plan \<Rightarrow> nat" where
  "num_messages b = (length (bp_data b) + MAX_PAYLOAD_FRAMES_PER_CHUNK - 1) div MAX_PAYLOAD_FRAMES_PER_CHUNK"

definition kind_flags :: "block_plan \<Rightarrow> pydict" where
  "kind_flags b =
     (if bp_precip b then [(''precipitation_message'', PBool True), (''data_type'', PStr ''precipitation'')]
      else if bp_vil b then [(''vil_message'', PBool True), (''data_type'', PStr ''vil'')] else [])"

definition counted :: "block_plan \<Rightarrow> nat option" where
  "counted b = (if bp_binary b \<and> (bp_precip b \<or> bp_vil b)
     then (case bp_content b of Some (x # xs) \<Rightarrow> Some (min 15 (length (x # xs))) | _ \<Rightarrow> None) else None)"

definition bc_init_message :: "block_plan \<Rightarrow> pydict" where
  "bc_init_message b =
     [(''frames'', PList ([bp_command b, data_word_of (num_messages b), data_word_of (length (bp_data b))] @
         (case counted b of Some n \<Rightarrow> [data_word_of n] | None \<Rightarrow> []))),
      (''request_id'', bp_request b),
      (''metadata'', PDict
         ([(''message_type'', dict_get (bp_metadata b) ''message_type'' (PStr ''block_transfer_init'')),
           (''command_type'', PStr ''transfer_init''), (''is_transfer_init'', PBool True),
           (''total_messages'', PInt (int (num_messages b))), (''total_frames'', PInt (int (length (bp_data b)))),
           (''has_binary_data'', PBool (bp_binary b))] @
          (if bp_binary b then [(''binary_data_expected'', PBool True)] @
             (case bp_content b of Some xs \<Rightarrow> [(''binary_data_length'', PInt (int (length xs)))] | None \<Rightarrow> []) @ kind_flags b @
             (case counted b of
                Some n \<Rightarrow> [(if bp_precip b then ''precipitation_count'' else ''vil_count'', PInt (int n))]
              | None \<Rightarrow> [])
           else [])))]"

definition chunk_frames :: "block_plan \<Rightarrow> nat \<Rightarrow> pyval list" where
  "chunk_frames b i =
     [bp_command b, data_word_of (i + 1), data_word_of (num_messages b)] @
     slice (i * MAX_PAYLOAD_FRAMES_PER_CHUNK) (min ((i + 1) * MAX_PAYLOAD_FRAMES_PER_CHUNK) (length (bp_data b))) (bp_data b)"

definition bc_data_message :: "block_plan \<Rightarrow> nat \<Rightarrow> pydict" where
  "bc_data_message b i =
     [(''frames'', PList (chunk_frames b i)), (''request_id'', bp_request b),
      (''metadata'', PDict
         ([(''message_type'', dict_get (bp_metadata b) ''message_type'' PNone),
           (''command_type'', dict_get (bp_metadata b) ''command_type'' PNone), (''is_transfer_data'', PBool True),
           (''sequence_number'', PInt (int (i + 1))), (''total_sequences'', PInt (int (num_messages b))),
           (''is_final'', PBool (i + 1 = num_messages b)), (''has_binary_data'', PBool (bp_binary b))] @
          (case bp_content b of
             Some xs \<Rightarrow> [(''binary_data_preserved'', PBool True), (''binary_data_length'', PInt (int (length xs)))] @ kind_flags b
           | None \<Rightarrow> [])))] @
     (case bp_content b of Some xs \<Rightarrow> [(''data'', PList xs)] | None \<Rightarrow> [])"

definition bc_complete_message :: "block_plan \<Rightarrow> pydict" where
  "bc_complete_message b =
     [(''frames'', PList [bp_command b, data_word_of (num_messages b), data_word_of 1]), (''request_id'', bp_request b),
      (''metadata'', PDict
         ([(''message_type'', dict_get (bp_metadata b) ''message_type'' (PStr ''block_transfer_complete'')),
           (''command_type'', PStr ''transfer_complete''), (''is_transfer_complete'', PBool True),
           (''total_messages'', PInt (int (num_messages b))), (''status'', PStr ''success''),
           (''has_binary_data'', PBool False)] @ kind_flags b))]"

text \<open>The plan of a transfer: the kind of data is asked of the aggregator.\<close>

definition bc_plan :: "pydict \<Rightarrow> block_plan pyres" where
  "bc_plan d =
     (case frame_list d of
        Some (command # data_frames) \<Rightarrow>
          py_bind (is_binary_data_message (PDict d)) (\<lambda>binary.
          py_bind (if binary then extract_binary_data d else Inr None) (\<lambda>content.
            case dict_get d ''metadata'' (PDict []) of
              PDict md \<Rightarrow> Inr \<lparr>bp_command = command, bp_data = data_frames, bp_request = dict_get d ''request_id'' PNone,
                 bp_metadata = md, bp_binary = binary, bp_content = content,
                 bp_precip = (binary \<and> is_precipitation_message d), bp_vil = (binary \<and> is_vil_message d)\<rparr>
            | _ \<Rightarrow> Inl AttributeError))
      | Some [] \<Rightarrow> Inl IndexError
      | None \<Rightarrow> Inl KeyError)"

section \<open>Acknowledgement\<close>

definition is_ack_of :: "pyval \<Rightarrow> pyval \<Rightarrow> bool" where
  "is_ack_of request_id v = (case v of
     PDict d \<Rightarrow> has_key d ''status_word'' \<and> dict_get d ''request_id'' PNone = request_id | _ \<Rightarrow> False)"

definition first_index :: "('a \<Rightarrow> bool) \<Rightarrow> 'a list \<Rightarrow> nat option" where
  "first_index p xs = (let i = length (takeWhile (\<lambda>x. \<not> p x) xs) in if i < length xs then Some i else None)"

text \<open>The wait of at most a second, a tenth at a time; the poll and the place at which an answer was found.\<close>

fun await_status_word :: "nat \<Rightarrow> nat \<Rightarrow> rat \<Rightarrow> (nat \<Rightarrow> pyval list) \<Rightarrow> pyval \<Rightarrow> (nat \<times> nat) option" where
  "await_status_word 0 k waited queue request_id = None"
| "await_status_word (Suc n) k waited queue request_id =
     (if waited < 1 then
        (case first_index (is_ack_of request_id) (queue k) of
           Some i \<Rightarrow> Some (k, i)
         | None \<Rightarrow> await_status_word n (k + 1) (fadd waited (fl (1 / 10))) queue request_id)
      else None)"

definition POLLS :: nat where "POLLS = 20"

definition acknowledged_recently :: "rat \<Rightarrow> pyval \<Rightarrow> (pyval \<times> rat) list \<Rightarrow> bool" where
  "acknowledged_recently now request_id acks =
     (case map_of acks request_id of Some t \<Rightarrow> fsub now t < 5 | None \<Rightarrow> False)"

definition hashable :: "pyval \<Rightarrow> bool" where
  "hashable v = (case v of PList _ \<Rightarrow> False | PDict _ \<Rightarrow> False | _ \<Rightarrow> True)"

section \<open>Sending\<close>

type_synonym 'w send = "pyval \<Rightarrow> 'w sender \<Rightarrow> bool pyres \<times> 'w sender"

definition bc_announce :: "'w send \<Rightarrow> surroundings \<Rightarrow> block_plan \<Rightarrow> 'w sender \<Rightarrow> bool pyres \<times> 'w sender" where
  "bc_announce send x b s =
     (if \<not> hashable (bp_request b) then (Inl TypeError, s)
      else if acknowledged_recently (be_now x) (bp_request b) (sd_ack s) then (Inr True, s)
      else case send (PDict (bc_init_message b)) s of
        (Inr True, s) \<Rightarrow>
          (case await_status_word POLLS 0 0 (be_queue x) (bp_request b) of
             None \<Rightarrow> (Inr True, s)
           | Some (k, i) \<Rightarrow> (Inr True, s\<lparr>sd_ack := AList.update (bp_request b) (be_now x) (sd_ack s), sd_popped := sd_popped s @ [(k, i)]\<rparr>))
      | (r, s) \<Rightarrow> (r, s))"

fun send_chunks :: "'w send \<Rightarrow> surroundings \<Rightarrow> (nat \<Rightarrow> pydict) \<Rightarrow> nat list \<Rightarrow> 'w sender \<Rightarrow> bool pyres \<times> 'w sender" where
  "send_chunks send x mk [] s = (Inr True, s)"
| "send_chunks send x mk (i # js) s =
     (if be_late x i then (Inr False, s)
      else if is_large (PDict (mk i)) then (Inr False, s)
      else case send (PDict (mk i)) s of
        (Inr True, s) \<Rightarrow> send_chunks send x mk js s
      | (r, s) \<Rightarrow> (r, s))"

definition bc_transfer :: "'w send \<Rightarrow> surroundings \<Rightarrow> block_plan \<Rightarrow> 'w sender \<Rightarrow> bool pyres \<times> 'w sender" where
  "bc_transfer send x b s =
     (case bc_announce send x b s of
        (Inr True, s) \<Rightarrow>
          (case send_chunks send x (bc_data_message b) [0..<num_messages b] s of
             (Inr True, s) \<Rightarrow> send (PDict (bc_complete_message b)) s
           | (r, s) \<Rightarrow> (r, s))
      | (r, s) \<Rightarrow> (r, s))"

definition bc_send_large_message :: "'w send \<Rightarrow> surroundings \<Rightarrow> pydict \<Rightarrow> 'w sender \<Rightarrow> bool pyres \<times> 'w sender" where
  "bc_send_large_message send x d s =
     (case bc_plan d of
        Inl e \<Rightarrow> (caught (Inl e), s)
      | Inr b \<Rightarrow> (case bc_transfer send x b s of (r, s) \<Rightarrow> (caught r, s)))"

text \<open>The first argument bounds the depth of the two methods that call each other.\<close>

primrec bc_send_message :: "nat \<Rightarrow> 'w transmitter \<Rightarrow> surroundings \<Rightarrow> 'w send" where
  "bc_send_message 0 = (\<lambda>tx x m s. (Inl Unmodelled, s))"
| "bc_send_message (Suc n) = (\<lambda>tx x m s.
     if sd_down s then (Inr False, s)
     else if is_large m then (case m of PDict d \<Rightarrow> bc_send_large_message (bc_send_message n tx x) x d s | _ \<Rightarrow> (Inr False, s))
     else case bc_outgoing m of
       Inl e \<Rightarrow> (Inl e, s)
     | Inr v \<Rightarrow> put_on_bus tx v s)"

section \<open>The depth of the recursion\<close>

lemma chunk_frames_length: "length (chunk_frames b i) \<le> 33"
  by (simp add: chunk_frames_def MAX_PAYLOAD_FRAMES_PER_CHUNK_def slice_def)

lemma block_messages_small:
  "\<not> is_large (PDict (bc_init_message b))" "\<not> is_large (PDict (bc_data_message b i))" "\<not> is_large (PDict (bc_complete_message b))"
proof -
  show "\<not> is_large (PDict (bc_init_message b))"
    by (simp add: is_large_def bc_init_message_def frame_list_def MAX_FRAMES_PER_MESSAGE_def split: option.split)
  show "\<not> is_large (PDict (bc_data_message b i))"
    using chunk_frames_length [of b i] by (simp add: is_large_def bc_data_message_def frame_list_def MAX_FRAMES_PER_MESSAGE_def)
  show "\<not> is_large (PDict (bc_complete_message b))"
    by (simp add: is_large_def bc_complete_message_def frame_list_def MAX_FRAMES_PER_MESSAGE_def)
qed

lemma send_chunks_cong:
  assumes "\<And>m s. \<not> is_large m \<Longrightarrow> f m s = g m s" shows "send_chunks f x mk js s = send_chunks g x mk js s"
proof (induction js arbitrary: s)
  case (Cons i js)
  then show ?case using assms by (auto split: prod.splits sum.splits bool.splits)
qed simp

lemma bc_transfer_cong:
  assumes "\<And>m s. \<not> is_large m \<Longrightarrow> f m s = g m s" shows "bc_transfer f x b s = bc_transfer g x b s"
proof -
  have "bc_announce f x b s = bc_announce g x b s" by (simp add: bc_announce_def assms block_messages_small)
  moreover have "send_chunks f x (bc_data_message b) js s = send_chunks g x (bc_data_message b) js s" for js s
    using assms by (rule send_chunks_cong)
  moreover have "f (PDict (bc_complete_message b)) s = g (PDict (bc_complete_message b)) s" for s
    by (simp add: assms block_messages_small)
  ultimately show ?thesis by (simp add: bc_transfer_def split: prod.split sum.split bool.split)
qed

lemma small_send:
  "\<not> is_large m \<Longrightarrow> bc_send_message (Suc n) tx x m s =
     (if sd_down s then (Inr False, s) else case bc_outgoing m of Inl e \<Rightarrow> (Inl e, s) | Inr v \<Rightarrow> put_on_bus tx v s)"
  by simp

lemma large_send:
  "is_large (PDict d) \<Longrightarrow> bc_send_message 2 tx x (PDict d) s =
     (if sd_down s then (Inr False, s) else bc_send_large_message (bc_send_message (Suc 0) tx x) x d s)"
  unfolding numeral_2_eq_2 by (subst bc_send_message.simps(2)) simp

section \<open>What a transport accepts\<close>

text \<open>A transport: what it has accepted grows by the payload when it reports success, and by nothing otherwise.\<close>

locale transport =
  fixes tx :: "'w transmitter" and accepted :: "'w \<Rightarrow> string list"
  assumes taken: "tx p w = (Inr True, w') \<Longrightarrow> accepted w' = accepted w @ [p]"
    and refused: "tx p w = (r, w') \<Longrightarrow> r \<noteq> Inr True \<Longrightarrow> accepted w' = accepted w"
begin

lemma put_accepted:
  "put_on_bus tx v s = (Inr True, s') \<Longrightarrow> plain_value v \<and> accepted (sd_world s') = accepted (sd_world s) @ [json_text v]"
  using taken by (auto simp: put_on_bus_def json_dumps_def split: if_splits prod.splits)

lemma small_accepted:
  assumes "bc_send_message (Suc n) tx x m s = (Inr True, s')" "\<not> is_large m"
  shows "\<exists>v. bc_outgoing m = Inr v \<and> plain_value v \<and> accepted (sd_world s') = accepted (sd_world s) @ [json_text v]"
  using assms(1) put_accepted unfolding small_send [OF assms(2)] by (auto split: if_splits sum.splits)

lemma chunks_accepted:
  "send_chunks (bc_send_message (Suc n) tx x) x mk js s = (Inr True, s') \<Longrightarrow>
   \<exists>vs. list_all2 (\<lambda>i v. bc_outgoing (PDict (mk i)) = Inr v) js vs \<and> accepted (sd_world s') = accepted (sd_world s) @ map json_text vs"
proof (induction js arbitrary: s)
  case (Cons i js)
  obtain r s1 where 1: "bc_send_message (Suc n) tx x (PDict (mk i)) s = (r, s1)" by (rule prod.exhaust)
  then have r: "r = Inr True" "\<not> is_large (PDict (mk i))" "send_chunks (bc_send_message (Suc n) tx x) x mk js s1 = (Inr True, s')"
    using Cons.prems by (auto simp del: bc_send_message.simps split: if_splits sum.splits bool.splits)
  obtain v where v: "bc_outgoing (PDict (mk i)) = Inr v" "accepted (sd_world s1) = accepted (sd_world s) @ [json_text v]"
    using small_accepted [OF 1 [unfolded r(1)] r(2)] by blast
  obtain vs where vs: "list_all2 (\<lambda>i v. bc_outgoing (PDict (mk i)) = Inr v) js vs"
      "accepted (sd_world s') = accepted (sd_world s1) @ map json_text vs"
    using Cons.IH [OF r(3)] by blast
  have "list_all2 (\<lambda>i v. bc_outgoing (PDict (mk i)) = Inr v) (i # js) (v # vs)" using v(1) vs(1) by simp
  moreover have "accepted (sd_world s') = accepted (sd_world s) @ map json_text (v # vs)" by (simp add: vs(2) v(2))
  ultimately show ?case by blast
qed simp

lemma announce_accepted:
  assumes "bc_announce (bc_send_message (Suc n) tx x) x b s = (Inr True, s')"
  shows "\<exists>vs. (vs = [] \<or> (\<exists>v. vs = [v] \<and> bc_outgoing (PDict (bc_init_message b)) = Inr v)) \<and>
    accepted (sd_world s') = accepted (sd_world s) @ map json_text vs"
proof (cases "acknowledged_recently (be_now x) (bp_request b) (sd_ack s)")
  case True
  then have "s' = s" using assms by (auto simp: bc_announce_def split: if_splits)
  then show ?thesis by (intro exI [of _ "[]"]) simp
next
  case False
  obtain r s1 where 1: "bc_send_message (Suc n) tx x (PDict (bc_init_message b)) s = (r, s1)" by (rule prod.exhaust)
  then have r: "r = Inr True" "sd_world s' = sd_world s1"
    using assms False by (auto simp: bc_announce_def simp del: bc_send_message.simps split: if_splits sum.splits bool.splits option.splits)
  obtain v where v: "bc_outgoing (PDict (bc_init_message b)) = Inr v" "accepted (sd_world s1) = accepted (sd_world s) @ [json_text v]"
    using small_accepted [OF 1 [unfolded r(1)] block_messages_small(1)] by blast
  then show ?thesis using r(2) by (intro exI [of _ "[v]"]) simp
qed

lemma transfer_accepted:
  assumes "bc_transfer (bc_send_message (Suc n) tx x) x b s = (Inr True, s')"
  shows "\<exists>pre vs c. (pre = [] \<or> (\<exists>v. pre = [v] \<and> bc_outgoing (PDict (bc_init_message b)) = Inr v)) \<and>
    list_all2 (\<lambda>i v. bc_outgoing (PDict (bc_data_message b i)) = Inr v) [0..<num_messages b] vs \<and>
    bc_outgoing (PDict (bc_complete_message b)) = Inr c \<and>
    accepted (sd_world s') = accepted (sd_world s) @ map json_text (pre @ vs @ [c])"
proof -
  obtain r1 s1 where 1: "bc_announce (bc_send_message (Suc n) tx x) x b s = (r1, s1)" by (rule prod.exhaust)
  obtain r2 s2 where 2: "send_chunks (bc_send_message (Suc n) tx x) x (bc_data_message b) [0..<num_messages b] s1 = (r2, s2)"
    by (rule prod.exhaust)
  have r: "r1 = Inr True" "r2 = Inr True" "bc_send_message (Suc n) tx x (PDict (bc_complete_message b)) s2 = (Inr True, s')"
    using assms 1 2 by (auto simp: bc_transfer_def simp del: bc_send_message.simps split: sum.splits bool.splits)
  from announce_accepted [OF 1 [unfolded r(1)]] chunks_accepted [OF 2 [unfolded r(2)]] small_accepted [OF r(3) block_messages_small(3)]
  obtain pre vs c where
    "pre = [] \<or> (\<exists>v. pre = [v] \<and> bc_outgoing (PDict (bc_init_message b)) = Inr v)"
    "accepted (sd_world s1) = accepted (sd_world s) @ map json_text pre"
    "list_all2 (\<lambda>i v. bc_outgoing (PDict (bc_data_message b i)) = Inr v) [0..<num_messages b] vs"
    "accepted (sd_world s2) = accepted (sd_world s1) @ map json_text vs"
    "bc_outgoing (PDict (bc_complete_message b)) = Inr c"
    "accepted (sd_world s') = accepted (sd_world s2) @ [json_text c]" by blast
  then show ?thesis by (intro exI [of _ pre] exI [of _ vs] exI [of _ c]) simp
qed

end

text \<open>The socket adapter: the payloads of the attempts that the network accepted.\<close>

definition accepted_payloads :: "outside \<Rightarrow> bus_world \<Rightarrow> string list" where
  "accepted_payloads x w =
     map (\<lambda>(i, (_, _, p)). p) (filter (\<lambda>(i, e). x_net x i e = Accepted) (enumerate 0 (w_wire w)))"

interpretation socket: transport "socket_transmit o1 host port" "accepted_payloads o1"
  by unfold_locales (auto simp: socket_transmit_def accepted_payloads_def enumerate_append_eq)

section \<open>The chunks\<close>

lemma slices:
  "concat (map (\<lambda>i. slice (i * k) (min ((i + 1) * k) (length xs)) xs) [0..<m]) = take (m * k) xs"
proof (induction m)
  case (Suc m)
  have "slice (m * k) (min ((m + 1) * k) (length xs)) xs = take k (drop (m * k) xs)"
    by (cases "(m + 1) * k \<le> length xs") (simp_all add: slice_def min_def)
  moreover have "take (Suc m * k) xs = take (m * k) xs @ take k (drop (m * k) xs)"
    using take_add [of "m * k" k xs] by (simp add: add.commute)
  ultimately show ?case using Suc by simp
qed simp

lemma chunks_cover: "concat (map (\<lambda>i. drop 3 (chunk_frames b i)) [0..<num_messages b]) = bp_data b"
proof -
  have "length (bp_data b) \<le> num_messages b * 30"
    by (simp add: num_messages_def MAX_PAYLOAD_FRAMES_PER_CHUNK_def)
  then show ?thesis
    using slices [of 30 "bp_data b" "num_messages b"]
    by (simp add: chunk_frames_def MAX_PAYLOAD_FRAMES_PER_CHUNK_def)
qed

text \<open>A message of a block transfer on the bus: frames, identifier and the essential metadata.\<close>

definition reduced :: "pyval \<Rightarrow> pyval \<Rightarrow> pydict \<Rightarrow> pydict" where
  "reduced fs request_id mm = [(''frames'', fs), (''request_id'', request_id), (''metadata'', PDict (essential_metadata mm request_id))]"

lemma outgoing_reduced:
  "map_of d ''frames'' = Some fs \<Longrightarrow> map_of d ''metadata'' = Some (PDict mm) \<Longrightarrow> mm \<noteq> [] \<Longrightarrow>
   bc_outgoing (PDict d) = Inr (PDict (reduced fs (dict_get d ''request_id'' PNone) mm))"
  by (simp add: bc_outgoing_def reduced_def dict_get_def has_key_def Let_def)

definition essential_names :: "string list" where
  "essential_names =
     [''message_type'', ''command_type'', ''command_name'', ''mode'', ''mode_value'', ''old_mode'', ''new_mode'', ''request_id'']"

lemma essential_keys: "k \<in> set TRANSFER_FLAGS \<Longrightarrow> map_of (essential_metadata md r) k = None"
proof -
  assume k: "k \<in> set TRANSFER_FLAGS"
  have "list_all (\<lambda>k. k \<notin> set essential_names) TRANSFER_FLAGS" by code_simp
  then have "k \<notin> set essential_names" using k unfolding list_all_iff by blast
  moreover have "fst ` set (essential_metadata md r) \<subseteq> set essential_names"
    by (cases "truthy r") (simp_all add: essential_metadata_def essential_names_def)
  ultimately show ?thesis by (auto simp only: map_of_eq_None_iff)
qed

lemma reduced_unflagged: "k \<in> set TRANSFER_FLAGS \<Longrightarrow> \<not> transfer_flag (reduced fs r mm) k"
  using essential_keys [of k mm r] by (auto simp: transfer_flag_def reduced_def dict_get_def TRANSFER_FLAGS_def)

lemma block_outgoing:
  "bc_outgoing (PDict (bc_init_message b)) = Inr v \<or> bc_outgoing (PDict (bc_data_message b i)) = Inr v \<or>
     bc_outgoing (PDict (bc_complete_message b)) = Inr v \<Longrightarrow> \<exists>fs mm. v = PDict (reduced fs (bp_request b) mm)"
proof -
  have 1: "\<exists>fs mm. bc_outgoing (PDict (bc_init_message b)) = Inr (PDict (reduced fs (bp_request b) mm))"
    unfolding bc_init_message_def by (subst outgoing_reduced) (auto simp: dict_get_def)
  have 2: "\<exists>mm. bc_outgoing (PDict (bc_data_message b i)) = Inr (PDict (reduced (PList (chunk_frames b i)) (bp_request b) mm))" for i
    unfolding bc_data_message_def by (subst outgoing_reduced) (auto simp: dict_get_def)
  have 3: "\<exists>fs mm. bc_outgoing (PDict (bc_complete_message b)) = Inr (PDict (reduced fs (bp_request b) mm))"
    unfolding bc_complete_message_def by (subst outgoing_reduced) (auto simp: dict_get_def)
  show "bc_outgoing (PDict (bc_init_message b)) = Inr v \<or> bc_outgoing (PDict (bc_data_message b i)) = Inr v \<or>
     bc_outgoing (PDict (bc_complete_message b)) = Inr v \<Longrightarrow> \<exists>fs mm. v = PDict (reduced fs (bp_request b) mm)"
    using 1 2 [of i] 3 by (elim disjE exE) (metis sum.inject(2))+
qed

lemma chunk_outgoing:
  "bc_outgoing (PDict (bc_data_message b i)) = Inr v \<Longrightarrow> \<exists>mm. v = PDict (reduced (PList (chunk_frames b i)) (bp_request b) mm)"
  unfolding bc_data_message_def by (subst (asm) outgoing_reduced) (auto simp: dict_get_def)

definition frames_of :: "pyval \<Rightarrow> pyval list" where
  "frames_of v = (case v of PDict d \<Rightarrow> (case frame_list d of Some fs \<Rightarrow> fs | None \<Rightarrow> []) | _ \<Rightarrow> [])"

lemma frames_of_reduced: "frames_of (PDict (reduced (PList fs) r mm)) = fs"
  by (simp add: frames_of_def frame_list_def reduced_def)

section \<open>What the other side makes of them\<close>

definition unmarked :: "pyval \<Rightarrow> bool" where
  "unmarked e \<longleftrightarrow> (case e of PDict q \<Rightarrow> \<not> list_ex (transfer_flag q) TRANSFER_FLAGS \<and> \<not> has_key q ''data'' | _ \<Rightarrow> True)"

lemma reduced_received:
  assumes "v = PDict (reduced fs r mm)" "plain_value v" "rt_process codec t (json_text v) l = (res, l')" "e \<in> set (l_received l')"
    "e \<notin> set (l_received l)"
  shows "unmarked e"
proof -
  let ?d = "reduced fs r mm"
  have j: "looks_json (json_text v)" "json_loads (json_text v) = Inr (PDict ?d)"
    using json_loads_text [OF assms(2)] by (simp_all add: assms(1) looks_json_def)
  have "merge_metadata codec ?d = ?d"
    by (simp add: merge_metadata_def potential_metadata_def reduced_def Let_def)
  moreover have "transfer_checks ?d = Inr ()"
    using reduced_unflagged [of _ fs r mm] by (simp add: transfer_checks_def TRANSFER_FLAGS_def)
  ultimately have p: "process_frames t (\<lambda>vs. rt_message ?d vs (dict_get ?d ''request_id'' PNone)) (dict_get ?d ''frames'' (PList []))
      (dict_get ?d ''request_id'' PNone) l = (res, l')"
    using assms(3) j by (simp add: rt_process_def Let_def)
  have "rt_message ?d vs r = reduced (PList vs) r mm" for vs
    by (simp add: rt_message_def frame_message_def copy_key_def reduced_def dict_set_def)
  moreover have "dict_get ?d ''request_id'' PNone = r" by (simp add: reduced_def dict_get_def)
  ultimately have "e = PDict (reduced (PList vs) r mm) \<or> e = PList vs"
    if "py_bind (iterate (dict_get ?d ''frames'' (PList []))) valid_frames = Inr vs" for vs
    using p assms(4,5) that by (auto simp: process_frames_def enqueue_def split: if_splits)
  then have "(\<exists>vs. e = PDict (reduced (PList vs) r mm)) \<or> (\<exists>vs. e = PList vs)"
    using p assms(4,5) by (cases "py_bind (iterate (dict_get ?d ''frames'' (PList []))) valid_frames")
      (auto simp: process_frames_def)
  then show ?thesis
    using reduced_unflagged by (auto simp: unmarked_def list_ex_iff has_key_def reduced_def)
qed

section \<open>When nothing hinders a transfer\<close>

lemma plain_get: "plain_members d \<Longrightarrow> plain_value dflt \<Longrightarrow> plain_value (dict_get d k dflt)"
  by (cases "map_of d k") (fastforce simp: dict_get_def plain_members_iff list_all_iff dest: map_of_SomeD)+

lemma plain_essential: "plain_members mm \<Longrightarrow> plain_value r \<Longrightarrow> plain_value (PDict (essential_metadata mm r))"
  by (simp add: essential_metadata_def plain_get)

lemma plain_reduced:
  "plain_value fs \<Longrightarrow> plain_value r \<Longrightarrow> plain_members mm \<Longrightarrow> plain_value (PDict (reduced fs r mm))"
  using plain_essential [of mm r] by (simp add: reduced_def)

definition plain_plan :: "block_plan \<Rightarrow> bool" where
  "plain_plan b \<longleftrightarrow> plain_value (bp_command b) \<and> list_all plain_value (bp_data b) \<and> plain_value (bp_request b) \<and>
     plain_members (bp_metadata b)"

lemma plain_word: "plain_value (data_word_of n)"
  by (simp add: data_word_of_def split: option.split)

lemma plain_flags: "plain_members (kind_flags b)"
  by (simp add: kind_flags_def)

lemma plain_append: "plain_members (xs @ ys) \<longleftrightarrow> plain_members xs \<and> plain_members ys"
  by (simp add: plain_members_iff)

lemma plain_slice: "list_all plain_value xs \<Longrightarrow> list_all plain_value (slice i j xs)"
  by (auto simp: slice_def list_all_iff dest: in_set_takeD in_set_dropD)

lemma block_outgoing_plain:
  assumes "plain_plan b" "m \<in> {bc_init_message b, bc_data_message b i, bc_complete_message b}"
  shows "\<exists>v. bc_outgoing (PDict m) = Inr v \<and> plain_value v"
proof -
  note p = assms(1) [unfolded plain_plan_def]
  have out: "\<exists>v. bc_outgoing (PDict m) = Inr v \<and> plain_value v"
    if "map_of m ''frames'' = Some (PList fs)" "map_of m ''metadata'' = Some (PDict mm)" "mm \<noteq> []" "list_all plain_value fs"
      "plain_members mm" "dict_get m ''request_id'' PNone = bp_request b" for fs mm
    using outgoing_reduced [OF that(1-3)] plain_reduced [of "PList fs" "bp_request b" mm] that p
    by (auto simp: plain_items_iff)
  from assms(2) consider "m = bc_init_message b" | "m = bc_data_message b i" | "m = bc_complete_message b" by auto
  then show ?thesis
  proof cases
    case 1
    show ?thesis
      unfolding 1 bc_init_message_def
      by (rule out [unfolded 1 bc_init_message_def]) (use p in \<open>auto simp: plain_word plain_append plain_flags plain_get dict_get_def [of _ "''request_id''"] split: option.split\<close>)
  next
    case 2
    show ?thesis
      unfolding 2 bc_data_message_def
      by (rule out [unfolded 2 bc_data_message_def])
        (use p in \<open>auto simp: plain_word plain_append plain_flags plain_get plain_slice chunk_frames_def dict_get_def [of _ "''request_id''"] split: option.split\<close>)
  next
    case 3
    show ?thesis
      unfolding 3 bc_complete_message_def
      by (rule out [unfolded 3 bc_complete_message_def])
        (use p in \<open>auto simp: plain_word plain_append plain_flags plain_get dict_get_def [of _ "''request_id''"]\<close>)
  qed
qed

definition always_accepts :: "'w transmitter \<Rightarrow> bool" where "always_accepts tx \<longleftrightarrow> (\<forall>p w. fst (tx p w) = Inr True)"

lemma small_send_succeeds:
  assumes "always_accepts tx" "\<not> sd_down s" "\<not> is_large m" "bc_outgoing m = Inr v" "plain_value v"
  shows "\<exists>s'. bc_send_message (Suc n) tx x m s = (Inr True, s') \<and> \<not> sd_down s'"
proof -
  obtain w where "tx (json_text v) (sd_world s) = (Inr True, w)" using assms(1) by (metis always_accepts_def prod.collapse)
  then show ?thesis using assms by (simp add: small_send put_on_bus_def json_dumps_def del: bc_send_message.simps)
qed

lemma chunks_succeed:
  assumes "always_accepts tx" "plain_plan b" "\<And>i. \<not> be_late x i"
  shows "\<not> sd_down s \<Longrightarrow> \<exists>s'. send_chunks (bc_send_message (Suc n) tx x) x (bc_data_message b) js s = (Inr True, s') \<and> \<not> sd_down s'"
proof (induction js arbitrary: s)
  case (Cons i js)
  obtain v where v: "bc_outgoing (PDict (bc_data_message b i)) = Inr v" "plain_value v"
    using block_outgoing_plain [OF assms(2), of "bc_data_message b i" i] by blast
  obtain s1 where "bc_send_message (Suc n) tx x (PDict (bc_data_message b i)) s = (Inr True, s1)" "\<not> sd_down s1"
    using small_send_succeeds [OF assms(1) Cons.prems block_messages_small(2) v] by blast
  then show ?case using Cons.IH [of s1] assms(3) by (simp add: block_messages_small del: bc_send_message.simps)
qed simp

lemma transfer_succeeds:
  assumes "always_accepts tx" "plain_plan b" "\<And>i. \<not> be_late x i" "\<not> sd_down s" "hashable (bp_request b)"
  shows "\<exists>s'. bc_transfer (bc_send_message (Suc n) tx x) x b s = (Inr True, s')"
proof -
  obtain v c where v: "bc_outgoing (PDict (bc_init_message b)) = Inr v" "plain_value v"
      "bc_outgoing (PDict (bc_complete_message b)) = Inr c" "plain_value c"
    using block_outgoing_plain [OF assms(2), of "bc_init_message b" 0] block_outgoing_plain [OF assms(2), of "bc_complete_message b" 0]
    by blast
  have "\<exists>s1. bc_announce (bc_send_message (Suc n) tx x) x b s = (Inr True, s1) \<and> \<not> sd_down s1"
  proof (cases "acknowledged_recently (be_now x) (bp_request b) (sd_ack s)")
    case False
    obtain s1 where "bc_send_message (Suc n) tx x (PDict (bc_init_message b)) s = (Inr True, s1)" "\<not> sd_down s1"
      using small_send_succeeds [OF assms(1,4) block_messages_small(1) v(1,2)] by blast
    then show ?thesis
      using False assms(5) by (auto simp: bc_announce_def simp del: bc_send_message.simps split: option.split)
  qed (use assms(4,5) in \<open>simp add: bc_announce_def\<close>)
  then obtain s1 where 1: "bc_announce (bc_send_message (Suc n) tx x) x b s = (Inr True, s1)" "\<not> sd_down s1" by blast
  obtain s2 where 2: "send_chunks (bc_send_message (Suc n) tx x) x (bc_data_message b) [0..<num_messages b] s1 = (Inr True, s2)" "\<not> sd_down s2"
    using chunks_succeed [OF assms(1-3) 1(2)] by blast
  obtain s3 where "bc_send_message (Suc n) tx x (PDict (bc_complete_message b)) s2 = (Inr True, s3)"
    using small_send_succeeds [OF assms(1) 2(2) block_messages_small(3) v(3,4)] by blast
  then show ?thesis using 1(1) 2(1) by (simp add: bc_transfer_def del: bc_send_message.simps)
qed

text \<open>Twenty polls are more than the wait of a second takes.\<close>

lemma wait_grows: "0 \<le> w \<Longrightarrow> w < 1 \<Longrightarrow> w + 1 / 16 \<le> fadd w (fl (1 / 10))"
proof -
  assume w: "0 \<le> w" "w < 1"
  have a: "\<bar>fl (1 / 10) - 1 / 10\<bar> \<le> 1 / 100" using fl_err [of "1 / 10"] by simp
  then have b: "0 \<le> w + fl (1 / 10)" "w + fl (1 / 10) \<le> 2" using w by linarith+
  have "\<bar>fl (w + fl (1 / 10)) - (w + fl (1 / 10))\<bar> \<le> (w + fl (1 / 10)) / 2 ^ 53" using fl_err [of "w + fl (1 / 10)"] b by simp
  also have "\<dots> \<le> 2 / 2 ^ 53" using b by (intro divide_right_mono) simp_all
  finally have "\<bar>fl (w + fl (1 / 10)) - (w + fl (1 / 10))\<bar> \<le> 1 / 100" by simp
  then show ?thesis using a unfolding fadd_def by linarith
qed

lemma polls_enough:
  "1 \<le> w + of_nat n / 16 \<Longrightarrow> 0 \<le> w \<Longrightarrow> n < m \<Longrightarrow> await_status_word m k w q r = await_status_word (Suc n) k w q r"
proof (induction n arbitrary: m k w)
  case 0
  then show ?case by (cases m) simp_all
next
  case (Suc n)
  obtain m' where m: "m = Suc m'" using Suc.prems(3) by (cases m) auto
  show ?case
  proof (cases "w < 1")
    case True
    have g: "w + 1 / 16 \<le> fadd w (fl (1 / 10))" using wait_grows [OF Suc.prems(2) True] .
    then have "1 \<le> fadd w (fl (1 / 10)) + of_nat n / 16" using Suc.prems(1) by (simp add: field_simps)
    moreover have "0 \<le> fadd w (fl (1 / 10))" using g Suc.prems(2) by linarith
    ultimately have "await_status_word m' (k + 1) (fadd w (fl (1 / 10))) q r = await_status_word (Suc n) (k + 1) (fadd w (fl (1 / 10))) q r"
      using Suc.prems(3) m by (intro Suc.IH) simp_all
    then show ?thesis unfolding m by (simp only: await_status_word.simps)
  next
    case False
    then show ?thesis unfolding m by simp
  qed
qed

lemma polls_suffice: "POLLS \<le> m \<Longrightarrow> await_status_word m 0 0 q r = await_status_word POLLS 0 0 q r"
proof -
  assume "POLLS \<le> m"
  then have "await_status_word m 0 0 q r = await_status_word (Suc 19) 0 0 q r"
    by (intro polls_enough) (simp_all add: POLLS_def)
  moreover have "POLLS = Suc 19" by (simp add: POLLS_def)
  ultimately show ?thesis by (simp only:)
qed

section \<open>Properties\<close>

text \<open>
  C34. A block transfer never splits its own messages again: the two methods that call each other do so at most once,
  whatever the message and however long it is, so a depth of two gives the result of any greater depth.
\<close>

theorem block_transfer_depth:
  "bc_send_message (Suc (Suc n)) tx x m s = bc_send_message 2 tx x m s"
proof -
  have "bc_transfer (bc_send_message (Suc n) tx x) x b s = bc_transfer (bc_send_message (Suc 0) tx x) x b s" for b s
    by (rule bc_transfer_cong) (simp add: small_send)
  then have "bc_send_large_message (bc_send_message (Suc n) tx x) x d s = bc_send_large_message (bc_send_message (Suc 0) tx x) x d s" for d s
    by (simp add: bc_send_large_message_def split: sum.split)
  then show ?thesis
    unfolding numeral_2_eq_2 by (simp only: bc_send_message.simps(2))
qed

text \<open>
  C35. A block transfer that reports success has been accepted whole by the network: the initialisation unless it was
  acknowledged before, every chunk in order with at most 33 frames, and the completion, and the frames of the chunks
  behind their three header words add up to the data frames of the message.
\<close>

theorem reported_transfer_is_complete:
  assumes "is_large (PDict d)" "bc_plan d = Inr b" "bc_send_message 2 (socket_transmit o1 host port) x (PDict d) s = (Inr True, s')"
  shows "\<exists>pre chunks c. accepted_payloads o1 (sd_world s') = accepted_payloads o1 (sd_world s) @ map json_text (pre @ chunks @ [c]) \<and>
    length pre \<le> 1 \<and> length chunks = num_messages b \<and> (\<forall>v\<in>set chunks. length (frames_of v) \<le> 33) \<and>
    concat (map (\<lambda>v. drop 3 (frames_of v)) chunks) = bp_data b"
proof -
  have "bc_transfer (bc_send_message (Suc 0) (socket_transmit o1 host port) x) x b s = (Inr True, s')"
    using assms by (auto simp: large_send bc_send_large_message_def caught_def simp del: bc_send_message.simps
      split: if_splits prod.splits sum.splits pyerr.splits)
  from socket.transfer_accepted [OF this] obtain pre vs c where
    t: "pre = [] \<or> (\<exists>v. pre = [v] \<and> bc_outgoing (PDict (bc_init_message b)) = Inr v)"
      "list_all2 (\<lambda>i v. bc_outgoing (PDict (bc_data_message b i)) = Inr v) [0..<num_messages b] vs"
      "accepted_payloads o1 (sd_world s') = accepted_payloads o1 (sd_world s) @ map json_text (pre @ vs @ [c])" by blast
  have fr: "frames_of v = chunk_frames b i" if "bc_outgoing (PDict (bc_data_message b i)) = Inr v" for i v
    using chunk_outgoing [OF that] frames_of_reduced by auto
  have n: "length vs = num_messages b" "\<And>i. i < num_messages b \<Longrightarrow> bc_outgoing (PDict (bc_data_message b i)) = Inr (vs ! i)"
    using t(2) by (auto simp: list_all2_conv_all_nth)
  have f: "map frames_of vs = map (chunk_frames b) [0..<num_messages b]"
    by (rule nth_equalityI) (simp_all add: n(1) fr [OF n(2)])
  have "length (frames_of v) \<le> 33" if "v \<in> set vs" for v
  proof -
    have "frames_of v \<in> set (map (chunk_frames b) [0..<num_messages b])" using that unfolding f [symmetric] by simp
    then show ?thesis using chunk_frames_length by auto
  qed
  moreover have "map (\<lambda>v. drop 3 (frames_of v)) vs = map (drop 3) (map frames_of vs)" by simp
  then have "concat (map (\<lambda>v. drop 3 (frames_of v)) vs) = bp_data b"
    using chunks_cover [of b] unfolding f by (simp add: comp_def)
  ultimately show ?thesis using t(1,3) n(1) by (intro exI [of _ pre] exI [of _ vs] exI [of _ c]) auto
qed

text \<open>
  The receiver cannot tell a block transfer: every message of a transfer of the bus controller loses its transfer
  flags, its numbers and its data on the way to the bus, so what the remote terminal queues for it is marked neither as
  an initialisation nor as data nor as a completion.
\<close>

theorem block_flags_stripped:
  assumes "m \<in> {bc_init_message b, bc_data_message b i, bc_complete_message b}" "bc_outgoing (PDict m) = Inr v" "plain_value v"
    "rt_process codec t (json_text v) l = (res, l')" "e \<in> set (l_received l')" "e \<notin> set (l_received l)"
  shows "unmarked e"
proof -
  obtain fs mm where "v = PDict (reduced fs (bp_request b) mm)" using block_outgoing [of b v i] assms(1,2) by blast
  then show ?thesis using reduced_received assms(3-6) by blast
qed

text \<open>
  C37. Nothing but the surroundings stops a transfer: with a network that accepts everything, no shutdown and no passed
  deadline, a large message whose parts can be written as JSON is sent whole, and the wait for the acknowledgement
  ends by itself.
\<close>

theorem unhindered_transfer_succeeds:
  assumes "is_large (PDict d)" "bc_plan d = Inr b" "plain_plan b" "hashable (bp_request b)" "\<not> sd_down s" "\<forall>i. \<not> be_late x i"
    "\<forall>n e. x_net o1 n e = Accepted"
  shows "fst (bc_send_message 2 (socket_transmit o1 host port) x (PDict d) s) = Inr True \<and>
    (\<forall>m\<ge>POLLS. await_status_word m 0 0 (be_queue x) r = await_status_word POLLS 0 0 (be_queue x) r)"
proof (intro conjI allI impI)
  have "always_accepts (socket_transmit o1 host port)" using assms(7) by (simp add: socket_transmit_def always_accepts_def)
  from transfer_succeeds [OF this assms(3) assms(6) [rule_format] assms(5,4), of 0]
  obtain s' where "bc_transfer (bc_send_message (Suc 0) (socket_transmit o1 host port) x) x b s = (Inr True, s')" by blast
  then show "fst (bc_send_message 2 (socket_transmit o1 host port) x (PDict d) s) = Inr True"
    using assms(1,2,5) by (simp add: large_send bc_send_large_message_def caught_def del: bc_send_message.simps)
next
  fix m assume "POLLS \<le> m"
  then show "await_status_word m 0 0 (be_queue x) r = await_status_word POLLS 0 0 (be_queue x) r"
    by (rule polls_suffice)
qed

section \<open>Witnesses\<close>

definition long_message :: pydict where
  "long_message = [(''frames'', PList (replicate 40 (PStr ''10000100000000000001''))), (''request_id'', PStr ''r7'')]"

definition quiet :: surroundings where "quiet = \<lparr>be_now = 0, be_queue = (\<lambda>_. []), be_late = (\<lambda>_. False)\<rparr>"

definition fresh_sender :: "bus_world sender" where
  "fresh_sender = \<lparr>sd_world = new_world, sd_ack = [], sd_down = False, sd_popped = []\<rparr>"

definition open_net :: outside where
  "open_net = \<lparr>x_net = (\<lambda>_ _. Accepted), x_callback = (\<lambda>_ _. ([], False)), x_method = (\<lambda>_ _. True), x_driver = (\<lambda>_ _. Inr PNone)\<rparr>"

definition long_plan :: block_plan where
  "long_plan = \<lparr>bp_command = PStr ''10000100000000000001'', bp_data = replicate 39 (PStr ''10000100000000000001''), bp_request = PStr ''r7'',
     bp_metadata = [], bp_binary = True, bp_content = None, bp_precip = False, bp_vil = False\<rparr>"

lemma quiet_facts: "\<not> be_late quiet i" "\<not> sd_down fresh_sender"
  by (simp_all add: quiet_def fresh_sender_def)

lemma long_message_facts:
  "is_large (PDict long_message)" "bc_plan long_message = Inr long_plan" "plain_plan long_plan" "hashable (bp_request long_plan)"
proof -
  have f: "frame_list long_message = Some (PStr ''10000100000000000001'' # replicate 39 (PStr ''10000100000000000001''))"
    by (simp add: frame_list_def long_message_def flip: replicate_Suc)
  show "is_large (PDict long_message)" by (simp add: is_large_def f MAX_FRAMES_PER_MESSAGE_def)
  have "many_frames long_message" by (simp add: many_frames_def f)
  moreover have "data_list long_message = None" "map_of long_message ''metadata'' = None" "map_of long_message ''message_type'' = None"
    "map_of long_message ''command_type'' = None" "map_of long_message ''command_name'' = None" "map_of long_message ''request_id'' = Some (PStr ''r7'')"
    by (simp_all add: data_list_def long_message_def)
  ultimately show "bc_plan long_message = Inr long_plan"
    by (simp add: bc_plan_def f is_binary_data_message_def dict_get_def any_word_def BINARY_FLAGS_def extract_binary_data_def
        is_precipitation_message_def is_vil_message_def is_kind_message_def metadata_dict_def key_mentions_def long_plan_def)
  show "plain_plan long_plan" "hashable (bp_request long_plan)" by (simp_all add: plain_plan_def long_plan_def hashable_def list_all_iff)
qed

theorem unhindered_transfer_succeeds_witness:
  "fst (bc_send_message 2 (socket_transmit open_net ''localhost'' 5001) quiet (PDict long_message) fresh_sender) = Inr True"
  using unhindered_transfer_succeeds [OF long_message_facts, of fresh_sender quiet open_net "''localhost''" 5001]
  by (simp add: fresh_sender_def quiet_def open_net_def)

theorem reported_transfer_is_complete_witness:
  "\<exists>s' pre chunks c. bc_send_message 2 (socket_transmit open_net ''localhost'' 5001) quiet (PDict long_message) fresh_sender = (Inr True, s') \<and>
     accepted_payloads open_net (sd_world s') = map json_text (pre @ chunks @ [c]) \<and> length chunks = 2 \<and>
     concat (map (\<lambda>v. drop 3 (frames_of v)) chunks) = bp_data long_plan"
proof -
  have "always_accepts (socket_transmit open_net ''localhost'' 5001)" by (simp add: socket_transmit_def open_net_def always_accepts_def)
  from transfer_succeeds [OF this long_message_facts(3) quiet_facts long_message_facts(4), of 0]
  obtain s' where "bc_transfer (bc_send_message (Suc 0) (socket_transmit open_net ''localhost'' 5001) quiet) quiet long_plan fresh_sender = (Inr True, s')"
    by blast
  then have s: "bc_send_message 2 (socket_transmit open_net ''localhost'' 5001) quiet (PDict long_message) fresh_sender = (Inr True, s')"
    using long_message_facts(1,2) by (simp add: large_send bc_send_large_message_def caught_def quiet_facts del: bc_send_message.simps)
  moreover have "num_messages long_plan = 2" by (simp add: num_messages_def long_plan_def MAX_PAYLOAD_FRAMES_PER_CHUNK_def)
  moreover have "accepted_payloads open_net (sd_world fresh_sender) = []" by (simp add: accepted_payloads_def fresh_sender_def new_world_def)
  ultimately show ?thesis using reported_transfer_is_complete [OF long_message_facts(1,2) s] by auto
qed

theorem block_flags_stripped_witness:
  "\<exists>v. bc_outgoing (PDict (bc_complete_message long_plan)) = Inr v \<and>
     (\<forall>res l' e. rt_process (\<lambda>_. []) 1 (json_text v) silent_listener = (res, l') \<longrightarrow> e \<in> set (l_received l') \<longrightarrow> unmarked e)"
proof -
  obtain v where v: "bc_outgoing (PDict (bc_complete_message long_plan)) = Inr v" "plain_value v"
    using block_outgoing_plain [OF long_message_facts(3)] by blast
  then show ?thesis
    using block_flags_stripped [OF _ v, of long_plan 0] by (fastforce simp: silent_listener_def)
qed

end
