(* ===== verification/RT_Sender.thy ===== *)
theory RT_Sender
  imports Bus_Sender
begin

text \<open>
  The sender of the remote terminal (\<^verbatim>\<open>RT_socket.py\<close>, class \<open>RT_sender\<close>): message objects become dictionaries, lists of
  data become frames, long messages and payloads of more than 900 characters are sent as a block transfer, whose chunks
  have a path of their own to the bus. Payloads go to a transmitter with the contract \<open>transport\<close>; the table of required
  fields of the message schemas is an argument. The thread pool around it is not modelled.
\<close>

section \<open>Words and frames\<close>

definition rt_construct_data_word :: "int \<Rightarrow> pyval" where
  "rt_construct_data_word n = (case rt_encode_data_word (AInt n) of Inr w \<Rightarrow> PStr w | Inl _ \<Rightarrow> PNone)"

text \<open>A piece of data becomes a word; anything but a number or a finished word becomes the word of zero.\<close>

definition word_of_item :: "pyval \<Rightarrow> pyval" where
  "word_of_item v = (case v of
     PInt i \<Rightarrow> rt_construct_data_word i
   | PBool b \<Rightarrow> rt_construct_data_word (if b then 1 else 0)
   | PFloat q \<Rightarrow> rt_construct_data_word (py_trunc q)
   | PStr w \<Rightarrow> if length w = 20 then v else rt_construct_data_word 0
   | _ \<Rightarrow> rt_construct_data_word 0)"

definition repaired_frame :: "pyval \<Rightarrow> pyval option" where
  "repaired_frame v = (case v of
     PStr w \<Rightarrow>
       (if length w \<noteq> 20 \<and> \<not> (18 \<le> length w \<and> length w \<le> 22) then None
        else let w' = (if length w < 20 then w @ replicate (20 - length w) (CHR ''0'') else take 20 w)
             in if take 3 w' \<in> {''100'', ''001''} then Some (PStr w') else None)
   | _ \<Rightarrow> None)"

definition rt_validate_frames :: "pyval \<Rightarrow> pyval list pyres" where
  "rt_validate_frames frames =
     (if \<not> truthy frames then Inr [] else py_bind (iterate frames) (\<lambda>vs. Inr (List.map_filter repaired_frame vs)))"

section \<open>Message objects\<close>

text \<open>
  What is handed to the sender: a value, or an object of the class of bus messages with its attributes. A status word
  that is missing is constructed with two arguments by a method that takes one.
\<close>

datatype outgoing = Value pyval | Object pydict

definition object_words :: "pyval \<Rightarrow> pyval list" where
  "object_words data = (case data of
     PList vs \<Rightarrow> concat (map (\<lambda>v. case v of
         PStr w \<Rightarrow> if length w = 20 then [v] else []
       | PList _ \<Rightarrow> [] | PDict _ \<Rightarrow> [] | PNone \<Rightarrow> [] | _ \<Rightarrow> [word_of_item v]) vs)
   | PInt _ \<Rightarrow> [word_of_item data] | PBool _ \<Rightarrow> [word_of_item data] | PFloat _ \<Rightarrow> [word_of_item data] | _ \<Rightarrow> [])"

definition TOP_LEVEL_FIELDS :: "string list" where
  "TOP_LEVEL_FIELDS = [''rt_address'', ''sub_address'', ''message_type'', ''command_type'', ''command_name'']"

definition require_field :: "pydict \<Rightarrow> string \<Rightarrow> pydict \<times> pydict \<Rightarrow> pydict \<times> pydict" where
  "require_field attrs field = (\<lambda>(formatted, metadata).
     let v = dict_get attrs field PNone
     in if dict_get metadata field PNone = PNone \<and> v \<noteq> PNone
        then (if field \<in> set TOP_LEVEL_FIELDS then dict_set field v formatted else formatted, dict_set field v metadata)
        else (formatted, metadata))"

definition preprocess_message :: "(pyval \<Rightarrow> string list) \<Rightarrow> outgoing \<Rightarrow> pyval pyres" where
  "preprocess_message required m =
     (case m of
        Value v \<Rightarrow> Inr v
      | Object attrs \<Rightarrow>
          (let attr = (\<lambda>k. dict_get attrs k PNone);
               status_word = attr ''status_word''; data = attr ''data'';
               frames = (if truthy status_word then [status_word] else []);
               metadata = map (\<lambda>k. (k, attr k)) [''rt_address'', ''sub_address'', ''message_type'', ''command_type'',
                 ''command_name'', ''mode'', ''mode_value''];
               formatted =
                 [(''status_word'', status_word),
                  (''frames'', PList (if truthy data then frames @ object_words data else frames)),
                  (''request_id'', attr ''request_id''), (''rt_address'', attr ''rt_address''), (''sub_address'', attr ''sub_address''),
                  (''metadata'', PDict metadata)] @ (if truthy data then [(''data'', data)] else []);
               (formatted, metadata) =
                 (if truthy (attr ''message_type'') then fold (require_field attrs) (required (attr ''message_type'')) (formatted, metadata)
                  else (formatted, metadata))
           in if \<not> truthy status_word \<and> attr ''rt_address'' \<noteq> PNone then Inl TypeError
              else Inr (PDict (dict_set ''metadata'' (PDict metadata) formatted))))"

section \<open>What is sent as a block transfer\<close>

definition DATA_THRESHOLD :: nat where "DATA_THRESHOLD = 15"

definition with_word_frames :: "pydict \<Rightarrow> pyval list \<Rightarrow> pydict" where
  "with_word_frames d vs = dict_set ''frames'' (PList (dict_get d ''status_word'' (PStr []) # map word_of_item vs)) d"

definition tagged :: "pydict \<Rightarrow> pydict" where
  "tagged d = dict_set ''_data_converted_to_frames'' (PBool True) (dict_set ''_raw_data'' (dict_get d ''data'' PNone) d)"

definition rt_as_block :: "pyval \<Rightarrow> pydict option pyres" where
  "rt_as_block m = (case m of
     PDict d \<Rightarrow>
       (if is_large m then Inr (Some d)
        else case data_list d of
          Some vs \<Rightarrow>
            if DATA_THRESHOLD < length vs then Inr (Some (tagged (with_word_frames d vs)))
            else if dict_get d ''command_type'' PNone \<in> {PStr ''precipitation_data'', PStr ''vil_data''} \<and>
              \<not> truthy (dict_get d ''frames'' PNone) then Inr (Some (tagged (with_word_frames d vs)))
            else Inr None
        | None \<Rightarrow>
            if dict_get d ''command_type'' PNone \<in> {PStr ''precipitation_data'', PStr ''vil_data''} \<and> has_key d ''data'' \<and>
              \<not> truthy (dict_get d ''frames'' PNone)
            then py_bind (iterate (dict_get d ''data'' PNone)) (\<lambda>vs. Inr (Some (tagged (with_word_frames d vs))))
            else Inr None)
   | _ \<Rightarrow> Inr None)"

section \<open>Single messages\<close>

definition transmission_fields :: "pydict \<Rightarrow> pydict" where
  "transmission_fields d =
     (let frames_field = (if has_key d ''status_word'' \<and> \<not> has_key d ''frames'' then PList [dict_get d ''status_word'' PNone]
            else dict_get d ''frames'' (PList []));
          base = [(''frames'', frames_field), (''request_id'', dict_get d ''request_id'' PNone)] @
            (case map_of d ''status_word'' of Some w \<Rightarrow> [(''status_word'', w)] | None \<Rightarrow> [])
      in base @ filter (\<lambda>(k, _). k \<notin> fst ` set base \<and> k \<noteq> ''metadata'') d)"

definition with_generated_frames :: "pydict \<Rightarrow> pydict \<Rightarrow> pydict pyres" where
  "with_generated_frames d t =
     (let frames = dict_get t ''frames'' PNone; status_word = dict_get d ''status_word'' PNone
      in if \<not> has_key t ''data'' then Inr t
         else py_bind (if truthy frames then item_length frames else Inr 0) (\<lambda>n.
           if 1 < n then Inr t
           else case dict_get t ''data'' PNone of
             PList vs \<Rightarrow> Inr (dict_set ''frames'' (PList ((if truthy status_word then [status_word] else []) @ map word_of_item vs)) t)
           | _ \<Rightarrow> Inr t))"

text \<open>The value that is put on the bus; metadata that is neither a dictionary nor false is not modelled.\<close>

definition rt_outgoing :: "rat \<Rightarrow> pyval \<Rightarrow> pyval pyres" where
  "rt_outgoing now m =
     (case m of
        PDict d \<Rightarrow>
          (let metadata = dict_get d ''metadata'' PNone
           in if truthy metadata \<and> as_dict metadata = None then Inl Unmodelled
              else py_bind (with_generated_frames d (transmission_fields d)) (\<lambda>t.
                case as_dict metadata of
                  Some mm \<Rightarrow>
                    if mm = [] then Inr (PDict t)
                    else Inr (PDict (dict_set ''metadata'' (PDict (essential_metadata mm (dict_get d ''request_id'' PNone))) t))
                | None \<Rightarrow> Inr (PDict t)))
      | PStr w \<Rightarrow>
          if length w = 20 then Inr (PDict [(''status_word'', m), (''request_id'', PNone), (''timestamp'', PFloat now)])
          else Inr (PList [m])
      | PList _ \<Rightarrow> Inr m
      | _ \<Rightarrow> Inr (PList [m]))"

section \<open>Payloads of more than 900 characters\<close>

definition MAX_SAFE_SIZE :: nat where "MAX_SAFE_SIZE = 900"

datatype oversized = Split pydict | Replace pyval | Keep

definition simplified_message :: "pydict \<Rightarrow> pydict pyres" where
  "simplified_message d =
     (let request_id = dict_get d ''request_id'' PNone
      in case map_of d ''frames'' of
           Some frames \<Rightarrow>
             (case map_of d ''metadata'' of
                None \<Rightarrow> Inr [(''frames'', frames), (''request_id'', request_id)]
              | Some (PDict mm) \<Rightarrow> Inr [(''frames'', frames), (''request_id'', request_id),
                  (''metadata'', PDict (map (\<lambda>k. (k, dict_get mm k (PStr []))) [''message_type'', ''command_type'', ''command_name'']))]
              | Some _ \<Rightarrow> Inl AttributeError)
         | None \<Rightarrow> Inr ((''request_id'', request_id) #
             (case map_of d ''status_word'' of Some w \<Rightarrow> [(''status_word'', w)] | None \<Rightarrow> [])))"

definition treat_oversized :: "pyval \<Rightarrow> oversized pyres" where
  "treat_oversized m = (case m of
     PDict d \<Rightarrow>
       (if has_key d ''data'' \<and> has_key d ''frames'' then Inr (Split d)
        else case data_list d of
          Some vs \<Rightarrow> Inr (Split (with_word_frames d vs))
        | None \<Rightarrow> py_bind (simplified_message d) (\<lambda>d. Inr (Replace (PDict d))))
   | _ \<Rightarrow> Inr Keep)"

section \<open>Messages of a block transfer\<close>

record rt_transfer =
  rp_status :: pyval
  rp_data :: "pyval list"
  rp_request :: pyval
  rp_metadata :: pydict

text \<open>None: there is nothing to send, which the code reports as a failure.\<close>

definition rt_plan :: "pydict \<Rightarrow> rt_transfer option pyres" where
  "rt_plan d =
     (case map_of d ''frames'' of
        None \<Rightarrow> Inr None
      | Some frames \<Rightarrow>
          py_bind (rt_validate_frames frames) (\<lambda>vs. case vs of
              [] \<Rightarrow> Inr None
            | status_word # data_frames \<Rightarrow>
                (case dict_get d ''metadata'' (PDict []) of
                   PDict md \<Rightarrow> Inr (Some \<lparr>rp_status = status_word, rp_data = data_frames,
                     rp_request = dict_get d ''request_id'' PNone, rp_metadata = md\<rparr>)
                 | _ \<Rightarrow> Inl AttributeError)))"

definition rt_num_messages :: "rt_transfer \<Rightarrow> nat" where
  "rt_num_messages p = (length (rp_data p) + MAX_PAYLOAD_FRAMES_PER_CHUNK - 1) div MAX_PAYLOAD_FRAMES_PER_CHUNK"

definition rt_count_word :: "nat \<Rightarrow> pyval" where
  "rt_count_word n = rt_construct_data_word (int n)"

definition rt_init_message :: "rt_transfer \<Rightarrow> pydict" where
  "rt_init_message p =
     [(''frames'', PList [rp_status p, rt_count_word (rt_num_messages p), rt_count_word (length (rp_data p))]),
      (''request_id'', rp_request p),
      (''metadata'', PDict
         [(''message_type'', dict_get (rp_metadata p) ''message_type'' (PStr ''block_transfer_init'')),
          (''command_type'', PStr ''transfer_init''), (''is_transfer_init'', PBool True),
          (''total_messages'', PInt (int (rt_num_messages p))), (''total_frames'', PInt (int (length (rp_data p))))])]"

definition rt_chunk_frames :: "rt_transfer \<Rightarrow> nat \<Rightarrow> pyval list" where
  "rt_chunk_frames p i =
     [rp_status p, rt_count_word (i + 1), rt_count_word (rt_num_messages p)] @
     slice (i * MAX_PAYLOAD_FRAMES_PER_CHUNK) (min ((i + 1) * MAX_PAYLOAD_FRAMES_PER_CHUNK) (length (rp_data p))) (rp_data p)"

definition rt_data_message :: "rt_transfer \<Rightarrow> nat \<Rightarrow> pydict" where
  "rt_data_message p i =
     [(''frames'', PList (rt_chunk_frames p i)), (''request_id'', rp_request p),
      (''metadata'', PDict
         [(''message_type'', dict_get (rp_metadata p) ''message_type'' PNone),
          (''command_type'', dict_get (rp_metadata p) ''command_type'' PNone), (''is_transfer_data'', PBool True),
          (''sequence_number'', PInt (int (i + 1))), (''total_sequences'', PInt (int (rt_num_messages p))),
          (''is_final'', PBool (i + 1 = rt_num_messages p))])]"

definition rt_complete_message :: "rt_transfer \<Rightarrow> pydict" where
  "rt_complete_message p =
     [(''frames'', PList [rp_status p, rt_count_word (rt_num_messages p), rt_count_word 1]), (''request_id'', rp_request p),
      (''metadata'', PDict
         [(''message_type'', dict_get (rp_metadata p) ''message_type'' (PStr ''block_transfer_complete'')),
          (''command_type'', PStr ''transfer_complete''), (''is_transfer_complete'', PBool True),
          (''total_messages'', PInt (int (rt_num_messages p))), (''status'', PStr ''success'')])]"

text \<open>A chunk that is too long loses first most of its metadata and then all of it; its metadata is a dictionary.\<close>

definition simplified_chunk :: "pydict \<Rightarrow> pydict" where
  "simplified_chunk m =
     [(''frames'', dict_get m ''frames'' PNone), (''request_id'', dict_get m ''request_id'' PNone)] @
     (case dict_get m ''metadata'' PNone of
        PDict (x # xs) \<Rightarrow>
          [(''metadata'', PDict
             [(''message_type'', dict_get (x # xs) ''message_type'' (PStr [])), (''command_type'', dict_get (x # xs) ''command_type'' (PStr [])),
              (''is_transfer_data'', PBool True), (''sequence_number'', dict_get (x # xs) ''sequence_number'' PNone),
              (''total_sequences'', dict_get (x # xs) ''total_sequences'' PNone), (''is_final'', dict_get (x # xs) ''is_final'' (PBool False))])]
      | _ \<Rightarrow> [])"

definition frames_only :: "pydict \<Rightarrow> pydict" where
  "frames_only m = [(''frames'', dict_get m ''frames'' PNone), (''request_id'', dict_get m ''request_id'' PNone)]"

definition chunk_payload :: "pydict \<Rightarrow> string pyres" where
  "chunk_payload m =
     py_bind (json_dumps (PDict m)) (\<lambda>msg.
       if length msg \<le> MAX_SAFE_SIZE then Inr msg
       else py_bind (json_dumps (PDict (simplified_chunk m))) (\<lambda>msg.
         if length msg \<le> MAX_SAFE_SIZE then Inr msg else json_dumps (PDict (frames_only m))))"

definition rt_send_chunk :: "'w transmitter \<Rightarrow> pydict \<Rightarrow> 'w sender \<Rightarrow> bool pyres \<times> 'w sender" where
  "rt_send_chunk tx m s =
     (case chunk_payload m of
        Inl e \<Rightarrow> (caught (Inl e), s)
      | Inr p \<Rightarrow> (case tx p (sd_world s) of (r, w) \<Rightarrow> (caught r, s\<lparr>sd_world := w\<rparr>)))"

section \<open>Sending\<close>

type_synonym 'w rt_send = "outgoing \<Rightarrow> 'w sender \<Rightarrow> bool pyres \<times> 'w sender"

definition rt_announce :: "'w rt_send \<Rightarrow> surroundings \<Rightarrow> rt_transfer \<Rightarrow> 'w sender \<Rightarrow> bool pyres \<times> 'w sender" where
  "rt_announce send x p s =
     (if \<not> hashable (rp_request p) then (Inl TypeError, s)
      else if acknowledged_recently (be_now x) (rp_request p) (sd_ack s) then (Inr True, s)
      else case send (Value (PDict (rt_init_message p))) s of
        (Inr True, s) \<Rightarrow> (Inr True, s\<lparr>sd_ack := AList.update (rp_request p) (be_now x) (sd_ack s)\<rparr>)
      | (r, s) \<Rightarrow> (r, s))"

fun rt_send_chunks :: "'w transmitter \<Rightarrow> surroundings \<Rightarrow> rt_transfer \<Rightarrow> nat list \<Rightarrow> 'w sender \<Rightarrow> bool pyres \<times> 'w sender" where
  "rt_send_chunks tx x p [] s = (Inr True, s)"
| "rt_send_chunks tx x p (i # js) s =
     (if be_late x i then (Inr False, s)
      else if MAX_FRAMES_PER_MESSAGE < length (rt_chunk_frames p i) then (Inr False, s)
      else case rt_send_chunk tx (rt_data_message p i) s of
        (Inr True, s) \<Rightarrow> rt_send_chunks tx x p js s
      | (r, s) \<Rightarrow> (r, s))"

definition rt_send_large_message ::
  "'w rt_send \<Rightarrow> 'w transmitter \<Rightarrow> surroundings \<Rightarrow> pydict \<Rightarrow> 'w sender \<Rightarrow> bool pyres \<times> 'w sender" where
  "rt_send_large_message send tx x d s =
     (case rt_plan d of
        Inl e \<Rightarrow> (caught (Inl e), s)
      | Inr None \<Rightarrow> (Inr False, s)
      | Inr (Some p) \<Rightarrow>
          (case rt_announce send x p s of
             (Inr True, s) \<Rightarrow>
               (case rt_send_chunks tx x p [0..<rt_num_messages p] s of
                  (Inr True, s) \<Rightarrow> rt_send_chunk tx (rt_complete_message p) s
                | (r, s) \<Rightarrow> (r, s))
           | (r, s) \<Rightarrow> (caught r, s)))"

definition rt_put :: "'w rt_send \<Rightarrow> 'w transmitter \<Rightarrow> surroundings \<Rightarrow> pyval \<Rightarrow> string \<Rightarrow> 'w sender \<Rightarrow> bool pyres \<times> 'w sender" where
  "rt_put send tx x m msg s =
     (let transmit = (\<lambda>p. case tx p (sd_world s) of (r, w) \<Rightarrow> (caught r, s\<lparr>sd_world := w\<rparr>))
      in if length msg \<le> MAX_SAFE_SIZE then transmit msg
         else case treat_oversized m of
           Inl e \<Rightarrow> (caught (Inl e), s)
         | Inr (Split d) \<Rightarrow> rt_send_large_message send tx x d s
         | Inr (Replace v) \<Rightarrow> (case json_dumps v of Inl e \<Rightarrow> (caught (Inl e), s) | Inr p \<Rightarrow> transmit p)
         | Inr Keep \<Rightarrow> transmit msg)"

text \<open>The first argument bounds the depth of the two methods that call each other.\<close>

primrec rt_send_message ::
  "nat \<Rightarrow> (pyval \<Rightarrow> string list) \<Rightarrow> 'w transmitter \<Rightarrow> surroundings \<Rightarrow> 'w rt_send" where
  "rt_send_message 0 = (\<lambda>required tx x m s. (Inl Unmodelled, s))"
| "rt_send_message (Suc n) = (\<lambda>required tx x m s.
     if sd_down s then (Inr False, s)
     else case preprocess_message required m of
       Inl e \<Rightarrow> (Inl e, s)
     | Inr v \<Rightarrow>
         (case rt_as_block v of
            Inl e \<Rightarrow> (Inl e, s)
          | Inr (Some d) \<Rightarrow> rt_send_large_message (rt_send_message n required tx x) tx x d s
          | Inr None \<Rightarrow>
              (case py_bind (rt_outgoing (be_now x) v) json_dumps of
                 Inl e \<Rightarrow> (Inl e, s)
               | Inr msg \<Rightarrow> rt_put (rt_send_message n required tx x) tx x v msg s)))"

section \<open>The depth of the recursion\<close>

lemma init_message_single:
  "rt_as_block (PDict (rt_init_message p)) = Inr None"
  "\<exists>v. treat_oversized (PDict (rt_init_message p)) = Inr (Replace v)"
  by (simp_all add: rt_as_block_def is_large_def rt_init_message_def frame_list_def data_list_def MAX_FRAMES_PER_MESSAGE_def
      dict_get_def treat_oversized_def has_key_def simplified_message_def)

definition single_send :: "'w transmitter \<Rightarrow> surroundings \<Rightarrow> rt_transfer \<Rightarrow> 'w sender \<Rightarrow> bool pyres \<times> 'w sender" where
  "single_send tx x p s =
     (if sd_down s then (Inr False, s)
      else case py_bind (rt_outgoing (be_now x) (PDict (rt_init_message p))) json_dumps of
        Inl e \<Rightarrow> (Inl e, s)
      | Inr msg \<Rightarrow> rt_put (\<lambda>_ s. (Inr False, s)) tx x (PDict (rt_init_message p)) msg s)"

lemma init_message_sent:
  "rt_send_message (Suc n) required tx x (Value (PDict (rt_init_message p))) s = single_send tx x p s"
  using init_message_single [of p]
  by (auto simp: single_send_def preprocess_message_def rt_put_def Let_def split: sum.split)

lemma rt_announce_send: "rt_announce (rt_send_message (Suc n) required tx x) x p s = rt_announce (\<lambda>_. single_send tx x p) x p s"
  by (simp only: rt_announce_def init_message_sent)

definition rt_block_transfer :: "'w transmitter \<Rightarrow> surroundings \<Rightarrow> pydict \<Rightarrow> 'w sender \<Rightarrow> bool pyres \<times> 'w sender" where
  "rt_block_transfer tx x d s =
     (case rt_plan d of
        Inl e \<Rightarrow> (caught (Inl e), s)
      | Inr None \<Rightarrow> (Inr False, s)
      | Inr (Some p) \<Rightarrow> rt_send_large_message (\<lambda>_. single_send tx x p) tx x d s)"

lemma rt_large_send: "rt_send_large_message (rt_send_message (Suc n) required tx x) tx x d s = rt_block_transfer tx x d s"
  by (simp only: rt_block_transfer_def rt_send_large_message_def rt_announce_send split: sum.split option.split) simp

section \<open>What a transfer puts on the bus\<close>

lemma caught_True: "caught r = Inr True \<longleftrightarrow> r = Inr True"
  by (auto simp: caught_def split: sum.splits pyerr.splits)

context transport
begin

lemma chunk_accepted:
  "rt_send_chunk tx m s = (Inr True, s') \<Longrightarrow>
   \<exists>p. chunk_payload m = Inr p \<and> accepted (sd_world s') = accepted (sd_world s) @ [p]"
  using taken by (auto simp: rt_send_chunk_def caught_True split: sum.splits prod.splits)

lemma rt_chunks_accepted:
  "rt_send_chunks tx x t js s = (Inr True, s') \<Longrightarrow>
   \<exists>ps. list_all2 (\<lambda>i p. chunk_payload (rt_data_message t i) = Inr p) js ps \<and> accepted (sd_world s') = accepted (sd_world s) @ ps"
proof (induction js arbitrary: s)
  case (Cons i js)
  obtain r s1 where 1: "rt_send_chunk tx (rt_data_message t i) s = (r, s1)" by (rule prod.exhaust)
  then have r: "r = Inr True" "rt_send_chunks tx x t js s1 = (Inr True, s')"
    using Cons.prems by (auto split: if_splits sum.splits bool.splits)
  obtain p where p: "chunk_payload (rt_data_message t i) = Inr p" "accepted (sd_world s1) = accepted (sd_world s) @ [p]"
    using chunk_accepted [OF 1 [unfolded r(1)]] by blast
  obtain ps where ps: "list_all2 (\<lambda>i p. chunk_payload (rt_data_message t i) = Inr p) js ps"
      "accepted (sd_world s') = accepted (sd_world s1) @ ps"
    using Cons.IH [OF r(2)] by blast
  have "list_all2 (\<lambda>i p. chunk_payload (rt_data_message t i) = Inr p) (i # js) (p # ps)" using p(1) ps(1) by simp
  moreover have "accepted (sd_world s') = accepted (sd_world s) @ p # ps" by (simp add: ps(2) p(2))
  ultimately show ?case by blast
qed simp

lemma put_single_accepted:
  assumes "rt_put send tx x m msg s = (Inr True, s')" "\<And>d. treat_oversized m \<noteq> Inr (Split d)"
  shows "\<exists>p. accepted (sd_world s') = accepted (sd_world s) @ [p]"
  using assms taken
  by (auto simp: rt_put_def Let_def caught_True split: if_splits sum.splits prod.splits oversized.splits)

lemma rt_announce_accepted:
  assumes "rt_announce (\<lambda>_. single_send tx x t) x t s = (Inr True, s')"
  shows "\<exists>pre. length pre \<le> 1 \<and> accepted (sd_world s') = accepted (sd_world s) @ pre"
proof (cases "acknowledged_recently (be_now x) (rp_request t) (sd_ack s)")
  case True
  then have "s' = s" using assms by (auto simp: rt_announce_def split: if_splits)
  then show ?thesis by (intro exI [of _ "[]"]) simp
next
  case False
  obtain r s1 where 1: "single_send tx x t s = (r, s1)" by (rule prod.exhaust)
  then have r: "r = Inr True" "sd_world s' = sd_world s1"
    using assms False by (auto simp: rt_announce_def split: if_splits sum.splits bool.splits)
  obtain msg where "rt_put (\<lambda>_ s. (Inr False, s)) tx x (PDict (rt_init_message t)) msg s = (Inr True, s1)"
    using 1 r(1) by (auto simp: single_send_def split: if_splits sum.splits)
  from put_single_accepted [OF this] init_message_single(2) [of t]
  obtain p where "accepted (sd_world s1) = accepted (sd_world s) @ [p]" by auto
  then show ?thesis using r(2) by (intro exI [of _ "[p]"]) simp
qed

lemma rt_transfer_accepted:
  assumes "rt_block_transfer tx x d s = (Inr True, s')"
  shows "\<exists>t pre ps c. rt_plan d = Inr (Some t) \<and> length pre \<le> 1 \<and>
    list_all2 (\<lambda>i p. chunk_payload (rt_data_message t i) = Inr p) [0..<rt_num_messages t] ps \<and>
    chunk_payload (rt_complete_message t) = Inr c \<and> accepted (sd_world s') = accepted (sd_world s) @ pre @ ps @ [c]"
proof -
  obtain t where t: "rt_plan d = Inr (Some t)"
    "rt_send_large_message (\<lambda>_. single_send tx x t) tx x d s = (Inr True, s')"
    using assms by (auto simp: rt_block_transfer_def caught_def split: sum.splits option.splits pyerr.splits)
  obtain r1 s1 where 1: "rt_announce (\<lambda>_. single_send tx x t) x t s = (r1, s1)" by (rule prod.exhaust)
  obtain r2 s2 where 2: "rt_send_chunks tx x t [0..<rt_num_messages t] s1 = (r2, s2)" by (rule prod.exhaust)
  have r: "r1 = Inr True" "r2 = Inr True" "rt_send_chunk tx (rt_complete_message t) s2 = (Inr True, s')"
    using t 1 2 by (auto simp: rt_send_large_message_def caught_True split: sum.splits bool.splits)
  from rt_announce_accepted [OF 1 [unfolded r(1)]] rt_chunks_accepted [OF 2 [unfolded r(2)]] chunk_accepted [OF r(3)]
  obtain pre ps c where "length pre \<le> 1" "accepted (sd_world s1) = accepted (sd_world s) @ pre"
    "list_all2 (\<lambda>i p. chunk_payload (rt_data_message t i) = Inr p) [0..<rt_num_messages t] ps"
    "accepted (sd_world s2) = accepted (sd_world s1) @ ps" "chunk_payload (rt_complete_message t) = Inr c"
    "accepted (sd_world s') = accepted (sd_world s2) @ [c]" by blast
  then show ?thesis using t(1) by (intro exI [of _ t] exI [of _ pre] exI [of _ ps] exI [of _ c]) simp
qed

end

section \<open>The length of a payload\<close>

lemma text_string_length: "length w + 2 \<le> length (text_string w)"
proof -
  have "text_char c \<noteq> []" for c by (simp add: text_char_def Let_def split: option.split)
  then have "1 \<le> length (text_char c)" for c by (simp add: Suc_le_eq)
  then have "length w \<le> length (concat (map text_char w))"
  proof (induction w)
    case (Cons c w)
    then show ?case using add_mono [of 1 "length (text_char c)" "length w"] by simp
  qed simp
  then show ?thesis by (simp add: text_string_def)
qed

lemma text_items_length:
  "list_all (\<lambda>v. n \<le> length (json_text v)) vs \<Longrightarrow> (n + 2) * length vs \<le> length (text_items vs) + 2"
proof (induction vs)
  case (Cons v vs)
  then show ?case by (cases vs) auto
qed simp

lemma text_items_append:
  "xs \<noteq> [] \<Longrightarrow> ys \<noteq> [] \<Longrightarrow> text_items (xs @ ys) = text_items xs @ '', '' @ text_items ys"
proof (induction xs)
  case (Cons x xs)
  then show ?case by (cases xs; cases ys) simp_all
qed simp

lemma json_text_nonempty: "plain_value v \<Longrightarrow> 1 \<le> length (json_text v)"
  using text_head [of v] by (auto simp: Suc_le_eq)

lemma word_text_length: "4 \<le> length (json_text (rt_construct_data_word n))"
proof (cases "rt_encode_data_word (AInt n)")
  case (Inr w)
  then have "length w = 20" by (auto simp: rt_encode_data_word_def rt_data_value_def Let_def split: if_splits)
  then show ?thesis using text_string_length [of w] Inr by (simp add: rt_construct_data_word_def)
qed (simp add: rt_construct_data_word_def)

lemma data_message_length:
  assumes "plain_value r" "plain_value a" "plain_value b" "plain_value c" "plain_value e"
  shows "length (text_items fs) + 171 \<le> length (json_text (PDict
     [(''frames'', PList fs), (''request_id'', r),
      (''metadata'', PDict [(''message_type'', a), (''command_type'', b), (''is_transfer_data'', PBool True),
         (''sequence_number'', c), (''total_sequences'', e), (''is_final'', PBool f)])]))"
proof -
  have "length (text_string ''frames'') = 8" "length (text_string ''request_id'') = 12" "length (text_string ''metadata'') = 10"
    "length (text_string ''message_type'') = 14" "length (text_string ''command_type'') = 14"
    "length (text_string ''is_transfer_data'') = 18" "length (text_string ''sequence_number'') = 17"
    "length (text_string ''total_sequences'') = 17" "length (text_string ''is_final'') = 10"
    by code_simp+
  then show ?thesis
    using json_text_nonempty [OF assms(1)] json_text_nonempty [OF assms(2)] json_text_nonempty [OF assms(3)]
      json_text_nonempty [OF assms(4)] json_text_nonempty [OF assms(5)] by simp
qed

section \<open>Valid frames\<close>

lemma repaired_frame_ok: "repaired_frame v = Some f \<Longrightarrow> frame_ok f"
  by (auto simp: repaired_frame_def frame_ok_def Let_def min_def split: pyval.splits if_splits)

lemma validated_ok: "rt_validate_frames v = Inr vs \<Longrightarrow> list_all frame_ok vs"
  by (auto simp: rt_validate_frames_def py_bind_def list_all_iff map_filter_def repaired_frame_ok split: if_splits sum.splits)

lemma plan_frames_ok: "rt_plan d = Inr (Some t) \<Longrightarrow> frame_ok (rp_status t) \<and> list_all frame_ok (rp_data t)"
  using validated_ok
  by (fastforce simp: rt_plan_def py_bind_def split: option.splits sum.splits list.splits pyval.splits)

lemma frame_ok_cases: "frame_ok f \<Longrightarrow> \<exists>w. f = PStr w \<and> length w = 20 \<and> take 3 w \<in> {''100'', ''001''}"
  by (auto simp: frame_ok_def split: pyval.splits)

lemma frame_ok_text: "frame_ok f \<Longrightarrow> plain_value f \<and> 22 \<le> length (json_text f)"
proof -
  assume "frame_ok f"
  then obtain w where "f = PStr w" "length w = 20" using frame_ok_cases by blast
  then show ?thesis using text_string_length [of w] by simp
qed

lemma data_word_ok:
  assumes "0 \<le> n" "n \<le> 65535"
  shows "rt_construct_data_word n = PStr (with_parity (data_body n))" "frame_ok (rt_construct_data_word n)"
proof -
  have v: "valid_data n" using assms by (simp add: valid_data_def)
  show w: "rt_construct_data_word n = PStr (with_parity (data_body n))"
    using v by (simp add: rt_construct_data_word_def rt_encode_data_eq bc_encode_data_eq)
  have "length (with_parity (data_body n)) = 20" using enc_data_word [OF v] v by (simp add: enc_data_def bc_encode_data_eq word20_def)
  moreover have "take 3 (with_parity (data_body n)) = ''001''" using data_body_fields(1) [OF v] by (simp add: slice_def)
  ultimately show "frame_ok (rt_construct_data_word n)" unfolding w by (simp add: frame_ok_def)
qed

lemma all_frames_valid: "list_all frame_ok vs \<Longrightarrow> valid_frames vs = Inr vs"
proof (induction vs)
  case (Cons v vs)
  then show ?case by (auto dest!: frame_ok_cases simp: valid_frame_def item_length_def)
qed simp

section \<open>Chunks\<close>

lemma rt_chunks_cover: "concat (map (\<lambda>i. drop 3 (rt_chunk_frames p i)) [0..<rt_num_messages p]) = rp_data p"
proof -
  have "length (rp_data p) \<le> rt_num_messages p * 30" by (simp add: rt_num_messages_def MAX_PAYLOAD_FRAMES_PER_CHUNK_def)
  then show ?thesis
    using slices [of 30 "rp_data p" "rt_num_messages p"] by (simp add: rt_chunk_frames_def MAX_PAYLOAD_FRAMES_PER_CHUNK_def)
qed

text \<open>The simplification of a chunk that is too long gives the chunk itself.\<close>

lemma simplified_chunk_same: "simplified_chunk (rt_data_message p i) = rt_data_message p i"
  by (simp add: simplified_chunk_def rt_data_message_def dict_get_def)

lemma frames_only_data: "frames_only (rt_data_message p i) = frame_message (rt_chunk_frames p i) (rp_request p)"
  by (simp add: frames_only_def rt_data_message_def frame_message_def dict_get_def)

lemma chunk_payload_data:
  "chunk_payload (rt_data_message p i) = py_bind (json_dumps (PDict (rt_data_message p i))) (\<lambda>msg.
     if length msg \<le> MAX_SAFE_SIZE then Inr msg else json_dumps (PDict (frame_message (rt_chunk_frames p i) (rp_request p))))"
  by (auto simp: chunk_payload_def simplified_chunk_same frames_only_data py_bind_def split: sum.split)

lemma chunk_payload_frames:
  assumes "chunk_payload (rt_data_message p i) = Inr q"
  shows "\<exists>m. q = json_text (PDict m) \<and> frames_of (PDict m) = rt_chunk_frames p i"
proof -
  have "q = json_text (PDict (rt_data_message p i)) \<or> q = json_text (PDict (frame_message (rt_chunk_frames p i) (rp_request p)))"
    using assms by (auto simp: chunk_payload_data json_dumps_def py_bind_def simp del: json_text.simps split: if_splits)
  moreover have "frames_of (PDict (rt_data_message p i)) = rt_chunk_frames p i"
    "frames_of (PDict (frame_message (rt_chunk_frames p i) (rp_request p))) = rt_chunk_frames p i"
    by (simp_all add: frames_of_def frame_list_def rt_data_message_def frame_message_def)
  ultimately show ?thesis by blast
qed

definition plain_transfer :: "rt_transfer \<Rightarrow> bool" where
  "plain_transfer t \<longleftrightarrow> frame_ok (rp_status t) \<and> list_all frame_ok (rp_data t) \<and> plain_value (rp_request t) \<and> plain_members (rp_metadata t)"

lemma plan_plain: "rt_plan d = Inr (Some t) \<Longrightarrow> plain_members d \<Longrightarrow> plain_transfer t"
proof -
  assume t: "rt_plan d = Inr (Some t)" and d: "plain_members d"
  have "rp_request t = dict_get d ''request_id'' PNone" "PDict (rp_metadata t) = dict_get d ''metadata'' (PDict [])"
    using t by (auto simp: rt_plan_def py_bind_def split: option.splits sum.splits list.splits pyval.splits)
  then have "plain_value (rp_request t)" "plain_value (PDict (rp_metadata t))"
    using plain_get [OF d, of PNone "''request_id''"] plain_get [OF d, of "PDict []" "''metadata''"] by simp_all
  then show ?thesis using plan_frames_ok [OF t] by (simp add: plain_transfer_def)
qed

lemma full_slice:
  assumes "Suc i * 30 \<le> length xs"
  shows "slice (i * MAX_PAYLOAD_FRAMES_PER_CHUNK) (min ((i + 1) * MAX_PAYLOAD_FRAMES_PER_CHUNK) (length xs)) xs = take 30 (drop (i * 30) xs)"
    "length (take 30 (drop (i * 30) xs)) = 30"
  using assms by (auto simp: slice_def MAX_PAYLOAD_FRAMES_PER_CHUNK_def min_def)

lemma full_chunk_text:
  assumes "plain_transfer t" "Suc i * 30 \<le> length (rp_data t)"
  shows "736 \<le> length (text_items (rt_chunk_frames t i))"
proof -
  let ?p = "take 30 (drop (i * 30) (rp_data t))"
  let ?h = "[rp_status t, rt_count_word (i + 1), rt_count_word (rt_num_messages t)]"
  have f: "list_all frame_ok ?p" using assms(1) by (auto simp: plain_transfer_def list_all_iff dest: in_set_takeD in_set_dropD)
  have 30: "length ?p = 30" using full_slice(2) [OF assms(2)] .
  have "list_all (\<lambda>v. 22 \<le> length (json_text v)) ?p" using f frame_ok_text by (auto simp: list_all_iff)
  from text_items_length [OF this] have p: "718 \<le> length (text_items ?p)" unfolding 30 by simp
  have "22 \<le> length (json_text (rp_status t))" using assms(1) frame_ok_text by (simp add: plain_transfer_def)
  then have "list_all (\<lambda>v. 4 \<le> length (json_text v)) ?h" using word_text_length by (simp add: rt_count_word_def)
  from text_items_length [OF this] have h: "16 \<le> length (text_items ?h)" by simp
  have "rt_chunk_frames t i = ?h @ ?p" by (simp only: rt_chunk_frames_def full_slice(1) [OF assms(2)])
  moreover have "?p \<noteq> []" using 30 by force
  ultimately have "text_items (rt_chunk_frames t i) = text_items ?h @ '', '' @ text_items ?p"
    using text_items_append [of ?h ?p] by simp
  then show ?thesis using p h by simp
qed

lemma full_chunk_payload:
  assumes "plain_transfer t" "Suc i * 30 \<le> length (rp_data t)"
  shows "chunk_payload (rt_data_message t i) = Inr (json_text (PDict (frame_message (rt_chunk_frames t i) (rp_request t))))"
proof -
  note p = assms(1) [unfolded plain_transfer_def]
  have w: "plain_value (rt_count_word n)" for n by (simp add: rt_count_word_def rt_construct_data_word_def split: sum.split)
  have f: "plain_items (rt_chunk_frames t i)"
    using p w frame_ok_text plain_slice
    by (auto simp: rt_chunk_frames_def plain_items_iff list_all_iff slice_def dest!: in_set_takeD in_set_dropD)
  have "plain_value (PDict (rt_data_message t i))"
    using p f by (simp add: rt_data_message_def plain_get)
  moreover have "plain_value (PDict (frame_message (rt_chunk_frames t i) (rp_request t)))"
    using p f by (simp add: frame_message_def)
  moreover have "\<not> length (json_text (PDict (rt_data_message t i))) \<le> MAX_SAFE_SIZE"
    using full_chunk_text [OF assms]
      data_message_length [of "rp_request t" "dict_get (rp_metadata t) ''message_type'' PNone" "dict_get (rp_metadata t) ''command_type'' PNone"
        "PInt (int (i + 1))" "PInt (int (rt_num_messages t))" "rt_chunk_frames t i" "i + 1 = rt_num_messages t"] p
    by (simp add: rt_data_message_def MAX_SAFE_SIZE_def plain_get del: json_text.simps)
  ultimately show ?thesis
    unfolding chunk_payload_data json_dumps_def by (simp add: py_bind_def del: json_text.simps)
qed

lemma plain_message_queued:
  assumes "plain_value r" "truthy r" "list_all frame_ok fs" "fs \<noteq> []"
  shows "bc_process now (json_text (PDict (frame_message fs r))) l =
    (Inr (), l\<lparr>l_received := l_received l @ [PDict (frame_message fs r)], l_activity := now\<rparr>)"
proof -
  have "plain_items fs" using assms(3) frame_ok_text by (auto simp: plain_items_iff list_all_iff)
  then have j: "json_loads (json_text (PDict (frame_message fs r))) = Inr (PDict (frame_message fs r))"
    using assms(1) by (intro json_loads_text) (simp add: frame_message_def)
  have k: "looks_json (json_text (PDict (frame_message fs r)))" by (simp add: looks_json_def)
  have b: "bc_message (frame_message fs r) fs r = frame_message fs r"
    by (simp add: bc_message_def copy_key_def frame_message_def TRANSFER_FLAGS_def)
  have "transfer_checks (frame_message fs r) = Inr ()"
    by (simp add: transfer_checks_def transfer_flag_def frame_message_def dict_get_def)
  moreover have "has_key (frame_message fs r) ''status_word'' = False" "dict_get (frame_message fs r) ''request_id'' PNone = r"
    "dict_get (frame_message fs r) ''frames'' (PList []) = PList fs"
    by (simp_all add: has_key_def dict_get_def frame_message_def)
  ultimately show ?thesis
    using assms(2,4) all_frames_valid [OF assms(3)] b unfolding bc_process_def j eqTrueI [OF k]
    by (simp add: process_frames_def iterate_def enqueue_def)
qed

lemma chunk_frames_ok:
  assumes "plain_transfer t" "length (rp_data t) \<le> 65535" "Suc i * 30 \<le> length (rp_data t)"
  shows "list_all frame_ok (rt_chunk_frames t i)"
proof -
  have n: "rt_num_messages t \<le> 65535" "i + 1 \<le> 65535"
    using assms(2,3) by (simp_all add: rt_num_messages_def MAX_PAYLOAD_FRAMES_PER_CHUNK_def)
  have "frame_ok (rt_count_word (rt_num_messages t))" "frame_ok (rt_count_word (i + 1))"
    using data_word_ok(2) n by (simp_all add: rt_count_word_def)
  then show ?thesis
    using assms(1) by (auto simp: rt_chunk_frames_def plain_transfer_def list_all_iff slice_def dest!: in_set_takeD in_set_dropD)
qed

lemma repaired_frames_same: "list_all frame_ok vs \<Longrightarrow> List.map_filter repaired_frame vs = vs"
proof (induction vs)
  case (Cons v vs)
  then show ?case by (auto dest!: frame_ok_cases simp: repaired_frame_def map_filter_simps)
qed (simp add: map_filter_simps)

section \<open>When nothing hinders a transfer\<close>

lemma chunk_payload_plain: "plain_value (PDict m) \<Longrightarrow> \<exists>p. chunk_payload m = Inr p"
proof -
  assume m: "plain_value (PDict m)"
  then have g: "plain_value (dict_get m k PNone)" for k by (simp add: plain_get)
  from g [of "''frames''"] g [of "''request_id''"] have "plain_value (PDict (frames_only m))" by (simp add: frames_only_def)
  moreover have "plain_value (PDict (simplified_chunk m))"
    using g [of "''frames''"] g [of "''request_id''"] g [of "''metadata''"]
    by (auto simp: simplified_chunk_def plain_get split: pyval.split list.split)
  ultimately show ?thesis using m by (auto simp: chunk_payload_def json_dumps_def py_bind_def simp del: json_text.simps plain_value.simps)
qed

lemma chunk_sent:
  "always_accepts tx \<Longrightarrow> plain_value (PDict m) \<Longrightarrow> \<exists>s'. rt_send_chunk tx m s = (Inr True, s')"
proof -
  assume "always_accepts tx" "plain_value (PDict m)"
  then obtain p w where "chunk_payload m = Inr p" "tx p (sd_world s) = (Inr True, w)"
    by (metis chunk_payload_plain always_accepts_def prod.collapse)
  then show ?thesis by (simp add: rt_send_chunk_def caught_def)
qed

lemma plain_count_word: "plain_value (rt_count_word n)"
  by (simp add: rt_count_word_def rt_construct_data_word_def split: sum.split)

lemma plain_rt_messages:
  assumes "plain_transfer t"
  shows "plain_value (PDict (rt_init_message t))" "plain_value (PDict (rt_data_message t i))" "plain_value (PDict (rt_complete_message t))"
proof -
  note p = assms [unfolded plain_transfer_def]
  have s: "plain_value (rp_status t)" "list_all plain_value (rp_data t)" using p frame_ok_text by (auto simp: list_all_iff)
  have "plain_items (rt_chunk_frames t i)"
    using s plain_count_word plain_slice [OF s(2)] by (simp add: rt_chunk_frames_def plain_items_iff)
  then show "plain_value (PDict (rt_data_message t i))" using p by (simp add: rt_data_message_def plain_get)
  show "plain_value (PDict (rt_init_message t))" "plain_value (PDict (rt_complete_message t))"
    using p s plain_count_word by (simp_all add: rt_init_message_def rt_complete_message_def plain_get)
qed

lemma init_outgoing:
  "\<exists>fs mm. rt_outgoing now (PDict (rt_init_message t)) = Inr (PDict (reduced (PList fs) (rp_request t) mm)) \<and>
     (plain_transfer t \<longrightarrow> list_all plain_value fs \<and> plain_members mm)"
proof -
  have "\<exists>mm. rt_outgoing now (PDict (rt_init_message t)) = Inr (PDict (reduced (PList
      [rp_status t, rt_count_word (rt_num_messages t), rt_count_word (length (rp_data t))]) (rp_request t) mm)) \<and>
      map_of (rt_init_message t) ''metadata'' = Some (PDict mm)"
    by (simp add: rt_outgoing_def rt_init_message_def transmission_fields_def with_generated_frames_def Let_def dict_get_def has_key_def
        reduced_def dict_set_def py_bind_def)
  then show ?thesis using frame_ok_text
    by (fastforce simp: plain_transfer_def plain_count_word rt_init_message_def plain_get)
qed

lemma single_send_succeeds:
  assumes "always_accepts tx" "\<not> sd_down s" "plain_transfer t"
  shows "\<exists>s'. single_send tx x t s = (Inr True, s')"
proof -
  obtain fs mm where o: "rt_outgoing (be_now x) (PDict (rt_init_message t)) = Inr (PDict (reduced (PList fs) (rp_request t) mm))"
      and pl: "list_all plain_value fs" "plain_members mm"
    using init_outgoing [of "be_now x" t] assms(3) by blast
  then have j: "py_bind (rt_outgoing (be_now x) (PDict (rt_init_message t))) json_dumps =
      Inr (json_text (PDict (reduced (PList fs) (rp_request t) mm)))"
    using plain_reduced [of "PList fs" "rp_request t" mm] assms(3)
    by (simp add: json_dumps_def plain_items_iff plain_transfer_def del: json_text.simps)
  obtain v where v: "treat_oversized (PDict (rt_init_message t)) = Inr (Replace v)" "plain_value v"
    using plain_rt_messages(1) [OF assms(3)]
    by (auto simp: rt_init_message_def treat_oversized_def has_key_def data_list_def simplified_message_def dict_get_def)
  have "\<exists>w. tx p (sd_world s) = (Inr True, w)" for p using assms(1) by (metis always_accepts_def prod.collapse)
  then obtain f where f: "\<And>p. tx p (sd_world s) = (Inr True, f p)" by metis
  show ?thesis
    using assms(2) v(2) unfolding single_send_def j rt_put_def v(1)
    by (simp add: f caught_def json_dumps_def del: json_text.simps)
qed

lemma rt_chunks_succeed:
  assumes "always_accepts tx" "plain_transfer t" "\<And>i. \<not> be_late x i"
  shows "\<exists>s'. rt_send_chunks tx x t js s = (Inr True, s')"
proof (induction js arbitrary: s)
  case (Cons i js)
  obtain s1 where s1: "rt_send_chunk tx (rt_data_message t i) s = (Inr True, s1)"
    using chunk_sent [OF assms(1) plain_rt_messages(2) [OF assms(2)]] by blast
  have "length (rt_chunk_frames t i) \<le> 33" by (simp add: rt_chunk_frames_def MAX_PAYLOAD_FRAMES_PER_CHUNK_def slice_def)
  then show ?case
    using Cons.IH [of s1] s1 assms(3) by (simp add: MAX_FRAMES_PER_MESSAGE_def)
qed simp

lemma rt_transfer_succeeds:
  assumes "always_accepts tx" "rt_plan d = Inr (Some t)" "plain_members d" "hashable (rp_request t)" "\<not> sd_down s" "\<And>i. \<not> be_late x i"
  shows "\<exists>s'. rt_block_transfer tx x d s = (Inr True, s')"
proof -
  have t: "plain_transfer t" using plan_plain [OF assms(2,3)] .
  obtain s1 where 1: "rt_announce (\<lambda>_. single_send tx x t) x t s = (Inr True, s1)"
    using single_send_succeeds [OF assms(1,5) t, of x] assms(4)
    by (cases "acknowledged_recently (be_now x) (rp_request t) (sd_ack s)") (auto simp: rt_announce_def)
  obtain s2 where 2: "rt_send_chunks tx x t [0..<rt_num_messages t] s1 = (Inr True, s2)"
    using rt_chunks_succeed [OF assms(1) t assms(6)] by blast
  obtain s3 where "rt_send_chunk tx (rt_complete_message t) s2 = (Inr True, s3)"
    using chunk_sent [OF assms(1) plain_rt_messages(3) [OF t]] by blast
  then show ?thesis using 1 2 assms(2) by (simp add: rt_block_transfer_def rt_send_large_message_def)
qed

section \<open>Properties\<close>

text \<open>
  The two methods of the sender of the remote terminal that call each other do so at most once, whatever is sent.
\<close>

theorem rt_transfer_depth:
  "rt_send_message (Suc (Suc n)) required tx x m s = rt_send_message 2 required tx x m s"
proof -
  have "rt_put (rt_send_message (Suc n) required tx x) tx x v msg s = rt_put (rt_send_message (Suc 0) required tx x) tx x v msg s" for v msg s
    by (simp only: rt_put_def rt_large_send)
  then show ?thesis
    by (simp only: numeral_2_eq_2 rt_send_message.simps(2) [of "Suc n"] rt_send_message.simps(2) [of "Suc 0"] rt_large_send)
qed

text \<open>
  C39. A block transfer that the remote terminal reports as sent has been accepted whole by the network: at most one
  initialisation, one payload for each chunk and a completion, in this order; the frames of the chunks behind their
  three header words add up to the data frames of the message.
\<close>

theorem rt_reported_transfer_complete:
  assumes "rt_as_block (PDict d) = Inr (Some d')"
    "rt_send_message 2 required (socket_transmit o1 host port) x (Value (PDict d)) s = (Inr True, s')"
  shows "\<exists>t pre ms c. rt_plan d' = Inr (Some t) \<and> length pre \<le> 1 \<and>
    accepted_payloads o1 (sd_world s') = accepted_payloads o1 (sd_world s) @ pre @ map (json_text \<circ> PDict) ms @ [c] \<and>
    concat (map (\<lambda>m. drop 3 (frames_of (PDict m))) ms) = rp_data t"
proof -
  have "rt_block_transfer (socket_transmit o1 host port) x d' s = (Inr True, s')"
    using assms(2) unfolding numeral_2_eq_2 rt_send_message.simps(2) [of "Suc 0"] rt_large_send
    by (simp add: preprocess_message_def assms(1) del: rt_send_message.simps split: if_splits)
  from socket.rt_transfer_accepted [OF this] obtain t pre ps c where
    t: "rt_plan d' = Inr (Some t)" "length pre \<le> 1"
      "list_all2 (\<lambda>i p. chunk_payload (rt_data_message t i) = Inr p) [0..<rt_num_messages t] ps"
      "accepted_payloads o1 (sd_world s') = accepted_payloads o1 (sd_world s) @ pre @ ps @ [c]" by blast
  have n: "length ps = rt_num_messages t" "\<And>i. i < rt_num_messages t \<Longrightarrow> chunk_payload (rt_data_message t i) = Inr (ps ! i)"
    using t(3) by (auto simp: list_all2_conv_all_nth)
  obtain f where f: "\<And>i. i < rt_num_messages t \<Longrightarrow> ps ! i = json_text (PDict (f i)) \<and> frames_of (PDict (f i)) = rt_chunk_frames t i"
    using chunk_payload_frames [OF n(2)] by metis
  let ?ms = "map f [0..<rt_num_messages t]"
  have "ps = map (json_text \<circ> PDict) ?ms" by (rule nth_equalityI) (simp_all add: n(1) f del: json_text.simps)
  moreover have "concat (map (\<lambda>m. drop 3 (frames_of (PDict m))) ?ms) = rp_data t"
  proof -
    have "map (\<lambda>m. drop 3 (frames_of (PDict m))) ?ms = map (\<lambda>i. drop 3 (rt_chunk_frames t i)) [0..<rt_num_messages t]"
      using f by (intro nth_equalityI) simp_all
    then show ?thesis by (simp only: rt_chunks_cover)
  qed
  ultimately show ?thesis using t(1,2,4) by blast
qed

text \<open>
  C40. A full chunk loses its metadata: behind its 33 frames the message is longer than 900 characters whatever it holds,
  the simplified message is the same message, and so only the frames and the identifier are sent; the listener of the bus
  controller queues them without flag, number or total.
\<close>

theorem full_chunks_lose_numbers:
  assumes "rt_plan d = Inr (Some t)" "plain_members d" "truthy (rp_request t)" "length (rp_data t) \<le> 65535"
    "Suc i * 30 \<le> length (rp_data t)"
  shows "\<exists>p. chunk_payload (rt_data_message t i) = Inr p \<and>
    bc_process now p l = (Inr (), l\<lparr>l_received := l_received l @ [PDict [(''frames'', PList (rt_chunk_frames t i)),
      (''request_id'', rp_request t)]], l_activity := now\<rparr>)"
proof -
  have t: "plain_transfer t" using plan_plain [OF assms(1,2)] .
  have "rt_chunk_frames t i \<noteq> []" by (simp add: rt_chunk_frames_def)
  from plain_message_queued [OF _ assms(3) chunk_frames_ok [OF t assms(4,5)] this]
  show ?thesis using full_chunk_payload [OF t assms(5)] t by (simp add: plain_transfer_def frame_message_def del: json_text.simps)
qed

text \<open>
  A long list of numbers in a message without a status word loses its first number: no frame stands where the
  status word is expected, the empty text there is dropped as invalid, and the word of the first number is taken for the
  status word of the transfer.
\<close>

theorem headless_transfer_loses_first_word:
  assumes "map_of d ''data'' = Some (PList (map PInt (k # ks)))" "\<forall>n\<in>set (k # ks). 0 \<le> n \<and> n \<le> 65535" "15 \<le> length ks"
    "\<not> has_key d ''status_word''" "\<not> is_large (PDict d)" "map_of d ''metadata'' = None"
  shows "\<exists>d' t. rt_as_block (PDict d) = Inr (Some d') \<and> rt_plan d' = Inr (Some t) \<and>
    rp_status t = rt_construct_data_word k \<and> rp_data t = map rt_construct_data_word ks"
proof -
  let ?ws = "map rt_construct_data_word (k # ks)"
  let ?d = "tagged (with_word_frames d (map PInt (k # ks)))"
  have b: "rt_as_block (PDict d) = Inr (Some ?d)"
    using assms(1,3,5) by (simp add: rt_as_block_def data_list_def DATA_THRESHOLD_def)
  have w: "map word_of_item (map PInt (k # ks)) = ?ws" by (simp add: word_of_item_def comp_def)
  have f: "map_of ?d ''frames'' = Some (PList (PStr [] # ?ws))"
    using assms(4) w by (simp add: tagged_def with_word_frames_def map_of_dict_set dict_get_def has_key_def)
  have "list_all frame_ok ?ws" using assms(2) data_word_ok(2) by (auto simp: list_all_iff)
  then have "List.map_filter repaired_frame ?ws = ?ws" by (rule repaired_frames_same)
  moreover have "repaired_frame (PStr []) = None" by (simp add: repaired_frame_def)
  ultimately have "rt_validate_frames (PList (PStr [] # ?ws)) = Inr ?ws"
    by (simp add: rt_validate_frames_def iterate_def map_filter_simps)
  moreover have "dict_get ?d ''metadata'' (PDict []) = PDict []"
    using assms(6) by (simp add: tagged_def with_word_frames_def dict_get_def map_of_dict_set)
  ultimately have "\<exists>t. rt_plan ?d = Inr (Some t) \<and> rp_status t = rt_construct_data_word k \<and> rp_data t = map rt_construct_data_word ks"
    unfolding rt_plan_def f by simp
  then show ?thesis using b by blast
qed

text \<open>
  Data that is no list is lost when the message is too long: a message without frames whose text has more than 900
  characters is replaced by its identifier and its status word, and success is reported.
\<close>

theorem oversized_data_dropped:
  assumes "has_key d ''data''" "data_list d = None" "\<not> has_key d ''frames''" "\<not> truthy (dict_get d ''command_type'' PNone)"
    "py_bind (rt_outgoing (be_now x) (PDict d)) json_dumps = Inr msg" "900 < length msg" "plain_members d" "always_accepts tx" "\<not> sd_down s"
  shows "\<exists>q s'. rt_send_message (Suc n) required tx x (Value (PDict d)) s = (Inr True, s') \<and> \<not> has_key q ''data'' \<and>
    s' = s\<lparr>sd_world := snd (tx (json_text (PDict q)) (sd_world s))\<rparr>"
proof -
  define q where "q = (''request_id'', dict_get d ''request_id'' PNone) #
    (case map_of d ''status_word'' of Some w \<Rightarrow> [(''status_word'', w)] | None \<Rightarrow> [])"
  have "dict_get d ''command_type'' PNone \<noteq> PStr ''precipitation_data''" "dict_get d ''command_type'' PNone \<noteq> PStr ''vil_data''"
    using assms(4) by auto
  then have b: "rt_as_block (PDict d) = Inr None"
    using assms(2,3) by (simp add: rt_as_block_def is_large_def frame_list_def has_key_def split: option.split)
  have t: "treat_oversized (PDict d) = Inr (Replace (PDict q))"
    using assms(2,3) by (simp add: treat_oversized_def simplified_message_def has_key_def q_def)
  have "plain_value v" if "map_of d k = Some v" for k v
    using assms(7) map_of_SomeD [OF that] by (auto simp: plain_members_iff list_all_iff)
  then have "json_dumps (PDict q) = Inr (json_text (PDict q))"
    using plain_get [OF assms(7)] by (simp add: json_dumps_def q_def split: option.split)
  moreover obtain w where w: "tx (json_text (PDict q)) (sd_world s) = (Inr True, w)"
    using assms(8) by (metis always_accepts_def prod.collapse)
  moreover have "\<not> length msg \<le> MAX_SAFE_SIZE" using assms(6) by (simp add: MAX_SAFE_SIZE_def)
  ultimately have "rt_put send tx x (PDict d) msg s = (Inr True, s\<lparr>sd_world := w\<rparr>)" for send
    unfolding rt_put_def t by (simp add: caught_def del: json_text.simps)
  then have "rt_send_message (Suc n) required tx x (Value (PDict d)) s = (Inr True, s\<lparr>sd_world := w\<rparr>)"
    using assms(9) unfolding rt_send_message.simps(2) by (simp add: preprocess_message_def b assms(5) del: rt_send_message.simps)
  moreover have "\<not> has_key q ''data''" by (simp add: q_def has_key_def split: option.split)
  ultimately show ?thesis using w by (metis snd_conv)
qed

section \<open>Witnesses\<close>

definition long_reply :: pydict where
  "long_reply = [(''frames'', PList (replicate 41 (PStr ''10000100000000000001''))), (''request_id'', PStr ''r7'')]"

definition reply_transfer :: rt_transfer where
  "reply_transfer = \<lparr>rp_status = PStr ''10000100000000000001'', rp_data = replicate 40 (PStr ''10000100000000000001''),
     rp_request = PStr ''r7'', rp_metadata = []\<rparr>"

lemma long_reply_facts:
  "rt_as_block (PDict long_reply) = Inr (Some long_reply)" "rt_plan long_reply = Inr (Some reply_transfer)"
  "plain_members long_reply" "truthy (rp_request reply_transfer)" "hashable (rp_request reply_transfer)"
  "length (rp_data reply_transfer) = 40"
proof -
  let ?fs = "PStr ''10000100000000000001'' # replicate 40 (PStr ''10000100000000000001'')"
  have f: "map_of long_reply ''frames'' = Some (PList ?fs)" by (simp add: long_reply_def flip: replicate_Suc)
  have "frame_list long_reply = Some ?fs" by (simp add: frame_list_def f)
  then show "rt_as_block (PDict long_reply) = Inr (Some long_reply)"
    by (simp add: rt_as_block_def is_large_def MAX_FRAMES_PER_MESSAGE_def)
  have "list_all frame_ok ?fs" by (simp add: frame_ok_def list_all_iff)
  then have "List.map_filter repaired_frame ?fs = ?fs" by (rule repaired_frames_same)
  then have "rt_validate_frames (PList ?fs) = Inr ?fs"
    by (simp only: rt_validate_frames_def iterate_def py_bind_simps pyval.case truthy.simps) simp
  then show "rt_plan long_reply = Inr (Some reply_transfer)"
    unfolding rt_plan_def f by (simp add: reply_transfer_def dict_get_def) (simp add: long_reply_def dict_get_def)
  show "plain_members long_reply" by (simp add: long_reply_def plain_items_iff list_all_iff)
qed (simp_all add: reply_transfer_def hashable_def)

theorem rt_reported_transfer_complete_witness:
  "\<exists>s' pre ms c. rt_send_message 2 (\<lambda>_. []) (socket_transmit open_net ''localhost'' 5000) quiet (Value (PDict long_reply)) fresh_sender = (Inr True, s') \<and>
     accepted_payloads open_net (sd_world s') = pre @ map (json_text \<circ> PDict) ms @ [c] \<and>
     concat (map (\<lambda>m. drop 3 (frames_of (PDict m))) ms) = rp_data reply_transfer"
proof -
  let ?tx = "socket_transmit open_net ''localhost'' 5000"
  have "always_accepts ?tx" by (simp add: socket_transmit_def open_net_def always_accepts_def)
  from rt_transfer_succeeds [OF this long_reply_facts(2,3,5) quiet_facts(2,1)]
  obtain s' where "rt_block_transfer ?tx quiet long_reply fresh_sender = (Inr True, s')" by blast
  then have s: "rt_send_message 2 (\<lambda>_. []) ?tx quiet (Value (PDict long_reply)) fresh_sender = (Inr True, s')"
    unfolding numeral_2_eq_2 rt_send_message.simps(2) [of "Suc 0"] rt_large_send
    by (simp add: preprocess_message_def long_reply_facts quiet_facts del: rt_send_message.simps)
  moreover have "accepted_payloads open_net (sd_world fresh_sender) = []" by (simp add: accepted_payloads_def fresh_sender_def new_world_def)
  ultimately show ?thesis using rt_reported_transfer_complete [OF long_reply_facts(1) s] long_reply_facts(2) by auto
qed

theorem full_chunks_lose_numbers_witness:
  "\<exists>p. chunk_payload (rt_data_message reply_transfer 0) = Inr p \<and>
    bc_process 1 p silent_listener = (Inr (), \<lparr>l_received = [PDict [(''frames'', PList (rt_chunk_frames reply_transfer 0)),
      (''request_id'', PStr ''r7'')]], l_activity = 1\<rparr>)"
  using full_chunks_lose_numbers [OF long_reply_facts(2-4), of 0 1 silent_listener] long_reply_facts(6)
  by (simp add: silent_listener_def reply_transfer_def)

definition headless_message :: pydict where "headless_message = [(''data'', PList (map PInt (7 # replicate 15 1)))]"

theorem headless_transfer_loses_first_word_witness:
  "\<exists>d' t. rt_as_block (PDict headless_message) = Inr (Some d') \<and> rt_plan d' = Inr (Some t) \<and>
    rp_status t = rt_construct_data_word 7 \<and> length (rp_data t) = 15"
proof -
  have "map_of headless_message ''data'' = Some (PList (map PInt (7 # replicate 15 1)))" by (simp add: headless_message_def)
  from headless_transfer_loses_first_word [OF this] show ?thesis
    by (auto simp: headless_message_def has_key_def is_large_def frame_list_def)
qed

definition heavy_message :: pydict where
  "heavy_message = [(''data'', PStr (replicate 1000 (CHR ''x''))), (''request_id'', PStr ''r1'')]"

theorem oversized_data_dropped_witness:
  "\<exists>q s'. rt_send_message 2 (\<lambda>_. []) (socket_transmit open_net ''localhost'' 5000) quiet (Value (PDict heavy_message)) fresh_sender = (Inr True, s') \<and>
    \<not> has_key q ''data'' \<and> s' = fresh_sender\<lparr>sd_world := snd (socket_transmit open_net ''localhost'' 5000 (json_text (PDict q)) (sd_world fresh_sender))\<rparr>"
proof -
  define w where "w = replicate 1000 (CHR ''x'')"
  have h: "heavy_message = [(''data'', PStr w), (''request_id'', PStr ''r1'')]" by (simp only: heavy_message_def w_def)
  let ?m = "[(''frames'', PList []), (''request_id'', PStr ''r1''), (''data'', PStr w)]"
  have o: "py_bind (rt_outgoing (be_now quiet) (PDict heavy_message)) json_dumps = Inr (json_text (PDict ?m))"
    by (simp add: h rt_outgoing_def transmission_fields_def with_generated_frames_def has_key_def dict_get_def json_dumps_def
        del: json_text.simps text_members.simps)
  have "length w + 2 \<le> length (text_string w)" by (rule text_string_length)
  moreover have "length w = 1000" by (simp only: w_def length_replicate)
  ultimately have l: "900 < length (json_text (PDict ?m))" by simp
  have "always_accepts (socket_transmit open_net ''localhost'' 5000)" by (simp add: socket_transmit_def open_net_def always_accepts_def)
  from oversized_data_dropped [OF _ _ _ _ o l _ this quiet_facts(2), of "Suc 0" "\<lambda>_. []"] show ?thesis
    by (simp add: h has_key_def data_list_def dict_get_def numeral_2_eq_2 del: rt_send_message.simps json_text.simps)
qed

end
