(* ===== verification/Data_Response.thy ===== *)
theory Data_Response
  imports Precip_Scale RT_Sender Bus_Frame
begin

text \<open>
  The data responses of the radar (\<^verbatim>\<open>data_response_sender.py\<close>, class \<open>DataResponseSender\<close>) for requests that are
  dictionaries, and their way to the bus controller: encoder, sender of the remote terminal, block transfer, extraction
  from the frames by the transfer aggregator. The lookup of addresses and the time are arguments. The end-to-end property
  shows what the bus controller reads from the words of the encoder.
\<close>

section \<open>The message of a response\<close>

text \<open>What the request holds as data: nothing, a list of weather objects that is not empty, or another value.\<close>

datatype response_data = No_Data | Objects "weather_object list" | Plain pyval

definition create_status_word :: "pyval \<Rightarrow> string pyres" where
  "create_status_word rt_address =
     py_bind (py_format_b 5 rt_address) (\<lambda>rt_address_bits.
       let word = ''100'' @ rt_address_bits @ ''0'' @ ''000'' @ ''00000'' @ ''00'';
           ones_count = ones word
       in Inr (word @ (if ones_count mod 2 = 0 then ''1'' else ''0'')))"

definition system_name_of :: "pydict \<Rightarrow> pydict \<Rightarrow> pyval" where
  "system_name_of d kwargs =
     (let name = dict_get d ''system_name'' (dict_get d ''system_type'' PNone);
          name = (case dict_get d ''metadata'' PNone of
                    PDict mm \<Rightarrow> if truthy name then name else dict_get mm ''system_name'' (dict_get mm ''system_type'' PNone)
                  | _ \<Rightarrow> name)
      in if truthy name then name else dict_get kwargs ''system_name'' (dict_get kwargs ''system_type'' (PStr ''weather_radar'')))"

definition response_addresses :: "(pyval \<Rightarrow> (int \<times> int) pyres) \<Rightarrow> pydict \<Rightarrow> pydict \<Rightarrow> pyval \<times> pyval" where
  "response_addresses lookup d kwargs =
     (case lookup (system_name_of d kwargs) of
        Inr (rt, sa) \<Rightarrow> (PInt rt, PInt sa)
      | Inl _ \<Rightarrow> (dict_get d ''rt_address'' (dict_get d ''rtAddress'' (dict_get kwargs ''rt_address'' (PInt 9))),
                 dict_get d ''sub_address'' (dict_get d ''subAddress'' (dict_get kwargs ''sub_address'' (PInt 1)))))"

definition block_metadata :: "nat \<Rightarrow> pydict" where
  "block_metadata n =
     (if 30 < n then
        let total_blocks = (n + 29) div 30
        in [(''is_block_transfer'', PBool True), (''total_sequences'', PInt (int total_blocks)), (''sequence_number'', PInt 1),
            (''is_final'', PBool (total_blocks = 1))]
      else [])"

definition kind_metadata :: "pyval \<Rightarrow> pydict pyres" where
  "kind_metadata message_type =
     (if \<not> truthy message_type then Inr []
      else case message_type of
        PStr t \<Rightarrow> Inr (if sublist ''precipitation'' (lower t) then [(''precipitation_message'', PBool True), (''data_type'', PStr ''precipitation'')]
                      else if sublist ''vil'' (lower t) then [(''vil_message'', PBool True), (''data_type'', PStr ''vil'')]
                      else [])
      | _ \<Rightarrow> Inl AttributeError)"

definition data_response ::
  "(pyval \<Rightarrow> (int \<times> int) pyres) \<Rightarrow> pyval \<Rightarrow> pydict \<Rightarrow> response_data \<Rightarrow> pydict \<Rightarrow> pydict pyres" where
  "data_response lookup now d data kwargs =
     (let (rt_address, sub_address) = response_addresses lookup d kwargs;
          attr = (\<lambda>k. dict_get d k (dict_get kwargs k PNone));
          request_id = attr ''request_id''
      in if \<not> truthy request_id then Inl ValueError
         else py_bind (create_status_word rt_address) (\<lambda>status_word.
           py_bind (kind_metadata (attr ''message_type'')) (\<lambda>kind.
             let encoded = (case data of Objects obs \<Rightarrow> map PInt (encode_complex_objects obs) | _ \<Rightarrow> []);
                 block = (case data of Objects obs \<Rightarrow> block_metadata (length encoded) | _ \<Rightarrow> []);
                 metadata = block @
                   [(''message_type'', attr ''message_type''), (''command_type'', attr ''command_type''),
                    (''command_name'', attr ''command_name''), (''source_system'', system_name_of d kwargs),
                    (''destination'', PStr ''display_system''), (''request_id'', request_id)] @ kind;
                 message_dict =
                   [(''status_word'', PStr status_word), (''request_id'', request_id), (''timestamp'', now),
                    (''command_type'', attr ''command_type''), (''message_type'', attr ''message_type''),
                    (''command_name'', attr ''command_name''), (''rt_address'', rt_address), (''sub_address'', sub_address)] @
                   (case data of No_Data \<Rightarrow> [] | Objects obs \<Rightarrow> [(''data'', PList encoded)] | Plain v \<Rightarrow> [(''data'', v)]) @
                   [(''metadata'', PDict metadata)]
             in Inr (filter (\<lambda>(k, v). v \<noteq> PNone) message_dict))))"

section \<open>Sending a response\<close>

definition send_data_response ::
  "(pyval \<Rightarrow> (int \<times> int) pyres) \<Rightarrow> pyval \<Rightarrow> 'w rt_send \<Rightarrow> pydict \<Rightarrow> response_data \<Rightarrow> pydict \<Rightarrow> 'w sender \<Rightarrow> bool pyres \<times> 'w sender" where
  "send_data_response lookup now send d data kwargs s =
     (case data_response lookup now d data kwargs of
        Inl e \<Rightarrow> (caught (Inl e), s)
      | Inr m \<Rightarrow> (case send (Value (PDict m)) s of (r, s) \<Rightarrow> (caught r, s)))"

definition setdefault :: "string \<Rightarrow> pyval \<Rightarrow> pydict \<Rightarrow> pydict" where
  "setdefault k v d = (if has_key d k then d else dict_set k v d)"

definition delivery_metadata :: "pydict \<Rightarrow> pydict \<Rightarrow> pydict pyres" where
  "delivery_metadata flags d =
     (case dict_get d ''metadata'' (PDict []) of
        PDict md \<Rightarrow>
          (let md = set_all (flags @ [(''final_delivery_to_display'', PBool True), (''destination'', PStr ''display_system'')]) md
           in Inr (dict_set ''metadata'' (PDict (fold (\<lambda>k. copy_key k d) [''command_name'', ''request_id''] md)) d))
      | _ \<Rightarrow> Inl TypeError)"

definition send_precipitation_data ::
  "(pyval \<Rightarrow> (int \<times> int) pyres) \<Rightarrow> pyval \<Rightarrow> 'w rt_send \<Rightarrow> pydict \<Rightarrow> response_data \<Rightarrow> pydict \<Rightarrow> 'w sender \<Rightarrow> bool pyres \<times> 'w sender" where
  "send_precipitation_data lookup now send d data kwargs s =
     (let kwargs = setdefault ''message_type'' (PStr ''weather_radarPrecipitationResponse'') kwargs;
          kwargs = setdefault ''command_type'' (PStr ''precipitation_data'') kwargs
      in case delivery_metadata [(''precipitation_message'', PBool True), (''data_type'', PStr ''precipitation'')] d of
           Inl e \<Rightarrow> (Inl e, s)
         | Inr d \<Rightarrow> send_data_response lookup now send d data kwargs s)"

definition send_vil_data ::
  "(pyval \<Rightarrow> (int \<times> int) pyres) \<Rightarrow> pyval \<Rightarrow> 'w rt_send \<Rightarrow> pydict \<Rightarrow> response_data \<Rightarrow> pydict \<Rightarrow> 'w sender \<Rightarrow> bool pyres \<times> 'w sender" where
  "send_vil_data lookup now send d data kwargs s =
     (let kwargs = setdefault ''message_type'' (PStr ''weather_radarVILResponse'') kwargs;
          kwargs = setdefault ''command_type'' (PStr ''vil_data'') kwargs
      in case delivery_metadata [(''vil_message'', PBool True), (''data_type'', PStr ''vil'')] d of
           Inl e \<Rightarrow> (Inl e, s)
         | Inr d \<Rightarrow> send_data_response lookup now send d data kwargs s)"

section \<open>Blocks of frames\<close>

text \<open>Where the blocks begin, and where each begins and ends, when the first one begins at \<open>k\<close>.\<close>

fun offsets :: "nat \<Rightarrow> 'a list list \<Rightarrow> nat list" where
  "offsets k [] = []"
| "offsets k (b # bs) = k # offsets (k + length b) bs"

fun spans :: "nat \<Rightarrow> 'a list list \<Rightarrow> (nat \<times> nat) list" where
  "spans k [] = []"
| "spans k (b # bs) = (k, k + length b) # spans (k + length b) bs"

definition headed :: "('a \<Rightarrow> bool) \<Rightarrow> 'a list \<Rightarrow> bool" where
  "headed P b \<longleftrightarrow> (case b of x # xs \<Rightarrow> P x \<and> list_all (\<lambda>x. \<not> P x) xs | [] \<Rightarrow> False)"

lemma headed_indices: "headed P b \<Longrightarrow> filter (\<lambda>i. P (b ! i)) [0..<length b] = [0]"
proof -
  assume "headed P b"
  then obtain x xs where b: "b = x # xs" "P x" "list_all (\<lambda>x. \<not> P x) xs" by (auto simp: headed_def split: list.splits)
  have "[0..<length b] = 0 # map Suc [0..<length xs]" unfolding b by (simp add: upt_conv_Cons map_Suc_upt del: upt_Suc)
  moreover have "filter (\<lambda>i. P (b ! i)) (map Suc [0..<length xs]) = []"
    using b by (auto simp: filter_empty_conv list_all_length)
  ultimately show ?thesis using b by simp
qed

lemma upt_split: "[0..<m + n] = [0..<m] @ map ((+) m) [0..<n]"
  by (induction n) auto

lemma block_indices:
  "list_all (headed P) bs \<Longrightarrow> map ((+) k) (filter (\<lambda>i. P (concat bs ! i)) [0..<length (concat bs)]) = offsets k bs"
proof (induction bs arbitrary: k)
  case (Cons b bs)
  let ?n = "length (concat bs)"
  have "filter (\<lambda>i. P ((b @ concat bs) ! i)) [0..<length b] = filter (\<lambda>i. P (b ! i)) [0..<length b]"
    by (rule filter_cong) (auto simp: nth_append)
  then have 1: "filter (\<lambda>i. P ((b @ concat bs) ! i)) [0..<length b] = [0]" using headed_indices Cons.prems by auto
  have 2: "filter (\<lambda>i. P ((b @ concat bs) ! i)) (map ((+) (length b)) [0..<?n]) =
      map ((+) (length b)) (filter (\<lambda>i. P (concat bs ! i)) [0..<?n])"
    by (simp add: filter_map comp_def)
  have "map ((+) (k + length b)) (filter (\<lambda>i. P (concat bs ! i)) [0..<?n]) = offsets (k + length b) bs"
    using Cons by (simp del: length_concat)
  then have "map ((+) k) (map ((+) (length b)) (filter (\<lambda>i. P (concat bs ! i)) [0..<?n])) = offsets (k + length b) bs"
    by (simp add: comp_def add.assoc [symmetric] del: length_concat)
  then show ?case using 1 2 by (simp add: upt_split del: length_concat)
qed simp

lemma offsets_spans: "bs \<noteq> [] \<Longrightarrow> zip (offsets k bs) (block_ends (offsets k bs) (k + length (concat bs))) = spans k bs"
proof (induction bs arbitrary: k)
  case (Cons b bs)
  show ?case
  proof (cases "bs = []")
    case False
    then obtain x xs where "offsets (k + length b) bs = x # xs" "x = k + length b" by (cases bs) auto
    then show ?thesis using Cons.IH [OF False, of "k + length b"] by (simp add: block_ends_def add.assoc)
  qed (simp add: block_ends_def)
qed simp

lemma span_slices:
  "length pre = k \<Longrightarrow> map (\<lambda>(s, e). slice (s + n) e (pre @ concat bs)) (spans k bs) = map (drop n) bs"
proof (induction bs arbitrary: pre k)
  case (Cons b bs)
  have "map (\<lambda>(s, e). slice (s + n) e ((pre @ b) @ concat bs)) (spans (k + length b) bs) = map (drop n) bs"
    using Cons.prems by (intro Cons.IH) simp
  then show ?case using Cons.prems by (simp add: slice_def)
qed simp

text \<open>The aggregator keeps the header of the first block and drops those of the others.\<close>

lemma preprocess_blocks:
  assumes "list_all (headed is_status_frame) (b # bs)"
  shows "preprocess_frames_list (concat (b # bs)) = b @ concat (map (drop 3) bs)"
proof -
  let ?fs = "concat (b # bs)"
  let ?idx = "filter (\<lambda>i. is_status_frame (?fs ! i)) [0..<length ?fs]"
  have idx: "?idx = offsets 0 (b # bs)" using block_indices [OF assms, of 0] by (simp add: map_idI)
  show ?thesis
  proof (cases "bs = []")
    case True
    then have "length ?idx \<le> 1" unfolding idx by simp
    then show ?thesis using True by (simp add: preprocess_frames_list_def)
  next
    case False
    then obtain c cs where bs: "bs = c # cs" by (cases bs) auto
    have l: "\<not> length ?idx \<le> 1" unfolding idx by (simp add: bs)
    have z: "zip ?idx (block_ends ?idx (length ?fs)) = (0, length b) # spans (length b) bs"
      unfolding idx using offsets_spans [of "b # bs" 0] by simp
    have "map (\<lambda>(s, e). slice (s + 3) e ?fs) (spans (length b) bs) = map (drop 3) bs"
      using span_slices [of b "length b" 3 bs] by simp
    moreover have "slice 0 (length b) ?fs = b" by (simp add: slice_def)
    ultimately show ?thesis unfolding preprocess_frames_list_def Let_def z using l by simp
  qed
qed

section \<open>Reading words back\<close>

lemma word_of_word: "0 \<le> n \<Longrightarrow> n \<le> 65535 \<Longrightarrow> word_value (rt_construct_data_word n) = Inr n"
proof -
  assume n: "0 \<le> n" "n \<le> 65535"
  have v: "valid_data n" using n by (simp add: valid_data_def)
  have w: "word20 (with_parity (data_body n))" using enc_data_word [OF v] v by (simp add: enc_data_def bc_encode_data_eq)
  have "py_int 2 (slice 3 19 (with_parity (data_body n))) = Inr (int (bval (slice 3 19 (with_parity (data_body n)))))"
    using py_int_slice [OF w, of 3 19] by simp
  then show ?thesis
    using data_body_fields(2) [OF v] fmt16 [OF n] by (simp add: word_value_def data_word_ok(1) [OF n])
qed

lemma data_word_shape:
  assumes "0 \<le> n" "n \<le> 65535"
  shows "item_length (rt_construct_data_word n) = Inr 20" "data_sync_frame (rt_construct_data_word n)" "\<not> is_status_frame (rt_construct_data_word n)"
proof -
  have v: "valid_data n" using assms by (simp add: valid_data_def)
  have "take 3 (with_parity (data_body n)) = ''001''" using data_body_fields(1) [OF v] by (simp add: slice_def)
  moreover have "length (with_parity (data_body n)) = 20" using frame_ok_cases [OF data_word_ok(2) [OF assms]] by (auto simp: data_word_ok(1) [OF assms])
  ultimately show "item_length (rt_construct_data_word n) = Inr 20" "data_sync_frame (rt_construct_data_word n)"
    "\<not> is_status_frame (rt_construct_data_word n)"
    by (simp_all add: data_word_ok(1) [OF assms] item_length_def data_sync_frame_def is_status_frame_def)
qed

definition word_range :: "int \<Rightarrow> bool" where "word_range n \<longleftrightarrow> 0 \<le> n \<and> n \<le> 65535"

fun pairs_of :: "int list \<Rightarrow> (int \<times> int) list" where
  "pairs_of (p # a # ws) = (p, a) # pairs_of ws"
| "pairs_of _ = []"

lemma decode_word_pairs:
  "list_all word_range ws \<Longrightarrow>
   decode_pairs n (map rt_construct_data_word ws) = Inr (map (\<lambda>(p, a). precip_object p a) (take n (pairs_of ws)))"
proof (induction ws arbitrary: n rule: pairs_of.induct)
  case (1 p a ws)
  then have r: "0 \<le> p" "p \<le> 65535" "0 \<le> a" "a \<le> 65535" by (auto simp: word_range_def)
  show ?case
  proof (cases n)
    case (Suc m)
    have "decode_pair (rt_construct_data_word p) (rt_construct_data_word a) = Inr [precip_object p a]"
      using r by (simp add: decode_pair_def data_word_shape word_of_word py_except_def)
    then show ?thesis using 1 r by (simp add: Suc data_word_shape)
  qed simp
qed (case_tac n; simp)+

lemma length_pairs: "length (pairs_of ws) = length ws div 2"
  by (induction ws rule: pairs_of.induct) auto

lemma pairs_shifted:
  "pairs_of (x # concat (map (\<lambda>ob. [f ob, g ob]) obs)) = zip (x # map g obs) (map f obs)"
  by (induction obs arbitrary: x) auto

lemma words_in_range: "length obs \<le> 65535 \<Longrightarrow> list_all word_range (encode_complex_objects obs)"
proof -
  have "list_all word_range (appended_words ob)" for ob
    using appended_words_range [of _ ob] by (fastforce simp: word_range_def list_all_iff)
  moreover have "word_range SCALE_WORD" by (simp add: word_range_def SCALE_WORD_def or_push)
  ultimately show "length obs \<le> 65535 \<Longrightarrow> list_all word_range (encode_complex_objects obs)"
    by (auto simp: encode_complex_objects_def list_all_iff) (simp add: word_range_def)
qed

lemma encoded_length: "length (encode_complex_objects obs) \<le> 2 + 2 * length obs"
  by (induction obs) (auto simp: encode_complex_objects_def appended_words_length)

section \<open>What the bus controller reads\<close>

lemma chunk_headed:
  assumes "is_status_frame (rp_status t)" "rp_data t = map rt_construct_data_word ws" "list_all word_range ws" "length ws \<le> 65535"
    "i < rt_num_messages t"
  shows "headed is_status_frame (rt_chunk_frames t i)"
proof -
  have n: "rt_num_messages t \<le> 65535" "i + 1 \<le> 65535"
    using assms(2,4,5) by (simp_all add: rt_num_messages_def MAX_PAYLOAD_FRAMES_PER_CHUNK_def)
  have "\<not> is_status_frame (rt_count_word k)" if "k \<le> 65535" for k
    using data_word_shape(3) [of "int k"] that by (simp add: rt_count_word_def)
  moreover have "\<not> is_status_frame f" if "f \<in> set (rp_data t)" for f
    using that assms(2,3) data_word_shape(3) by (auto simp: list_all_iff word_range_def)
  ultimately show ?thesis
    using assms(1) n by (auto simp: headed_def rt_chunk_frames_def list_all_iff slice_def dest!: in_set_takeD in_set_dropD)
qed

lemma chunks_extracted:
  assumes "is_status_frame (rp_status t)" "rp_data t = map rt_construct_data_word (encode_complex_objects obs)" "length obs \<le> 32000"
    "map (\<lambda>m. frames_of (PDict m)) ms = map (rt_chunk_frames t) [0..<rt_num_messages t]"
  shows "extract_precipitation_data_from_frames ms =
    Inr (map (\<lambda>(p, a). precip_object p a) (take (length obs) (pairs_of (SCALE_WORD # concat (map appended_words obs)))))"
proof -
  let ?ws = "encode_complex_objects obs" and ?n = "rt_num_messages t"
  have ws: "list_all word_range ?ws" "length ?ws \<le> 65535" "2 \<le> length ?ws"
    using words_in_range [of obs] assms(3) encoded_length [of obs] by (simp_all, simp add: encode_complex_objects_def)
  then have n: "0 < ?n" using assms(2) by (simp add: rt_num_messages_def MAX_PAYLOAD_FRAMES_PER_CHUNK_def)
  then have up: "[0..<?n] = 0 # [1..<?n]" by (simp add: upt_conv_Cons)
  let ?f = "rt_chunk_frames t"
  have "concat (map (\<lambda>m. case frame_list m of Some fs \<Rightarrow> fs | None \<Rightarrow> []) ms) = concat (map (\<lambda>m. frames_of (PDict m)) ms)"
    by (simp add: frames_of_def)
  also have "\<dots> = concat (?f 0 # map ?f [1..<?n])" unfolding assms(4) up by simp
  finally have c: "concat (map (\<lambda>m. case frame_list m of Some fs \<Rightarrow> fs | None \<Rightarrow> []) ms) = concat (?f 0 # map ?f [1..<?n])" .
  have "list_all (headed is_status_frame) (?f 0 # map ?f [1..<?n])"
    using chunk_headed [OF assms(1,2) ws(1)] ws(2) assms(3) n by (auto simp: list_all_iff)
  from preprocess_blocks [OF this]
  have p: "preprocess_frames_list (concat (?f 0 # map ?f [1..<?n])) = take 3 (?f 0) @ concat (map (\<lambda>i. drop 3 (?f i)) [0..<?n])"
    unfolding up using append_take_drop_id [of 3 "?f 0"] by (simp add: comp_def flip: append_assoc)
  have h: "take 3 (?f 0) = [rp_status t, rt_count_word 1, rt_count_word ?n]" by (simp add: rt_chunk_frames_def)
  define fs where "fs = [rp_status t, rt_count_word 1, rt_count_word ?n] @ map rt_construct_data_word ?ws"
  have q: "preprocess_frames_list (concat (map (\<lambda>m. case frame_list m of Some fs \<Rightarrow> fs | None \<Rightarrow> []) ms)) = fs"
    by (simp only: c p h rt_chunks_cover assms(2) fs_def)
  obtain rest where ws': "?ws = int (length obs) # rest" "rest = SCALE_WORD # concat (map appended_words obs)"
    by (simp add: encode_complex_objects_def)
  have f: "fs ! 3 = rt_construct_data_word (int (length obs))" "drop 4 fs = map rt_construct_data_word rest" "length fs = 4 + length rest"
    by (simp_all add: fs_def ws'(1))
  have r: "list_all word_range rest" using ws(1) by (simp add: ws'(1))
  have n': "take (min (length obs) (length rest div 2)) (pairs_of rest) = take (length obs) (pairs_of rest)"
    by (simp add: min_def length_pairs)
  have "word_value (fs ! 3) = Inr (int (length obs))" "item_length (fs ! 3) = Inr 20"
    unfolding f(1) using assms(3) by (simp_all add: word_of_word data_word_shape)
  then have "extract_precipitation_data_from_frames ms =
      decode_pairs (min (length obs) ((length fs - 4) div 2)) (map rt_construct_data_word rest)"
    unfolding extract_precipitation_data_from_frames_def q by (simp add: f(2,3))
  also have "\<dots> = Inr (map (\<lambda>(p, a). precip_object p a) (take (length obs) (pairs_of rest)))"
    using decode_word_pairs [OF r] n' by (simp add: f(3))
  finally show ?thesis by (simp only: ws'(2))
qed

text \<open>The pairs when every object has its attribute word.\<close>

lemma complete_pairs:
  assumes "map object_attribute_word obs = map Inr attributes"
  shows "take (length obs) (pairs_of (SCALE_WORD # concat (map appended_words obs))) =
    zip (SCALE_WORD # attributes) (map object_position_word obs)"
proof -
  have "object_attribute_word ob \<in> set (map Inr attributes)" if "ob \<in> set obs" for ob
    unfolding assms [symmetric] using that by simp
  then have a: "\<forall>ob \<in> set obs. \<exists>w. object_attribute_word ob = Inr w" by auto
  let ?a = "\<lambda>ob. case object_attribute_word ob of Inr w \<Rightarrow> w | Inl _ \<Rightarrow> 0"
  have "map ?a obs = map (\<lambda>x. case x of Inr w \<Rightarrow> w | Inl _ \<Rightarrow> 0) (map object_attribute_word obs)" by simp
  also have "\<dots> = attributes" unfolding assms by (simp add: comp_def)
  finally have m: "map ?a obs = attributes" .
  have "map appended_words obs = map (\<lambda>ob. [object_position_word ob, ?a ob]) obs"
    using a by (auto simp: appended_words_def)
  then show ?thesis by (simp only: pairs_shifted m) simp
qed

lemma map_of_filter:
  "distinct (map fst d) \<Longrightarrow> map_of (filter (\<lambda>(k, v). P v) d) k = (case map_of d k of Some v \<Rightarrow> if P v then Some v else None | None \<Rightarrow> None)"
proof (induction d)
  case (Cons x d)
  then show ?case by (cases x) (auto 4 4 split: option.split dest: map_of_SomeD simp: image_iff)
qed simp

lemma status_word_created:
  assumes "0 \<le> rt" "rt \<le> 31"
  obtains w where "create_status_word (PInt rt) = Inr w" "frame_ok (PStr w)" "is_status_frame (PStr w)"
proof -
  have "length (fmt_bin 5 rt) = 5" using length_fmt_bin [of 5 rt] assms by simp
  then show thesis using that by (simp add: create_status_word_def py_format_int frame_ok_def is_status_frame_def)
qed

lemma response_plan:
  assumes "data_response lookup now d (Objects obs) kwargs = Inr m" "lookup (system_name_of d kwargs) = Inr (rt, sa)" "0 \<le> rt" "rt \<le> 31"
    "DATA_THRESHOLD < length (encode_complex_objects obs)" "length obs \<le> 32000"
  obtains m' t where "rt_as_block (PDict m) = Inr (Some m')" "rt_plan m' = Inr (Some t)"
    "rp_data t = map rt_construct_data_word (encode_complex_objects obs)" "is_status_frame (rp_status t)"
proof -
  let ?ws = "encode_complex_objects obs"
  obtain w where w: "create_status_word (PInt rt) = Inr w" "frame_ok (PStr w)" "is_status_frame (PStr w)"
    using status_word_created [OF assms(3,4)] .
  have "map_of m ''status_word'' = Some (PStr w)" "map_of m ''data'' = Some (PList (map PInt ?ws))" "map_of m ''frames'' = None"
    "\<exists>mm. map_of m ''metadata'' = Some (PDict mm)"
    using assms(1,2) w(1) by (auto simp: data_response_def response_addresses_def Let_def map_of_filter py_bind_def split: if_splits sum.splits)
  then obtain mm where m: "map_of m ''status_word'' = Some (PStr w)" "map_of m ''data'' = Some (PList (map PInt ?ws))"
      "map_of m ''frames'' = None" "map_of m ''metadata'' = Some (PDict mm)" by blast
  let ?m = "tagged (with_word_frames m (map PInt ?ws))"
  have b: "rt_as_block (PDict m) = Inr (Some ?m)"
    using m assms(5) by (simp add: rt_as_block_def is_large_def frame_list_def data_list_def)
  have "map word_of_item (map PInt ?ws) = map rt_construct_data_word ?ws" by (simp add: word_of_item_def comp_def)
  then have f: "map_of ?m ''frames'' = Some (PList (PStr w # map rt_construct_data_word ?ws))"
    using m(1) by (simp add: tagged_def with_word_frames_def map_of_dict_set dict_get_def)
  have "list_all frame_ok (PStr w # map rt_construct_data_word ?ws)"
    using w(2) words_in_range [of obs] assms(6) data_word_ok(2) by (auto simp: list_all_iff word_range_def)
  then have "rt_validate_frames (PList (PStr w # map rt_construct_data_word ?ws)) = Inr (PStr w # map rt_construct_data_word ?ws)"
    by (simp only: rt_validate_frames_def iterate_def py_bind_simps pyval.case truthy.simps repaired_frames_same) simp
  moreover have "dict_get ?m ''metadata'' (PDict []) = PDict mm"
    using m(4) by (simp add: tagged_def with_word_frames_def dict_get_def map_of_dict_set)
  ultimately have "\<exists>t. rt_plan ?m = Inr (Some t) \<and> rp_status t = PStr w \<and> rp_data t = map rt_construct_data_word ?ws"
    unfolding rt_plan_def f by simp
  then show thesis using b w(3) that by metis
qed

section \<open>Properties\<close>

text \<open>
  C38. The bus controller reads the objects of a data response one word late. The encoder sends the count, the word of the
  scales and then the words of the objects; the aggregator takes the word after the count for the first position and reads
  on in pairs. For every response long enough to be sent in blocks (more than 15 words), of at most 32000 objects, when
  the frames of all its chunks are extracted together, in order: what is handed on are the first pairs of the scale word
  followed by the objects' words, at most as many as objects were counted. When every object has its attribute word, which
  only a VIL object without an intensity lacks, these are as many objects as were sent, each with the attributes of the
  object before for its position and its own position for its attributes, the first with the scale word for its position.
\<close>

theorem objects_read_one_word_late:
  assumes "data_response lookup now d (Objects obs) kwargs = Inr m" "lookup (system_name_of d kwargs) = Inr (rt, sa)" "0 \<le> rt" "rt \<le> 31"
    "DATA_THRESHOLD < length (encode_complex_objects obs)" "length obs \<le> 32000"
  shows "\<exists>m' t. rt_as_block (PDict m) = Inr (Some m') \<and> rt_plan m' = Inr (Some t) \<and>
    (\<forall>ms. map (\<lambda>c. frames_of (PDict c)) ms = map (rt_chunk_frames t) [0..<rt_num_messages t] \<longrightarrow>
      extract_precipitation_data_from_frames ms =
        Inr (map (\<lambda>(p, a). precip_object p a) (take (length obs) (pairs_of (SCALE_WORD # concat (map appended_words obs))))) \<and>
      (\<forall>attributes. map object_attribute_word obs = map Inr attributes \<longrightarrow>
        extract_precipitation_data_from_frames ms =
          Inr (map2 precip_object (SCALE_WORD # attributes) (map object_position_word obs))))"
proof -
  obtain m' t where t: "rt_as_block (PDict m) = Inr (Some m')" "rt_plan m' = Inr (Some t)"
    "rp_data t = map rt_construct_data_word (encode_complex_objects obs)" "is_status_frame (rp_status t)"
    using response_plan [OF assms] .
  show ?thesis
    using chunks_extracted [OF t(4,3) assms(6)] complete_pairs [of obs] t(1,2)
    by (intro exI [of _ m'] exI [of _ t]) simp
qed

section \<open>Witnesses\<close>

definition seven_cells :: "weather_object list" where "seven_cells = replicate 7 sample_cell"

definition cells_request :: pydict where "cells_request = [(''request_id'', PStr ''r9'')]"

theorem objects_read_one_word_late_witness:
  "\<exists>m m' t w. data_response (\<lambda>_. Inr (9, 1)) PNone cells_request (Objects seven_cells) [] = Inr m \<and>
     rt_as_block (PDict m) = Inr (Some m') \<and> rt_plan m' = Inr (Some t) \<and> object_attribute_word sample_cell = Inr w \<and>
     extract_precipitation_data_from_frames (map (\<lambda>i. [(''frames'', PList (rt_chunk_frames t i))]) [0..<rt_num_messages t]) =
       Inr (map2 precip_object (SCALE_WORD # replicate 7 w) (replicate 7 (object_position_word sample_cell)))"
proof -
  obtain w where w: "create_status_word (PInt 9) = Inr w" using status_word_created [of 9] by auto
  obtain m where m: "data_response (\<lambda>_. Inr (9, 1)) PNone cells_request (Objects seven_cells) [] = Inr m"
    by (simp add: data_response_def response_addresses_def cells_request_def w dict_get_def kind_metadata_def py_bind_def Let_def)
  have "is_ok (object_attribute_word sample_cell)" by (simp add: object_attribute_ok sample_cell_def)
  then obtain a where a: "object_attribute_word sample_cell = Inr a" by (auto simp: is_ok_iff)
  have l: "DATA_THRESHOLD < length (encode_complex_objects seven_cells)"
    by (simp add: DATA_THRESHOLD_def encode_complex_objects_def seven_cells_def appended_words_length length_concat a
      sum_list_replicate)
  obtain m' t where t: "rt_as_block (PDict m) = Inr (Some m')" "rt_plan m' = Inr (Some t)"
    "\<And>ms attributes. map (\<lambda>c. frames_of (PDict c)) ms = map (rt_chunk_frames t) [0..<rt_num_messages t] \<Longrightarrow>
      map object_attribute_word seven_cells = map Inr attributes \<Longrightarrow>
      extract_precipitation_data_from_frames ms =
        Inr (map2 precip_object (SCALE_WORD # attributes) (map object_position_word seven_cells))"
    using objects_read_one_word_late [OF m, of 9 1] l by (fastforce simp: seven_cells_def)
  have "map (\<lambda>c. frames_of (PDict c)) (map (\<lambda>i. [(''frames'', PList (rt_chunk_frames t i))]) [0..<rt_num_messages t]) =
      map (rt_chunk_frames t) [0..<rt_num_messages t]"
    by (simp add: frames_of_def frame_list_def comp_def)
  moreover have "map object_attribute_word seven_cells = map Inr (replicate 7 a)" by (simp add: seven_cells_def a)
  ultimately have "extract_precipitation_data_from_frames (map (\<lambda>i. [(''frames'', PList (rt_chunk_frames t i))]) [0..<rt_num_messages t]) =
       Inr (map2 precip_object (SCALE_WORD # replicate 7 a) (map object_position_word seven_cells))"
    by (rule t(3))
  then show ?thesis using m t(1,2) a by (simp add: seven_cells_def)
qed

end
