(* ===== verification/Event_Bus.thy ===== *)
theory Event_Bus
  imports Py_Float
begin

text \<open>
  The publish-subscribe bus (\<^verbatim>\<open>core/event_driven_communication.py\<close>) as interleaved steps: the locked sections
  of the calls that any thread makes, and the steps of the threads that process the queue. What a subscriber does when
  it is called (its own calls to the bus, and whether it raises) is an argument. Subscribers are called one step each;
  subscribers that start or stop the bus themselves are not modelled.
\<close>

section \<open>Items, subscribers and threads\<close>

datatype topic = Name string | Address int

text \<open>An event of a topic, a MIL-STD-1553B message with its type and address, or something else.\<close>

datatype item = Event topic pyval | Message "string option" int pyval | Other

text \<open>
  The phase of a processing thread. An item in work carries its number in the order of publication. An event is
  handled on a copy of the subscribers' list, a message by an index into the list itself.
\<close>

datatype phase = Polling | Taken nat item | Calling nat item "nat list" | Routing nat item nat | Dead

record bus =
  b_subscribers :: "(topic \<times> nat list) list"
  b_queue :: "item list"
  b_running :: bool
  b_started :: bool
  b_health :: bool
  b_threads :: "phase list"
  b_thread :: "nat option"
  b_last_event :: rat
  b_events :: nat
  b_errors :: nat
  b_stopping :: "nat option list"
  b_put :: "item list"
  b_taken :: "item list"
  b_calls :: "(nat \<times> nat) list"

text \<open>
  \<open>b_stopping\<close> holds the calls of \<^verbatim>\<open>stop\<close> between their two locked sections. The last three fields
  observe the run: the items put into the queue and taken from it, and the calls of subscribers with the number of the
  item.
\<close>

definition new_bus :: "rat \<Rightarrow> bus" where
  "new_bus t = \<lparr>b_subscribers = [], b_queue = [], b_running = False, b_started = False, b_health = True, b_threads = [],
     b_thread = None, b_last_event = t, b_events = 0, b_errors = 0, b_stopping = [], b_put = [], b_taken = [], b_calls = []\<rparr>"

definition subscribers :: "topic \<Rightarrow> bus \<Rightarrow> nat list" where
  "subscribers k s = (case map_of (b_subscribers s) k of None \<Rightarrow> [] | Some cs \<Rightarrow> cs)"

definition subscribe :: "topic \<Rightarrow> nat \<Rightarrow> bus \<Rightarrow> bus" where
  "subscribe k c s = s\<lparr>b_subscribers := AList.update k (subscribers k s @ [c]) (b_subscribers s)\<rparr>"

definition unsubscribe :: "topic \<Rightarrow> nat \<Rightarrow> bus \<Rightarrow> bool \<times> bus" where
  "unsubscribe k c s =
     (if c \<notin> set (subscribers k s) then (False, s)
      else (True, s\<lparr>b_subscribers := AList.update k (remove1 c (subscribers k s)) (b_subscribers s)\<rparr>))"

definition validate_message :: "item \<Rightarrow> bool" where
  "validate_message x = (case x of
     Event (Name n) _ \<Rightarrow> n \<noteq> []
   | Event (Address a) _ \<Rightarrow> a \<noteq> 0
   | Message (Some n) _ _ \<Rightarrow> n \<noteq> []
   | Message None _ _ \<Rightarrow> False
   | Other \<Rightarrow> False)"

definition publish :: "rat \<Rightarrow> item \<Rightarrow> bus \<Rightarrow> bus" where
  "publish t x s =
     (if \<not> validate_message x then s
      else s\<lparr>b_events := b_events s + 1, b_last_event := t, b_queue := b_queue s @ [x], b_put := b_put s @ [x]\<rparr>)"

definition alive :: "nat option \<Rightarrow> bus \<Rightarrow> bool" where
  "alive th s = (case th of None \<Rightarrow> False | Some i \<Rightarrow> i < length (b_threads s) \<and> b_threads s ! i \<noteq> Dead)"

definition start :: "bus \<Rightarrow> bus" where
  "start s =
     (if b_started s then s
      else if \<not> b_running s \<and> \<not> alive (b_thread s) s then
        s\<lparr>b_running := True, b_threads := b_threads s @ [Polling], b_thread := Some (length (b_threads s)),
          b_started := True, b_health := True\<rparr>
      else s)"

definition stop_begin :: "bus \<Rightarrow> bus" where
  "stop_begin s = (if \<not> b_started s then s else s\<lparr>b_running := False, b_stopping := b_stopping s @ [b_thread s]\<rparr>)"

text \<open>The end of a stop, when the thread has died or the join has timed out.\<close>

definition stop_end :: "nat option \<Rightarrow> bus \<Rightarrow> bus" where
  "stop_end th s =
     (if th \<notin> set (b_stopping s) then s
      else s\<lparr>b_health := (b_health s \<and> \<not> alive th s), b_started := False, b_stopping := remove1 th (b_stopping s)\<rparr>)"

definition check_health :: "rat \<Rightarrow> bus \<Rightarrow> bool \<times> bus" where
  "check_health t s =
     (let basic_health = b_started s \<and> b_running s \<and> alive (b_thread s) s;
          event_processing_ok = fsub t (b_last_event s) < 60 \<or> b_events s = 0;
          error_rate_ok = b_events s = 0 \<or> fdiv (of_nat (b_errors s)) (of_nat (b_events s)) < fl (1 / 10);
          h = basic_health \<and> event_processing_ok \<and> error_rate_ok
      in (h, s\<lparr>b_health := h\<rparr>))"

definition is_running :: "bus \<Rightarrow> bool" where
  "is_running s \<longleftrightarrow> b_started s \<and> b_running s \<and> alive (b_thread s) s \<and> b_health s"

section \<open>Processing\<close>

datatype action = Subscribe topic nat | Unsubscribe topic nat | Publish item

type_synonym behaviour = "nat \<Rightarrow> item \<Rightarrow> action list \<times> bool"

fun act :: "rat \<Rightarrow> action \<Rightarrow> bus \<Rightarrow> bus" where
  "act t (Subscribe k c) s = subscribe k c s"
| "act t (Unsubscribe k c) s = snd (unsubscribe k c s)"
| "act t (Publish x) s = publish t x s"

definition invoke :: "behaviour \<Rightarrow> rat \<Rightarrow> nat \<Rightarrow> nat \<Rightarrow> item \<Rightarrow> bus \<Rightarrow> bus" where
  "invoke beh t c n x s0 =
     (let s = fold (act t) (fst (beh c x)) (s0\<lparr>b_calls := b_calls s0 @ [(c, n)]\<rparr>)
      in if snd (beh c x) then s\<lparr>b_errors := b_errors s + 1\<rparr> else s)"

definition set_phase :: "nat \<Rightarrow> phase \<Rightarrow> bus \<Rightarrow> bus" where
  "set_phase i p s = s\<lparr>b_threads := (b_threads s)[i := p]\<rparr>"

definition poll :: "nat \<Rightarrow> bus \<Rightarrow> bus" where
  "poll i s =
     (if \<not> b_running s then set_phase i Dead s
      else case b_queue s of
             [] \<Rightarrow> s
           | x # q \<Rightarrow> set_phase i (Taken (length (b_taken s)) x) (s\<lparr>b_queue := q, b_taken := b_taken s @ [x]\<rparr>))"

definition handle :: "nat \<Rightarrow> nat \<Rightarrow> item \<Rightarrow> bus \<Rightarrow> bus" where
  "handle i n x s =
     (case x of
        Event k _ \<Rightarrow> set_phase i (Calling n x (subscribers k s)) s
      | Message _ a _ \<Rightarrow> set_phase i (if map_of (b_subscribers s) (Address a) \<noteq> None then Routing n x 0 else Polling) s
      | Other \<Rightarrow> set_phase i Polling s)"

definition route :: "behaviour \<Rightarrow> rat \<Rightarrow> nat \<Rightarrow> nat \<Rightarrow> item \<Rightarrow> nat \<Rightarrow> bus \<Rightarrow> bus" where
  "route beh t i n x j s =
     (case x of
        Message _ a _ \<Rightarrow>
          let cs = subscribers (Address a) s in
          if j < length cs then set_phase i (Routing n x (Suc j)) (invoke beh t (cs ! j) n x s) else set_phase i Polling s
      | _ \<Rightarrow> set_phase i Polling s)"

definition process_step :: "behaviour \<Rightarrow> rat \<Rightarrow> nat \<Rightarrow> bus \<Rightarrow> bus" where
  "process_step beh t i s =
     (if length (b_threads s) \<le> i then s
      else case b_threads s ! i of
        Polling \<Rightarrow> poll i s
      | Taken n x \<Rightarrow> handle i n x s
      | Calling n x [] \<Rightarrow> set_phase i Polling s
      | Calling n x (c # cs) \<Rightarrow> set_phase i (Calling n x cs) (invoke beh t c n x s)
      | Routing n x j \<Rightarrow> route beh t i n x j s
      | Dead \<Rightarrow> s)"

section \<open>Runs\<close>

datatype bus_op = Act rat action | Start | Stop_Begin | Stop_End "nat option" | Health rat | Process rat nat

fun bus_do :: "behaviour \<Rightarrow> bus_op \<Rightarrow> bus \<Rightarrow> bus" where
  "bus_do beh (Act t a) s = act t a s"
| "bus_do beh Start s = start s"
| "bus_do beh Stop_Begin s = stop_begin s"
| "bus_do beh (Stop_End th) s = stop_end th s"
| "bus_do beh (Health t) s = snd (check_health t s)"
| "bus_do beh (Process t i) s = process_step beh t i s"

inductive bus_reaches :: "behaviour \<Rightarrow> bus \<Rightarrow> bus \<Rightarrow> bool" for beh :: behaviour and s0 :: bus where
  bus_here: "bus_reaches beh s0 s0"
| bus_next: "bus_reaches beh s0 s \<Longrightarrow> bus_reaches beh s0 (bus_do beh a s)"

lemma reaches_fold: "bus_reaches beh s0 s \<Longrightarrow> bus_reaches beh s0 (fold (bus_do beh) ops s)"
  by (induction ops arbitrary: s) (auto intro: bus_next)

section \<open>The invariant\<close>

text \<open>The item a thread works on is the last one taken.\<close>

fun works_on :: "phase \<Rightarrow> item list \<Rightarrow> bool" where
  "works_on (Taken n x) xs \<longleftrightarrow> Suc n = length xs \<and> x = xs ! n"
| "works_on (Calling n x cs) xs \<longleftrightarrow> Suc n = length xs \<and> x = xs ! n"
| "works_on (Routing n x j) xs \<longleftrightarrow> Suc n = length xs \<and> x = xs ! n"
| "works_on _ xs \<longleftrightarrow> True"

definition threads_ok :: "bus \<Rightarrow> bool" where
  "threads_ok s \<longleftrightarrow>
     (\<forall>i < length (b_threads s). b_threads s ! i \<noteq> Dead \<longrightarrow> b_thread s = Some i \<and> works_on (b_threads s ! i) (b_taken s))"

definition trace_ok :: "bus \<Rightarrow> bool" where
  "trace_ok s \<longleftrightarrow> b_put s = b_taken s @ b_queue s \<and> sorted (map snd (b_calls s)) \<and>
     (\<forall>n \<in> snd ` set (b_calls s). n < length (b_taken s))"

definition bus_ok :: "bus \<Rightarrow> bool" where "bus_ok s \<longleftrightarrow> threads_ok s \<and> trace_ok s"

named_theorems bus_defs "the operations that leave the threads alone"

lemmas [bus_defs] = subscribe_def unsubscribe_def publish_def

lemma act_keeps [simp]:
  "b_threads (act t a s) = b_threads s" "b_thread (act t a s) = b_thread s" "b_taken (act t a s) = b_taken s"
  "b_calls (act t a s) = b_calls s" "b_running (act t a s) = b_running s" "b_started (act t a s) = b_started s"
  "b_stopping (act t a s) = b_stopping s" "b_health (act t a s) = b_health s" "b_errors (act t a s) = b_errors s"
  by (cases a; simp add: bus_defs)+

lemma acts_keep [simp]:
  "b_threads (fold (act t) as s) = b_threads s" "b_thread (fold (act t) as s) = b_thread s"
  "b_taken (fold (act t) as s) = b_taken s" "b_calls (fold (act t) as s) = b_calls s"
  "b_running (fold (act t) as s) = b_running s" "b_started (fold (act t) as s) = b_started s"
  "b_stopping (fold (act t) as s) = b_stopping s" "b_health (fold (act t) as s) = b_health s"
  by (induction as arbitrary: s) simp_all

lemma act_queue: "b_put s = xs @ b_queue s \<Longrightarrow> b_put (act t a s) = xs @ b_queue (act t a s)"
  by (cases a) (simp_all add: bus_defs)

lemma acts_queue: "b_put s = xs @ b_queue s \<Longrightarrow> b_put (fold (act t) as s) = xs @ b_queue (fold (act t) as s)"
  by (induction as arbitrary: s) (simp_all add: act_queue)

lemma invoke_keeps [simp]:
  "b_threads (invoke beh t c n x s) = b_threads s" "b_thread (invoke beh t c n x s) = b_thread s"
  "b_taken (invoke beh t c n x s) = b_taken s" "b_calls (invoke beh t c n x s) = b_calls s @ [(c, n)]"
  "b_running (invoke beh t c n x s) = b_running s" "b_started (invoke beh t c n x s) = b_started s"
  "b_stopping (invoke beh t c n x s) = b_stopping s"
  by (simp_all add: invoke_def Let_def)

lemma invoke_queue: "b_put s = xs @ b_queue s \<Longrightarrow> b_put (invoke beh t c n x s) = xs @ b_queue (invoke beh t c n x s)"
  using acts_queue [of "s\<lparr>b_calls := b_calls s @ [(c, n)]\<rparr>" xs t "fst (beh c x)"] by (simp add: invoke_def Let_def)

lemma set_phase_fields [simp]:
  "b_threads (set_phase i p s) = (b_threads s)[i := p]" "b_thread (set_phase i p s) = b_thread s"
  "b_taken (set_phase i p s) = b_taken s" "b_calls (set_phase i p s) = b_calls s" "b_put (set_phase i p s) = b_put s"
  "b_queue (set_phase i p s) = b_queue s" "b_running (set_phase i p s) = b_running s"
  "b_started (set_phase i p s) = b_started s" "b_stopping (set_phase i p s) = b_stopping s"
  "b_subscribers (set_phase i p s) = b_subscribers s" "subscribers k (set_phase i p s) = subscribers k s"
  by (simp_all add: set_phase_def subscribers_def)

lemma threads_okD:
  "threads_ok s \<Longrightarrow> i < length (b_threads s) \<Longrightarrow> b_threads s ! i \<noteq> Dead \<Longrightarrow> b_thread s = Some i"
  "threads_ok s \<Longrightarrow> i < length (b_threads s) \<Longrightarrow> works_on (b_threads s ! i) (b_taken s)"
  by (simp_all add: threads_ok_def) (metis works_on.simps(5))

text \<open>A step of the thread at work to another phase of the same item, or to rest.\<close>

lemma threads_set_phase:
  assumes "threads_ok s" "i < length (b_threads s)" "b_threads s ! i \<noteq> Dead" "works_on p (b_taken s)"
  shows "threads_ok (set_phase i p s)"
  unfolding threads_ok_def
proof (intro allI impI)
  fix j assume j: "j < length (b_threads (set_phase i p s))" "b_threads (set_phase i p s) ! j \<noteq> Dead"
  show "b_thread (set_phase i p s) = Some j \<and> works_on (b_threads (set_phase i p s) ! j) (b_taken (set_phase i p s))"
  proof (cases "j = i")
    case True
    then show ?thesis using assms threads_okD(1) [OF assms(1-3)] by simp
  next
    case False
    then show ?thesis using j threads_okD [OF assms(1), of j] by simp
  qed
qed

lemma ok_set_phase:
  "bus_ok s \<Longrightarrow> i < length (b_threads s) \<Longrightarrow> b_threads s ! i \<noteq> Dead \<Longrightarrow> works_on p (b_taken s) \<Longrightarrow> bus_ok (set_phase i p s)"
  by (simp add: bus_ok_def threads_set_phase trace_ok_def)

lemma ok_invoke:
  assumes "bus_ok s" "Suc n = length (b_taken s)"
  shows "bus_ok (invoke beh t c n x s)"
proof -
  have "b_put s = b_taken s @ b_queue s" using assms(1) by (simp add: bus_ok_def trace_ok_def)
  from invoke_queue [OF this, of beh t c n x] show ?thesis
    using assms by (auto simp: bus_ok_def threads_ok_def trace_ok_def sorted_append)
qed

lemma ok_poll:
  assumes "bus_ok s" "i < length (b_threads s)" "b_threads s ! i = Polling"
  shows "bus_ok (poll i s)"
proof (cases "b_running s \<and> b_queue s \<noteq> []")
  case True
  then obtain x q where q: "b_queue s = x # q" by (cases "b_queue s") auto
  let ?s = "s\<lparr>b_queue := q, b_taken := b_taken s @ [x]\<rparr>"
  have ok: "threads_ok s" "trace_ok s" using assms(1) by (simp_all add: bus_ok_def)
  have i: "b_thread s = Some i" using threads_okD(1) [OF ok(1) assms(2)] assms(3) by simp
  have "threads_ok (set_phase i (Taken (length (b_taken s)) x) ?s)"
    using i threads_okD(1) [OF ok(1)] assms(2) by (auto simp: threads_ok_def nth_list_update)
  moreover have "trace_ok (set_phase i p ?s)" for p using ok(2) q by (force simp: trace_ok_def)
  ultimately show ?thesis using True q by (simp add: poll_def bus_ok_def)
next
  case False
  then show ?thesis using assms by (auto simp: poll_def split: list.split intro!: ok_set_phase)
qed

lemma ok_process:
  assumes "bus_ok s"
  shows "bus_ok (process_step beh t i s)"
proof (cases "i < length (b_threads s)")
  case True
  have w: "works_on (b_threads s ! i) (b_taken s)" using threads_okD(2) True assms by (simp add: bus_ok_def)
  note step = ok_set_phase [OF assms True]
  note call = ok_invoke [OF assms, THEN ok_set_phase]
  show ?thesis
  proof (cases "b_threads s ! i")
    case Polling
    then show ?thesis using assms True by (simp add: process_step_def ok_poll)
  next
    case (Taken n x)
    then show ?thesis using True w step by (auto simp: process_step_def handle_def split: item.split)
  next
    case (Calling n x cs)
    then show ?thesis using True w step call by (cases cs) (simp_all add: process_step_def)
  next
    case (Routing n x j)
    then show ?thesis using True w step call by (auto simp: process_step_def route_def Let_def split: item.split)
  next
    case Dead
    then show ?thesis using assms by (simp add: process_step_def)
  qed
qed (simp add: process_step_def assms)

lemma ok_act: "bus_ok s \<Longrightarrow> bus_ok (act t a s)"
  using act_queue [of s "b_taken s" t a] by (simp add: bus_ok_def threads_ok_def trace_ok_def)

lemma ok_start: "bus_ok s \<Longrightarrow> bus_ok (start s)"
  by (fastforce simp: start_def bus_ok_def threads_ok_def trace_ok_def alive_def nth_append less_Suc_eq split: option.splits)

lemma ok_do: "bus_ok s \<Longrightarrow> bus_ok (bus_do beh a s)"
proof (cases a)
  case Stop_Begin
  then show "bus_ok s \<Longrightarrow> ?thesis" by (simp add: stop_begin_def bus_ok_def threads_ok_def trace_ok_def)
next
  case (Stop_End th)
  then show "bus_ok s \<Longrightarrow> ?thesis" by (simp add: stop_end_def bus_ok_def threads_ok_def trace_ok_def)
next
  case (Health t)
  then show "bus_ok s \<Longrightarrow> ?thesis" by (simp add: check_health_def Let_def bus_ok_def threads_ok_def trace_ok_def)
qed (simp_all add: ok_act ok_start ok_process)

lemma ok_reaches: "bus_reaches beh s0 s \<Longrightarrow> bus_ok s0 \<Longrightarrow> bus_ok s"
  by (induction rule: bus_reaches.induct) (simp_all add: ok_do)

lemma ok_new: "bus_ok (new_bus t)"
  by (simp add: bus_ok_def threads_ok_def trace_ok_def new_bus_def)

section \<open>Delivery\<close>

text \<open>While a thread calls subscribers of its copy, nothing else changes its phase or calls anyone.\<close>

fun processes :: "nat \<Rightarrow> bus_op \<Rightarrow> bool" where
  "processes i (Process t j) = (i = j)"
| "processes i _ = False"

lemma other_op:
  assumes "bus_ok s" "i < length (b_threads s)" "b_threads s ! i \<noteq> Dead" "\<not> processes i a"
  shows "b_threads (bus_do beh a s) = b_threads s \<and> b_calls (bus_do beh a s) = b_calls s"
proof (cases a)
  case (Process t j)
  have ok: "threads_ok s" using assms(1) by (simp add: bus_ok_def)
  have "b_threads s ! j = Dead" if "j < length (b_threads s)"
    using threads_okD(1) [OF ok assms(2,3)] threads_okD(1) [OF ok that] assms(4) Process by fastforce
  then show ?thesis using Process by (auto simp: process_step_def)
next
  case Start
  have "b_thread s = Some i" using threads_okD(1) [OF _ assms(2,3)] assms(1) by (simp add: bus_ok_def)
  then show ?thesis using assms Start by (simp add: start_def alive_def)
qed (simp_all add: stop_begin_def stop_end_def check_health_def Let_def)

lemma calls_copy:
  "bus_ok s \<Longrightarrow> i < length (b_threads s) \<Longrightarrow> b_threads s ! i = Calling n x cs \<Longrightarrow> length (filter (processes i) ops) = length cs
   \<Longrightarrow> b_calls (fold (bus_do beh) ops s) = b_calls s @ map (\<lambda>c. (c, n)) cs"
proof (induction ops arbitrary: s cs)
  case (Cons a ops)
  show ?case
  proof (cases "processes i a")
    case False
    then show ?thesis using Cons other_op [OF Cons.prems(1,2), of a beh] ok_do [OF Cons.prems(1), of beh a] by simp
  next
    case True
    then obtain t where a: "a = Process t i" by (cases a) auto
    from True Cons.prems(4) obtain c ds where cs: "cs = c # ds" by (cases cs) auto
    let ?s = "bus_do beh a s"
    have "b_threads ?s ! i = Calling n x ds" "i < length (b_threads ?s)" "b_calls ?s = b_calls s @ [(c, n)]"
      using Cons.prems(2,3) by (simp_all add: a cs process_step_def)
    then show ?thesis
      using Cons.IH [OF ok_do [OF Cons.prems(1)], of beh a ds] Cons.prems(4) True by (simp add: cs)
  qed
qed simp

section \<open>Properties\<close>

text \<open>
  Ordering: at any time at most one processing thread is alive, the items taken are a prefix of the items
  published, and subscribers are called in the order of publication, never for an item after one published later,
  however the calls of the bus, its start and its stop are interleaved.
\<close>

theorem subscribers_called_in_order:
  assumes "bus_reaches beh (new_bus t0) s"
  shows "b_put s = b_taken s @ b_queue s \<and> sorted (map snd (b_calls s)) \<and> (\<forall>n \<in> snd ` set (b_calls s). n < length (b_taken s)) \<and>
    (\<forall>i j. alive (Some i) s \<longrightarrow> alive (Some j) s \<longrightarrow> i = j)"
proof -
  have ok: "threads_ok s" "trace_ok s" using ok_reaches [OF assms ok_new] by (simp_all add: bus_ok_def)
  have "i = j" if "alive (Some i) s" "alive (Some j) s" for i j
    using threads_okD(1) [OF ok(1), of i] threads_okD(1) [OF ok(1), of j] that by (simp add: alive_def)
  then show ?thesis using ok(2) by (simp add: trace_ok_def)
qed

text \<open>
  C20. An event reaches every subscriber its topic has at the time it is handled, each once and in the order of
  subscription, even if subscribers are added or removed or raise while it is delivered: the delivery works on a copy.
\<close>

theorem event_reaches_all_subscribers:
  assumes "bus_reaches beh (new_bus t0) s" "i < length (b_threads s)" "b_threads s ! i = Taken n (Event k d)"
    "length (filter (processes i) ops) = length (subscribers k s)"
  shows "b_calls (fold (bus_do beh) ops (process_step beh t i s)) = b_calls s @ map (\<lambda>c. (c, n)) (subscribers k s)"
proof -
  let ?s = "process_step beh t i s"
  have "b_threads ?s ! i = Calling n (Event k d) (subscribers k s)" "i < length (b_threads ?s)" "b_calls ?s = b_calls s"
    using assms(2,3) by (simp_all add: process_step_def handle_def)
  then show ?thesis
    using calls_copy [OF ok_process [OF ok_reaches [OF assms(1) ok_new]], of i beh t i n "Event k d" "subscribers k s" ops]
      assms(4) by simp
qed

text \<open>
  A message does not: it is routed over the live list of subscribers, so when a subscriber cancels its own
  subscription while it is called, the next subscriber is passed over.
\<close>

theorem self_cancelling_subscriber_hides_next:
  assumes "i < length (b_threads s)" "b_threads s ! i = Routing n (Message mt a d) (length xs)"
    "map_of (b_subscribers s) (Address a) = Some (xs @ c # c' # ys)" "c \<notin> set xs"
    "beh c (Message mt a d) = ([Unsubscribe (Address a) c], False)"
    "\<forall>y \<in> set (take 1 ys). beh y (Message mt a d) = ([], False)"
  shows "b_calls (process_step beh t i (process_step beh t i s)) = b_calls s @ (c, n) # map (\<lambda>y. (y, n)) (take 1 ys) \<and>
    c' \<in> set (subscribers (Address a) (process_step beh t i (process_step beh t i s)))"
proof -
  let ?x = "Message mt a d" and ?s = "process_step beh t i s"
  have sub: "subscribers (Address a) s = xs @ c # c' # ys" using assms(3) by (simp add: subscribers_def)
  have s: "?s = set_phase i (Routing n ?x (Suc (length xs))) (invoke beh t c n ?x s)"
    using assms(1,2) sub by (simp add: process_step_def route_def Let_def)
  have rm: "subscribers (Address a) (invoke beh t c n ?x s) = xs @ c' # ys"
    using sub assms(3-5) by (simp add: invoke_def unsubscribe_def subscribers_def update_conv remove1_append)
  have step: "process_step beh t i ?s = route beh t i n ?x (Suc (length xs)) ?s"
    unfolding s using assms(1) by (simp add: process_step_def)
  show ?thesis
  proof (cases ys)
    case Nil
    then show ?thesis unfolding step using rm by (simp add: s route_def)
  next
    case (Cons z zs)
    have "subscribers (Address a) (invoke beh t z n ?x u) = subscribers (Address a) u" for u
      using assms(6) Cons by (simp add: invoke_def subscribers_def)
    then show ?thesis unfolding step using rm Cons by (simp add: s route_def Let_def nth_append)
  qed
qed

section \<open>Overlapping stops\<close>

text \<open>A bus whose thread runs on while it counts as stopped.\<close>

definition wedged :: "bus \<Rightarrow> bool" where
  "wedged s \<longleftrightarrow> b_running s \<and> \<not> b_started s \<and> b_stopping s = [] \<and> alive (b_thread s) s"

lemma alive_threads: "b_threads u = b_threads s \<Longrightarrow> alive th u = alive th s"
  by (cases th) (simp_all add: alive_def)

lemmas alive_calls = alive_threads [OF invoke_keeps(1)] alive_threads [OF act_keeps(1)]

lemma alive_set_phase: "p \<noteq> Dead \<Longrightarrow> alive th s \<Longrightarrow> alive th (set_phase i p s)"
  by (cases th; cases "th = Some i") (auto simp: alive_def)

lemma wedged_set_phase: "p \<noteq> Dead \<Longrightarrow> wedged s \<Longrightarrow> wedged (set_phase i p s)"
  by (simp add: wedged_def alive_set_phase)

lemma wedged_invoke: "wedged s \<Longrightarrow> wedged (invoke beh t c n x s)"
  by (simp add: wedged_def alive_calls)

lemma wedged_poll: "wedged s \<Longrightarrow> wedged (poll i s)"
  by (auto simp: poll_def wedged_def split: list.split intro!: alive_set_phase) (simp add: alive_def split: option.splits)

lemma wedged_process: "wedged s \<Longrightarrow> wedged (process_step beh t i s)"
  by (simp add: process_step_def handle_def route_def Let_def wedged_poll wedged_set_phase wedged_invoke
    split: phase.split item.split list.split)

lemma wedged_do: "wedged s \<Longrightarrow> wedged (bus_do beh a s)"
proof (cases a)
  case (Act t b)
  then show "wedged s \<Longrightarrow> ?thesis" by (simp add: wedged_def alive_calls)
next
  case (Process t i)
  then show "wedged s \<Longrightarrow> ?thesis" by (simp add: wedged_process)
next
  case (Health t)
  then show "wedged s \<Longrightarrow> ?thesis" using alive_threads [of "snd (check_health t s)" s] by (simp add: wedged_def check_health_def Let_def)
qed (simp_all add: wedged_def start_def stop_begin_def stop_end_def)

lemma wedged_reaches: "bus_reaches beh s s' \<Longrightarrow> wedged s \<Longrightarrow> wedged s'"
  by (induction rule: bus_reaches.induct) (simp_all add: wedged_do)

definition two_stops :: "bus_op list" where
  "two_stops = [Start, Stop_Begin, Stop_Begin, Process 0 0, Stop_End (Some 0), Start, Stop_End (Some 0)]"

text \<open>
  C21. Overlapping stops wedge the bus: when the bus is started again between the two, the second stop ends by marking
  the new run as not started, and from then on the processing thread runs for ever, whatever is called: neither a
  start nor a stop does anything.
\<close>

theorem overlapping_stops_wedge:
  "bus_reaches beh (new_bus t) (fold (bus_do beh) two_stops (new_bus t)) \<and>
   (bus_reaches beh (fold (bus_do beh) two_stops (new_bus t)) s \<longrightarrow>
     b_running s \<and> alive (b_thread s) s \<and> \<not> b_started s \<and> start s = s \<and> stop_begin s = s)"
proof -
  have "wedged (fold (bus_do beh) two_stops (new_bus t))"
    by (simp add: two_stops_def new_bus_def start_def stop_begin_def stop_end_def process_step_def poll_def set_phase_def
      alive_def wedged_def)
  then have "wedged s" if "bus_reaches beh (fold (bus_do beh) two_stops (new_bus t)) s" using that wedged_reaches by blast
  then show ?thesis
    using reaches_fold [OF bus_here, of beh "new_bus t" two_stops] by (auto simp: wedged_def start_def stop_begin_def)
qed

section \<open>Witnesses\<close>

definition quiet :: behaviour where "quiet c x = ([], c = 2)"

definition leaving :: behaviour where
  "leaving c x = (case x of Message _ a _ \<Rightarrow> ([Unsubscribe (Address a) c], False) | _ \<Rightarrow> ([], False))"

definition two_events :: "bus_op list" where
  "two_events = [Act 0 (Subscribe (Name ''a'') 1), Act 0 (Subscribe (Name ''a'') 2), Start,
     Act 0 (Publish (Event (Name ''a'') PNone)), Process 0 0]"

theorem subscribers_called_in_order_witness:
  "sorted (map snd (b_calls (fold (bus_do quiet) two_events (new_bus 0))))"
  using subscribers_called_in_order [OF reaches_fold [OF bus_here, of quiet "new_bus 0" two_events]] by simp

theorem event_reaches_all_subscribers_witness:
  "b_calls (fold (bus_do quiet) [Process 0 0, Act 1 (Unsubscribe (Name ''a'') 2), Process 0 0]
     (process_step quiet 0 0 (fold (bus_do quiet) two_events (new_bus 0)))) = [(1, 0), (2, 0)]"
proof -
  let ?s = "fold (bus_do quiet) two_events (new_bus 0)"
  have s: "b_threads ?s = [Taken 0 (Event (Name ''a'') PNone)]" "subscribers (Name ''a'') ?s = [1, 2]" "b_calls ?s = []"
    by (simp_all add: two_events_def new_bus_def start_def bus_defs subscribers_def validate_message_def alive_def
      process_step_def poll_def set_phase_def)
  show ?thesis
    using event_reaches_all_subscribers [OF reaches_fold [OF bus_here, of quiet "new_bus 0" two_events], of 0 0 "Name ''a''"
        PNone "[Process 0 0, Act 1 (Unsubscribe (Name ''a'') 2), Process 0 0]" 0] s by simp
qed

theorem self_cancelling_subscriber_hides_next_witness:
  "b_calls (process_step leaving 0 0 (process_step leaving 0 0
     ((new_bus 0)\<lparr>b_threads := [Routing 0 (Message None 5 PNone) 0], b_subscribers := [(Address 5, [1, 2])]\<rparr>))) = [(1, 0)]"
proof -
  let ?s = "(new_bus 0)\<lparr>b_threads := [Routing 0 (Message None 5 PNone) 0], b_subscribers := [(Address 5, [1, 2])]\<rparr>"
  show ?thesis
    using self_cancelling_subscriber_hides_next [of 0 ?s 0 None 5 PNone "[]" 1 2 "[]" leaving 0]
    by (simp add: new_bus_def leaving_def)
qed

theorem overlapping_stops_wedge_witness:
  "stop_begin (fold (bus_do quiet) two_stops (new_bus 0)) = fold (bus_do quiet) two_stops (new_bus 0)"
  using overlapping_stops_wedge [of quiet 0 "fold (bus_do quiet) two_stops (new_bus 0)"] bus_here by blast

end
