(* ===== verification/Fcs_Requests.thy ===== *)
theory Fcs_Requests
  imports Fcs_Control
begin

text \<open>
  The requests that the flight control message handler has sent and that wait for an answer
  (\<^verbatim>\<open>FCSMessageHandler.py\<close>: \<^verbatim>\<open>PendingRequest\<close>, \<^verbatim>\<open>send_request\<close>, the clean-up pass and the
  response handlers). The transmission over the bus is an argument that returns whether a result came back; the
  metadata that travels with a message is left out. The clock does not advance inside one call, and notifications of a
  time-out are delivered.
\<close>

section \<open>Pending requests\<close>

record pending_request =
  pr_type :: string
  pr_timestamp :: rat
  pr_timeout :: rat
  pr_system :: string
  pr_data :: mode_arg
  pr_retries :: nat
  pr_max_retries :: nat
  pr_completed :: bool

definition new_pending :: "string \<Rightarrow> rat \<Rightarrow> string \<Rightarrow> mode_arg \<Rightarrow> nat \<Rightarrow> pending_request" where
  "new_pending command_type t system_name data inherited =
     \<lparr>pr_type = command_type, pr_timestamp = t, pr_timeout = 5, pr_system = system_name, pr_data = data,
      pr_retries = inherited, pr_max_retries = 3, pr_completed = False\<rparr>"

definition is_expired :: "rat \<Rightarrow> pending_request \<Rightarrow> bool" where
  "is_expired t r \<longleftrightarrow> fadd (pr_timestamp r) (pr_timeout r) < t"

definition should_retry :: "pending_request \<Rightarrow> bool" where
  "should_retry r \<longleftrightarrow> \<not> pr_completed r \<and> pr_retries r < pr_max_retries r"

definition increment_retry :: "rat \<Rightarrow> pending_request \<Rightarrow> pending_request" where
  "increment_retry t r = r\<lparr>pr_retries := pr_retries r + 1, pr_timestamp := t\<rparr>"

section \<open>The handler\<close>

record request_table =
  rt_pending :: "(string \<times> pending_request) list"
  rt_service :: bool
  rt_timed_out :: "string list"

text \<open>The command word and the data words of a request; nothing when there is no command word for it.\<close>

definition request_words :: "(string \<times> int pyres) list \<Rightarrow> string \<Rightarrow> mode_arg \<Rightarrow> (string \<times> string list) option pyres" where
  "request_words words request_type data =
     (let word_of = (\<lambda>name. case map_of words name of Some (Inr w) \<Rightarrow> Some (fmt_bin 16 w) | _ \<Rightarrow> None);
          plain = (case data of Plain v \<Rightarrow> v | Enum_Like _ _ \<Rightarrow> PNone);
          with_words = (\<lambda>name pack. case word_of name of
             None \<Rightarrow> Inr None | Some w \<Rightarrow> py_bind pack (\<lambda>ws. Inr (Some (w, ws))))
      in if request_type = ''mode_change'' then with_words ''FCS_MODE_CHANGE_REQUEST'' (pack_mode_data data)
         else if request_type = ''status'' then with_words ''FCS_STATUS_REQUEST'' (Inr [])
         else if request_type = ''control_input'' then with_words ''FCS_CONTROL_INPUT_REQUEST'' (pack_control_input_data plain)
         else if request_type = ''orientation_data'' then with_words ''FCS_ORIENTATION_DATA_REQUEST'' (Inr [])
         else Inr None)"

definition send_request ::
  "(string \<Rightarrow> string list \<Rightarrow> bool pyres) \<Rightarrow> (string \<times> int pyres) list \<Rightarrow> rat \<Rightarrow> string \<Rightarrow> string \<Rightarrow> string \<Rightarrow> mode_arg \<Rightarrow> nat
   \<Rightarrow> request_table \<Rightarrow> string option \<times> request_table" where
  "send_request bus words t request_id system_name request_type data inherited s0 =
     (let s = s0\<lparr>rt_pending := dict_set request_id (new_pending request_type t system_name data inherited) (rt_pending s0)\<rparr>;
          dropped = s\<lparr>rt_pending := AList.delete request_id (rt_pending s)\<rparr>
      in case request_words words request_type data of
           Inl _ \<Rightarrow> (None, dropped)
         | Inr None \<Rightarrow> (None, s)
         | Inr (Some (command_word, data_words)) \<Rightarrow>
             (case bus command_word data_words of
                Inl _ \<Rightarrow> (None, dropped)
              | Inr False \<Rightarrow> (None, dropped)
              | Inr True \<Rightarrow> (Some request_id, s)))"

definition handle_response :: "string \<Rightarrow> request_table \<Rightarrow> request_table" where
  "handle_response request_id s = s\<lparr>rt_pending := AList.delete request_id (rt_pending s)\<rparr>"

text \<open>
  A clean-up pass: requests whose window is over get another one, or are removed and reported when they have used
  theirs.
\<close>

definition cleanup_pending :: "rat \<Rightarrow> request_table \<Rightarrow> request_table" where
  "cleanup_pending t s =
     (let retry = map fst (filter (\<lambda>(_, r). is_expired t r \<and> should_retry r) (rt_pending s));
          expired = map fst (filter (\<lambda>(_, r). is_expired t r \<and> \<not> should_retry r) (rt_pending s));
          notify = map fst (filter (\<lambda>(_, r). is_expired t r \<and> \<not> should_retry r \<and> pr_type r \<noteq> [] \<and> rt_service s) (rt_pending s));
          p = map (\<lambda>(i, r). (i, if i \<in> set retry then increment_retry t r else r)) (rt_pending s)
      in s\<lparr>rt_pending := filter (\<lambda>(i, _). i \<notin> set expired) p, rt_timed_out := rt_timed_out s @ notify\<rparr>)"

section \<open>One request through the passes\<close>

text \<open>What a pass does to one request.\<close>

definition pass_one :: "rat \<Rightarrow> pending_request \<Rightarrow> pending_request option" where
  "pass_one t r = (if \<not> is_expired t r then Some r else if should_retry r then Some (increment_retry t r) else None)"

lemma map_of_map_filter:
  "distinct (map fst m) \<Longrightarrow> map_of (filter (\<lambda>(i, _). P i) (map (\<lambda>(i, r). (i, f i r)) m)) k =
     (if P k then map_option (f k) (map_of m k) else None)"
  by (induction m) (auto simp: map_of_eq_None_iff)

lemma distinct_values: "distinct (map fst m) \<Longrightarrow> distinct (map fst (filter P (map (\<lambda>(i, r). (i, f i r)) m)))"
  by (rule distinct_map_filter) (simp add: comp_def split_beta)

lemma in_filtered_keys:
  "distinct (map fst m) \<Longrightarrow> k \<in> set (map fst (filter (\<lambda>(_, r). P r) m)) \<longleftrightarrow> (\<exists>r. map_of m k = Some r \<and> P r)"
  by (force dest: map_of_SomeD intro: map_of_is_SomeI)

lemma count_distinct: "distinct xs \<Longrightarrow> count_list xs x = of_bool (x \<in> set xs)"
  by (induction xs) auto

lemma cleanup_one:
  assumes "distinct (map fst (rt_pending s))"
  shows "map_of (rt_pending (cleanup_pending t s)) k = Option.bind (map_of (rt_pending s) k) (pass_one t)"
    "count_list (rt_timed_out (cleanup_pending t s)) k = count_list (rt_timed_out s) k +
       of_bool (\<exists>r. map_of (rt_pending s) k = Some r \<and> pass_one t r = None \<and> pr_type r \<noteq> [] \<and> rt_service s)"
    "distinct (map fst (rt_pending (cleanup_pending t s)))" "rt_service (cleanup_pending t s) = rt_service s"
proof -
  note keys = in_filtered_keys [OF assms]
  let ?R = "set (map fst (filter (\<lambda>(_, r). is_expired t r \<and> should_retry r) (rt_pending s)))"
  let ?E = "set (map fst (filter (\<lambda>(_, r). is_expired t r \<and> \<not> should_retry r) (rt_pending s)))"
  have p: "rt_pending (cleanup_pending t s) =
      filter (\<lambda>(i, _). i \<notin> ?E) (map (\<lambda>(i, r). (i, if i \<in> ?R then increment_retry t r else r)) (rt_pending s))"
    by (simp add: cleanup_pending_def Let_def)
  have "map_of (rt_pending (cleanup_pending t s)) k =
      (if k \<notin> ?E then map_option (\<lambda>r. if k \<in> ?R then increment_retry t r else r) (map_of (rt_pending s) k) else None)"
    unfolding p by (rule map_of_map_filter [OF assms])
  then show "map_of (rt_pending (cleanup_pending t s)) k = Option.bind (map_of (rt_pending s) k) (pass_one t)"
    unfolding keys by (cases "map_of (rt_pending s) k") (auto simp: pass_one_def)
  show "count_list (rt_timed_out (cleanup_pending t s)) k = count_list (rt_timed_out s) k +
       of_bool (\<exists>r. map_of (rt_pending s) k = Some r \<and> pass_one t r = None \<and> pr_type r \<noteq> [] \<and> rt_service s)"
    unfolding cleanup_pending_def Let_def
    by (simp add: count_distinct distinct_map_filter assms keys del: set_map) (auto simp: pass_one_def)
  show "distinct (map fst (rt_pending (cleanup_pending t s)))"
    unfolding p by (rule distinct_values [OF assms])
  show "rt_service (cleanup_pending t s) = rt_service s" by (simp add: cleanup_pending_def Let_def)
qed

text \<open>
  The passes, of those made at the times \<open>vs\<close>, that find a window over: the first one after the window opened at
  \<open>t\<close> has ended, then the first one after the window opened at that pass has ended, and so on.
\<close>

fun window_ends :: "rat \<Rightarrow> rat list \<Rightarrow> rat list" where
  "window_ends t [] = []"
| "window_ends t (v # vs) = (if fadd t 5 < v then v # window_ends v vs else window_ends t vs)"

text \<open>A request that was not answered, as sent.\<close>

definition waiting :: "nat \<Rightarrow> rat \<Rightarrow> pending_request \<Rightarrow> bool" where
  "waiting n t r \<longleftrightarrow> \<not> pr_completed r \<and> pr_max_retries r = 3 \<and> pr_timeout r = 5 \<and> pr_timestamp r = t \<and> pr_retries r = n"

lemma waiting_pass:
  "waiting n t r \<Longrightarrow> \<not> fadd t 5 < u \<Longrightarrow> pass_one u r = Some r"
  "waiting n t r \<Longrightarrow> fadd t 5 < u \<Longrightarrow> n < 3 \<Longrightarrow> \<exists>r'. pass_one u r = Some r' \<and> waiting (Suc n) u r' \<and> pr_type r' = pr_type r"
  "waiting n t r \<Longrightarrow> fadd t 5 < u \<Longrightarrow> 3 \<le> n \<Longrightarrow> pass_one u r = None"
  by (auto simp: waiting_def pass_one_def is_expired_def should_retry_def increment_retry_def)

lemma absent_passes:
  "distinct (map fst (rt_pending s)) \<Longrightarrow> map_of (rt_pending s) k = None \<Longrightarrow>
   map_of (rt_pending (fold cleanup_pending vs s)) k = None \<and>
   count_list (rt_timed_out (fold cleanup_pending vs s)) k = count_list (rt_timed_out s) k"
proof (induction vs arbitrary: s)
  case (Cons v vs)
  note one = cleanup_one [OF Cons.prems(1), where t = v]
  from Cons.IH [OF one(3)] one(1,2) [where k = k] Cons.prems(2) show ?case by simp
qed simp

lemma waiting_passes:
  "distinct (map fst (rt_pending s)) \<Longrightarrow> map_of (rt_pending s) k = Some r \<Longrightarrow> waiting n t r \<Longrightarrow> n \<le> 3 \<Longrightarrow>
   pr_type r \<noteq> [] \<Longrightarrow> rt_service s \<Longrightarrow>
   (let m = n + length (window_ends t vs); s' = fold cleanup_pending vs s
    in map_option pr_retries (map_of (rt_pending s') k) = (if m \<le> 3 then Some m else None) \<and>
       count_list (rt_timed_out s') k = count_list (rt_timed_out s) k + of_bool (3 < m))"
proof (induction vs arbitrary: s r n t)
  case Nil
  then show ?case by (simp add: waiting_def)
next
  case (Cons v vs)
  let ?s = "cleanup_pending v s"
  note one = cleanup_one [OF Cons.prems(1), where t = v]
  consider "\<not> fadd t 5 < v" | "fadd t 5 < v" "n < 3" | "fadd t 5 < v" "n = 3" using Cons.prems(4) by linarith
  then show ?case
  proof cases
    case 1
    then have "pass_one v r = Some r" using waiting_pass(1) Cons.prems(3) by blast
    then have "map_of (rt_pending ?s) k = Some r" "count_list (rt_timed_out ?s) k = count_list (rt_timed_out s) k"
      using one(1,2) [where k = k] Cons.prems(2) by simp_all
    with Cons.IH [OF one(3) _ Cons.prems(3-5)] 1 one(4) Cons.prems(6) show ?thesis by simp
  next
    case 2
    then obtain r' where r': "pass_one v r = Some r'" "waiting (Suc n) v r'" "pr_type r' = pr_type r"
      using waiting_pass(2) Cons.prems(3) by blast
    then have "map_of (rt_pending ?s) k = Some r'" "count_list (rt_timed_out ?s) k = count_list (rt_timed_out s) k"
      using one(1,2) [where k = k] Cons.prems(2) by simp_all
    with Cons.IH [OF one(3) _ r'(2)] 2 r'(3) one(4) Cons.prems(5,6) show ?thesis by simp
  next
    case 3
    then have "pass_one v r = None" using waiting_pass(3) [of n t r v] Cons.prems(3) by simp
    then have "map_of (rt_pending ?s) k = None" "count_list (rt_timed_out ?s) k = count_list (rt_timed_out s) k + 1"
      using one(1,2) [where k = k] Cons.prems(2,5,6) by simp_all
    with absent_passes [OF one(3), where k = k] 3 show ?thesis by simp
  qed
qed

section \<open>Properties\<close>

text \<open>
  C12. A request that the bus accepted and that is not answered is kept for exactly four windows, whatever the times
  \<open>vs\<close> of the clean-up passes: it is pending as long as at most three of them found its window over, each of
  which counts a retry and opens the next window (passes inside a window change nothing); the pass that finds the
  fourth window over removes it and reports it to the response service, and it is reported that once only.
\<close>

theorem unanswered_request_times_out:
  assumes "send_request bus words t k system kind data 0 s0 = (Some k, s)" "kind \<noteq> []" "rt_service s0"
    "distinct (map fst (rt_pending s0))" "k \<notin> set (rt_timed_out s0)"
  shows "let n = length (window_ends t vs); s' = fold cleanup_pending vs s
    in map_option pr_retries (map_of (rt_pending s') k) = (if n \<le> 3 then Some n else None) \<and>
       count_list (rt_timed_out s') k = (if n \<le> 3 then 0 else 1)"
proof -
  have s: "rt_pending s = dict_set k (new_pending kind t system data 0) (rt_pending s0)" "rt_service s" "rt_timed_out s = rt_timed_out s0"
    using assms(1,3) by (auto simp: send_request_def Let_def split: sum.splits option.splits bool.splits)
  have d: "distinct (map fst (rt_pending s))" using assms(4) by (simp add: s(1) distinct_dict_set)
  have m: "map_of (rt_pending s) k = Some (new_pending kind t system data 0)" by (simp add: s(1) map_of_dict_set)
  have w: "waiting 0 t (new_pending kind t system data 0)" by (simp add: waiting_def new_pending_def)
  have "count_list (rt_timed_out s) k = 0" using assms(5) s(3) by (simp add: count_list_0_iff)
  then show ?thesis
    using waiting_passes [OF d m w, of vs] assms(2) s(2) by (simp add: Let_def new_pending_def)
qed

text \<open>
  A request of a kind the handler does not know is refused but stays pending: its caller gets no identifier, yet
  four windows later a time-out is reported for it.
\<close>

theorem refused_request_stays_pending:
  assumes "kind \<notin> {''mode_change'', ''status'', ''control_input'', ''orientation_data''}"
  shows "fst (send_request bus words t k system kind data 0 s) = None \<and>
    map_of (rt_pending (snd (send_request bus words t k system kind data 0 s))) k = Some (new_pending kind t system data 0)"
  using assms by (simp add: send_request_def request_words_def Let_def map_of_dict_set)

section \<open>Witnesses\<close>

theorem unanswered_request_times_out_witness:
  "\<exists>s. send_request (\<lambda>_ _. Inr True) (FCS_COMMAND_WORDS 5 10) 0 ''r'' ''fcs'' ''status'' (Plain PNone) 0
       \<lparr>rt_pending = [], rt_service = True, rt_timed_out = []\<rparr> = (Some ''r'', s) \<and>
     map_option pr_retries (map_of (rt_pending (fold cleanup_pending [1, 6, 7, 8, 12, 13, 18, 20] s)) ''r'') = Some 3 \<and>
     map_of (rt_pending (fold cleanup_pending [1, 6, 7, 8, 12, 13, 18, 20, 24, 30] s)) ''r'' = None \<and>
     count_list (rt_timed_out (fold cleanup_pending [1, 6, 7, 8, 12, 13, 18, 20, 24, 30] s)) ''r'' = 1"
proof -
  have w: "fcs_command_word 5 10 Fcs_Status 0 = Inr (5 * 2 ^ 11 + 0 * 2 ^ 10 + 10 * 2 ^ 5 + fcs_word_count Fcs_Status)"
    by (rule fcs_word_value) simp_all
  obtain s where s: "send_request (\<lambda>_ _. Inr True) (FCS_COMMAND_WORDS 5 10) 0 ''r'' ''fcs'' ''status'' (Plain PNone) 0
       \<lparr>rt_pending = [], rt_service = True, rt_timed_out = []\<rparr> = (Some ''r'', s)"
    using w by (auto simp: send_request_def request_words_def FCS_COMMAND_WORDS_def)
  have "fl 5 = 5" "fl 11 = 11" "fl 17 = 17" "fl 23 = 23" "fl 29 = 29"
    using fl_of_int [of 5] fl_of_int [of 11] fl_of_int [of 17] fl_of_int [of 23] fl_of_int [of 29] by simp_all
  then have "window_ends 0 [1, 6, 7, 8, 12, 13, 18, 20] = [6, 12, 18]"
    "window_ends 0 [1, 6, 7, 8, 12, 13, 18, 20, 24, 30] = [6, 12, 18, 24, 30]"
    by (simp_all add: fadd_def)
  then show ?thesis
    using unanswered_request_times_out [OF s, of "[1, 6, 7, 8, 12, 13, 18, 20]"]
      unanswered_request_times_out [OF s, of "[1, 6, 7, 8, 12, 13, 18, 20, 24, 30]"] s
    by (simp add: Let_def numeral_3_eq_3 del: window_ends.simps)
qed

theorem refused_request_stays_pending_witness:
  "map_of (rt_pending (snd (send_request (\<lambda>_ _. Inr True) [] 0 ''r'' ''fcs'' ''reboot'' (Plain PNone) 0
       \<lparr>rt_pending = [], rt_service = True, rt_timed_out = []\<rparr>))) ''r'' \<noteq> None"
  using refused_request_stays_pending [of "''reboot''" "\<lambda>_ _. Inr True" "[]" 0 "''r''" "''fcs''" "Plain PNone"
      "\<lparr>rt_pending = [], rt_service = True, rt_timed_out = []\<rparr>"] by simp

end
