(* ===== verification/Bus_Listener.thy ===== *)
theory Bus_Listener
  imports Health
begin

text \<open>
  The life of a bus listener (\<^verbatim>\<open>BC_socket.py\<close> and \<^verbatim>\<open>RT_socket.py\<close>, \<^verbatim>\<open>start_listening\<close> and the operations around
  it): the socket is bound again after a fault under the bounded retry policy, connections are handed to at most eight
  worker threads, and the health test asks for a running loop with a bound socket. One pass of the loop reads the clock
  once; what binding and \<^verbatim>\<open>select\<close> give are arguments of the pass. A start while the loop of an earlier one still runs
  is not modelled.
\<close>

section \<open>State\<close>

record server =
  v_running :: bool
  v_done :: bool
  v_exhausted :: bool
  v_socket :: "socket option"
  v_port :: int
  v_policy :: policy
  v_workers :: "nat list"
  v_live :: "nat list"
  v_next :: nat
  v_logged :: "rat list"
  v_activity :: rat
  v_errors :: nat

text \<open>Before the first start there is no policy yet; the field holds one that nothing reads.\<close>

definition new_server :: "int \<Rightarrow> rat \<Rightarrow> server" where
  "new_server port t =
     \<lparr>v_running = False, v_done = True, v_exhausted = False, v_socket = None, v_port = port, v_policy = new_policy ''idle'',
      v_workers = [], v_live = [], v_next = 0, v_logged = [], v_activity = t, v_errors = 0\<rparr>"

section \<open>One pass of the loop\<close>

text \<open>Binding: the new socket, whose port is read back, or the exception, which leaves no socket.\<close>

definition setup_socket :: "socket pyres \<Rightarrow> server \<Rightarrow> bool \<times> server" where
  "setup_socket made s =
     (case made of
        Inl _ \<Rightarrow> (False, s\<lparr>v_socket := None\<rparr>)
      | Inr k \<Rightarrow>
          (case s_sockname k of
             Raises _ _ \<Rightarrow> (False, s\<lparr>v_socket := None\<rparr>)
           | Returns (_, port) \<Rightarrow> (True, s\<lparr>v_socket := Some k, v_port := port\<rparr>)))"

text \<open>A failure is recorded and perhaps logged; then the loop goes on, gives up, or has died of an overflow.\<close>

datatype sequel = Go_On | Give_Up | Died

definition fault :: "rat \<Rightarrow> server \<Rightarrow> sequel \<times> server" where
  "fault t s =
     (case record_failure t (v_policy s) of
        (Inl _, p) \<Rightarrow> (Died, s\<lparr>v_policy := p, v_done := True\<rparr>)
      | (Inr _, p) \<Rightarrow>
          (case should_log t p of
             (logs, p) \<Rightarrow>
               let s = s\<lparr>v_policy := p, v_logged := (if logs then v_logged s @ [t] else v_logged s)\<rparr>
               in if exhausted t p then (Give_Up, s\<lparr>v_exhausted := True\<rparr>) else (Go_On, s)))"

definition leave :: "server \<Rightarrow> server" where
  "leave s = s\<lparr>v_socket := map_option (\<lambda>k. k\<lparr>s_fileno := Returns (- 1)\<rparr>) (v_socket s), v_done := True\<rparr>"

definition ensure_socket :: "rat \<Rightarrow> socket pyres \<Rightarrow> server \<Rightarrow> sequel option \<times> server" where
  "ensure_socket t made s =
     (if socket_is_bound (v_socket s) (Some (v_port s)) then (None, s)
      else case setup_socket made s of
        (True, s) \<Rightarrow> (None, s\<lparr>v_policy := record_success (v_policy s)\<rparr>)
      | (False, s) \<Rightarrow> (case fault t s of (q, s) \<Rightarrow> (Some q, s)))"

definition MAX_CONCURRENT_CONNECTIONS :: nat where "MAX_CONCURRENT_CONNECTIONS = 8"

text \<open>A connection is refused when eight workers are alive.\<close>

definition spawn_connection_handler :: "server \<Rightarrow> bool \<times> server" where
  "spawn_connection_handler s =
     (let workers = filter (\<lambda>i. i \<in> set (v_live s)) (v_workers s) in
      if MAX_CONCURRENT_CONNECTIONS \<le> length workers then (False, s\<lparr>v_workers := workers\<rparr>)
      else (True, s\<lparr>v_workers := workers @ [v_next s], v_live := v_live s @ [v_next s], v_next := v_next s + 1\<rparr>))"

definition accept_fault :: "rat \<Rightarrow> server \<Rightarrow> server" where
  "accept_fault t s =
     (case fault t s of
        (Died, s) \<Rightarrow> s
      | (Go_On, s) \<Rightarrow> s\<lparr>v_socket := None\<rparr>
      | (Give_Up, s) \<Rightarrow> leave (s\<lparr>v_socket := None\<rparr>))"

datatype poll = Quiet | Incoming | Socket_Error | Other_Error

definition after_setup :: "sequel \<Rightarrow> server \<Rightarrow> server" where
  "after_setup q s = (case q of Give_Up \<Rightarrow> leave s | _ \<Rightarrow> s)"

definition bc_pass :: "rat \<Rightarrow> socket pyres \<Rightarrow> poll \<Rightarrow> server \<Rightarrow> server" where
  "bc_pass t made e s =
     (if v_done s then s
      else if \<not> v_running s then leave s
      else case ensure_socket t made s of
        (Some q, s) \<Rightarrow> after_setup q s
      | (None, s) \<Rightarrow>
          (case e of
             Quiet \<Rightarrow> s
           | Incoming \<Rightarrow> snd (spawn_connection_handler s)
           | _ \<Rightarrow> accept_fault t s))"

text \<open>The remote terminal counts errors, notes the time of a connection, and takes other errors lightly.\<close>

definition rt_pass :: "rat \<Rightarrow> socket pyres \<Rightarrow> poll \<Rightarrow> server \<Rightarrow> server" where
  "rt_pass t made e s =
     (if v_done s then s
      else if \<not> v_running s then leave s
      else case ensure_socket t made s of
        (Some q, s) \<Rightarrow> after_setup q s
      | (None, s) \<Rightarrow>
          (case e of
             Quiet \<Rightarrow> s
           | Incoming \<Rightarrow> (snd (spawn_connection_handler s))\<lparr>v_errors := 0, v_activity := t\<rparr>
           | Socket_Error \<Rightarrow> accept_fault t (s\<lparr>v_errors := v_errors s + 1\<rparr>)
           | Other_Error \<Rightarrow> s))"

section \<open>Operations\<close>

definition bc_start_listening :: "rat \<Rightarrow> server \<Rightarrow> server" where
  "bc_start_listening t s =
     (if \<not> v_done s then s
      else s\<lparr>v_running := True, v_exhausted := False, v_policy := new_policy ''BC_Listener socket'', v_done := False\<rparr>)"

definition rt_start_listening :: "rat \<Rightarrow> server \<Rightarrow> server" where
  "rt_start_listening t s =
     (if \<not> v_done s then s
      else s\<lparr>v_running := True, v_exhausted := False, v_policy := new_policy ''RT_Listener socket'', v_done := False,
             v_activity := t, v_errors := 0\<rparr>)"

definition stop_listening :: "server \<Rightarrow> server" where "stop_listening s = s\<lparr>v_running := False\<rparr>"

definition worker_ends :: "nat \<Rightarrow> server \<Rightarrow> server" where "worker_ends i s = s\<lparr>v_live := removeAll i (v_live s)\<rparr>"

definition listener_check_health :: "server \<Rightarrow> bool" where
  "listener_check_health s \<longleftrightarrow> v_running s \<and> socket_is_bound (v_socket s) (Some (v_port s))"

definition listener_is_healthy :: "rat \<Rightarrow> server \<Rightarrow> bool" where
  "listener_is_healthy t s \<longleftrightarrow> v_running s \<and> fsub t (v_activity s) < 60"

datatype side = BC_Side | RT_Side

datatype server_op = Start_Listening rat | Stop_Listening | Pass rat "socket pyres" poll | Worker_Ends nat

fun server_do :: "side \<Rightarrow> server_op \<Rightarrow> server \<Rightarrow> server" where
  "server_do BC_Side (Start_Listening t) s = bc_start_listening t s"
| "server_do RT_Side (Start_Listening t) s = rt_start_listening t s"
| "server_do w Stop_Listening s = stop_listening s"
| "server_do BC_Side (Pass t made e) s = bc_pass t made e s"
| "server_do RT_Side (Pass t made e) s = rt_pass t made e s"
| "server_do w (Worker_Ends i) s = worker_ends i s"

definition server_run :: "side \<Rightarrow> server_op list \<Rightarrow> server \<Rightarrow> server" where
  "server_run w ops s = fold (server_do w) ops s"

section \<open>Invariant\<close>

text \<open>The live workers are tracked and no more than eight; a listener that has given up has no socket and no loop.\<close>

definition server_ok :: "server \<Rightarrow> bool" where
  "server_ok s \<longleftrightarrow> distinct (v_workers s) \<and> distinct (v_live s) \<and> set (v_live s) \<subseteq> set (v_workers s) \<and>
     (\<forall>i\<in>set (v_workers s). i < v_next s) \<and> length (v_live s) \<le> MAX_CONCURRENT_CONNECTIONS \<and>
     (v_exhausted s \<longrightarrow> v_done s \<and> v_socket s = None)"

lemma server_ok_new: "server_ok (new_server port t)"
  by (simp add: server_ok_def new_server_def)

lemma server_ok_spawn:
  assumes "server_ok s" "\<not> v_done s" shows "server_ok (snd (spawn_connection_handler s))"
proof -
  let ?w = "filter (\<lambda>i. i \<in> set (v_live s)) (v_workers s)"
  have w: "set ?w = set (v_live s)" "distinct ?w" using assms(1) by (auto simp: server_ok_def)
  then have "length ?w = length (v_live s)" using assms(1) distinct_card [of ?w] distinct_card [of "v_live s"] by (simp add: server_ok_def)
  moreover have "v_next s \<notin> set (v_live s)" "v_next s \<notin> set (v_workers s)" using assms(1) by (auto simp: server_ok_def)
  ultimately show ?thesis
    using assms w by (auto simp: server_ok_def spawn_connection_handler_def Let_def less_SucI)
qed

lemma setup_fields:
  assumes "setup_socket made s = (b, s')"
  shows "\<not> b \<Longrightarrow> v_socket s' = None" "b \<Longrightarrow> v_socket s' \<noteq> None" "v_workers s' = v_workers s" "v_live s' = v_live s"
    "v_next s' = v_next s" "v_done s' = v_done s" "v_exhausted s' = v_exhausted s" "v_running s' = v_running s"
    "v_policy s' = v_policy s" "v_logged s' = v_logged s"
  using assms by (auto simp: setup_socket_def split: sum.splits call.splits)

lemma fault_fields:
  assumes "fault t s = (q, s')"
  shows "v_workers s' = v_workers s" "v_live s' = v_live s" "v_next s' = v_next s" "v_socket s' = v_socket s"
    "v_running s' = v_running s" "v_done s' = (v_done s \<or> q = Died)" "v_exhausted s' = (v_exhausted s \<or> q = Give_Up)"
  using assms by (auto simp: fault_def Let_def split: sum.splits prod.splits if_splits)

lemma server_ok_fields:
  "server_ok (s\<lparr>v_policy := p\<rparr>) = server_ok s" "server_ok (s\<lparr>v_errors := n\<rparr>) = server_ok s"
  "server_ok (s\<lparr>v_activity := r\<rparr>) = server_ok s"
  by (simp_all add: server_ok_def)

lemma ensure_ok:
  assumes "server_ok s" "\<not> v_done s" "ensure_socket t made s = (r, s')"
  shows "case r of None \<Rightarrow> server_ok s' \<and> \<not> v_done s' | Some q \<Rightarrow> server_ok (after_setup q s')"
proof (cases "socket_is_bound (v_socket s) (Some (v_port s))")
  case False
  obtain b s1 where 1: "setup_socket made s = (b, s1)" by (rule prod.exhaust)
  note f1 = setup_fields [OF 1]
  have ok1: "server_ok s1 \<and> \<not> v_done s1 \<and> \<not> v_exhausted s1"
    using assms(1,2) by (auto simp: server_ok_def f1)
  show ?thesis
  proof (cases b)
    case True
    then show ?thesis using assms(3) False 1 ok1 by (auto simp: ensure_socket_def server_ok_fields)
  next
    case nb: False
    obtain q s2 where 2: "fault t s1 = (q, s2)" by (rule prod.exhaust)
    then have r: "r = Some q" "s' = s2" using assms(3) False 1 nb by (simp_all add: ensure_socket_def)
    have "v_socket s1 = None" using f1 nb by simp
    then have "server_ok (after_setup q s2)"
      using ok1 by (auto simp: server_ok_def after_setup_def leave_def fault_fields [OF 2] split: sequel.split)
    then show ?thesis by (simp add: r)
  qed
qed (use assms in \<open>auto simp: ensure_socket_def\<close>)

lemma accept_fault_ok: "server_ok s \<Longrightarrow> \<not> v_done s \<Longrightarrow> server_ok (accept_fault t s)"
proof -
  assume a: "server_ok s" "\<not> v_done s"
  obtain q s2 where 2: "fault t s = (q, s2)" by (rule prod.exhaust)
  show ?thesis
    unfolding accept_fault_def 2 prod.case
    using a by (auto simp: server_ok_def leave_def fault_fields [OF 2] split: sequel.split)
qed

lemma server_ok_leave: "server_ok s \<Longrightarrow> server_ok (leave s)"
  by (auto simp: server_ok_def leave_def)

lemma bc_pass_ok: "server_ok s \<Longrightarrow> server_ok (bc_pass t made e s)"
  and rt_pass_ok: "server_ok s \<Longrightarrow> server_ok (rt_pass t made e s)"
proof -
  assume s: "server_ok s"
  have "server_ok (bc_pass t made e s) \<and> server_ok (rt_pass t made e s)"
  proof (cases "v_done s \<or> \<not> v_running s")
    case False
    obtain r s' where e: "ensure_socket t made s = (r, s')" by (rule prod.exhaust)
    have ok: "case r of None \<Rightarrow> server_ok s' \<and> \<not> v_done s' | Some q \<Rightarrow> server_ok (after_setup q s')"
      using ensure_ok [OF s _ e] False by simp
    show ?thesis
    proof (cases r)
      case None
      then have s': "server_ok s'" "\<not> v_done s'" using ok by simp_all
      have "server_ok (accept_fault t (s'\<lparr>v_errors := v_errors s' + 1\<rparr>))"
        by (rule accept_fault_ok) (simp_all add: server_ok_fields s')
      then show ?thesis using None False server_ok_spawn [OF s'] accept_fault_ok [OF s'] s'
        by (simp add: bc_pass_def rt_pass_def e server_ok_def split: poll.split)
    next
      case (Some q)
      then show ?thesis using ok False by (simp add: bc_pass_def rt_pass_def e)
    qed
  qed (use s server_ok_leave [OF s] in \<open>auto simp: bc_pass_def rt_pass_def\<close>)
  then show "server_ok (bc_pass t made e s)" "server_ok (rt_pass t made e s)" by simp_all
qed

lemma server_ok_worker_ends:
  assumes "server_ok s" shows "server_ok (worker_ends i s)"
proof -
  have "length (v_live s) \<le> MAX_CONCURRENT_CONNECTIONS" using assms by (simp add: server_ok_def)
  with length_removeAll_less_eq have "length (removeAll i (v_live s)) \<le> MAX_CONCURRENT_CONNECTIONS" by (rule le_trans)
  moreover have "distinct (removeAll i (v_live s))" "set (removeAll i (v_live s)) \<subseteq> set (v_workers s)"
    using assms by (auto simp: server_ok_def distinct_removeAll)
  ultimately show ?thesis using assms by (simp add: worker_ends_def server_ok_def)
qed

lemma server_ok_do: "server_ok s \<Longrightarrow> server_ok (server_do w op s)"
proof (induction w op s rule: server_do.induct)
  case (1 t s)
  then show ?case by (auto simp: bc_start_listening_def server_ok_def)
next
  case (2 t s)
  then show ?case by (auto simp: rt_start_listening_def server_ok_def)
next
  case (3 w s)
  then show ?case by (simp add: stop_listening_def server_ok_def)
qed (simp_all add: bc_pass_ok rt_pass_ok server_ok_worker_ends)

lemma server_ok_run: "server_ok s \<Longrightarrow> server_ok (server_run w ops s)"
  by (induction ops arbitrary: s) (simp_all add: server_run_def server_ok_do)

section \<open>Faults under the retry policy\<close>

text \<open>A socket that binds: its descriptor is open and its address is known.\<close>

definition binds :: "socket pyres \<Rightarrow> bool" where
  "binds made \<longleftrightarrow> (case made of
     Inl _ \<Rightarrow> False
   | Inr k \<Rightarrow> (case s_sockname k of Raises _ _ \<Rightarrow> False | Returns _ \<Rightarrow> True))"

lemma setup_binds: "fst (setup_socket made s) = binds made"
  by (auto simp: setup_socket_def binds_def split: sum.splits call.splits)

lemma new_policy_fields [simp]:
  "p_attempts (new_policy n) = 0" "p_first_failure_at (new_policy n) = None" "p_give_up_after (new_policy n) = Some 120"
  "p_max_attempts (new_policy n) = None" "p_factor (new_policy n) = 2" "p_log_first (new_policy n) = 3"
  by (simp_all add: new_policy_def)

lemma float_pow_2: "n < 1024 \<Longrightarrow> float_pow 2 n = Inr (2 ^ n)"
proof -
  assume n: "n < 1024"
  have "fl (2 ^ n) = 2 ^ n" by (rule fl_exact [where m = 1 and k = "int n"]) (simp_all add: power_int_def)
  moreover have "(2::rat) ^ n < 2 ^ 1024" using n by (intro power_strict_increasing) simp_all
  ultimately show ?thesis by (simp add: float_pow_def Let_def not_le)
qed

text \<open>The policy of a listener, with the failures so far.\<close>

definition counts :: "nat \<Rightarrow> rat option \<Rightarrow> policy \<Rightarrow> bool" where
  "counts n first p \<longleftrightarrow> p_attempts p = n \<and> p_first_failure_at p = first \<and> p_give_up_after p = Some 120 \<and>
     p_max_attempts p = None \<and> p_factor p = 2 \<and> p_log_first p = 3"

lemma should_log_counts: "counts n f (snd (should_log t p)) = counts n f p"
  by (simp add: counts_def should_log_def)

lemma fault_counts:
  assumes "counts n first (v_policy s)" "n < 1024" and t0: "t0 = (case first of None \<Rightarrow> t | Some u \<Rightarrow> u)"
  shows "fst (fault t s) = (if 120 \<le> fsub t t0 then Give_Up else Go_On) \<and>
    counts (n + 1) (Some t0) (v_policy (snd (fault t s))) \<and> (n < 3 \<longrightarrow> v_logged (snd (fault t s)) = v_logged s @ [t])"
proof -
  obtain r p where rp: "record_failure t (v_policy s) = (r, p)" by (rule prod.exhaust)
  then have "p = snd (record_failure t (v_policy s))" by simp
  then have p: "counts (n + 1) (Some t0) p"
    using assms(1) by (auto simp: counts_def record_failure_state t0 split: option.split)
  have "is_ok (fst (record_failure t (v_policy s)))"
    using assms(1,2) float_pow_2 [of n] by (simp add: counts_def record_failure_def Let_def)
  then obtain d where 1: "record_failure t (v_policy s) = (Inr d, p)" by (auto simp: is_ok_iff rp)
  obtain b q where 2: "should_log t p = (b, q)" by (rule prod.exhaust)
  have q: "counts (n + 1) (Some t0) q" using p should_log_counts [of "n + 1" "Some t0" t p] 2 by simp
  have "exhausted t q \<longleftrightarrow> 120 \<le> fsub t t0" using q by (simp add: exhausted_def counts_def)
  moreover have "n < 3 \<Longrightarrow> b" using 2 p by (auto simp: should_log_def counts_def split: if_splits)
  ultimately show ?thesis using q by (simp add: fault_def 1 2 Let_def)
qed

lemma fault_counts_fields:
  "v_socket (snd (fault t s)) = v_socket s" "v_running (snd (fault t s)) = v_running s"
  using fault_fields(4,5) [of t s "fst (fault t s)" "snd (fault t s)"] by simp_all

text \<open>A loop that runs, with its policy at \<open>n\<close> failures.\<close>

definition looping :: "nat \<Rightarrow> rat option \<Rightarrow> server \<Rightarrow> bool" where
  "looping n first s \<longleftrightarrow> v_running s \<and> \<not> v_done s \<and> v_socket s = None \<and> \<not> v_exhausted s \<and> counts n first (v_policy s)"

definition gave_up :: "server \<Rightarrow> bool" where
  "gave_up s \<longleftrightarrow> v_done s \<and> v_socket s = None \<and> v_exhausted s"

lemma looping_started:
  "looping 0 None (server_do w (Start_Listening t) (new_server port u))"
  by (cases w) (simp_all add: looping_def bc_start_listening_def rt_start_listening_def new_server_def counts_def)

lemma fault_looping:
  assumes "looping n first s" "n < 1024" and t0: "t0 = (case first of None \<Rightarrow> t | Some u \<Rightarrow> u)"
  shows "fst (fault t s) = (if 120 \<le> fsub t t0 then Give_Up else Go_On)"
    "\<not> 120 \<le> fsub t t0 \<Longrightarrow> looping (n + 1) (Some t0) (snd (fault t s))"
    "n < 3 \<Longrightarrow> v_logged (snd (fault t s)) = v_logged s @ [t]"
proof -
  have c: "counts n first (v_policy s)" using assms(1) by (simp add: looping_def)
  note f = fault_counts [OF c assms(2) t0]
  then show q: "fst (fault t s) = (if 120 \<le> fsub t t0 then Give_Up else Go_On)" by blast
  show "n < 3 \<Longrightarrow> v_logged (snd (fault t s)) = v_logged s @ [t]" using f by blast
  have flds: "v_socket (snd (fault t s)) = v_socket s" "v_running (snd (fault t s)) = v_running s"
    "v_done (snd (fault t s)) = (v_done s \<or> fst (fault t s) = Died)"
    "v_exhausted (snd (fault t s)) = (v_exhausted s \<or> fst (fault t s) = Give_Up)"
    using fault_fields(4-7) [of t s "fst (fault t s)" "snd (fault t s)"] by simp_all
  show "\<not> 120 \<le> fsub t t0 \<Longrightarrow> looping (n + 1) (Some t0) (snd (fault t s))"
    using f assms(1) q by (simp add: looping_def flds)
qed

lemma not_bound: "\<not> socket_is_bound None p"
  by (simp add: socket_is_bound_def)

lemma bind_fault_pass:
  assumes "looping n first s" "n < 1024" "\<not> binds made" and t0: "t0 = (case first of None \<Rightarrow> t | Some u \<Rightarrow> u)"
  shows "if 120 \<le> fsub t t0 then gave_up (server_do w (Pass t made e) s)
    else looping (n + 1) (Some t0) (server_do w (Pass t made e) s)"
proof -
  obtain s1 where 1: "setup_socket made s = (False, s1)" using setup_binds [of made s] assms(3) by (metis prod.collapse)
  note f1 = setup_fields [OF 1]
  have l1: "looping n first s1" using assms(1) f1 by (simp add: looping_def)
  obtain q s2 where 2: "fault t s1 = (q, s2)" by (rule prod.exhaust)
  note fl = fault_looping [OF l1 assms(2) t0, unfolded 2 fst_conv snd_conv]
  have flds: "v_socket s2 = None" "v_exhausted s2 \<longleftrightarrow> q = Give_Up"
    using fault_fields [OF 2] l1 by (simp_all add: looping_def)
  have e: "ensure_socket t made s = (Some q, s2)"
    using assms(1) by (simp add: ensure_socket_def looping_def not_bound 1 2)
  have "server_do w (Pass t made e) s = after_setup q s2"
    using assms(1) by (cases w) (simp_all add: bc_pass_def rt_pass_def e looping_def)
  then show ?thesis using fl flds by (auto simp: after_setup_def leave_def gave_up_def)
qed

lemma gave_up_pass: "gave_up s \<Longrightarrow> gave_up (server_do w (Pass t made e) s)"
  by (cases w) (simp_all add: gave_up_def bc_pass_def rt_pass_def)

lemma accept_fault_pass:
  assumes "looping n first s" "binds made"
  shows "looping 1 (Some t) (server_do w (Pass t made Socket_Error) s) \<and>
    v_logged (server_do w (Pass t made Socket_Error) s) = v_logged s @ [t]"
proof -
  obtain s1 where 1: "setup_socket made s = (True, s1)" using setup_binds [of made s] assms(2) by (metis prod.collapse)
  let ?s2 = "s1\<lparr>v_policy := record_success (v_policy s1)\<rparr>"
  have e: "ensure_socket t made s = (None, ?s2)"
    using assms(1) by (simp add: ensure_socket_def looping_def not_bound 1)
  have sock: "v_socket s1 \<noteq> None" using setup_fields(2) [OF 1] by simp
  have acc: "looping 1 (Some t) (accept_fault t s3) \<and> v_logged (accept_fault t s3) = v_logged s @ [t]"
    if s3: "s3 = ?s2\<lparr>v_errors := k\<rparr>" for s3 k
  proof -
    obtain q s4 where 4: "fault t s3 = (q, s4)" by (rule prod.exhaust)
    have c: "counts 0 None (v_policy s3)"
      using assms(1) by (simp add: s3 counts_def record_success_def looping_def setup_fields [OF 1])
    have "q = Go_On" "counts 1 (Some t) (v_policy s4)" "v_logged s4 = v_logged s3 @ [t]"
      using fault_counts [OF c, of t t] by (simp_all add: 4 fsub_self)
    then show ?thesis
      using assms(1) fault_fields [OF 4] setup_fields [OF 1] s3 unfolding accept_fault_def 4 by (simp add: looping_def)
  qed
  have "accept_fault t ?s2 = accept_fault t (?s2\<lparr>v_errors := v_errors ?s2\<rparr>)" by simp
  then have "looping 1 (Some t) (accept_fault t ?s2) \<and> v_logged (accept_fault t ?s2) = v_logged s @ [t]"
    using acc [of "?s2\<lparr>v_errors := v_errors ?s2\<rparr>" "v_errors ?s2"] by simp
  moreover have "looping 1 (Some t) (accept_fault t (?s2\<lparr>v_errors := v_errors ?s2 + 1\<rparr>)) \<and>
    v_logged (accept_fault t (?s2\<lparr>v_errors := v_errors ?s2 + 1\<rparr>)) = v_logged s @ [t]"
    by (rule acc) simp
  ultimately show ?thesis
    using assms(1) by (cases w) (simp_all add: bc_pass_def rt_pass_def e looping_def)
qed

section \<open>Properties\<close>

text \<open>
  Whatever starts, stops, passes and ends of workers happen, with whatever binding and polling give: at most eight
  connections are served at a time, and a listener that has given up has left its loop and fails its health test.
\<close>

theorem listener_state_sound:
  "let s = server_run w ops (new_server port t) in
   length (v_live s) \<le> 8 \<and> (v_exhausted s \<longrightarrow> v_done s \<and> \<not> listener_check_health s)"
proof -
  have "server_ok (server_run w ops (new_server port t))" by (intro server_ok_run server_ok_new)
  then show ?thesis
    by (auto simp: Let_def server_ok_def MAX_CONCURRENT_CONNECTIONS_def listener_check_health_def not_bound)
qed

theorem listener_state_sound_witness:
  "let s = server_run BC_Side [Start_Listening 0, Pass 1 (Inl OSError) Quiet, Stop_Listening] (new_server 5000 0)
   in length (v_live s) \<le> 8 \<and> (v_exhausted s \<longrightarrow> v_done s \<and> \<not> listener_check_health s)"
  by (rule listener_state_sound)

text \<open>
  A port that cannot be bound makes the listener give up: when no attempt binds and some attempt comes 120 seconds
  after the first one, the loop has ended, the listener is marked exhausted and its health test fails.
\<close>

theorem bind_fault_gives_up:
  assumes "\<forall>(made, t)\<in>set ((made0, t0) # ps). \<not> binds made" "length ps < 1023" "\<exists>t\<in>snd ` set ps. 120 \<le> fsub t t0"
  shows "let s = server_run w (Start_Listening u # map (\<lambda>(made, t). Pass t made Quiet) ((made0, t0) # ps)) (new_server port v)
    in v_exhausted s \<and> v_done s \<and> \<not> listener_check_health s"
proof -
  let ?s1 = "server_do w (Start_Listening u) (new_server port v)"
  let ?s2 = "server_do w (Pass t0 made0 Quiet) ?s1"
  have 2: "looping 1 (Some t0) ?s2"
    using bind_fault_pass [OF looping_started, of made0 t0 t0] assms(1) by (simp add: fsub_self)
  have "gave_up (fold (server_do w) (map (\<lambda>(made, t). Pass t made Quiet) ps) s)"
    if "gave_up s \<or> looping n (Some t0) s \<and> n + length ps \<le> 1023 \<and> (\<exists>t\<in>snd ` set ps. 120 \<le> fsub t t0)" for n s
    using that assms(1)
  proof (induction ps arbitrary: s n)
    case Nil
    then show ?case by simp
  next
    case (Cons a ps)
    obtain made t where a: "a = (made, t)" by (rule prod.exhaust)
    let ?s = "server_do w (Pass t made Quiet) s"
    from Cons.prems(1) have "gave_up ?s \<or> looping (n + 1) (Some t0) ?s \<and> n + 1 + length ps \<le> 1023 \<and> (\<exists>t\<in>snd ` set ps. 120 \<le> fsub t t0)"
    proof
      assume "gave_up s"
      then show ?thesis by (simp add: gave_up_pass)
    next
      assume l: "looping n (Some t0) s \<and> n + length (a # ps) \<le> 1023 \<and> (\<exists>t\<in>snd ` set (a # ps). 120 \<le> fsub t t0)"
      then show ?thesis
        using bind_fault_pass [of n "Some t0" s made t0 t w Quiet] Cons.prems(2) by (auto simp: a split: if_splits)
    qed
    then show ?case using Cons.IH [of ?s "n + 1"] Cons.prems(2) by (simp add: a)
  qed
  from this [of ?s2 1] 2 assms(2,3)
  have "gave_up (fold (server_do w) (map (\<lambda>(made, t). Pass t made Quiet) ps) ?s2)" by simp
  then show ?thesis by (simp add: Let_def server_run_def gave_up_def listener_check_health_def not_bound)
qed

text \<open>
  C30. A fault that strikes after the port is bound is retried for ever: as long as every pass binds and then fails in
  polling or accepting, the loop never gives up, its policy stands at its first failure after every pass, and every
  failure is logged. Each rebinding records a success, which clears the count that the bound on retries needs.
\<close>

theorem accept_fault_never_gives_up:
  assumes "\<forall>(made, t)\<in>set ps. binds made"
  shows "let s = server_run w (Start_Listening u # map (\<lambda>(made, t). Pass t made Socket_Error) ps) (new_server port v)
    in \<not> v_exhausted s \<and> \<not> v_done s \<and> p_attempts (v_policy s) \<le> 1 \<and> v_logged s = map snd ps"
proof -
  have "\<exists>n f. n \<le> 1 \<and> looping n f (fold (server_do w) (map (\<lambda>(made, t). Pass t made Socket_Error) ps) s) \<and>
    v_logged (fold (server_do w) (map (\<lambda>(made, t). Pass t made Socket_Error) ps) s) = v_logged s @ map snd ps"
    if "looping n f s" "n \<le> 1" for n f s
    using that assms
  proof (induction ps arbitrary: s n f)
    case Nil
    then show ?case by auto
  next
    case (Cons a ps)
    obtain made t where a: "a = (made, t)" by (rule prod.exhaust)
    have "looping 1 (Some t) (server_do w (Pass t made Socket_Error) s) \<and>
      v_logged (server_do w (Pass t made Socket_Error) s) = v_logged s @ [t]"
      using accept_fault_pass [OF Cons.prems(1)] Cons.prems(3) by (simp add: a)
    then show ?case using Cons.IH [of 1 "Some t" "server_do w (Pass t made Socket_Error) s"] Cons.prems(3) by (simp add: a)
  qed
  from this [OF looping_started, of w u port v]
  obtain n f where "n \<le> 1" "looping n f (server_run w (Start_Listening u # map (\<lambda>(made, t). Pass t made Socket_Error) ps) (new_server port v))"
    and lg: "v_logged (server_run w (Start_Listening u # map (\<lambda>(made, t). Pass t made Socket_Error) ps) (new_server port v)) =
      v_logged (server_do w (Start_Listening u) (new_server port v)) @ map snd ps"
    unfolding server_run_def by auto
  moreover have "v_logged (server_do w (Start_Listening u) (new_server port v)) = []"
    by (cases w) (simp_all add: bc_start_listening_def rt_start_listening_def new_server_def)
  ultimately show ?thesis by (simp add: Let_def looping_def counts_def)
qed

theorem bind_fault_gives_up_witness:
  "let s = server_run RT_Side (Start_Listening 0 # map (\<lambda>(made, t). Pass t made Quiet) [(Inl OSError, 1), (Inl OSError, 31), (Inl OSError, 121)])
     (new_server 5001 0)
   in v_exhausted s \<and> v_done s \<and> \<not> listener_check_health s"
proof (rule bind_fault_gives_up)
  have "fsub 121 1 = 120" using fl_of_int [of 120] by (simp add: fsub_def)
  then show "\<exists>t\<in>snd ` set [(Inl OSError :: socket pyres, 31), (Inl OSError, 121)]. 120 \<le> fsub t 1" by simp
qed (simp_all add: binds_def)

theorem accept_fault_never_gives_up_witness:
  "let k = \<lparr>s_fileno = Returns 4, s_sockname = Returns (''127.0.0.1'', 5000)\<rparr>;
       s = server_run BC_Side (Start_Listening 0 # map (\<lambda>(made, t). Pass t made Socket_Error) [(Inr k, 1), (Inr k, 500)])
         (new_server 5000 0)
   in \<not> v_exhausted s \<and> \<not> v_done s \<and> v_logged s = [1, 500]"
  using accept_fault_never_gives_up [of "[(Inr \<lparr>s_fileno = Returns 4, s_sockname = Returns (''127.0.0.1'', 5000)\<rparr>, 1),
    (Inr \<lparr>s_fileno = Returns 4, s_sockname = Returns (''127.0.0.1'', 5000)\<rparr>, 500)]" BC_Side 0 5000 0]
  by (simp add: binds_def Let_def)

end
