(* ===== verification/Loop_Decorator.thy ===== *)
theory Loop_Decorator
  imports Loop_Prevention
begin

text \<open>
  The decorators that put the loop prevention in front of a function or method
  (\<^verbatim>\<open>Utils/message_loop_prevention/decorators.py\<close>). The function that is wrapped is an argument: its signature is
  the list of its parameter names, its body a function of the positional and keyword arguments and of the state it
  shares with the service. The asynchronous wrapper awaits the body at the place where the other one calls it.
\<close>

section \<open>Finding the message among the arguments\<close>

text \<open>An argument is the object whose method is called, or a value.\<close>

datatype arg = Receiver nat | Value pyval

type_synonym kwargs = "(string \<times> arg) list"

datatype slot = Keyword string | Positional nat

definition own_parameters :: "string list \<Rightarrow> string list" where
  "own_parameters sig = (case sig of [] \<Rightarrow> [] | p # ps \<Rightarrow> if p = ''self'' then ps else sig)"

fun named_slot :: "string \<Rightarrow> nat \<Rightarrow> string list \<Rightarrow> arg list \<Rightarrow> kwargs \<Rightarrow> slot option" where
  "named_slot name i [] args kwargs = None"
| "named_slot name i (param # params) args kwargs =
     (if param = name \<and> map_of kwargs name \<noteq> None then Some (Keyword name)
      else if param = name \<and> i < length args then Some (Positional i)
      else named_slot name (Suc i) params args kwargs)"

definition COMMON_NAMES :: "string list" where
  "COMMON_NAMES = [''msg'', ''data'', ''event'', ''payload'', ''request'', ''response'']"

definition first_slot :: "string list \<Rightarrow> arg list \<Rightarrow> kwargs \<Rightarrow> slot option" where
  "first_slot params args kwargs =
     (case params of
        [] \<Rightarrow> None
      | param # _ \<Rightarrow> if map_of kwargs param \<noteq> None then Some (Keyword param)
                    else if 0 < length args then Some (Positional 0) else None)"

definition message_slot :: "string list \<Rightarrow> arg list \<Rightarrow> kwargs \<Rightarrow> slot option" where
  "message_slot sig args kwargs =
     (let params = own_parameters sig in
      case List.map_filter (\<lambda>name. named_slot name 0 params args kwargs) (''message'' # COMMON_NAMES) of
        s # _ \<Rightarrow> Some s
      | [] \<Rightarrow> first_slot params args kwargs)"

definition find_message_parameter :: "string list \<Rightarrow> arg list \<Rightarrow> kwargs \<Rightarrow> arg" where
  "find_message_parameter sig args kwargs =
     (case message_slot sig args kwargs of
        None \<Rightarrow> Value PNone
      | Some (Keyword k) \<Rightarrow> (case map_of kwargs k of Some v \<Rightarrow> v | None \<Rightarrow> Value PNone)
      | Some (Positional i) \<Rightarrow> args ! i)"

definition replace_message_parameter :: "string list \<Rightarrow> arg list \<Rightarrow> kwargs \<Rightarrow> arg \<Rightarrow> arg list \<times> kwargs" where
  "replace_message_parameter sig args kwargs enhanced =
     (case message_slot sig args kwargs of
        None \<Rightarrow> (args, kwargs)
      | Some (Keyword k) \<Rightarrow> (args, dict_set k enhanced kwargs)
      | Some (Positional i) \<Rightarrow> (args[i := enhanced], kwargs))"

section \<open>The wrapper\<close>

text \<open>
  The wrapper returns \<^verbatim>\<open>None\<close> without a call when the message was already processed, otherwise what the
  function returns.
\<close>

definition wrapper ::
  "string \<Rightarrow> string list \<Rightarrow> (arg \<Rightarrow> string \<Rightarrow> 's \<Rightarrow> (bool \<times> arg) pyres \<times> 's) \<Rightarrow> (arg list \<Rightarrow> kwargs \<Rightarrow> 's \<Rightarrow> 'r pyres \<times> 's)
   \<Rightarrow> arg list \<Rightarrow> kwargs \<Rightarrow> 's \<Rightarrow> 'r option pyres \<times> 's" where
  "wrapper service_name sig process func args kwargs s =
     (let call = (\<lambda>args kwargs s. case func args kwargs s of (r, s) \<Rightarrow> (py_bind r (\<lambda>v. Inr (Some v)), s));
          message = find_message_parameter sig args kwargs
      in if message = Value PNone then call args kwargs s
         else
           case process message service_name s of
             (Inl e, s) \<Rightarrow> (Inl e, s)
           | (Inr (should_process, enhanced), s) \<Rightarrow>
               if \<not> should_process then (Inr None, s)
               else case replace_message_parameter sig args kwargs enhanced of (args, kwargs) \<Rightarrow> call args kwargs s)"

text \<open>
  The service behind the wrapper: dictionaries go through the modelled operation, its treatment of other objects is an
  argument.
\<close>

definition process_arg ::
  "(arg \<Rightarrow> string \<Rightarrow> loop_prevention \<Rightarrow> (bool \<times> arg) pyres \<times> loop_prevention) \<Rightarrow> rat \<Rightarrow> string \<Rightarrow> string
   \<Rightarrow> arg \<Rightarrow> string \<Rightarrow> loop_prevention \<Rightarrow> (bool \<times> arg) pyres \<times> loop_prevention" where
  "process_arg process_object t uuid message_id a service_name s =
     (case a of
        Value (PDict m) \<Rightarrow>
          (case process_message t uuid message_id m service_name s of
             (r, s) \<Rightarrow> (py_bind r (\<lambda>(b, e, _). Inr (b, Value (PDict e))), s))
      | _ \<Rightarrow> process_object a service_name s)"

section \<open>What a call binds\<close>

fun position :: "string \<Rightarrow> string list \<Rightarrow> nat option" where
  "position p [] = None"
| "position p (q # qs) = (if p = q then Some 0 else map_option Suc (position p qs))"

definition bound :: "string list \<Rightarrow> arg list \<Rightarrow> kwargs \<Rightarrow> string \<Rightarrow> arg option" where
  "bound sig args kwargs p =
     (case position p sig of
        Some i \<Rightarrow> if i < length args then Some (args ! i) else map_of kwargs p
      | None \<Rightarrow> None)"

text \<open>A call that Python accepts binds no parameter twice.\<close>

definition binds_once :: "string list \<Rightarrow> arg list \<Rightarrow> kwargs \<Rightarrow> bool" where
  "binds_once sig args kwargs \<longleftrightarrow>
     length args \<le> length sig \<and> (\<forall>p i. position p sig = Some i \<longrightarrow> i < length args \<longrightarrow> map_of kwargs p = None)"

lemma position_absent: "position p ps = None \<longleftrightarrow> p \<notin> set ps"
  by (induction ps) auto

lemma position_inj: "position p ps = Some i \<Longrightarrow> position q ps = Some i \<Longrightarrow> p = q"
  by (induction ps arbitrary: i) (auto split: if_splits)

lemma position_less: "position p ps = Some i \<Longrightarrow> i < length ps"
  by (induction ps arbitrary: i) (auto split: if_splits)

lemma named_absent: "name \<notin> set ps \<Longrightarrow> named_slot name i ps args kwargs = None"
  by (induction ps arbitrary: i) auto

lemma named_keyword: "name \<in> set ps \<Longrightarrow> map_of kwargs name = Some v \<Longrightarrow> named_slot name i ps args kwargs = Some (Keyword name)"
  by (induction ps arbitrary: i) auto

lemma named_positional:
  "position name ps = Some j \<Longrightarrow> map_of kwargs name = None \<Longrightarrow> i + j < length args
   \<Longrightarrow> named_slot name i ps args kwargs = Some (Positional (i + j))"
  by (induction ps arbitrary: i j) (auto split: if_splits)

lemma message_slot_named:
  "named_slot ''message'' 0 (own_parameters sig) args kwargs = Some s \<Longrightarrow> message_slot sig args kwargs = Some s"
  by (simp add: message_slot_def List.map_filter_simps)

text \<open>A function that is no method: the slot is that of the parameter \<^verbatim>\<open>message\<close>.\<close>

lemma message_slot_function:
  assumes "hd sig \<noteq> ''self''" "bound sig args kwargs ''message'' = Some v" "binds_once sig args kwargs"
  shows "message_slot sig args kwargs =
    (if map_of kwargs ''message'' \<noteq> None then Some (Keyword ''message'') else map_option Positional (position ''message'' sig))"
proof -
  have own: "own_parameters sig = sig" using assms(1) by (cases sig) (simp_all add: own_parameters_def)
  obtain i where i: "position ''message'' sig = Some i" using assms(2) by (auto simp: bound_def split: option.splits)
  then have mem: "''message'' \<in> set sig" using position_absent [of "''message''" sig] by auto
  show ?thesis
  proof (cases "map_of kwargs ''message''")
    case None
    then have "i < length args" using assms(2) i by (auto simp: bound_def split: if_splits)
    then have "named_slot ''message'' 0 (own_parameters sig) args kwargs = Some (Positional i)"
      using named_positional [OF i None, of 0 args] by (simp add: own)
    then show ?thesis using None i by (simp add: message_slot_named)
  next
    case (Some w)
    then have "named_slot ''message'' 0 (own_parameters sig) args kwargs = Some (Keyword ''message'')"
      using named_keyword [OF mem Some] by (simp add: own)
    then show ?thesis using Some by (simp add: message_slot_named)
  qed
qed

lemma found_in_function:
  assumes "hd sig \<noteq> ''self''" "bound sig args kwargs ''message'' = Some v" "binds_once sig args kwargs"
  shows "find_message_parameter sig args kwargs = v"
  using assms(2,3) message_slot_function [OF assms]
  by (auto simp: find_message_parameter_def bound_def binds_once_def split: option.splits if_splits)

lemma replaced_in_function:
  assumes "hd sig \<noteq> ''self''" "bound sig args kwargs ''message'' = Some v" "binds_once sig args kwargs"
    "replace_message_parameter sig args kwargs e = (args', kwargs')"
  shows "bound sig args' kwargs' p = (if p = ''message'' then Some e else bound sig args kwargs p)"
proof -
  obtain i where i: "position ''message'' sig = Some i" using assms(2) by (auto simp: bound_def split: option.splits)
  show ?thesis
  proof (cases "map_of kwargs ''message''")
    case None
    then have "i < length args" using assms(2) i by (auto simp: bound_def split: if_splits)
    moreover have "args' = args[i := e]" "kwargs' = kwargs"
      using assms(4) None i by (simp_all add: replace_message_parameter_def message_slot_function [OF assms(1-3)])
    moreover have "i \<noteq> j" if "position p sig = Some j" "p \<noteq> ''message''" for j using position_inj [OF i] that by blast
    ultimately show ?thesis using i by (auto simp: bound_def nth_list_update split: option.splits)
  next
    case (Some w)
    then have "\<not> i < length args" using assms(3) i by (auto simp: binds_once_def)
    moreover have "args' = args" "kwargs' = dict_set ''message'' e kwargs"
      using assms(4) Some by (simp_all add: replace_message_parameter_def message_slot_function [OF assms(1-3)])
    ultimately show ?thesis using i by (auto simp: bound_def map_of_dict_set split: option.splits)
  qed
qed

section \<open>Properties\<close>

text \<open>
  A decorated function that is no method is guarded on its message: the loop prevention is asked about the value
  of the parameter \<^verbatim>\<open>message\<close>, positional or by keyword, and the function is called with that parameter
  replaced by the enhanced message and all others as they were, or not at all when the message is refused.
\<close>

theorem decorated_function_guarded:
  assumes "hd sig \<noteq> ''self''" "bound sig args kwargs ''message'' = Some v" "v \<noteq> Value PNone" "binds_once sig args kwargs"
  shows "case process v service_name s of
      (Inl e, s1) \<Rightarrow> wrapper service_name sig process func args kwargs s = (Inl e, s1)
    | (Inr (False, e), s1) \<Rightarrow> wrapper service_name sig process func args kwargs s = (Inr None, s1)
    | (Inr (True, e), s1) \<Rightarrow>
        \<exists>args' kwargs'. (\<forall>p. bound sig args' kwargs' p = (if p = ''message'' then Some e else bound sig args kwargs p)) \<and>
          wrapper service_name sig process func args kwargs s =
            (case func args' kwargs' s1 of (r, s2) \<Rightarrow> (py_bind r (\<lambda>x. Inr (Some x)), s2))"
proof -
  obtain r s1 where p: "process v service_name s = (r, s1)" by (cases "process v service_name s")
  show ?thesis
  proof (cases r)
    case (Inl e)
    then show ?thesis using p assms(3) by (simp add: wrapper_def found_in_function [OF assms(1,2,4)])
  next
    case (Inr be)
    obtain b e where be: "be = (b, e)" by (cases be)
    obtain a k where ak: "replace_message_parameter sig args kwargs e = (a, k)" by force
    show ?thesis
    proof (cases b)
      case True
      have "\<forall>q. bound sig a k q = (if q = ''message'' then Some e else bound sig args kwargs q)"
        using replaced_in_function [OF assms(1,2,4) ak] by blast
      moreover have "wrapper service_name sig process func args kwargs s =
          (case func a k s1 of (r, s2) \<Rightarrow> (py_bind r (\<lambda>x. Inr (Some x)), s2))"
        using p Inr be True ak assms(3) by (simp add: wrapper_def found_in_function [OF assms(1,2,4)])
      ultimately have "\<exists>args' kwargs'. (\<forall>p. bound sig args' kwargs' p = (if p = ''message'' then Some e else bound sig args kwargs p)) \<and>
          wrapper service_name sig process func args kwargs s =
            (case func args' kwargs' s1 of (r, s2) \<Rightarrow> (py_bind r (\<lambda>x. Inr (Some x)), s2))" by blast
      then show ?thesis using p Inr be True by simp
    next
      case False
      then show ?thesis using p Inr be assms(3) by (simp add: wrapper_def found_in_function [OF assms(1,2,4)])
    qed
  qed
qed

text \<open>
  A decorated method that is called with a positional message is not guarded on it: the receiver is dropped from
  the parameters but not from the arguments, so the loop prevention is asked about the receiver, whatever the message
  is, and the method runs on the enhanced receiver with the message as it came.
\<close>

theorem receiver_taken_for_message:
  "find_message_parameter (''self'' # ''message'' # ps) (Receiver r # m # args) [] = Receiver r \<and>
   wrapper service_name (''self'' # ''message'' # ps) process func (Receiver r # m # args) [] s =
     (case process (Receiver r) service_name s of
        (Inl e, s1) \<Rightarrow> (Inl e, s1)
      | (Inr (b, e), s1) \<Rightarrow>
          if b then (case func (e # m # args) [] s1 of (x, s2) \<Rightarrow> (py_bind x (\<lambda>y. Inr (Some y)), s2)) else (Inr None, s1))"
proof -
  have slot: "message_slot (''self'' # ''message'' # ps) (Receiver r # m # args) [] = Some (Positional 0)"
    by (rule message_slot_named) (simp add: own_parameters_def)
  then show ?thesis
    by (simp add: wrapper_def find_message_parameter_def replace_message_parameter_def split: prod.split sum.split)
qed

section \<open>Witnesses\<close>

theorem decorated_function_guarded_witness:
  "wrapper ''display'' [''bus'', ''message''] (\<lambda>v n s. (Inr (s = 0, v), s + 1)) (\<lambda>a k s. (Inr (length a), s))
     [Value (PInt 1)] [(''message'', Value (PStr ''m''))] (1::nat) = (Inr None, 2)"
proof -
  have b: "binds_once [''bus'', ''message''] [Value (PInt 1)] [(''message'', Value (PStr ''m''))]"
    by (simp add: binds_once_def)
  show ?thesis
    using decorated_function_guarded [where sig = "[''bus'', ''message'']" and args = "[Value (PInt 1)]" and
        kwargs = "[(''message'', Value (PStr ''m''))]" and v = "Value (PStr ''m'')" and service_name = "''display''" and
        process = "\<lambda>v n s. (Inr (s = 0, v), s + 1)" and s = "1::nat" and func = "\<lambda>a k s. (Inr (length a), s)"] b
    by (simp add: bound_def)
qed

end
