(* ===== verification/Mode_Code.thy ===== *)
theory Mode_Code
  imports Word_Codec
begin

text \<open>
  Mode commands on the remote terminal (\<^verbatim>\<open>Handle_mode_code.py\<close>, class \<open>Mode_code\<close>). The command
  word is the text form the terminal keeps: two characters of address, the letter T or R, two characters of
  subaddress and, at the end, two hexadecimal digits of mode code. A handler whose T/R requirement is not met
  logs a warning and goes on; the warnings are counted.
\<close>

record mode_state =
  ms_command_word :: string
  one_data_word_required :: bool
  broadcast_command_allowed :: bool
  warnings :: nat

definition mode_init :: mode_state where
  "mode_init = \<lparr>ms_command_word = [], one_data_word_required = False, broadcast_command_allowed = False, warnings = 0\<rparr>"

definition Mode_code_check :: "string \<Rightarrow> bool" where
  "Mode_code_check sub_address = (if sub_address = ''00'' \<or> sub_address = ''1f'' then True else False)"

definition warn :: "mode_state \<Rightarrow> mode_state" where
  "warn s = s\<lparr>warnings := warnings s + 1\<rparr>"

text \<open>\<^verbatim>\<open>if self.command_word[2] != c: logger.warning(...)\<close>\<close>

definition needs_tr :: "char \<Rightarrow> mode_state \<Rightarrow> mode_state" where
  "needs_tr c s = (if ms_command_word s ! 2 \<noteq> c then warn s else s)"

definition data_word :: "bool \<Rightarrow> mode_state \<Rightarrow> mode_state" where
  "data_word b s = s\<lparr>one_data_word_required := b\<rparr>"

definition broadcast :: "bool \<Rightarrow> mode_state \<Rightarrow> mode_state" where
  "broadcast b s = s\<lparr>broadcast_command_allowed := b\<rparr>"

text \<open>The handlers \<open>mode_code_0x00\<close> to \<open>mode_code_0x0f\<close>.\<close>

definition mode_code_low :: "nat \<Rightarrow> mode_state \<Rightarrow> mode_state" where
  "mode_code_low n s =
     (let s = needs_tr (CHR ''T'') s
      in if n = 0 then broadcast False (data_word False s)
         else if n = 1 then broadcast True (data_word False s)
         else if n = 2 then broadcast False (data_word False s)
         else if n \<in> {3, 4, 5, 6, 7, 8} then broadcast True (data_word False s)
         else data_word False s)"

text \<open>The handlers \<open>mode_code_0x10\<close> to \<open>mode_code_0x1f\<close>.\<close>

definition mode_code_high :: "nat \<Rightarrow> mode_state \<Rightarrow> mode_state" where
  "mode_code_high n s =
     (if n = 16 then broadcast False (data_word True (needs_tr (CHR ''T'') s))
      else if n = 17 then broadcast True (data_word True (needs_tr (CHR ''R'') s))
      else if n = 18 then broadcast False (data_word True (needs_tr (CHR ''T'') s))
      else if n = 19 then broadcast False (data_word True (needs_tr (CHR ''T'') s))
      else if n = 20 then broadcast True (data_word True (needs_tr (CHR ''R'') s))
      else if n = 21 then broadcast True (data_word True (needs_tr (CHR ''R'') s))
      else data_word True s)"

text \<open>\<^verbatim>\<open>getattr(self, 'mode_code_0x..')\<close>: the two lower-case digits that name a method.\<close>

definition mode_code_of_name :: "string \<Rightarrow> nat option" where
  "mode_code_of_name s =
     (case s of
        [c, d] \<Rightarrow>
          (case (hex_val c, hex_val d) of
             (Some a, Some b) \<Rightarrow> if 16 * a + b < 32 then Some (16 * a + b) else None
           | _ \<Rightarrow> None)
      | _ \<Rightarrow> None)"

text \<open>
  The result is the text \<^verbatim>\<open>Invalid Mode Code\<close> of the fallback, or nothing. The last two characters of
  a text are \<^verbatim>\<open>command_wd[-2:]\<close>.
\<close>

definition last2 :: "string \<Rightarrow> string" where
  "last2 s = drop (length s - 2) s"

definition Mode_code_process :: "string \<Rightarrow> mode_state \<Rightarrow> string option \<times> mode_state" where
  "Mode_code_process command_wd s =
     (let s = s\<lparr>ms_command_word := command_wd\<rparr>
      in if \<not> Mode_code_check (lower (slice 3 5 command_wd)) then (None, warn s)
         else case mode_code_of_name (lower (last2 command_wd)) of
                None \<Rightarrow> (Some ''Invalid Mode Code'', s)
              | Some n \<Rightarrow> (None, if n < 16 then mode_code_low n s else mode_code_high n s))"

lemmas mode_code_simps = Mode_code_process_def Mode_code_check_def mode_code_low_def mode_code_high_def
  needs_tr_def warn_def data_word_def broadcast_def Let_def

lemma lower_char_hex: "hex_val (lower_char c) = hex_val c"
proof -
  have "digit_val (lower_char c) = digit_val c"
    by (auto simp: digit_val_def lower_char_def Let_def of_char_of)
  then show ?thesis by (simp add: hex_val_def)
qed

lemma mode_code_of_name_lower: "mode_code_of_name (lower s) = mode_code_of_name s"
  by (auto simp: mode_code_of_name_def lower_def lower_char_hex cong: option.case_cong split: list.split)

section \<open>Properties\<close>

text \<open>
  Every mode code the standard assigns sets both flags to the standard's table, whatever they were: a data
  word is required for the codes from 16 on, broadcast is allowed for the codes 1, 3 to 8, 17, 20 and 21. The
  digits may be upper or lower case. A wrong T/R letter adds a warning and changes nothing else.
\<close>

theorem assigned_mode_codes:
  assumes "lower (slice 3 5 w) \<in> {''00'', ''1f''}" "mode_code_of_name (last2 w) = Some n"
    "n \<le> 8 \<or> (16 \<le> n \<and> n \<le> 21)"
  defines "tr \<equiv> (if n \<in> {17, 20, 21} then CHR ''R'' else CHR ''T'')"
  shows "Mode_code_process w s = (None,
     \<lparr>ms_command_word = w, one_data_word_required = (16 \<le> n),
      broadcast_command_allowed = (n \<in> {1, 3, 4, 5, 6, 7, 8, 17, 20, 21}),
      warnings = warnings s + (if w ! 2 = tr then 0 else 1)\<rparr>)"
proof -
  have "n \<in> {0, 1, 2, 3, 4, 5, 6, 7, 8, 16, 17, 18, 19, 20, 21}" using assms(3) by auto
  then show ?thesis
    using assms(1,2)
    by (cases s) (auto simp: mode_code_simps mode_code_of_name_lower tr_def)
qed

theorem assigned_mode_codes_witness:
  "Mode_code_process ''05R0011'' mode_init = (None,
     \<lparr>ms_command_word = ''05R0011'', one_data_word_required = True, broadcast_command_allowed = True, warnings = 0\<rparr>)"
proof -
  have m: "mode_code_of_name (last2 ''05R0011'') = Some 17"
    by (simp add: last2_def mode_code_of_name_def hex_val_def digit_val_def)
  have l: "lower (slice 3 5 ''05R0011'') \<in> {''00'', ''1f''}"
    by (simp add: slice_def lower_def lower_char_def)
  show ?thesis using assigned_mode_codes [OF l m, of mode_init] by (simp add: mode_init_def)
qed

text \<open>
  The handlers of the reserved mode codes leave the broadcast flag as the previous command set it, so after
  a reserved code the flag answers for another command.
\<close>

theorem reserved_code_keeps_broadcast:
  assumes "lower (slice 3 5 w) \<in> {''00'', ''1f''}" "mode_code_of_name (last2 w) = Some n"
    "(9 \<le> n \<and> n \<le> 15) \<or> 22 \<le> n"
  shows "broadcast_command_allowed (snd (Mode_code_process w s)) = broadcast_command_allowed s \<and>
    one_data_word_required (snd (Mode_code_process w s)) = (22 \<le> n)"
proof (rule conjI)
  have "n < 32" using assms(2) by (auto simp: mode_code_of_name_def split: list.splits option.splits if_splits)
  then show "broadcast_command_allowed (snd (Mode_code_process w s)) = broadcast_command_allowed s"
    "one_data_word_required (snd (Mode_code_process w s)) = (22 \<le> n)"
    using assms by (auto simp: mode_code_simps mode_code_of_name_lower)
qed

theorem reserved_code_keeps_broadcast_witness:
  "broadcast_command_allowed (snd (Mode_code_process ''05T0009'' (mode_init\<lparr>broadcast_command_allowed := True\<rparr>)))"
proof -
  have m: "mode_code_of_name (last2 ''05T0009'') = Some 9"
    by (simp add: last2_def mode_code_of_name_def hex_val_def digit_val_def)
  have l: "lower (slice 3 5 ''05T0009'') \<in> {''00'', ''1f''}"
    by (simp add: slice_def lower_def lower_char_def)
  show ?thesis
    using reserved_code_keeps_broadcast(1) [OF l m, of "mode_init\<lparr>broadcast_command_allowed := True\<rparr>"] by simp
qed

end
