(* ===== verification/Operation_Tracker.thy ===== *)
theory Operation_Tracker
  imports Py_Prelude
begin

text \<open>
  Operations that run once per process (\<^verbatim>\<open>Utils/common/operation_tracker.py\<close>). The module's two
  registries are guarded by a lock that is released while a callback runs, so a call of \<open>track_operation\<close> is
  modelled as an activation that moves through its critical sections one at a time, interleaved with the other
  activations: claiming, waiting on the event of the running one, running the callback, recording, releasing,
  signalling. The counters of runs and clearances are not in the code; they state what happened.
\<close>

section \<open>State\<close>

datatype pc = Idle | Waiting string nat | Running string | Releasing string | Setting nat

record tracker =
  completed :: "string \<rightharpoonup> string"
  in_progress :: "string \<rightharpoonup> nat"
  event_set :: "nat \<Rightarrow> bool"
  next_event :: nat
  acts :: "nat \<Rightarrow> pc"
  runs :: "string \<Rightarrow> nat"
  clears :: "string \<Rightarrow> nat"

definition tracker_init :: tracker where
  "tracker_init = \<lparr>completed = (\<lambda>_. None), in_progress = (\<lambda>_. None), event_set = (\<lambda>_. False), next_event = 0,
     acts = (\<lambda>_. Idle), runs = (\<lambda>_. 0), clears = (\<lambda>_. 0)\<rparr>"

definition op_key :: "string \<Rightarrow> string \<Rightarrow> string" where
  "op_key operation_name identifier = operation_name @ ''::'' @ identifier"

section \<open>The critical sections of \<open>track_operation\<close>\<close>

text \<open>The body of the loop: already done, claimed by this activation, or another one to wait for.\<close>

definition enter :: "nat \<Rightarrow> string \<Rightarrow> tracker \<Rightarrow> tracker" where
  "enter a k s =
     (case completed s k of
        Some _ \<Rightarrow> s\<lparr>acts := (acts s)(a := Idle)\<rparr>
      | None \<Rightarrow>
          (case in_progress s k of
             None \<Rightarrow> s\<lparr>in_progress := (in_progress s)(k \<mapsto> next_event s), next_event := Suc (next_event s),
                       acts := (acts s)(a := Running k)\<rparr>
           | Some in_flight \<Rightarrow> s\<lparr>acts := (acts s)(a := Waiting k in_flight)\<rparr>))"

text \<open>The callback returned: the completion is recorded. It raised: nothing is.\<close>

definition record_done :: "nat \<Rightarrow> string \<Rightarrow> string \<Rightarrow> tracker \<Rightarrow> tracker" where
  "record_done a k now s =
     s\<lparr>completed := (completed s)(k \<mapsto> now), acts := (acts s)(a := Releasing k), runs := (runs s)(k := Suc (runs s k))\<rparr>"

definition callback_raised :: "nat \<Rightarrow> string \<Rightarrow> tracker \<Rightarrow> tracker" where
  "callback_raised a k s = s\<lparr>acts := (acts s)(a := Releasing k)\<rparr>"

text \<open>The \<^verbatim>\<open>finally\<close> block: the claim is dropped under the lock, the waiters are signalled after it.\<close>

definition release :: "nat \<Rightarrow> string \<Rightarrow> tracker \<Rightarrow> tracker" where
  "release a k s =
     (case in_progress s k of
        None \<Rightarrow> s\<lparr>acts := (acts s)(a := Idle)\<rparr>
      | Some ev \<Rightarrow> s\<lparr>in_progress := (in_progress s)(k := None), acts := (acts s)(a := Setting ev)\<rparr>)"

definition signal :: "nat \<Rightarrow> nat \<Rightarrow> tracker \<Rightarrow> tracker" where
  "signal a ev s = s\<lparr>event_set := (event_set s)(ev := True), acts := (acts s)(a := Idle)\<rparr>"

section \<open>The other operations\<close>

definition is_operation_completed :: "string \<Rightarrow> string \<Rightarrow> tracker \<Rightarrow> bool" where
  "is_operation_completed operation_name identifier s = (completed s (op_key operation_name identifier) \<noteq> None)"

definition mark_operation_completed :: "string \<Rightarrow> string \<Rightarrow> string \<Rightarrow> tracker \<Rightarrow> bool \<times> tracker" where
  "mark_operation_completed operation_name identifier now s =
     (let k = op_key operation_name identifier
      in case completed s k of
           Some _ \<Rightarrow> (False, s)
         | None \<Rightarrow> (True, s\<lparr>completed := (completed s)(k \<mapsto> now)\<rparr>))"

text \<open>One operation, all identifiers of an operation, or everything; an empty text counts as missing.\<close>

definition doomed :: "string option \<Rightarrow> string option \<Rightarrow> string \<Rightarrow> bool" where
  "doomed operation_name identifier k =
     (case operation_name of
        None \<Rightarrow> True
      | Some n \<Rightarrow>
          if n = [] then True
          else (case identifier of
                  None \<Rightarrow> prefix (n @ ''::'') k
                | Some i \<Rightarrow> if i = [] then prefix (n @ ''::'') k else k = op_key n i))"

definition clear_operation_tracking :: "string option \<Rightarrow> string option \<Rightarrow> tracker \<Rightarrow> tracker" where
  "clear_operation_tracking operation_name identifier s =
     (let d = doomed operation_name identifier
      in s\<lparr>completed := (\<lambda>k. if d k then None else completed s k),
           clears := (\<lambda>k. if d k then Suc (clears s k) else clears s k)\<rparr>)"

section \<open>Interleaving\<close>

inductive tstep :: "tracker \<Rightarrow> tracker \<Rightarrow> bool" where
  call: "acts s a = Idle \<Longrightarrow> tstep s (enter a (op_key n i) s)"
| wake: "acts s a = Waiting k ev \<Longrightarrow> event_set s ev \<Longrightarrow> tstep s (enter a k s)"
| return: "acts s a = Running k \<Longrightarrow> tstep s (record_done a k now s)"
| raise: "acts s a = Running k \<Longrightarrow> tstep s (callback_raised a k s)"
| release: "acts s a = Releasing k \<Longrightarrow> tstep s (release a k s)"
| signal: "acts s a = Setting ev \<Longrightarrow> tstep s (signal a ev s)"
| mark: "tstep s (snd (mark_operation_completed n i now s))"
| clear: "tstep s (clear_operation_tracking n' i' s)"

inductive treach :: "tracker \<Rightarrow> bool" where
  init: "treach tracker_init"
| step: "treach s \<Longrightarrow> tstep s s' \<Longrightarrow> treach s'"

section \<open>The invariant\<close>

text \<open>An activation owns a key from its claim to the release of it.\<close>

definition owns :: "tracker \<Rightarrow> nat \<Rightarrow> string \<Rightarrow> bool" where
  "owns s a k = (acts s a = Running k \<or> acts s a = Releasing k)"

definition claims_ok :: "tracker \<Rightarrow> bool" where
  "claims_ok s \<longleftrightarrow>
     (\<forall>a k. owns s a k \<longrightarrow> in_progress s k \<noteq> None) \<and>
     (\<forall>a b k. owns s a k \<longrightarrow> owns s b k \<longrightarrow> a = b) \<and>
     (\<forall>k. in_progress s k \<noteq> None \<longrightarrow> (\<exists>a. owns s a k))"

definition waits_ok :: "tracker \<Rightarrow> bool" where
  "waits_ok s \<longleftrightarrow>
     (\<forall>a k ev. acts s a = Waiting k ev \<longrightarrow>
        event_set s ev \<or> in_progress s k = Some ev \<or> (\<exists>b. acts s b = Setting ev))"

definition counts_ok :: "tracker \<Rightarrow> bool" where
  "counts_ok s \<longleftrightarrow>
     (\<forall>k. runs s k \<le> Suc (clears s k) \<and>
          ((\<exists>a. acts s a = Running k) \<longrightarrow> runs s k \<le> clears s k) \<and>
          (completed s k = None \<longrightarrow> runs s k \<le> clears s k))"

lemmas tracker_defs = enter_def record_done_def callback_raised_def release_def signal_def
  mark_operation_completed_def clear_operation_tracking_def Let_def

lemma enter_cases:
  obtains "completed s k \<noteq> None" "enter a k s = s\<lparr>acts := (acts s)(a := Idle)\<rparr>"
  | e where "completed s k = None" "in_progress s k = Some e" "enter a k s = s\<lparr>acts := (acts s)(a := Waiting k e)\<rparr>"
  | "completed s k = None" "in_progress s k = None"
    "enter a k s = s\<lparr>in_progress := (in_progress s)(k \<mapsto> next_event s), next_event := Suc (next_event s),
       acts := (acts s)(a := Running k)\<rparr>"
  by (cases "completed s k"; cases "in_progress s k") (simp_all add: enter_def)

lemma claims_okI:
  "(\<And>a k. owns s a k \<Longrightarrow> in_progress s k \<noteq> None) \<Longrightarrow> (\<And>a b k. owns s a k \<Longrightarrow> owns s b k \<Longrightarrow> a = b) \<Longrightarrow>
   (\<And>k. in_progress s k \<noteq> None \<Longrightarrow> \<exists>a. owns s a k) \<Longrightarrow> claims_ok s"
  by (simp add: claims_ok_def)

lemma claims_okD:
  assumes "claims_ok s"
  shows "owns s a k \<Longrightarrow> in_progress s k \<noteq> None" "owns s a k \<Longrightarrow> owns s b k \<Longrightarrow> a = b"
    "in_progress s k \<noteq> None \<Longrightarrow> \<exists>a. owns s a k"
proof -
  note c = assms [unfolded claims_ok_def]
  show "owns s a k \<Longrightarrow> in_progress s k \<noteq> None" using c by (elim conjE) simp
  show "owns s a k \<Longrightarrow> owns s b k \<Longrightarrow> a = b" using c by (elim conjE) simp
  show "in_progress s k \<noteq> None \<Longrightarrow> \<exists>a. owns s a k" using c by (elim conjE) simp
qed

text \<open>A step that changes one activation, and not what it owns, keeps the claims.\<close>

lemma claims_keep:
  assumes "claims_ok s" "in_progress s' = in_progress s" "acts s' = (acts s)(a := p)"
    "\<And>k. p = Running k \<or> p = Releasing k \<longleftrightarrow> owns s a k"
  shows "claims_ok s'"
proof -
  have "owns s' b k = owns s b k" for b k
    using assms(4) [of k] by (cases "b = a") (simp_all add: owns_def assms(3))
  then show ?thesis using assms(1) unfolding claims_ok_def assms(2) by simp
qed

lemma claims_enter:
  assumes "claims_ok s" "acts s a = Idle \<or> (\<exists>k ev. acts s a = Waiting k ev)"
  shows "claims_ok (enter a k s)"
proof -
  have none: "\<not> owns s a j" for j using assms(2) by (auto simp: owns_def)
  show ?thesis
  proof (cases "completed s k = None \<and> in_progress s k = None")
    case True
    have "acts (enter a k s) = (acts s)(a := Running k)" using True by (simp add: enter_def)
    then have o: "owns (enter a k s) b j \<longleftrightarrow> (if b = a then k = j else owns s b j)" for b j
      by (simp add: owns_def)
    have p: "in_progress (enter a k s) j \<noteq> None \<longleftrightarrow> in_progress s j \<noteq> None \<or> k = j" for j
      using True by (simp add: enter_def)
    note d = claims_okD [OF assms(1)]
    have free: "\<not> owns s b k" for b using d(1) True by blast
    show ?thesis
    proof (rule claims_okI)
      show "in_progress (enter a k s) j \<noteq> None" if "owns (enter a k s) b j" for b j
        using that d(1) [of b j] unfolding o p by (auto split: if_splits)
      show "b = c" if "owns (enter a k s) b j" "owns (enter a k s) c j" for b c j
        using that d(2) [of b j c] free none unfolding o by (auto split: if_splits)
      show "\<exists>b. owns (enter a k s) b j" if pj: "in_progress (enter a k s) j \<noteq> None" for j
      proof (cases "k = j")
        case True
        then show ?thesis unfolding o by (intro exI [of _ a]) simp
      next
        case False
        with pj have "in_progress s j \<noteq> None" unfolding p by simp
        from d(3) [OF this] obtain b where "owns s b j" ..
        then show ?thesis using none [of j] unfolding o by (intro exI [of _ b]) auto
      qed
    qed
  next
    case False
    then show ?thesis
      using none
      by (intro claims_keep [OF assms(1), where a = a and p = "acts (enter a k s) a"])
         (auto simp: enter_def split: option.split)
  qed
qed

lemma claims_release:
  assumes "claims_ok s" "acts s a = Releasing k"
  shows "claims_ok (release a k s)"
proof -
  have own: "owns s a j \<longleftrightarrow> j = k" for j using assms(2) by (auto simp: owns_def)
  note d = claims_okD [OF assms(1)]
  obtain ev where ev: "in_progress s k = Some ev" using d(1) [of a k] own by auto
  have o: "owns (release a k s) b j \<longleftrightarrow> owns s b j \<and> b \<noteq> a" for b j
    by (cases "b = a") (simp_all add: release_def ev owns_def)
  have p: "in_progress (release a k s) j \<noteq> None \<longleftrightarrow> in_progress s j \<noteq> None \<and> j \<noteq> k" for j
    by (simp add: release_def ev)
  have only: "owns s b k \<Longrightarrow> b = a" for b using d(2) [of b k a] own by simp
  show ?thesis
  proof (rule claims_okI)
    show "in_progress (release a k s) j \<noteq> None" if "owns (release a k s) b j" for b j
      using that d(1) [of b j] only [of b] unfolding o p by auto
    show "b = c" if "owns (release a k s) b j" "owns (release a k s) c j" for b c j
      using that d(2) [of b j c] unfolding o by simp
    show "\<exists>b. owns (release a k s) b j" if pj: "in_progress (release a k s) j \<noteq> None" for j
    proof -
      have pj': "in_progress s j \<noteq> None" "j \<noteq> k" using pj unfolding p by simp_all
      from d(3) [OF pj'(1)] obtain b where "owns s b j" ..
      then show ?thesis using pj'(2) own [of j] unfolding o by (intro exI [of _ b]) auto
    qed
  qed
qed

lemma claims_step: "tstep s s' \<Longrightarrow> claims_ok s \<Longrightarrow> claims_ok s'"
proof (induction rule: tstep.induct)
  case (call s a n i)
  then show ?case by (intro claims_enter) simp_all
next
  case (wake s a k ev)
  then show ?case by (intro claims_enter) simp_all
next
  case (release s a k)
  then show ?case by (intro claims_release)
next
  case (return s a k now)
  then show ?case by (elim claims_keep [where a = a and p = "Releasing k"]) (auto simp: record_done_def owns_def)
next
  case (raise s a k)
  then show ?case by (elim claims_keep [where a = a and p = "Releasing k"]) (auto simp: callback_raised_def owns_def)
next
  case (signal s a ev)
  then show ?case by (elim claims_keep [where a = a and p = Idle]) (auto simp: signal_def owns_def)
next
  case (mark s n i now)
  then show ?case
    by (elim claims_keep [where a = 0 and p = "acts s 0"])
       (auto simp: mark_operation_completed_def owns_def Let_def split: option.split)
next
  case (clear s n' i')
  then show ?case
    by (elim claims_keep [where a = 0 and p = "acts s 0"])
       (auto simp: clear_operation_tracking_def owns_def Let_def)
qed

lemma waits_keep:
  assumes "waits_ok s" "\<And>k. in_progress s k \<noteq> None \<Longrightarrow> in_progress s' k = in_progress s k"
    "\<And>ev. event_set s ev \<Longrightarrow> event_set s' ev" "acts s' = (acts s)(a := p)"
    "\<And>ev. acts s a = Setting ev \<Longrightarrow> event_set s' ev \<or> p = Setting ev"
    "\<And>k ev. p = Waiting k ev \<Longrightarrow> in_progress s' k = Some ev \<or> acts s a = p"
  shows "waits_ok s'"
  unfolding waits_ok_def
proof (intro allI impI)
  fix b k ev assume b: "acts s' b = Waiting k ev"
  show "event_set s' ev \<or> in_progress s' k = Some ev \<or> (\<exists>c. acts s' c = Setting ev)"
  proof (cases "acts s b = Waiting k ev")
    case True
    then consider "event_set s ev" | "in_progress s k = Some ev" | c where "acts s c = Setting ev"
      using assms(1) unfolding waits_ok_def by blast
    then show ?thesis
    proof cases
      case 1 then show ?thesis using assms(3) by blast
    next
      case 2 then show ?thesis using assms(2) [of k] by simp
    next
      case 3
      then show ?thesis using assms(4,5) by (cases "c = a") auto
    qed
  next
    case False
    then have "b = a" "p = Waiting k ev" using b assms(4) by (auto split: if_splits)
    then show ?thesis using assms(6) [of k ev] False by auto
  qed
qed

lemma waits_release:
  assumes "waits_ok s" "acts s a = Releasing k"
  shows "waits_ok (release a k s)"
proof (cases "in_progress s k")
  case None
  then show ?thesis using assms(2)
    by (intro waits_keep [OF assms(1), where a = a and p = Idle]) (auto simp: release_def)
next
  case (Some e)
  show ?thesis
    unfolding waits_ok_def
  proof (intro allI impI)
    fix b j ev assume "acts (release a k s) b = Waiting j ev"
    then have b: "acts s b = Waiting j ev" using Some by (auto simp: release_def split: if_splits)
    then consider "event_set s ev" | "in_progress s j = Some ev" | c where "acts s c = Setting ev"
      using assms(1) unfolding waits_ok_def by blast
    then show "event_set (release a k s) ev \<or> in_progress (release a k s) j = Some ev
        \<or> (\<exists>c. acts (release a k s) c = Setting ev)"
    proof cases
      case 3
      with assms(2) have "c \<noteq> a" by auto
      then show ?thesis using 3 Some by (auto simp: release_def)
    qed (use Some in \<open>auto simp: release_def\<close>)
  qed
qed

lemma waits_enter:
  assumes "waits_ok s" "acts s a = Idle \<or> (\<exists>k ev. acts s a = Waiting k ev)"
  shows "waits_ok (enter a k s)"
proof (cases rule: enter_cases [of s k a])
  case 1
  then show ?thesis using assms by (intro waits_keep [OF assms(1), of _ a Idle]) auto
next
  case (2 e)
  then show ?thesis using assms by (intro waits_keep [OF assms(1), of _ a "Waiting k e"]) auto
next
  case 3
  then show ?thesis using assms by (intro waits_keep [OF assms(1), of _ a "Running k"]) auto
qed

lemma waits_step: "tstep s s' \<Longrightarrow> waits_ok s \<Longrightarrow> waits_ok s'"
proof (induction rule: tstep.induct)
  case (call s a n i)
  then show ?case by (intro waits_enter) simp_all
next
  case (wake s a k ev)
  then show ?case by (intro waits_enter) simp_all
next
  case (release s a k)
  then show ?case by (intro waits_release)
next
  case (return s a k now)
  then show ?case by (elim waits_keep [of s _ a "Releasing k"]) (auto simp: record_done_def)
next
  case (raise s a k)
  then show ?case by (elim waits_keep [of s _ a "Releasing k"]) (auto simp: callback_raised_def)
next
  case (signal s a ev)
  then show ?case by (elim waits_keep [of s _ a Idle]) (auto simp: signal_def)
next
  case (mark s n i now)
  then show ?case
    by (elim waits_keep [of s _ 0 "acts s 0"]) (auto simp: mark_operation_completed_def Let_def split: option.splits)
next
  case (clear s n' i')
  then show ?case by (elim waits_keep [of s _ 0 "acts s 0"]) (auto simp: clear_operation_tracking_def Let_def)
qed

text \<open>The counts: the claim is what keeps a second run out.\<close>

definition running :: "tracker \<Rightarrow> string \<Rightarrow> bool" where
  "running s k = (\<exists>a. acts s a = Running k)"

lemma counts_alt: "counts_ok s \<longleftrightarrow> (\<forall>k. runs s k \<le> Suc (clears s k) \<and>
    (running s k \<or> completed s k = None \<longrightarrow> runs s k \<le> clears s k))"
  by (auto simp: counts_ok_def running_def)

lemma counts_keep:
  assumes "counts_ok s" "runs s' = runs s" "\<And>k. clears s k \<le> clears s' k"
    "\<And>k. running s' k \<Longrightarrow> running s k \<or> completed s k = None"
    "\<And>k. completed s' k = None \<Longrightarrow> completed s k = None \<or> clears s' k = Suc (clears s k)"
  shows "counts_ok s'"
  unfolding counts_alt assms(2)
proof (intro allI conjI impI)
  fix k
  have s: "runs s k \<le> Suc (clears s k)" "running s k \<or> completed s k = None \<Longrightarrow> runs s k \<le> clears s k"
    using assms(1) by (auto simp: counts_alt)
  show "runs s k \<le> Suc (clears s' k)" using s(1) assms(3) [of k] by linarith
  assume "running s' k \<or> completed s' k = None"
  then have "(running s k \<or> completed s k = None) \<or> clears s' k = Suc (clears s k)"
    using assms(4) [of k] assms(5) [of k] by (elim disjE) simp_all
  then show "runs s k \<le> clears s' k"
  proof (elim disjE)
    assume "clears s' k = Suc (clears s k)"
    then show ?thesis using s(1) by simp
  qed (use s(2) assms(3) [of k] in auto)
qed

lemma counts_return:
  assumes "counts_ok s" "claims_ok s" "acts s a = Running k"
  shows "counts_ok (record_done a k now s)"
  unfolding counts_alt
proof (intro allI)
  fix j
  have r: "runs s k \<le> clears s k" using assms(1,3) by (auto simp: counts_ok_def)
  have one: "acts s b = Running k \<Longrightarrow> b = a" for b
    using assms(2,3) unfolding claims_ok_def owns_def by blast
  have run: "running (record_done a k now s) j \<longleftrightarrow> running s j \<and> j \<noteq> k"
  proof (cases "j = k")
    case True
    then show ?thesis using one by (auto simp: running_def record_done_def)
  next
    case False
    have "acts s c = Running j \<Longrightarrow> c \<noteq> a" for c using False assms(3) by auto
    then show ?thesis using False by (auto simp: running_def record_done_def)
  qed
  show "runs (record_done a k now s) j \<le> Suc (clears (record_done a k now s) j) \<and>
    (running (record_done a k now s) j \<or> completed (record_done a k now s) j = None \<longrightarrow>
       runs (record_done a k now s) j \<le> clears (record_done a k now s) j)"
    using assms(1) r unfolding counts_alt run by (auto simp: record_done_def)
qed

lemma counts_enter:
  assumes "counts_ok s"
  shows "counts_ok (enter a k s)"
  using assms
  by (cases rule: enter_cases [of s k a]; elim counts_keep) (auto simp: running_def split: if_splits)

lemma counts_step: "tstep s s' \<Longrightarrow> claims_ok s \<Longrightarrow> counts_ok s \<Longrightarrow> counts_ok s'"
proof (induction rule: tstep.induct)
  case (return s a k now)
  then show ?case by (intro counts_return)
next
  case (call s a n i)
  then show ?case by (intro counts_enter)
next
  case (wake s a k ev)
  then show ?case by (intro counts_enter)
next
  case (raise s a k)
  then show ?case by (elim counts_keep) (auto simp: callback_raised_def running_def split: if_splits)
next
  case (release s a k)
  then show ?case by (elim counts_keep) (auto simp: release_def running_def split: option.splits if_splits)
next
  case (signal s a ev)
  then show ?case by (elim counts_keep) (auto simp: signal_def running_def split: if_splits)
next
  case (mark s n i now)
  then show ?case
    by (elim counts_keep) (auto simp: mark_operation_completed_def running_def Let_def split: option.splits if_splits)
next
  case (clear s n' i')
  then show ?case
    by (elim counts_keep) (auto simp: clear_operation_tracking_def running_def Let_def split: if_splits)
qed

lemma reach_invariants: "treach s \<Longrightarrow> claims_ok s \<and> waits_ok s \<and> counts_ok s"
proof (induction rule: treach.induct)
  case init
  then show ?case by (auto simp: tracker_init_def claims_ok_def waits_ok_def counts_ok_def owns_def)
next
  case (step s s')
  then show ?case using claims_step waits_step counts_step by blast
qed

section \<open>Properties\<close>

text \<open>
  C16. Whatever the interleaving of calls, callbacks, clearances and marks, no two activations are inside the
  callback of one operation at the same time.
\<close>

theorem one_activation_at_a_time:
  assumes "treach s" "acts s a = Running k" "acts s b = Running k"
  shows "a = b"
  using reach_invariants [OF assms(1)] claims_okD(2) [of s a k b] assms(2,3) by (simp add: owns_def)

text \<open>
  An operation runs to completion at most once more than it has been cleared: never twice in a process that
  does not clear it, and never while the registry says it is done.
\<close>

theorem runs_once_per_process:
  assumes "treach s"
  shows "runs s k \<le> Suc (clears s k) \<and> (acts s a = Running k \<longrightarrow> runs s k \<le> clears s k)"
  using reach_invariants [OF assms] by (auto simp: counts_ok_def)

text \<open>
  C18. No wake-up is lost: an activation that waits for an operation can go on (its event is set), or the operation
  is still owned by an activation that is not waiting, or an activation is about to set an event. So the
  activations are never all asleep.
\<close>

theorem no_lost_wakeup:
  assumes "treach s" "acts s a = Waiting k ev"
  shows "event_set s ev \<or> (\<exists>b. acts s b = Running k \<or> acts s b = Releasing k \<or> acts s b = Setting ev)"
proof -
  have "claims_ok s" "waits_ok s" using reach_invariants [OF assms(1)] by simp_all
  then have "event_set s ev \<or> in_progress s k = Some ev \<or> (\<exists>b. acts s b = Setting ev)"
    using assms(2) unfolding waits_ok_def by blast
  then show ?thesis using claims_okD(3) [OF \<open>claims_ok s\<close>, of k] unfolding owns_def by blast
qed

definition race :: tracker where
  "race = enter 1 (op_key ''init'' ''db'') (enter 0 (op_key ''init'' ''db'') tracker_init)"

lemma race_reachable: "treach race"
proof -
  have 0: "treach (enter 0 (op_key ''init'' ''db'') tracker_init)"
    by (rule treach.step [OF treach.init]) (rule tstep.call, simp add: tracker_init_def)
  show ?thesis unfolding race_def
    by (rule treach.step [OF 0], rule tstep.call) (simp add: enter_def tracker_init_def)
qed

lemma race_acts: "acts race 0 = Running (op_key ''init'' ''db'')" "acts race 1 = Waiting (op_key ''init'' ''db'') 0"
  by (simp_all add: race_def enter_def tracker_init_def)

theorem one_activation_at_a_time_witness:
  "acts race 0 = Running (op_key ''init'' ''db'') \<and> acts race 1 \<noteq> Running (op_key ''init'' ''db'')"
proof (rule conjI)
  show "acts race 1 \<noteq> Running (op_key ''init'' ''db'')"
  proof
    assume "acts race 1 = Running (op_key ''init'' ''db'')"
    then have "0 = (1 :: nat)" by (rule one_activation_at_a_time [OF race_reachable race_acts(1)])
    then show False by (rule zero_neq_one [THEN notE])
  qed
qed (rule race_acts)

theorem runs_once_per_process_witness: "runs race (op_key ''init'' ''db'') \<le> clears race (op_key ''init'' ''db'')"
  using runs_once_per_process [OF race_reachable] race_acts(1) by blast

theorem no_lost_wakeup_witness:
  "\<exists>b. acts race b = Running (op_key ''init'' ''db'') \<or> acts race b = Releasing (op_key ''init'' ''db'') \<or> acts race b = Setting 0"
  using no_lost_wakeup [OF race_reachable race_acts(2)] by (simp add: race_def enter_def tracker_init_def)

end
