(* ===== verification/System_State.thy ===== *)
theory System_State
  imports Py_Prelude
begin

text \<open>
  The system state machine (\<^verbatim>\<open>Utils/common/system_states.py\<close>, \<^verbatim>\<open>system_state_manager.py\<close>) and the
  shutdown bookkeeping that is its registered handler (\<^verbatim>\<open>core/initializer.py\<close>), with the status that
  \<^verbatim>\<open>Main.py\<close> returns. A run interleaves the states entered with requests to stop, clean-ups and the loop. The manager's lock is not
  reentrant and is held while the handlers run, so a handler that calls the manager blocks for ever: such a call is
  the value \<open>None\<close> of the operation. What the handlers change outside the manager is the world \<open>'w\<close>.
\<close>

section \<open>States\<close>

datatype system_state = BOOT | INITIALIZING | INITIALIZED | STARTING | RUNNING | NORMAL | ERROR | SHUTTING_DOWN | SHUTDOWN

datatype cli_state = NOT_ACCEPTING_COMMANDS | ACCEPTING_COMMANDS

fun state_num :: "system_state \<Rightarrow> int" where
  "state_num BOOT = -1"
| "state_num INITIALIZING = 0"
| "state_num INITIALIZED = 1"
| "state_num STARTING = 2"
| "state_num RUNNING = 3"
| "state_num NORMAL = 4"
| "state_num ERROR = 5"
| "state_num SHUTTING_DOWN = 6"
| "state_num SHUTDOWN = 7"

lemma state_num_inj: "state_num s = state_num t \<longleftrightarrow> s = t"
  by (cases s; cases t) simp_all

text \<open>The states in the order of their values: the order in which a run passes through them.\<close>

instantiation system_state :: linorder
begin

definition less_eq_system_state :: "system_state \<Rightarrow> system_state \<Rightarrow> bool" where
  "less_eq_system_state s t = (state_num s \<le> state_num t)"

definition less_system_state :: "system_state \<Rightarrow> system_state \<Rightarrow> bool" where
  "less_system_state s t = (state_num s < state_num t)"

instance
  by standard (auto simp: less_eq_system_state_def less_system_state_def state_num_inj)

end

section \<open>The manager\<close>

datatype handler_end = Handled | Failed | Reenters

type_synonym 'w handler = "system_state option \<Rightarrow> system_state \<Rightarrow> 'w \<Rightarrow> 'w \<times> handler_end"

record 'w state_mgr =
  sm_system :: "system_state option"
  sm_cli :: "cli_state option"
  sm_handlers :: "'w handler list"

definition new_state_mgr :: "'w state_mgr" where
  "new_state_mgr = \<lparr>sm_system = None, sm_cli = None, sm_handlers = []\<rparr>"

definition add_state_change_handler :: "'w handler \<Rightarrow> 'w state_mgr \<Rightarrow> 'w state_mgr" where
  "add_state_change_handler h m = m\<lparr>sm_handlers := sm_handlers m @ [h]\<rparr>"

text \<open>The handlers in order of registration; an exception in one is logged and the next one runs.\<close>

fun notify :: "'w handler list \<Rightarrow> system_state option \<Rightarrow> system_state \<Rightarrow> 'w \<Rightarrow> 'w option" where
  "notify [] old new w = Some w"
| "notify (h # hs) old new w =
     (case h old new w of (w, e) \<Rightarrow> if e = Reenters then None else notify hs old new w)"

definition set_state :: "system_state \<Rightarrow> 'w state_mgr \<times> 'w \<Rightarrow> ('w state_mgr \<times> 'w) option" where
  "set_state s mw =
     (case mw of (m, w) \<Rightarrow>
        map_option (\<lambda>w. (m\<lparr>sm_system := Some s\<rparr>, w)) (notify (sm_handlers m) (sm_system m) s w))"

definition get_state :: "'w state_mgr \<Rightarrow> system_state pyres" where
  "get_state m = (case sm_system m of None \<Rightarrow> Inl ValueError | Some s \<Rightarrow> Inr s)"

definition set_cli_state :: "cli_state \<Rightarrow> 'w state_mgr \<Rightarrow> 'w state_mgr" where
  "set_cli_state s m = m\<lparr>sm_cli := Some s\<rparr>"

definition get_cli_state :: "'w state_mgr \<Rightarrow> cli_state" where
  "get_cli_state m = (case sm_cli m of None \<Rightarrow> NOT_ACCEPTING_COMMANDS | Some s \<Rightarrow> s)"

definition mgr_initialize :: "'w state_mgr \<Rightarrow> 'w state_mgr" where
  "mgr_initialize m = (if sm_cli m = None then m\<lparr>sm_cli := Some NOT_ACCEPTING_COMMANDS\<rparr> else m)"

section \<open>The shutdown bookkeeping\<close>

text \<open>
  The initializer: the flags it keeps, whether an event loop is running, and how often it has asked the loop to
  drain and stop and armed the watchdog.
\<close>

record initializer =
  i_loop_running :: bool
  i_shutdown_started :: bool
  i_exit_status :: int
  i_drains :: nat
  i_watchdogs :: nat

definition new_initializer :: "bool \<Rightarrow> initializer" where
  "new_initializer running = \<lparr>i_loop_running = running, i_shutdown_started = False, i_exit_status = 0, i_drains = 0,
     i_watchdogs = 0\<rparr>"

definition initiate_shutdown :: "bool \<Rightarrow> initializer \<Rightarrow> initializer" where
  "initiate_shutdown failed i0 =
     (let i = (if failed then i0\<lparr>i_exit_status := 1\<rparr> else i0)
      in if i_shutdown_started i then i
         else (let i = i\<lparr>i_shutdown_started := True\<rparr>
               in if i_loop_running i then i\<lparr>i_drains := i_drains i + 1, i_watchdogs := i_watchdogs i + 1\<rparr> else i))"

definition request_stop :: "bool \<Rightarrow> initializer \<Rightarrow> initializer" where
  "request_stop failed i = initiate_shutdown failed i"

definition handle_error_state :: "initializer \<Rightarrow> initializer" where
  "handle_error_state i = initiate_shutdown True i"

definition handle_state_change :: "initializer handler" where
  "handle_state_change old new i =
     (if new = SHUTDOWN then (initiate_shutdown False i, Handled)
      else if new = ERROR then (handle_error_state i, Handled)
      else (i, Handled))"

text \<open>What the clean-up changes of the bookkeeping; the loop and the application it closes are not part of it.\<close>

definition cleanup :: "initializer \<Rightarrow> initializer" where
  "cleanup i = (if \<not> i_shutdown_started i then i\<lparr>i_shutdown_started := True\<rparr> else i)"

definition get_exit_status :: "initializer \<Rightarrow> int" where "get_exit_status i = i_exit_status i"

text \<open>
  The status the program returns: \<open>raised\<close> when an exception other than the keyboard's interrupt ended its run, the
  initializer as the run left it, or none when it was never made.
\<close>

definition main_status :: "bool \<Rightarrow> initializer option \<Rightarrow> int" where
  "main_status raised initializer =
     (let status = (if raised then 1 else 0)
      in case initializer of
           None \<Rightarrow> status
         | Some i \<Rightarrow> (let i = cleanup i in if get_exit_status i \<noteq> 0 then get_exit_status i else status))"

text \<open>
  What happens after boot: the system enters a state, a shutdown of the program asks the loop to stop, failed or not
  (\<^verbatim>\<open>Main.shutdown\<close>), the event loop starts or stops running, the initializer is cleaned up.
\<close>

datatype boot_event = Enters system_state | Stop_Request bool | Loop_Runs bool | Cleaned_Up

fun boot_step :: "boot_event \<Rightarrow> initializer state_mgr \<times> initializer \<Rightarrow> (initializer state_mgr \<times> initializer) option" where
  "boot_step (Enters s) mi = set_state s mi"
| "boot_step (Stop_Request failed) (m, i) = Some (m, request_stop failed i)"
| "boot_step (Loop_Runs b) (m, i) = Some (m, i\<lparr>i_loop_running := b\<rparr>)"
| "boot_step Cleaned_Up (m, i) = Some (m, cleanup i)"

fun boot_run :: "boot_event list \<Rightarrow> initializer state_mgr \<times> initializer \<Rightarrow> (initializer state_mgr \<times> initializer) option" where
  "boot_run [] mi = Some mi"
| "boot_run (e # es) mi = (case boot_step e mi of None \<Rightarrow> None | Some mi \<Rightarrow> boot_run es mi)"

definition booted :: "bool \<Rightarrow> initializer state_mgr \<times> initializer" where
  "booted running = (add_state_change_handler handle_state_change (mgr_initialize new_state_mgr), new_initializer running)"

section \<open>Lemmas\<close>

lemma set_state_booted:
  "sm_handlers m = [handle_state_change] \<Longrightarrow>
   set_state s (m, i) = Some (m\<lparr>sm_system := Some s\<rparr>, fst (handle_state_change (sm_system m) s i))"
  by (simp add: set_state_def handle_state_change_def)

text \<open>The states entered, the failures recorded and the requests to stop of a run.\<close>

definition entered :: "boot_event list \<Rightarrow> system_state list" where
  "entered es = List.map_filter (\<lambda>e. case e of Enters s \<Rightarrow> Some s | _ \<Rightarrow> None) es"

definition fails :: "boot_event \<Rightarrow> bool" where
  "fails e = (case e of Enters s \<Rightarrow> s = ERROR | Stop_Request failed \<Rightarrow> failed | _ \<Rightarrow> False)"

definition stops :: "boot_event \<Rightarrow> bool" where
  "stops e = (case e of Enters s \<Rightarrow> s \<in> {ERROR, SHUTDOWN} | Stop_Request _ \<Rightarrow> True | _ \<Rightarrow> False)"

text \<open>Whether the first request to stop, if it comes before a clean-up, finds the loop running.\<close>

fun stops_running :: "bool \<Rightarrow> boot_event list \<Rightarrow> bool" where
  "stops_running running [] = False"
| "stops_running running (Loop_Runs b # es) = stops_running b es"
| "stops_running running (Cleaned_Up # es) = False"
| "stops_running running (e # es) = (if stops e then running else stops_running running es)"

lemma entered_simps [simp]:
  "entered [] = []" "entered (e # es) = (case e of Enters s \<Rightarrow> [s] | _ \<Rightarrow> []) @ entered es"
  by (simp_all add: entered_def map_filter_simps split: boot_event.split)

text \<open>What a run makes of the bookkeeping.\<close>

definition bookkeeping :: "boot_event list \<Rightarrow> initializer \<Rightarrow> initializer \<Rightarrow> bool" where
  "bookkeeping es i i' \<longleftrightarrow>
     i_exit_status i' = (if list_ex fails es then 1 else i_exit_status i) \<and>
     i_shutdown_started i' = (i_shutdown_started i \<or> list_ex (\<lambda>e. stops e \<or> e = Cleaned_Up) es) \<and>
     i_drains i' = i_drains i + of_bool (\<not> i_shutdown_started i \<and> stops_running (i_loop_running i) es) \<and>
     i_watchdogs i' = i_watchdogs i + of_bool (\<not> i_shutdown_started i \<and> stops_running (i_loop_running i) es)"

lemma boot_step_keeps:
  assumes "sm_handlers m = [handle_state_change]"
  shows "\<exists>m' i'. boot_step e (m, i) = Some (m', i') \<and> sm_handlers m' = [handle_state_change] \<and>
    sm_system m' = (case e of Enters s \<Rightarrow> Some s | _ \<Rightarrow> sm_system m) \<and>
    (\<forall>es i''. bookkeeping es i' i'' \<longrightarrow> bookkeeping (e # es) i i'')"
proof (cases e)
  case (Enters s)
  then show ?thesis
    using assms
    by (auto simp: set_state_booted handle_state_change_def handle_error_state_def bookkeeping_def initiate_shutdown_def fails_def
        stops_def Let_def)
qed (use assms in \<open>auto simp: bookkeeping_def request_stop_def cleanup_def initiate_shutdown_def fails_def stops_def Let_def\<close>)

lemma boot_run_booted:
  "sm_handlers m = [handle_state_change] \<Longrightarrow>
   \<exists>m' i'. boot_run es (m, i) = Some (m', i') \<and> bookkeeping es i i' \<and>
     sm_system m' = (if entered es = [] then sm_system m else Some (List.last (entered es)))"
proof (induction es arbitrary: m i)
  case Nil
  then show ?case by (simp add: bookkeeping_def)
next
  case (Cons e es)
  obtain m1 i1 where one: "boot_step e (m, i) = Some (m1, i1)" "sm_handlers m1 = [handle_state_change]"
    "sm_system m1 = (case e of Enters s \<Rightarrow> Some s | _ \<Rightarrow> sm_system m)"
    "\<And>es i''. bookkeeping es i1 i'' \<Longrightarrow> bookkeeping (e # es) i i''"
    using boot_step_keeps [OF Cons.prems, of e i] by blast
  obtain m' i' where rest: "boot_run es (m1, i1) = Some (m', i')" "bookkeeping es i1 i'"
    "sm_system m' = (if entered es = [] then sm_system m1 else Some (List.last (entered es)))"
    using Cons.IH [OF one(2), of i1] by blast
  from rest(3) one(3) have "sm_system m' = (if entered (e # es) = [] then sm_system m else Some (List.last (entered (e # es))))"
    by (auto split: boot_event.split)
  then show ?case using one(1) rest(1) one(4) [OF rest(2)] by auto
qed

section \<open>Properties\<close>

text \<open>
  C32. The exit status is honest: whatever happens after boot, states entered, requests to stop, the loop starting and
  stopping, clean-ups, no call blocks and the state read back is the last one entered. The status kept, and the one the
  program returns at its end, are 1 exactly when something failed: the error state was entered or a failed shutdown
  asked to stop, even after a shutdown began (or, for the program's, its run was ended by an exception). The shutdown
  is begun by the error and shutdown states, by every request to stop and by a clean-up, and the loop is asked
  to drain and stop, and the watchdog armed, once if the first of them finds the loop running, and never otherwise.
\<close>

theorem exit_status_honest:
  "\<exists>m i. boot_run es (booted running) = Some (m, i) \<and>
     (if entered es = [] then get_state m = Inl ValueError else get_state m = Inr (List.last (entered es))) \<and>
     get_exit_status i = of_bool (Enters ERROR \<in> set es \<or> Stop_Request True \<in> set es) \<and>
     main_status raised (Some i) = of_bool (raised \<or> Enters ERROR \<in> set es \<or> Stop_Request True \<in> set es) \<and>
     i_shutdown_started i = list_ex (\<lambda>e. e \<in> {Enters ERROR, Enters SHUTDOWN, Stop_Request True, Stop_Request False, Cleaned_Up}) es \<and>
     i_drains i = of_bool (stops_running running es) \<and> i_watchdogs i = of_bool (stops_running running es)"
proof -
  let ?m = "fst (booted running)" let ?i = "snd (booted running)"
  have b: "sm_handlers ?m = [handle_state_change]" "sm_system ?m = None" "?i = new_initializer running"
    by (simp_all add: booted_def add_state_change_handler_def mgr_initialize_def new_state_mgr_def)
  obtain m i where r: "boot_run es (?m, ?i) = Some (m, i)" "bookkeeping es ?i i"
    "sm_system m = (if entered es = [] then sm_system ?m else Some (List.last (entered es)))"
    using boot_run_booted [OF b(1), of es ?i] by blast
  have f: "list_ex fails es \<longleftrightarrow> Enters ERROR \<in> set es \<or> Stop_Request True \<in> set es"
    by (induction es) (auto simp: fails_def split: boot_event.splits)
  have s: "(stops e \<or> e = Cleaned_Up) = (e \<in> {Enters ERROR, Enters SHUTDOWN, Stop_Request True, Stop_Request False, Cleaned_Up})" for e
    by (cases e) (auto simp: stops_def)
  have i: "i_exit_status i = of_bool (Enters ERROR \<in> set es \<or> Stop_Request True \<in> set es)"
    "i_shutdown_started i = list_ex (\<lambda>e. e \<in> {Enters ERROR, Enters SHUTDOWN, Stop_Request True, Stop_Request False, Cleaned_Up}) es"
    "i_drains i = of_bool (stops_running running es)" "i_watchdogs i = of_bool (stops_running running es)"
    using r(2) unfolding bookkeeping_def f s by (simp_all add: b(3) new_initializer_def)
  then have "main_status raised (Some i) = of_bool (raised \<or> Enters ERROR \<in> set es \<or> Stop_Request True \<in> set es)"
    by (auto simp: main_status_def get_exit_status_def cleanup_def Let_def)
  with r i show ?thesis
    by (intro exI [of _ m] exI [of _ i]) (simp add: get_state_def get_exit_status_def b(2))
qed

text \<open>
  A handler that raises does not keep the state change, or the handlers after it, from happening; a handler
  that calls the manager back never returns.
\<close>

theorem handlers_isolated_not_reentrant:
  "\<forall>h \<in> set (sm_handlers m). \<forall>old new w. snd (h old new w) \<noteq> Reenters \<Longrightarrow>
   \<exists>w'. set_state s (m, w) = Some (m\<lparr>sm_system := Some s\<rparr>, w') \<and> get_state (m\<lparr>sm_system := Some s\<rparr>) = Inr s \<and>
     w' = fold (\<lambda>h w. fst (h (sm_system m) s w)) (sm_handlers m) w"
  "h \<in> set (sm_handlers m) \<Longrightarrow> \<forall>old new w. snd (h old new w) = Reenters \<Longrightarrow> set_state s (m, w) = None"
proof -
  have *: "\<forall>h \<in> set hs. \<forall>old new w. snd (h old new w) \<noteq> Reenters \<Longrightarrow>
      notify hs old s w = Some (fold (\<lambda>h w. fst (h old s w)) hs w)" for hs :: "'a handler list" and old w
    by (induction hs arbitrary: w) (auto split: prod.split, metis snd_conv)
  show "\<forall>h \<in> set (sm_handlers m). \<forall>old new w. snd (h old new w) \<noteq> Reenters \<Longrightarrow>
    \<exists>w'. set_state s (m, w) = Some (m\<lparr>sm_system := Some s\<rparr>, w') \<and> get_state (m\<lparr>sm_system := Some s\<rparr>) = Inr s \<and>
     w' = fold (\<lambda>h w. fst (h (sm_system m) s w)) (sm_handlers m) w"
    using * [of "sm_handlers m" "sm_system m" w] by (simp add: set_state_def get_state_def)
  have "h \<in> set hs \<Longrightarrow> \<forall>old new w. snd (h old new w) = Reenters \<Longrightarrow> notify hs old s w = None"
    for hs :: "'a handler list" and old w
  proof (induction hs arbitrary: w)
    case (Cons k hs)
    show ?case
    proof (cases "h = k")
      case True
      then have "snd (k old s w) = Reenters" using Cons.prems(2) by simp
      then show ?thesis by (simp add: split_beta)
    next
      case False
      then show ?thesis using Cons by (simp add: split_beta)
    qed
  qed simp
  then show "h \<in> set (sm_handlers m) \<Longrightarrow> \<forall>old new w. snd (h old new w) = Reenters \<Longrightarrow> set_state s (m, w) = None"
    by (simp add: set_state_def)
qed

end
