(* ===== verification/Readiness.thy ===== *)
theory Readiness
  imports Health System_State
begin

text \<open>
  Readiness of the system (\<^verbatim>\<open>core/system_manager.py\<close>: the component registry, the health sweep, the record of
  failed starts and \<open>is_system_ready\<close>) and the poll of \<^verbatim>\<open>Main.py\<close> that moves the system to normal operation.
  Each reading of the clock is an argument. Log lines are constructors that carry what the line prints.
\<close>

section \<open>State\<close>

datatype log_line =
    Sweep_Critical bool nat nat "string list" "(string \<times> string) list"
  | Sweep_Degraded nat nat "(string \<times> string) list"
  | Sweep_Clean nat nat
  | Sweep_Raised pyerr
  | Start_Failed bool string string
  | Not_Ready string
  | Ready_Again

record manager =
  m_state :: "system_state option"
  m_components :: "(string \<times> component option) list"
  m_health :: registry
  m_failed :: "string list"
  m_last_reason :: "string option"
  m_last_log :: rat
  m_max_age :: rat

definition new_manager :: manager where
  "new_manager = \<lparr>m_state = None, m_components = [], m_health = new_registry, m_failed = [], m_last_reason = None,
     m_last_log = 0, m_max_age = 1 / 2\<rparr>"

definition SAFETY_CRITICAL_SUBSYSTEMS :: "string list" where
  "SAFETY_CRITICAL_SUBSYSTEMS = [''FCC'', ''FlightSurfaceService'', ''HydraulicSystemController'', ''ECU'',
     ''ThrustManagementSystem'', ''FuelManagementSystem'', ''PowerManagementSystem'', ''GCAS'', ''NavService'']"

definition READINESS_LOG_INTERVAL :: rat where "READINESS_LOG_INTERVAL = 10"

section \<open>Operations\<close>

definition get_component :: "string \<Rightarrow> manager \<Rightarrow> component option" where
  "get_component n m = (case map_of (m_components m) n of None \<Rightarrow> None | Some c \<Rightarrow> c)"

definition register_component :: "string \<Rightarrow> component option \<Rightarrow> manager \<Rightarrow> manager" where
  "register_component n c m = m\<lparr>m_components := dict_set n c (m_components m)\<rparr>"

definition mgr_state :: "manager \<Rightarrow> system_state pyres" where
  "mgr_state m = (case m_state m of None \<Rightarrow> Inl ValueError | Some s \<Rightarrow> Inr s)"

text \<open>One sweep: the unhealthy reports, the published registry and the line logged.\<close>

definition check_component_health :: "rat \<Rightarrow> manager \<Rightarrow> (health_report list \<times> log_line list) pyres \<times> manager" where
  "check_component_health now m0 =
     (let reports = probe_all (m_components m0);
          m = m0\<lparr>m_health := registry_update now reports (m_health m0)\<rparr>;
          unhealthy = filter report_unhealthy reports;
          unknown = filter (\<lambda>r. r_state r = UNKNOWN) reports;
          critical = List.map r_name (filter (\<lambda>r. r_name r \<in> set CRITICAL_COMPONENTS) unhealthy);
          detail = List.map (\<lambda>r. (r_name r, r_reason r)) unhealthy
      in if unhealthy = [] then (Inr (unhealthy, [Sweep_Clean (length reports - length unknown) (length unknown)]), m)
         else if critical \<noteq> [] then
           (py_bind (mgr_state m) (\<lambda>s. Inr (unhealthy,
              [Sweep_Critical (s = NORMAL) (length unhealthy) (length reports) (sort critical) detail])), m)
         else (Inr (unhealthy, [Sweep_Degraded (length unhealthy) (length reports) detail]), m))"

definition record_startup_failure :: "string \<Rightarrow> string \<Rightarrow> manager \<Rightarrow> log_line list \<times> manager" where
  "record_startup_failure label exc m =
     ([Start_Failed (label \<in> set SAFETY_CRITICAL_SUBSYSTEMS) label exc], m\<lparr>m_failed := List.insert label (m_failed m)\<rparr>)"

definition failed_safety_critical_starts :: "manager \<Rightarrow> string list" where
  "failed_safety_critical_starts m = sort (filter (\<lambda>l. l \<in> set SAFETY_CRITICAL_SUBSYSTEMS) (m_failed m))"

fun join :: "string \<Rightarrow> string list \<Rightarrow> string" where
  "join sep [] = []"
| "join sep [x] = x"
| "join sep (x # y # xs) = x @ sep @ join sep (y # xs)"

text \<open>Why a critical component keeps the system from being ready, if it does.\<close>

definition blocker :: "health_report list \<Rightarrow> string \<Rightarrow> string option" where
  "blocker rs name =
     (case map_of (rev (List.map (\<lambda>r. (r_name r, r)) rs)) name of
        None \<Rightarrow> Some (name @ '': not registered'')
      | Some r \<Rightarrow> if report_healthy r then None
                  else Some (name @ '': '' @ state_value (r_state r) @ '' ('' @ r_reason r @ '')''))"

definition stale_sweep :: "rat \<Rightarrow> manager \<Rightarrow> bool" where
  "stale_sweep now m = (\<not> reg_has_swept (m_health m) \<or> m_max_age m < fsub now (h_swept_at (m_health m)))"

definition is_system_ready :: "rat \<Rightarrow> rat \<Rightarrow> rat \<Rightarrow> manager \<Rightarrow> (bool \<times> log_line list) pyres \<times> manager" where
  "is_system_ready now_age now_sweep now m =
     (case mgr_state m of
        Inl e \<Rightarrow> (Inl e, m)
      | Inr s \<Rightarrow>
          if s \<notin> {RUNNING, NORMAL} then (Inr (False, []), m)
          else
            (let missing = failed_safety_critical_starts m in
             if missing \<noteq> [] then
               (let reason = ''safety-critical subsystems did not start: '' @ join '', '' missing in
                if Some reason \<noteq> m_last_reason m \<or> 5 < fsub now (m_last_log m) then
                  (Inr (False, [Not_Ready reason]), m\<lparr>m_last_reason := Some reason, m_last_log := now\<rparr>)
                else (Inr (False, []), m))
             else
               (let (swept, m) = (if stale_sweep now_age m then check_component_health now_sweep m else (Inr ([], []), m)) in
                case swept of
                  Inl e \<Rightarrow> (Inr (False, [Sweep_Raised e]), m)
                | Inr (_, lines) \<Rightarrow>
                    (let not_ready = List.map_filter (blocker (reg_snapshot (m_health m))) (sort CRITICAL_COMPONENTS) in
                     if not_ready \<noteq> [] then
                       (let reason = join ''; '' not_ready in
                        if Some reason \<noteq> m_last_reason m \<or> READINESS_LOG_INTERVAL \<le> fsub now (m_last_log m) then
                          (Inr (False, lines @ [Not_Ready reason]), m\<lparr>m_last_reason := Some reason, m_last_log := now\<rparr>)
                        else (Inr (False, lines), m))
                     else if m_last_reason m \<noteq> None then
                       (Inr (True, lines @ [Ready_Again]), m\<lparr>m_last_reason := None\<rparr>)
                     else (Inr (True, lines), m)))))"

section \<open>The poll of the main program\<close>

text \<open>
  The timer of \<^verbatim>\<open>Main.py\<close>: a positive answer schedules the transition to normal operation on the event loop and
  stops the timer; the loop performs it later.
\<close>

record program =
  g_manager :: manager
  g_timer :: bool
  g_scheduled :: nat
  g_failed_shutdown :: nat

definition check_system_ready_slot :: "rat \<Rightarrow> rat \<Rightarrow> rat \<Rightarrow> program \<Rightarrow> program" where
  "check_system_ready_slot a s n g =
     (case is_system_ready a s n (g_manager g) of
        (Inr (True, _), m) \<Rightarrow> g\<lparr>g_manager := m, g_scheduled := g_scheduled g + 1, g_timer := False\<rparr>
      | (Inr (False, _), m) \<Rightarrow> g\<lparr>g_manager := m\<rparr>
      | (Inl _, m) \<Rightarrow> g\<lparr>g_manager := m, g_failed_shutdown := g_failed_shutdown g + 1\<rparr>)"

definition run_scheduled :: "program \<Rightarrow> program" where
  "run_scheduled g = g\<lparr>g_scheduled := g_scheduled g - 1, g_manager := (g_manager g)\<lparr>m_state := Some NORMAL\<rparr>\<rparr>"

text \<open>
  What happens between two looks at the program: the timer fires, the loop runs a scheduled transition, a component
  is registered or changes its answers, a start fails, the monitor sweeps, or any thread sets the state.
\<close>

inductive pstep :: "program \<Rightarrow> program \<Rightarrow> bool" where
  poll: "g_timer g \<Longrightarrow> pstep g (check_system_ready_slot a s n g)"
| transition: "g_scheduled g \<noteq> 0 \<Longrightarrow> pstep g (run_scheduled g)"
| register: "pstep g (g\<lparr>g_manager := register_component c cp (g_manager g)\<rparr>)"
| failed_start: "pstep g (g\<lparr>g_manager := snd (record_startup_failure l x (g_manager g))\<rparr>)"
| sweep: "pstep g (g\<lparr>g_manager := snd (check_component_health t (g_manager g))\<rparr>)"
| set_to: "pstep g (g\<lparr>g_manager := (g_manager g)\<lparr>m_state := Some st\<rparr>\<rparr>)"

inductive_cases pstepE: "pstep g g'"

inductive psteps :: "program \<Rightarrow> program \<Rightarrow> bool" where
  refl: "psteps g g"
| step: "psteps g g' \<Longrightarrow> pstep g' g'' \<Longrightarrow> psteps g g''"

section \<open>Lemmas\<close>

definition answers_ready :: "(bool \<times> log_line list) pyres \<times> manager \<Rightarrow> bool" where
  "answers_ready r = (\<exists>lines. fst r = Inr (True, lines))"

definition vouched :: "health_report list \<Rightarrow> bool" where
  "vouched rs \<longleftrightarrow> (\<forall>c \<in> set CRITICAL_COMPONENTS. blocker rs c = None)"

definition startable :: "manager \<Rightarrow> bool" where
  "startable m \<longleftrightarrow> m_state m \<in> {Some RUNNING, Some NORMAL} \<and> set (m_failed m) \<inter> set SAFETY_CRITICAL_SUBSYSTEMS = {}"

lemma subsystem_labels: "set SAFETY_CRITICAL_SUBSYSTEMS = set (List.map fst SAFETY_CRITICAL_LABEL_TO_KEY)"
  by (simp add: SAFETY_CRITICAL_SUBSYSTEMS_def SAFETY_CRITICAL_LABEL_TO_KEY_def)

lemma failed_starts_empty:
  "failed_safety_critical_starts m = [] \<longleftrightarrow> set (m_failed m) \<inter> set SAFETY_CRITICAL_SUBSYSTEMS = {}"
proof -
  have "failed_safety_critical_starts m = [] \<longleftrightarrow> set (failed_safety_critical_starts m) = {}" by simp
  then show ?thesis by (auto simp only: failed_safety_critical_starts_def set_sort set_filter)
qed

lemma sort_map_filter_empty: "List.map_filter f (sort xs) = [] \<longleftrightarrow> (\<forall>x \<in> set xs. f x = None)"
proof -
  have "List.map_filter f ys = [] \<longleftrightarrow> (\<forall>y \<in> set ys. f y = None)" for ys
    by (induction ys) (auto simp: List.map_filter_simps split: option.split)
  then show ?thesis by simp
qed

lemma no_blocker_iff: "List.map_filter (blocker rs) (sort CRITICAL_COMPONENTS) = [] \<longleftrightarrow> vouched rs"
  by (simp add: sort_map_filter_empty vouched_def)

lemma map_of_probe_all:
  "map_of (rev (List.map (\<lambda>r. (r_name r, r)) (probe_all cs))) n = map_option (probe n) (map_of (rev cs) n)"
proof -
  have *: "rev (List.map (\<lambda>r. (r_name r, r)) (probe_all cs)) = List.map (\<lambda>(n, c). (n, probe n c)) (rev cs)"
    by (simp add: probe_all_def rev_map o_def split_beta)
  have "map_of (List.map (\<lambda>(n, c). (n, probe n c)) xs) n = map_option (probe n) (map_of xs n)" for xs
    by (induction xs) auto
  then show ?thesis by (simp only: *)
qed

lemma map_of_rev: "distinct (List.map fst cs) \<Longrightarrow> map_of (rev cs) = map_of cs"
  by (rule map_of_eqI) (auto simp: rev_map [symmetric])

lemma blocker_probe_all:
  "distinct (List.map fst (m_components m)) \<Longrightarrow>
   blocker (probe_all (m_components m)) c = None \<longleftrightarrow> r_state (probe c (get_component c m)) = HEALTHY"
  by (auto simp: blocker_def map_of_probe_all map_of_rev get_component_def report_healthy_def probe_def
    split: option.splits)

lemma blocker_stored:
  "blocker rs c = None \<longleftrightarrow> (\<exists>r. List.find (\<lambda>r. r_name r = c) (rev rs) = Some r \<and> r_state r = HEALTHY)"
proof -
  have "map_of (List.map (\<lambda>r. (r_name r, r)) xs) c = List.find (\<lambda>r. r_name r = c) xs" for xs :: "health_report list"
    by (induction xs) auto
  then show ?thesis
    by (auto simp: blocker_def rev_map report_healthy_def split: option.split)
qed

lemma sweep_state [simp]:
  "m_state (snd (check_component_health t m)) = m_state m" "m_failed (snd (check_component_health t m)) = m_failed m"
  "h_reports (m_health (snd (check_component_health t m))) = probe_all (m_components m)"
  by (simp_all add: check_component_health_def registry_update_def Let_def)

lemma sweep_ok: "m_state m = Some s \<Longrightarrow> \<exists>x. fst (check_component_health t m) = Inr x"
  by (auto simp: check_component_health_def mgr_state_def Let_def)

text \<open>What a poll decides on: the reports of its own sweep when the last one has aged out, else the last one.\<close>

definition decided_on :: "rat \<Rightarrow> manager \<Rightarrow> health_report list" where
  "decided_on a m = (if stale_sweep a m then probe_all (m_components m) else h_reports (m_health m))"

lemma answers_ready_iff:
  "answers_ready (is_system_ready a sw n m) \<longleftrightarrow> startable m \<and> vouched (decided_on a m)"
proof (cases "startable m")
  case False
  then show ?thesis
    by (auto simp: answers_ready_def is_system_ready_def mgr_state_def startable_def Let_def failed_starts_empty
      split: option.split)
next
  case True
  then obtain s where s: "m_state m = Some s" "s \<in> {RUNNING, NORMAL}" by (auto simp: startable_def)
  have nf: "failed_safety_critical_starts m = []" using True by (simp add: failed_starts_empty startable_def)
  obtain x where x: "fst (check_component_health sw m) = Inr x" using sweep_ok [OF s(1)] by blast
  let ?p = "if stale_sweep a m then check_component_health sw m else (Inr ([], []), m)"
  obtain u l where ul: "fst ?p = Inr (u, l)"
    using x by (cases "stale_sweep a m"; cases x) simp_all
  have rs: "reg_snapshot (m_health (snd ?p)) = decided_on a m" by (simp add: decided_on_def reg_snapshot_def)
  have "answers_ready (is_system_ready a sw n m) \<longleftrightarrow> List.map_filter (blocker (reg_snapshot (m_health (snd ?p)))) (sort CRITICAL_COMPONENTS) = []"
    using s nf ul
    by (cases ?p) (simp add: answers_ready_def is_system_ready_def mgr_state_def Let_def del: sort_key_simps)
  then show ?thesis using True by (simp only: rs no_blocker_iff simp_thms)
qed

lemma ready_keeps:
  "m_failed (snd (is_system_ready a sw n m)) = m_failed m"
proof -
  let ?p = "if stale_sweep a m then check_component_health sw m else (Inr ([], []), m)"
  have "m_failed (snd ?p) = m_failed m" by simp
  then show ?thesis
    by (cases ?p) (auto simp: is_system_ready_def Let_def split: option.split sum.split)
qed

text \<open>A failed start is never forgotten.\<close>

lemma pstep_failed: "pstep g g' \<Longrightarrow> set (m_failed (g_manager g)) \<subseteq> set (m_failed (g_manager g'))"
proof (induction rule: pstep.induct)
  case (poll g a s n)
  then show ?case using ready_keeps [of a s n "g_manager g"]
    by (auto simp: check_system_ready_slot_def split: prod.split sum.split bool.split)
qed (auto simp: run_scheduled_def register_component_def record_startup_failure_def)

lemma pstep_no_schedule:
  assumes "pstep g g'" "\<not> startable (g_manager g)"
  shows "g_scheduled g' \<le> g_scheduled g"
  using assms
proof cases
  case (poll a s n)
  have "\<not> answers_ready (is_system_ready a s n (g_manager g))" using assms(2) by (simp add: answers_ready_iff)
  then show ?thesis unfolding poll
    by (auto simp: check_system_ready_slot_def answers_ready_def split: prod.split sum.split bool.split)
qed (auto simp: run_scheduled_def)

section \<open>Properties\<close>

text \<open>
  C33. What readiness means, for every poll: the answer is ready exactly when the system runs, no safety-critical
  subsystem failed to start, and every critical component is registered and healthy, where a sweep that is at most as
  old as the limit (by the clock the poll reads) decides by its stored reports, the last of each name, whatever the
  components are now, and otherwise every component is asked anew. A critical component that is missing, silent or
  failing keeps the answer negative as soon as the last sweep has aged out or seen it.
\<close>

theorem readiness_exact:
  assumes "distinct (List.map fst (m_components m))"
  shows "answers_ready (is_system_ready a sw n m) \<longleftrightarrow>
     m_state m \<in> {Some RUNNING, Some NORMAL} \<and> set (m_failed m) \<inter> set SAFETY_CRITICAL_SUBSYSTEMS = {} \<and>
     (if 0 < h_swept_at (m_health m) \<and> fsub a (h_swept_at (m_health m)) \<le> m_max_age m
      then \<forall>c \<in> set CRITICAL_COMPONENTS. \<exists>r. List.find (\<lambda>r. r_name r = c) (rev (h_reports (m_health m))) = Some r \<and> r_state r = HEALTHY
      else \<forall>c \<in> set CRITICAL_COMPONENTS. r_state (probe c (get_component c m)) = HEALTHY)"
proof -
  have asked: "vouched (probe_all (m_components m)) \<longleftrightarrow>
      (\<forall>c \<in> set CRITICAL_COMPONENTS. r_state (probe c (get_component c m)) = HEALTHY)"
    using assms by (simp add: vouched_def blocker_probe_all)
  have "stale_sweep a m \<longleftrightarrow> \<not> (0 < h_swept_at (m_health m) \<and> fsub a (h_swept_at (m_health m)) \<le> m_max_age m)"
    by (auto simp: stale_sweep_def reg_has_swept_def)
  then show ?thesis
    unfolding answers_ready_iff startable_def decided_on_def by (simp add: asked) (simp add: vouched_def blocker_stored)
qed

text \<open>
  A safety-critical subsystem that failed to start blocks readiness for good: no sequence of polls, sweeps,
  registrations and state changes makes the system ready again or schedules the transition to normal operation.
\<close>

theorem failed_start_blocks_forever:
  assumes "psteps g g'" "l \<in> set (m_failed (g_manager g))" "l \<in> set SAFETY_CRITICAL_SUBSYSTEMS"
  shows "\<not> answers_ready (is_system_ready a sw n (g_manager g')) \<and> g_scheduled g' \<le> g_scheduled g"
proof -
  from assms(1) have "l \<in> set (m_failed (g_manager g')) \<and> g_scheduled g' \<le> g_scheduled g"
    using assms(2)
  proof (induction rule: psteps.induct)
    case (step g g' g'')
    then have l: "l \<in> set (m_failed (g_manager g'))" "g_scheduled g' \<le> g_scheduled g" by auto
    then have "\<not> startable (g_manager g')" using assms(3) by (auto simp: startable_def)
    with l show ?case using pstep_failed [OF step.hyps(2)] pstep_no_schedule [OF step.hyps(2)] by auto
  qed simp
  then show ?thesis
    using assms(3) by (auto simp: answers_ready_iff startable_def)
qed

text \<open>
  The age of a sweep is measured on the wall clock. When the clock has been set back since the last sweep,
  readiness is decided on that sweep however old it is, whatever the components are by now.
\<close>

theorem stale_sweep_after_clock_step:
  assumes "0 < h_swept_at (m_health m)" "a \<le> h_swept_at (m_health m)" "0 \<le> m_max_age m" "startable m"
    "vouched (h_reports (m_health m))"
  shows "answers_ready (is_system_ready a sw n (m\<lparr>m_components := cs\<rparr>))"
proof -
  have "fsub a (h_swept_at (m_health m)) \<le> fsub (h_swept_at (m_health m)) (h_swept_at (m_health m))"
    unfolding fsub_def using assms(2) by (intro fl_mono) simp
  then have "fsub a (h_swept_at (m_health m)) \<le> 0" using fl_of_int [of 0] by (simp add: fsub_def)
  then have "\<not> stale_sweep a m" using assms by (simp add: stale_sweep_def reg_has_swept_def)
  then show ?thesis using assms(4,5)
    by (simp add: answers_ready_iff decided_on_def startable_def stale_sweep_def reg_has_swept_def)
qed

text \<open>
  The transition to normal operation is scheduled when the poll answers and performed later without looking at
  the state again: an error state, or a shutdown, entered in between is overwritten by normal operation.
\<close>

theorem error_overwritten_by_normal:
  assumes "g_timer g" "answers_ready (is_system_ready a sw n (g_manager g))"
  shows "\<exists>g1 g2 g3. pstep g g1 \<and> pstep g1 g2 \<and> m_state (g_manager g2) = Some st \<and> pstep g2 g3 \<and>
     m_state (g_manager g3) = Some NORMAL"
proof -
  let ?g1 = "check_system_ready_slot a sw n g"
  let ?g2 = "?g1\<lparr>g_manager := (g_manager ?g1)\<lparr>m_state := Some st\<rparr>\<rparr>"
  have "g_scheduled ?g2 \<noteq> 0" using assms(2)
    by (auto simp: check_system_ready_slot_def answers_ready_def split: prod.split)
  then have "pstep ?g2 (run_scheduled ?g2)" by (rule transition)
  moreover have "pstep g ?g1" "pstep ?g1 ?g2" by (rule poll [OF assms(1)], rule set_to)
  ultimately show ?thesis
    by (intro exI [of _ ?g1] exI [of _ ?g2] exI [of _ "run_scheduled ?g2"]) (simp add: run_scheduled_def)
qed

section \<open>Witnesses\<close>

definition all_up :: "(string \<times> component option) list" where
  "all_up = List.map (\<lambda>c. (c, Some \<lparr>c_health_report = None, c_check_health = Some (Returns (PBool True)),
     c_is_healthy = None\<rparr>)) CRITICAL_COMPONENTS"

definition running_manager :: manager where
  "running_manager = new_manager\<lparr>m_state := Some RUNNING, m_components := all_up\<rparr>"

lemma map_of_const: "map_of (List.map (\<lambda>c. (c, v)) xs) c = (if c \<in> set xs then Some v else None)"
  by (induction xs) auto

lemma all_up_healthy: "c \<in> set CRITICAL_COMPONENTS \<Longrightarrow> r_state (probe c (get_component c running_manager)) = HEALTHY"
  by (simp add: running_manager_def all_up_def get_component_def map_of_const probe_def)

lemma running_stale: "stale_sweep a running_manager"
  by (simp add: stale_sweep_def running_manager_def new_manager_def new_registry_def reg_has_swept_def)

lemma critical_distinct: "distinct CRITICAL_COMPONENTS"
  by (simp add: CRITICAL_COMPONENTS_def SAFETY_CRITICAL_LABEL_TO_KEY_def)

lemma running_distinct: "distinct (List.map fst (m_components running_manager))"
  by (simp add: running_manager_def all_up_def o_def critical_distinct)

lemma running_startable: "startable running_manager"
  by (simp add: startable_def running_manager_def new_manager_def)

lemma running_ready: "answers_ready (is_system_ready a sw n running_manager)"
  by (simp add: answers_ready_iff running_startable vouched_def decided_on_def running_stale
    blocker_probe_all [OF running_distinct] all_up_healthy)

theorem readiness_exact_witness:
  "answers_ready (is_system_ready 100 100 100 running_manager) \<and>
   \<not> answers_ready (is_system_ready 100 100 100
     (running_manager\<lparr>m_health := \<lparr>h_reports = [], h_swept_at = 100\<rparr>\<rparr>))"
proof (rule conjI)
  show "answers_ready (is_system_ready 100 100 100 running_manager)"
    using readiness_exact [OF running_distinct, of 100 100 100] all_up_healthy
    by (simp add: running_manager_def new_manager_def new_registry_def)
  have "distinct (List.map fst (m_components (running_manager\<lparr>m_health := \<lparr>h_reports = [], h_swept_at = 100\<rparr>\<rparr>)))"
    using running_distinct by simp
  moreover have "fsub 100 100 = 0" using fl_of_int [of 0] by (simp add: fsub_def)
  moreover have "set CRITICAL_COMPONENTS \<noteq> {}" by (simp add: CRITICAL_COMPONENTS_def)
  ultimately show "\<not> answers_ready (is_system_ready 100 100 100
     (running_manager\<lparr>m_health := \<lparr>h_reports = [], h_swept_at = 100\<rparr>\<rparr>))"
    by (subst readiness_exact) (simp_all add: running_manager_def new_manager_def)
qed

definition polled :: program where
  "polled = \<lparr>g_manager = running_manager, g_timer = True, g_scheduled = 0, g_failed_shutdown = 0\<rparr>"

theorem failed_start_blocks_forever_witness:
  "\<not> answers_ready (is_system_ready 1 1 1
     (g_manager (polled\<lparr>g_manager := snd (record_startup_failure ''FCC'' ''no bus'' running_manager)\<rparr>)))"
  by (rule failed_start_blocks_forever [where l = "''FCC''", THEN conjunct1, OF psteps.refl])
    (simp_all add: polled_def record_startup_failure_def SAFETY_CRITICAL_SUBSYSTEMS_def)

theorem stale_sweep_after_clock_step_witness:
  "answers_ready (is_system_ready 10 10 10
     ((running_manager\<lparr>m_health := \<lparr>h_reports = probe_all all_up, h_swept_at = 5000\<rparr>\<rparr>)\<lparr>m_components := []\<rparr>))"
proof (rule stale_sweep_after_clock_step)
  have "vouched (probe_all (m_components running_manager))"
    by (simp add: vouched_def blocker_probe_all [OF running_distinct] all_up_healthy)
  then show "vouched (h_reports (m_health (running_manager\<lparr>m_health := \<lparr>h_reports = probe_all all_up, h_swept_at = 5000\<rparr>\<rparr>)))"
    by (simp add: running_manager_def)
qed (use running_startable in \<open>simp_all add: running_manager_def new_manager_def startable_def\<close>)

theorem error_overwritten_by_normal_witness:
  "\<exists>g1 g2 g3. pstep polled g1 \<and> pstep g1 g2 \<and> m_state (g_manager g2) = Some ERROR \<and> pstep g2 g3 \<and>
     m_state (g_manager g3) = Some NORMAL"
  by (rule error_overwritten_by_normal [where a = 0 and sw = 0 and n = 0]) (simp_all add: polled_def running_ready)

end
