(* ===== verification/Thrust.thy ===== *)
theory Thrust
  imports Track_Fusion Py_Prelude Health
begin

text \<open>
  Thrust management (\<^verbatim>\<open>thrustManagement.py\<close>): the commanded thrust of the engines, the autothrottle, the check of the asymmetry
  and the pass of the worker. The sum of a list of floats and the clock are arguments, and so is the velocity that
  the flight management system reports.
\<close>

definition MAX_SAFE_THRUST_ASYMMETRY_PCT :: rat where "MAX_SAFE_THRUST_ASYMMETRY_PCT = 25"

record thrust_system =
  tm_thrust :: "(string \<times> rat) list"
  tm_engaged :: bool
  tm_target :: "rat option"
  tm_last_error :: rat
  tm_integral :: rat
  tm_failing_since :: "rat option"
  tm_error_text :: string

definition new_thrust_system :: thrust_system where
  "new_thrust_system = \<lparr>tm_thrust = [], tm_engaged = False, tm_target = None, tm_last_error = 0, tm_integral = 0,
     tm_failing_since = None, tm_error_text = []\<rparr>"

definition clamp_pct :: "rat \<Rightarrow> rat" where "clamp_pct p = max 0 (min 100 p)"

definition register_engine :: "string \<Rightarrow> rat \<Rightarrow> thrust_system \<Rightarrow> thrust_system" where
  "register_engine name initial s = s\<lparr>tm_thrust := dict_set name (clamp_pct initial) (tm_thrust s)\<rparr>"

definition command_thrust :: "string \<Rightarrow> rat \<Rightarrow> thrust_system \<Rightarrow> bool \<times> thrust_system" where
  "command_thrust name pct s =
     (if map_of (tm_thrust s) name = None then (False, s)
      else (True, s\<lparr>tm_thrust := dict_set name (clamp_pct pct) (tm_thrust s)\<rparr>))"

definition set_all_thrust :: "rat \<Rightarrow> thrust_system \<Rightarrow> thrust_system" where
  "set_all_thrust pct s = s\<lparr>tm_thrust := map (\<lambda>(k, _). (k, clamp_pct pct)) (tm_thrust s)\<rparr>"

definition engage_autothrottle :: "rat \<Rightarrow> thrust_system \<Rightarrow> thrust_system" where
  "engage_autothrottle target s = s\<lparr>tm_engaged := True, tm_target := Some target, tm_last_error := 0, tm_integral := 0\<rparr>"

definition disengage_autothrottle :: "thrust_system \<Rightarrow> thrust_system" where
  "disengage_autothrottle s = (if tm_engaged s then s\<lparr>tm_engaged := False, tm_target := None\<rparr> else s)"

definition average_thrust :: "summing \<Rightarrow> thrust_system \<Rightarrow> rat" where
  "average_thrust tot s =
     (if tm_thrust s = [] then 0 else fdiv (tot (map snd (tm_thrust s))) (of_nat (length (tm_thrust s))))"

definition update_autothrottle :: "summing \<Rightarrow> rat \<Rightarrow> rat \<Rightarrow> thrust_system \<Rightarrow> thrust_system" where
  "update_autothrottle tot airspeed dt s =
     (case tm_target s of
        None \<Rightarrow> s
      | Some target \<Rightarrow>
          if \<not> tm_engaged s \<or> dt \<le> 0 then s
          else
            (let err = fsub target airspeed;
                 s = s\<lparr>tm_integral := max (- 50) (min 50 (fadd (tm_integral s) (fmul err dt)))\<rparr>;
                 delta = fadd (fmul (fl (5 / 10)) err) (fmul (fl (5 / 100)) (tm_integral s));
                 s = s\<lparr>tm_last_error := err\<rparr>
             in set_all_thrust (fadd (average_thrust tot s) delta) s))"

definition check_asymmetry :: "thrust_system \<Rightarrow> rat option" where
  "check_asymmetry s =
     (case map snd (tm_thrust s) of
        a # b # vs \<Rightarrow> Some (fsub (fold max (b # vs) a) (fold min (b # vs) a))
      | _ \<Rightarrow> None)"

text \<open>
  One pass: the time since the last one and the velocity reported, or the error of the flight management system. A velocity
  without an airspeed counts as an airspeed of zero. The check of the asymmetry only logs.
\<close>

definition thrust_pass :: "summing \<Rightarrow> rat \<Rightarrow> rat \<Rightarrow> string + (string \<times> rat) list \<Rightarrow> thrust_system \<Rightarrow> thrust_system" where
  "thrust_pass tot monotonic dt velocity s =
     (if \<not> tm_engaged s then s\<lparr>tm_failing_since := None, tm_error_text := []\<rparr>
      else case velocity of
             Inl text \<Rightarrow> s\<lparr>tm_failing_since := (case tm_failing_since s of None \<Rightarrow> Some monotonic | Some t \<Rightarrow> Some t), tm_error_text := text\<rparr>
           | Inr v \<Rightarrow>
               (let airspeed = (case map_of v ''airspeed'' of Some x \<Rightarrow> x | None \<Rightarrow> 0)
                in (update_autothrottle tot airspeed dt s)\<lparr>tm_failing_since := None, tm_error_text := []\<rparr>))"

definition thrust_health_report :: "worker option \<Rightarrow> bool \<Rightarrow> rat \<Rightarrow> thrust_system \<Rightarrow> health_report" where
  "thrust_health_report thread stop_requested now s =
     worker_health ''TMS'' thread stop_requested (tm_failing_since s) DEFAULT_FAILURE_GRACE_S (tm_error_text s) now"

definition get_thrust_management_system :: thrust_system where
  "get_thrust_management_system = register_engine ''Engine 2'' 0 (register_engine ''Engine 1'' 0 new_thrust_system)"

section \<open>Steps\<close>

inductive thrust_step :: "summing \<Rightarrow> thrust_system \<Rightarrow> thrust_system \<Rightarrow> bool" for tot where
  Register: "thrust_step tot s (register_engine n p s)"
| Lever: "thrust_step tot s (snd (command_thrust n p s))"
| All: "thrust_step tot s (set_all_thrust p s)"
| Engage: "thrust_step tot s (engage_autothrottle target s)"
| Disengage: "thrust_step tot s (disengage_autothrottle s)"
| Tick: "thrust_step tot s (thrust_pass tot m dt v s)"

inductive thrust_reach :: "summing \<Rightarrow> thrust_system \<Rightarrow> bool" for tot where
  Start: "thrust_reach tot new_thrust_system"
| Next: "thrust_reach tot s \<Longrightarrow> thrust_step tot s s' \<Longrightarrow> thrust_reach tot s'"

inductive_cases thrust_step_cases: "thrust_step tot s s'"

definition thrust_ok :: "thrust_system \<Rightarrow> bool" where
  "thrust_ok s \<longleftrightarrow> list_all (\<lambda>(k, p). 0 \<le> p \<and> p \<le> 100) (tm_thrust s) \<and> \<bar>tm_integral s\<bar> \<le> 50 \<and>
     (tm_engaged s \<longleftrightarrow> tm_target s \<noteq> None)"

lemma clamp_pct_range: "0 \<le> clamp_pct p" "clamp_pct p \<le> 100"
  by (simp_all add: clamp_pct_def)

lemma thrust_ok_set_all: "thrust_ok s \<Longrightarrow> thrust_ok (set_all_thrust p s)"
  by (auto simp: thrust_ok_def set_all_thrust_def list_all_iff clamp_pct_range)

lemma thrust_ok_update: "thrust_ok s \<Longrightarrow> thrust_ok (update_autothrottle tot a dt s)"
proof (cases "tm_target s")
  case (Some target)
  assume s: "thrust_ok s"
  define s1 where "s1 = s\<lparr>tm_integral := max (- 50) (min 50 (fadd (tm_integral s) (fmul (fsub target a) dt))), tm_last_error := fsub target a\<rparr>"
  have "\<bar>max (- 50) (min 50 x)\<bar> \<le> 50" for x :: rat by (simp add: abs_le_iff)
  then have "thrust_ok s1" using s by (simp add: thrust_ok_def s1_def)
  then show ?thesis using s Some by (simp add: update_autothrottle_def Let_def thrust_ok_set_all s1_def)
qed (simp add: update_autothrottle_def)

lemma thrust_ok_step: "thrust_step tot s s' \<Longrightarrow> thrust_ok s \<Longrightarrow> thrust_ok s'"
proof (erule thrust_step_cases)
  show "thrust_ok s \<Longrightarrow> s' = register_engine n p s \<Longrightarrow> thrust_ok s'" for n p
    by (auto simp: thrust_ok_def register_engine_def clamp_pct_range intro!: list_all_dict_set)
  show "thrust_ok s \<Longrightarrow> s' = snd (command_thrust n p s) \<Longrightarrow> thrust_ok s'" for n p
    by (auto simp: thrust_ok_def command_thrust_def clamp_pct_range intro!: list_all_dict_set)
  show "thrust_ok s \<Longrightarrow> s' = set_all_thrust p s \<Longrightarrow> thrust_ok s'" for p by (simp add: thrust_ok_set_all)
  show "thrust_ok s \<Longrightarrow> s' = engage_autothrottle target s \<Longrightarrow> thrust_ok s'" for target by (simp add: thrust_ok_def engage_autothrottle_def)
  show "thrust_ok s \<Longrightarrow> s' = disengage_autothrottle s \<Longrightarrow> thrust_ok s'" by (simp add: thrust_ok_def disengage_autothrottle_def)
  show "thrust_ok s \<Longrightarrow> s' = thrust_pass tot m dt v s \<Longrightarrow> thrust_ok s'" for m dt v
    using thrust_ok_update [of s] by (auto simp: thrust_pass_def Let_def thrust_ok_def split: sum.split)
qed

text \<open>The engines of the aircraft with the autothrottle at 250 knots.\<close>

definition cruising :: thrust_system where "cruising = engage_autothrottle 250 get_thrust_management_system"

lemma cruising_simps:
  "tm_engaged cruising" "tm_target cruising = Some 250" "tm_thrust cruising = [(''Engine 1'', 0), (''Engine 2'', 0)]" "thrust_ok cruising"
  by (simp_all add: cruising_def engage_autothrottle_def get_thrust_management_system_def register_engine_def new_thrust_system_def
      clamp_pct_def dict_set_def thrust_ok_def)

section \<open>Properties\<close>

text \<open>
  The commands stay sound, whatever is asked for: each engine between 0 and 100 percent, the integral of the
  autothrottle within 50, and a target exactly while it is engaged.
\<close>

theorem thrust_commands_sound:
  assumes "thrust_reach tot s"
  shows "thrust_ok s"
  using assms
proof (induction rule: thrust_reach.induct)
  case Start
  then show ?case by (simp add: thrust_ok_def new_thrust_system_def)
qed (rule thrust_ok_step)

theorem thrust_commands_sound_witness: "thrust_ok get_thrust_management_system"
  unfolding get_thrust_management_system_def
  by (rule thrust_commands_sound [where tot = "foldl fadd 0"])
    (rule thrust_reach.Next [OF thrust_reach.Next [OF thrust_reach.Start thrust_step.Register] thrust_step.Register])

text \<open>
  The autothrottle sets the engines alike: after each of its updates all engines have the same thrust, so the asymmetry
  is zero, and what the levers had set apart is gone.
\<close>

lemma fold_constant: "list_all (\<lambda>x. x = c) xs \<Longrightarrow> fold max xs c = c \<and> fold min xs c = (c :: rat)"
  by (induction xs) simp_all

theorem autothrottle_symmetric:
  assumes "tm_engaged s" "tm_target s = Some target" "0 < dt"
  shows "\<exists>p. map snd (tm_thrust (update_autothrottle tot a dt s)) = replicate (length (tm_thrust s)) p \<and> 0 \<le> p \<and> p \<le> 100 \<and>
     map fst (tm_thrust (update_autothrottle tot a dt s)) = map fst (tm_thrust s) \<and>
     check_asymmetry (update_autothrottle tot a dt s) \<in> {None, Some 0}"
proof -
  have "\<exists>p. tm_thrust (update_autothrottle tot a dt s) = map (\<lambda>(k, _). (k, clamp_pct p)) (tm_thrust s)"
    using assms by (simp add: update_autothrottle_def set_all_thrust_def Let_def del: map_eq_conv) (rule exI, rule refl)
  then obtain p where p: "tm_thrust (update_autothrottle tot a dt s) = map (\<lambda>(k, _). (k, clamp_pct p)) (tm_thrust s)" by blast
  have m: "map snd (tm_thrust (update_autothrottle tot a dt s)) = replicate (length (tm_thrust s)) (clamp_pct p)"
    unfolding p by (simp add: case_prod_beta comp_def map_replicate_const)
  have "map fst (tm_thrust (update_autothrottle tot a dt s)) = map fst (tm_thrust s)" unfolding p by (simp add: case_prod_beta)
  moreover have "check_asymmetry (update_autothrottle tot a dt s) \<in> {None, Some 0}"
  proof (cases "length (tm_thrust s) < 2")
    case True
    then show ?thesis unfolding check_asymmetry_def m by (cases "length (tm_thrust s)") auto
  next
    case False
    then obtain n where n: "length (tm_thrust s) = Suc (Suc n)" by (metis Suc_diff_Suc Suc_1 diff_Suc_1 linorder_not_less not0_implies_Suc not_less_eq_eq zero_less_Suc)
    have "fold max (clamp_pct p # replicate n (clamp_pct p)) (clamp_pct p) = clamp_pct p \<and>
        fold min (clamp_pct p # replicate n (clamp_pct p)) (clamp_pct p) = clamp_pct p"
      by (rule fold_constant) (simp add: list_all_iff)
    then show ?thesis unfolding check_asymmetry_def m by (simp add: n)
  qed
  ultimately show ?thesis using m clamp_pct_range by blast
qed

theorem autothrottle_symmetric_witness:
  "check_asymmetry (update_autothrottle (foldl fadd 0) 240 1 cruising) \<in> {None, Some 0}"
proof -
  have "0 < (1 :: rat)" by simp
  then show ?thesis using autothrottle_symmetric [OF cruising_simps(1,2), of 1 "foldl fadd 0" 240] by blast
qed

text \<open>
  Nothing limits the asymmetry. The system announces a safety limit, but the levers accept any difference and the check
  reports it and changes nothing: one engine at full thrust and the other at none stay as they are, pass after pass.
\<close>

theorem asymmetry_not_limited:
  "\<exists>s. thrust_reach tot s \<and> check_asymmetry s = Some 100 \<and> MAX_SAFE_THRUST_ASYMMETRY_PCT < 100 \<and>
     tm_thrust (thrust_pass tot m dt v s) = tm_thrust s"
proof -
  define s where "s = snd (command_thrust ''Engine 1'' 100 get_thrust_management_system)"
  have "thrust_reach tot s" unfolding s_def get_thrust_management_system_def
    by (rule thrust_reach.Next [OF thrust_reach.Next [OF thrust_reach.Next [OF thrust_reach.Start thrust_step.Register] thrust_step.Register] thrust_step.Lever])
  moreover have "tm_thrust s = [(''Engine 1'', 100), (''Engine 2'', 0)]" "\<not> tm_engaged s"
    by (simp_all add: s_def command_thrust_def get_thrust_management_system_def register_engine_def new_thrust_system_def clamp_pct_def dict_set_def)
  moreover have "fsub 100 0 = 100" using fl_of_int [of 100] by (simp add: fsub_def)
  ultimately show ?thesis
    by (intro exI [of _ s]) (simp add: check_asymmetry_def thrust_pass_def MAX_SAFE_THRUST_ASYMMETRY_PCT_def)
qed

text \<open>
  A lost airspeed opens the throttle. With the autothrottle holding 210 knots or more, a velocity without an airspeed is
  taken for a standing aircraft, and a single pass sets every engine to full thrust.
\<close>

theorem missing_airspeed_full_thrust:
  assumes "thrust_ok s" "tm_engaged s" "tm_target s = Some target" "210 \<le> target" "0 < dt" "map_of v ''airspeed'' = None" "0 \<le> average_thrust tot s"
  shows "list_all (\<lambda>(k, p). p = 100) (tm_thrust (thrust_pass tot m dt (Inr v) s))"
proof -
  have e: "210 \<le> fsub target 0" using fl_mono [of 210 target] fl_of_int [of 210] assms(4) by (simp add: fsub_def)
  define i where "i = max (- 50) (min 50 (fadd (tm_integral s) (fmul (fsub target 0) dt)))"
  have "\<bar>fl (5 / 10) - 5 / 10\<bar> \<le> 1 / 1000" "\<bar>fl (5 / 100) - 5 / 100\<bar> \<le> 1 / 1000" using fl_err [of "5 / 10"] fl_err [of "5 / 100"] by simp_all
  then have k: "499 / 1000 \<le> fl (5 / 10)" "0 \<le> fl (5 / 100)" "fl (5 / 100) \<le> 51 / 1000" unfolding abs_le_iff by simp_all
  have "499 / 1000 * 210 \<le> fl (5 / 10) * fsub target 0" using k(1) e by (intro mult_mono) simp_all
  then have "fl (of_int 104) \<le> fmul (fl (5 / 10)) (fsub target 0)" unfolding fmul_def by (intro fl_mono) simp
  then have p: "104 \<le> fmul (fl (5 / 10)) (fsub target 0)" using fl_of_int [of 104] by simp
  have "- 50 \<le> i" by (simp add: i_def)
  then have "51 / 1000 * - 50 \<le> fl (5 / 100) * i" using mult_mono [of "- i" 50 "fl (5 / 100)" "51 / 1000"] k
    by (cases "0 \<le> i") (auto simp: mult.commute intro: order_trans [of _ 0])
  then have "fl (of_int (- 3)) \<le> fmul (fl (5 / 100)) i" unfolding fmul_def by (intro fl_mono) simp
  then have q: "- 3 \<le> fmul (fl (5 / 100)) i" using fl_of_int [of "- 3"] by simp
  have "fl (of_int 101) \<le> fadd (fmul (fl (5 / 10)) (fsub target 0)) (fmul (fl (5 / 100)) i)" unfolding fadd_def using p q by (intro fl_mono) simp
  then have d: "101 \<le> fadd (fmul (fl (5 / 10)) (fsub target 0)) (fmul (fl (5 / 100)) i)" using fl_of_int [of 101] by simp
  have "fl (of_int 101) \<le> fadd (average_thrust tot s) (fadd (fmul (fl (5 / 10)) (fsub target 0)) (fmul (fl (5 / 100)) i))"
    unfolding fadd_def [of "average_thrust tot s"] using d assms(7) by (intro fl_mono) simp
  then have "clamp_pct (fadd (average_thrust tot s) (fadd (fmul (fl (5 / 10)) (fsub target 0)) (fmul (fl (5 / 100)) i))) = 100"
    using fl_of_int [of 101] by (simp add: clamp_pct_def)
  then show ?thesis
    using assms(2,3,5,6) by (auto simp: thrust_pass_def update_autothrottle_def set_all_thrust_def average_thrust_def list_all_iff Let_def i_def)
qed

theorem missing_airspeed_full_thrust_witness:
  "list_all (\<lambda>(k, p). p = 100) (tm_thrust (thrust_pass (foldl fadd 0) 0 1 (Inr [(''vertical_speed'', 0)]) cruising))"
  by (rule missing_airspeed_full_thrust [OF cruising_simps(4,1,2)])
    (simp_all add: average_thrust_def cruising_simps fadd_def fdiv_def)

end
