(* ===== verification/Spec2Isabelle.thy ===== *)
theory Spec2Isabelle
  imports Collision Defensive Fuel_System BC_Block_Processor Bus_Adapter Bus_Frame Bus_Send Bus_Sender Data_Response Event_Bus Fcs_Requests Bus_Listener Bus_Receive Loop_Decorator Mode_Code Operation_Tracker Precip_Scale Readiness RT_Sender Thrust Transfer_Aggregator
begin

text \<open>
  The avionics software of the B20SS. The program is a set of Python services that talk over a simulated MIL-STD-1553B bus.
  All paths below are under \<^verbatim>\<open>src/B20SS/FMOFP\<close>.
\<close>

section \<open>The program\<close>

text \<open>
  Commands and data travel as 20-bit words. The bus controller builds a frame of words from a message
  (\<^verbatim>\<open>MIL_STD_1553B/Bus_Controller\<close>), the remote terminal decodes it and answers (\<^verbatim>\<open>MIL_STD_1553B/Remote_Terminal\<close>); between
  them JSON texts go over a socket. What does not fit one message is sent as a block transfer and put together at the other
  end. Around the bus stand the routers with their guard against message loops (\<^verbatim>\<open>Utils/message_loop_prevention\<close>), the event
  bus of the process (\<^verbatim>\<open>core/event_driven_communication.py\<close>), the state machine, health and readiness of the system (\<^verbatim>\<open>core\<close>,
  \<^verbatim>\<open>Utils/common\<close>), and the systems of the aircraft, each a service with a worker thread (\<^verbatim>\<open>Systems\<close>).
\<close>

section \<open>The theories\<close>

text \<open>
  Shared vocabulary. \<open>Py_Prelude\<close> has exceptions as the left summand of a result, dynamic values, dictionaries as
  association lists in insertion order, and texts; \<open>Py_Float\<close> has floats as rational numbers, rounded after every operation;
  \<open>Py_Json\<close> and \<open>Json_Text\<close> have the reader and the writer of JSON, and prove that the reader undoes the writer.

  Words and messages. \<open>Word_Codec\<close> models the encoders and decoders of both sides (\<^verbatim>\<open>BC_words_encoder.py\<close>,
  \<^verbatim>\<open>BC_words_decoder.py\<close>, \<^verbatim>\<open>RT_words_encoder.py\<close>, \<^verbatim>\<open>RT_words_decoder.py\<close>): round trips, detection of a single wrong bit, exact
  domains of the decoders. \<open>Word_Check\<close> models the checkers (\<^verbatim>\<open>BC_error_check.py\<close>, \<^verbatim>\<open>RT_error_check.py\<close>) and shows that they
  accept the images of the encoders. \<open>Bus_Message\<close> is \<^verbatim>\<open>BC_msg.py\<close>, \<open>Bus_Frame\<close> is \<^verbatim>\<open>mil_std_1553B.py\<close>, \<open>Bus_Send\<close> is
  \<^verbatim>\<open>MIL_STD_1553B/Messaging.py\<close> with its loop of attempts, \<open>Mode_Code\<close> is \<^verbatim>\<open>Handle_mode_code.py\<close>.

  Transport. \<open>Bus_Adapter\<close> is \<^verbatim>\<open>bus_adapter.py\<close>; \<open>Bus_Receive\<close> and \<open>Bus_Listener\<close> are the receiving side of \<^verbatim>\<open>BC_socket.py\<close> and
  \<^verbatim>\<open>RT_socket.py\<close>: collecting the bytes of a connection, checks, queues, retry after a fault. \<open>Bus_Sender\<close> and \<open>RT_Sender\<close> are
  their sending side, with block transfers. A record of the surroundings carries what the network does; the state is what
  has been put on the bus.

  Block transfers. \<open>Block_Transfer\<close> is \<^verbatim>\<open>block_transfer_manager.py\<close>, \<open>BC_Block_Processor\<close> is \<^verbatim>\<open>BC_block_transfer_processor.py\<close>,
  \<open>Transfer_Aggregator\<close> is \<^verbatim>\<open>BC_transfer_aggregator.py\<close>. They show consistency of the pending transfers, that blocks come
  back in order, and where they do not. \<open>Precip_Scale\<close> is the encoding of weather objects (\<^verbatim>\<open>precipitation_scale.py\<close>), and
  \<open>Data_Response\<close> is \<^verbatim>\<open>data_response_sender.py\<close>, with the whole way from the encoder to the aggregator.

  Infrastructure. \<open>Retry\<close>, \<open>Health\<close>, \<open>Operation_Tracker\<close> and \<open>System_State\<close> are the modules of those names in
  \<^verbatim>\<open>Utils/common\<close> (and \<^verbatim>\<open>core/initializer.py\<close>, with the exit status of \<^verbatim>\<open>Main.py\<close>); \<open>Readiness\<close> is the sweep of \<^verbatim>\<open>core/system_manager.py\<close> and the poll of
  \<^verbatim>\<open>Main.py\<close>. \<open>Loop_Registry\<close>, \<open>Loop_Prevention\<close> and \<open>Loop_Decorator\<close> are \<^verbatim>\<open>Utils/message_loop_prevention\<close>; \<open>Event_Bus\<close> is the event
  bus as interleaved steps of its threads.

  Systems of the aircraft. \<open>Fcs_Wire\<close>, \<open>Fcs_Control\<close> and \<open>Fcs_Requests\<close> follow a command of the flight control system from
  the wire format (\<^verbatim>\<open>local_messaging/fcs_wire_format.py\<close>) through its three decoders to the control surfaces, and the
  requests that wait for an answer. \<open>Fuel_System\<close> is the fuel management, \<open>Track_Fusion\<close> is \<^verbatim>\<open>radar_data_fusion.py\<close>, \<open>Defensive\<close>
  is \<^verbatim>\<open>defensiveService.py\<close>, which reads the fused tracks, \<open>Collision\<close> is the ground collision avoidance, \<open>Thrust\<close> is
  \<^verbatim>\<open>thrustManagement.py\<close>.
\<close>

section \<open>What the theorems show\<close>

text \<open>
  Round trips: words, control values, JSON texts and frames come back from their encoding, with the exact domain stated.
  Equivalence: each checker accepts the image of an encoder. Invariants over every operation or reachable state: pending
  transfers, queues, the state of the flight control system, fuel levels, thrust commands, stocks of the defensive service.
  Refinement: a command set at one end is within half a quantum at the surface, a transfer reported as sent has been
  accepted whole and in order. Termination and liveness: the loops of attempts end, an unanswered request times out, no
  wake-up is lost, an event reaches every subscriber. Error behaviour: what is refused, dropped or misread, and why; many
  of these theorems state a defect of the code as it is.

  Locales state the interfaces that several components share: \<open>word_codec\<close> and \<open>exact_word_codec\<close> for a codec, \<open>stream\<close> for a
  connection that is cut into messages, \<open>transport\<close> for what sending may rely on, \<open>quantisation\<close> for a value on the wire and
  \<open>once_guard\<close> for a memory that admits a message once. Each is interpreted on the definitions of the program.
\<close>

section \<open>Bounds and fuel\<close>

text \<open>
  The JSON reader has fuel for twice the length of its text, and \<open>json_fuel_enough\<close> shows that it never runs out. The methods of
  the two senders that call each other (\<^verbatim>\<open>_send_message\<close>, \<^verbatim>\<open>_send_large_message\<close>) take a depth: a
  theorem of each theory shows that two levels give the result of any greater depth, since no message of a transfer is large again. The wait for an acknowledgement makes twenty polls, as in the code. The recursion of \<open>deconstruct_status_word\<close> is
  bounded as the interpreter bounds it, and exhausted fuel is its error. All other recursions are structural or have a measure.
\<close>

section \<open>Conventions\<close>

text \<open>
  An exception is a value, and a handler that swallows one is the branch it takes. The clock, random numbers, UUIDs, the
  network and the results of other components are arguments. Threads appear as interleaved steps where their
  interleaving matters (\<open>Event_Bus\<close>, \<open>Operation_Tracker\<close>), as passes of a worker elsewhere. Log messages and rows written to
  a database change no state of the model. Floats are finite: infinities, NaN and overflow are outside the model, as
  is text beyond the first 256 code points.
\<close>

section \<open>Not modelled\<close>

text \<open>
  The displays, the installer, the command line and the loggers are input and output. The weather radar and the other
  radar simulations, flight dynamics and attitude compute with arrays, random numbers and trigonometric functions of
  libraries. The storage is SQL. The schema tables and the metadata codec of the bus are tables of names; they enter as
  arguments. Not modelled for want of time, though their decisions are of the kind modelled here: the aggregator of the
  remote terminal (\<^verbatim>\<open>RT_transfer_aggregator.py\<close>), the front ends of both sides (\<^verbatim>\<open>BC.py\<close>, \<^verbatim>\<open>RT.py\<close>), the message routing and its
  handlers other than those of the flight control system, the response services, and the messaging of the flight management
  system. Of modelled components the start and stop of worker threads, statuses for the displays, and message objects that
  are no dictionaries (in \<open>Loop_Prevention\<close> and \<open>Data_Response\<close>) are left out; their theories say so.
\<close>

end
